(* ===== verification/Xv6_Prelude.thy ===== *)
theory Xv6_Prelude
  imports Main "HOL-Library.Word"
begin

text \<open>
  Shared vocabulary of the development: the outcome type of a kernel operation (a value, a
  panic, a context switch away from the running thread, or a spin that never ends), the
  combinators the models are written with, their weakest-precondition rules, and
  little-endian access to byte arrays (struct fields in memory and in disk blocks).
\<close>

unbundle bit_operations_syntax

named_theorems wp_simps \<open>weakest-precondition equations of the combinators and operations\<close>
named_theorems le_simps \<open>reads over writes of little-endian fields\<close>

type_synonym byte = "8 word"
type_synonym uint16 = "16 word"
type_synonym uint = "32 word"
type_synonym uint64 = "64 word"
type_synonym bytes = "nat \<Rightarrow> byte"

section \<open>Kernel operations\<close>

text \<open>
  \<open>Ok\<close> is a normal return. \<open>Panic\<close> is a call of \<^verbatim>\<open>panic()\<close>, which never returns.
  \<open>Swtch s\<close> means that the thread reached \<^verbatim>\<open>swtch()\<close> in state \<open>s\<close>: it sleeps, yields or
  exits, and another thread runs next. \<open>Hang\<close> is a loop that only another hart could end
  (spinning on a lock that is held).
\<close>

datatype ('s, 'a) outcome = Ok 'a 's | Panic string | Swtch 's | Hang

type_synonym ('s, 'a) kM = "'s \<Rightarrow> ('s, 'a) outcome"

definition ret :: "'a \<Rightarrow> ('s, 'a) kM" where
  "ret a = (\<lambda>s. Ok a s)"

definition bind :: "('s, 'a) kM \<Rightarrow> ('a \<Rightarrow> ('s, 'b) kM) \<Rightarrow> ('s, 'b) kM" where
  "bind m f = (\<lambda>s. case m s of
       Ok a s' \<Rightarrow> f a s' | Panic e \<Rightarrow> Panic e | Swtch s' \<Rightarrow> Swtch s' | Hang \<Rightarrow> Hang)"

definition seq :: "('s, 'a) kM \<Rightarrow> ('s, 'b) kM \<Rightarrow> ('s, 'b) kM" where
  "seq m k = bind m (\<lambda>_. k)"

abbreviation skip :: "('s, unit) kM" where
  "skip \<equiv> ret ()"

definition panic :: "string \<Rightarrow> ('s, 'a) kM" where
  "panic msg = (\<lambda>s. Panic msg)"

definition hang :: "('s, 'a) kM" where
  "hang = (\<lambda>s. Hang)"

definition gets :: "('s \<Rightarrow> 'a) \<Rightarrow> ('s, 'a) kM" where
  "gets f = (\<lambda>s. Ok (f s) s)"

definition upd :: "('s \<Rightarrow> 's) \<Rightarrow> ('s, unit) kM" where
  "upd f = (\<lambda>s. Ok () (f s))"

definition whenM :: "bool \<Rightarrow> ('s, unit) kM \<Rightarrow> ('s, unit) kM" where
  "whenM b m = (if b then m else skip)"

text \<open>A counting loop: \<open>for (i = lo; i < lo + n; i++) body(i)\<close>.\<close>

primrec for_upto :: "nat \<Rightarrow> nat \<Rightarrow> (nat \<Rightarrow> ('s, unit) kM) \<Rightarrow> ('s, unit) kM" where
  "for_upto i 0 body = skip"
| "for_upto i (Suc n) body = seq (body i) (for_upto (Suc i) n body)"

lemma run_simps [simp]:
  "ret a s = Ok a s"
  "panic msg s = Panic msg"
  "hang s = Hang"
  "gets f s = Ok (f s) s"
  "upd g s = Ok () (g s)"
  by (simp_all add: ret_def panic_def hang_def gets_def upd_def)

lemma bind_run [simp]:
  "m s = Ok a s' \<Longrightarrow> bind m f s = f a s'"
  "m s = Panic e \<Longrightarrow> bind m f s = Panic e"
  "m s = Swtch s' \<Longrightarrow> bind m f s = Swtch s'"
  "m s = Hang \<Longrightarrow> bind m f s = Hang"
  by (simp_all add: bind_def)

lemma seq_run [simp]:
  "m s = Ok a s' \<Longrightarrow> seq m k s = k s'"
  "m s = Panic e \<Longrightarrow> seq m k s = Panic e"
  "m s = Swtch s' \<Longrightarrow> seq m k s = Swtch s'"
  "m s = Hang \<Longrightarrow> seq m k s = Hang"
  by (simp_all add: seq_def)

lemma bind_step [simp]:
  "bind (ret a) f s = f a s"
  "bind (gets g) f s = f (g s) s"
  "bind (upd h) k s = k () (h s)"
  "bind (panic e) f s = Panic e"
  "bind hang f s = Hang"
  by (simp_all add: bind_def)

lemma seq_step [simp]:
  "seq (ret a) n s = n s"
  "seq (gets g) n s = n s"
  "seq (upd h) n s = n (h s)"
  "seq (panic e) n s = Panic e"
  "seq hang n s = Hang"
  by (simp_all add: seq_def)

lemma bind_bind [simp]: "bind (bind m f) g s = bind m (\<lambda>x. bind (f x) g) s"
  by (auto simp: bind_def split: outcome.splits)

lemma bind_seq [simp]: "bind (seq m n) f s = seq m (bind n f) s"
  by (auto simp: seq_def bind_def split: outcome.splits)

lemma seq_bind [simp]: "seq (bind m f) n s = bind m (\<lambda>x. seq (f x) n) s"
  by (auto simp: seq_def bind_def split: outcome.splits)

lemma seq_seq [simp]: "seq (seq m m') n s = seq m (seq m' n) s"
  by (auto simp: seq_def bind_def split: outcome.splits)

lemma if_run:
  "(if b then m else m') s = (if b then m s else m' s)"
  "bind (if b then m else m') f s = (if b then bind m f s else bind m' f s)"
  "seq (if b then m else m') n s = (if b then seq m n s else seq m' n s)"
  "seq (whenM b m'') n s = (if b then seq m'' n s else n s)"
  by (simp_all add: whenM_def)

lemma whenM_run [simp]:
  "whenM True m s = m s" "whenM False m s = Ok () s"
  by (simp_all add: whenM_def)

lemma bind_Ok_iff:
  "bind m f s = Ok b t \<longleftrightarrow> (\<exists>a s'. m s = Ok a s' \<and> f a s' = Ok b t)"
  by (auto simp: bind_def split: outcome.splits)

lemma seq_Ok_iff:
  "seq m k s = Ok b t \<longleftrightarrow> (\<exists>a s'. m s = Ok a s' \<and> k s' = Ok b t)"
  by (auto simp: seq_def bind_Ok_iff)

lemma whenM_Ok_iff:
  "whenM b m s = Ok a t \<longleftrightarrow> (if b then m s = Ok a t else t = s)"
  by (auto simp: whenM_def)

lemmas ok_iffs = bind_Ok_iff seq_Ok_iff whenM_Ok_iff

section \<open>Weakest preconditions\<close>

text \<open>
  \<open>wp m Q s\<close>: started in \<open>s\<close>, the operation returns, and its result and final state
  satisfy \<open>Q\<close>. A panic, a context switch and an endless spin all falsify it.
\<close>

definition wp :: "('s, 'a) kM \<Rightarrow> ('a \<Rightarrow> 's \<Rightarrow> bool) \<Rightarrow> 's \<Rightarrow> bool" where
  "wp m Q s = (case m s of Ok a s' \<Rightarrow> Q a s' | _ \<Rightarrow> False)"

lemma wp_ret [wp_simps]: "wp (ret a) Q s = Q a s"
  by (simp add: wp_def)

lemma wp_Ok_fun [wp_simps]: "wp (Ok a) Q s = Q a s"
  by (simp add: wp_def)

lemma wp_bind [wp_simps]: "wp (bind m f) Q s = wp m (\<lambda>a. wp (f a) Q) s"
  by (auto simp: wp_def bind_def split: outcome.splits)

lemma wp_seq [wp_simps]: "wp (seq m k) Q s = wp m (\<lambda>_. wp k Q) s"
  by (simp add: seq_def wp_bind)

lemma wp_panic [wp_simps]: "wp (panic msg) Q s = False"
  by (simp add: wp_def)

lemma wp_hang [wp_simps]: "wp hang Q s = False"
  by (simp add: wp_def)

lemma wp_gets [wp_simps]: "wp (gets g) Q s = Q (g s) s"
  by (simp add: wp_def)

lemma wp_upd [wp_simps]: "wp (upd h) Q s = Q () (h s)"
  by (simp add: wp_def)

lemma wp_if [wp_simps]: "wp (if b then m else m') Q s = (if b then wp m Q s else wp m' Q s)"
  by simp

lemma wp_whenM [wp_simps]: "wp (whenM b m) Q s = (if b then wp m Q s else Q () s)"
  by (simp add: whenM_def wp_ret)

lemma wp_Ok: "m s = Ok a s' \<Longrightarrow> wp m Q s = Q a s'"
  by (simp add: wp_def)

lemma wp_iff: "wp m Q s \<longleftrightarrow> (\<exists>a s'. m s = Ok a s' \<and> Q a s')"
  by (auto simp: wp_def split: outcome.splits)

lemma wpE [elim?]:
  assumes "wp m Q s"
  obtains a s' where "m s = Ok a s'" and "Q a s'"
  using assms by (auto simp: wp_iff)

lemma wp_mono:
  assumes "wp m Q s" and "\<And>a s'. m s = Ok a s' \<Longrightarrow> Q a s' \<Longrightarrow> R a s'"
  shows "wp m R s"
  using assms by (auto simp: wp_iff)

lemma wp_for_upto:
  assumes "I i s"
    and "\<And>j t. i \<le> j \<Longrightarrow> j < i + n \<Longrightarrow> I j t \<Longrightarrow> wp (body j) (\<lambda>_. I (Suc j)) t"
  shows "wp (for_upto i n body) (\<lambda>_. I (i + n)) s"
  using assms
proof (induction n arbitrary: i s)
  case (Suc n)
  have "wp (body i) (\<lambda>_. I (Suc i)) s" using Suc.prems by simp
  moreover have "wp (for_upto (Suc i) n body) (\<lambda>_. I (i + Suc n)) t" if "I (Suc i) t" for t
    using Suc.IH [of "Suc i" t] that Suc.prems(2) by simp
  ultimately show ?case by (auto simp: wp_seq elim: wp_mono)
qed (simp add: wp_ret)

section \<open>Little-endian fields\<close>

text \<open>
  A C object in memory is a run of bytes. \<open>get_le w m a\<close> is the unsigned value of the
  \<open>w\<close>-byte little-endian integer at \<open>a\<close>; \<open>put_le w a v m\<close> stores \<open>v mod 256^w\<close> there.
\<close>

lemma unat_bounds:
  "unat (b :: byte) < 256"
  "unat (h :: uint16) < 65536"
  "unat (w :: uint) < 4294967296"
  "unat (x :: uint64) < 18446744073709551616"
  using unsigned_less [of b, where ?'a = nat] unsigned_less [of h, where ?'a = nat]
    unsigned_less [of w, where ?'a = nat] unsigned_less [of x, where ?'a = nat]
  by simp_all

primrec get_le :: "nat \<Rightarrow> bytes \<Rightarrow> nat \<Rightarrow> nat" where
  "get_le 0 m a = 0"
| "get_le (Suc w) m a = unat (m a) + 256 * get_le w m (Suc a)"

primrec put_le :: "nat \<Rightarrow> nat \<Rightarrow> nat \<Rightarrow> bytes \<Rightarrow> bytes" where
  "put_le 0 a v m = m"
| "put_le (Suc w) a v m = (put_le w (Suc a) (v div 256) m)(a := of_nat v)"

lemma get_le_bound: "get_le w m a < 256 ^ w"
proof (induction w arbitrary: a)
  case (Suc w)
  have "unat (m a) < 256" by (rule unat_bounds)
  moreover have "get_le w m (Suc a) + 1 \<le> 256 ^ w" using Suc [of "Suc a"] by simp
  then have "256 * get_le w m (Suc a) + 256 \<le> 256 ^ Suc w" by simp
  ultimately show ?case by simp
qed simp

lemma get_le_cong:
  "(\<And>i. a \<le> i \<Longrightarrow> i < a + w \<Longrightarrow> m i = m' i) \<Longrightarrow> get_le w m a = get_le w m' a"
  by (induction w arbitrary: a) auto

lemma put_le_other: "x < a \<or> a + w \<le> x \<Longrightarrow> put_le w a v m x = m x"
  by (induction w arbitrary: a v) auto

lemma get_put_le_same: "get_le w (put_le w a v m) a = v mod 256 ^ w"
proof (induction w arbitrary: a v)
  case (Suc w)
  have "get_le w (put_le (Suc w) a v m) (Suc a) = get_le w (put_le w (Suc a) (v div 256) m) (Suc a)"
    by (rule get_le_cong) auto
  also have "\<dots> = v div 256 mod 256 ^ w" by (rule Suc)
  finally have tail: "get_le w (put_le (Suc w) a v m) (Suc a) = v div 256 mod 256 ^ w" .
  have head: "unat (put_le (Suc w) a v m a) = v mod 256"
    by (simp add: unat_of_nat)
  show ?case
    by (simp only: get_le.simps head tail) (simp add: mod_mult2_eq)
qed simp

lemma get_put_le_disj:
  "a + w \<le> b \<or> b + u \<le> a \<Longrightarrow> get_le u (put_le w a v m) b = get_le u m b"
  by (rule get_le_cong) (auto simp: put_le_other)

definition ld16 :: "bytes \<Rightarrow> nat \<Rightarrow> uint16" where
  "ld16 m a = of_nat (get_le 2 m a)"

definition ld32 :: "bytes \<Rightarrow> nat \<Rightarrow> uint" where
  "ld32 m a = of_nat (get_le 4 m a)"

definition ld64 :: "bytes \<Rightarrow> nat \<Rightarrow> uint64" where
  "ld64 m a = of_nat (get_le 8 m a)"

definition st16 :: "nat \<Rightarrow> uint16 \<Rightarrow> bytes \<Rightarrow> bytes" where
  "st16 a v m = put_le 2 a (unat v) m"

definition st32 :: "nat \<Rightarrow> uint \<Rightarrow> bytes \<Rightarrow> bytes" where
  "st32 a v m = put_le 4 a (unat v) m"

definition st64 :: "nat \<Rightarrow> uint64 \<Rightarrow> bytes \<Rightarrow> bytes" where
  "st64 a v m = put_le 8 a (unat v) m"

lemmas le_defs = ld16_def ld32_def ld64_def st16_def st32_def st64_def

lemma ld_st_same [le_simps, simp]:
  "ld16 (st16 a v m) a = v"
  "ld32 (st32 a w m) a = w"
  "ld64 (st64 a x m) a = x"
proof -
  have "unat v < 256 ^ 2" using unat_bounds by simp
  then show "ld16 (st16 a v m) a = v" by (simp add: le_defs get_put_le_same)
  have "unat w < 256 ^ 4" using unat_bounds by simp
  then show "ld32 (st32 a w m) a = w" by (simp add: le_defs get_put_le_same)
  have "unat x < 256 ^ 8" using unat_bounds by simp
  then show "ld64 (st64 a x m) a = x" by (simp add: le_defs get_put_le_same)
qed

lemma ld_st_disj [le_simps]:
  "a + 2 \<le> b \<or> b + 2 \<le> a \<Longrightarrow> ld16 (st16 a v2 m) b = ld16 m b"
  "a + 2 \<le> b \<or> b + 4 \<le> a \<Longrightarrow> ld32 (st16 a v2 m) b = ld32 m b"
  "a + 2 \<le> b \<or> b + 8 \<le> a \<Longrightarrow> ld64 (st16 a v2 m) b = ld64 m b"
  "a + 4 \<le> b \<or> b + 2 \<le> a \<Longrightarrow> ld16 (st32 a v4 m) b = ld16 m b"
  "a + 4 \<le> b \<or> b + 4 \<le> a \<Longrightarrow> ld32 (st32 a v4 m) b = ld32 m b"
  "a + 4 \<le> b \<or> b + 8 \<le> a \<Longrightarrow> ld64 (st32 a v4 m) b = ld64 m b"
  "a + 8 \<le> b \<or> b + 2 \<le> a \<Longrightarrow> ld16 (st64 a v8 m) b = ld16 m b"
  "a + 8 \<le> b \<or> b + 4 \<le> a \<Longrightarrow> ld32 (st64 a v8 m) b = ld32 m b"
  "a + 8 \<le> b \<or> b + 8 \<le> a \<Longrightarrow> ld64 (st64 a v8 m) b = ld64 m b"
  by (simp_all add: le_defs get_put_le_disj)

lemma st_other [le_simps]:
  "x < a \<or> a + 2 \<le> x \<Longrightarrow> st16 a v2 m x = m x"
  "x < a \<or> a + 4 \<le> x \<Longrightarrow> st32 a v4 m x = m x"
  "x < a \<or> a + 8 \<le> x \<Longrightarrow> st64 a v8 m x = m x"
  by (simp_all add: le_defs put_le_other)

lemma ld_cong:
  "(\<And>i. a \<le> i \<Longrightarrow> i < a + 2 \<Longrightarrow> m i = m' i) \<Longrightarrow> ld16 m a = ld16 m' a"
  "(\<And>i. a \<le> i \<Longrightarrow> i < a + 4 \<Longrightarrow> m i = m' i) \<Longrightarrow> ld32 m a = ld32 m' a"
  "(\<And>i. a \<le> i \<Longrightarrow> i < a + 8 \<Longrightarrow> m i = m' i) \<Longrightarrow> ld64 m a = ld64 m' a"
  unfolding le_defs by (rule arg_cong [where f = of_nat], rule get_le_cong, blast)+

text \<open>Block moves and fills, the closed form of the copy loops of \<^verbatim>\<open>string.c\<close>.\<close>

definition fill :: "nat \<Rightarrow> byte \<Rightarrow> nat \<Rightarrow> bytes \<Rightarrow> bytes" where
  "fill a c n m = (\<lambda>x. if a \<le> x \<and> x < a + n then c else m x)"

definition blit :: "nat \<Rightarrow> bytes \<Rightarrow> nat \<Rightarrow> nat \<Rightarrow> bytes \<Rightarrow> bytes" where
  "blit dst src from n m = (\<lambda>x. if dst \<le> x \<and> x < dst + n then src (from + (x - dst)) else m x)"

end
