(* ===== verification/Xv6_Spinlock.thy ===== *)
theory Xv6_Spinlock
  imports Xv6_Prelude
begin

text \<open>
  Spin locks and the interrupt nesting count (\<^verbatim>\<open>kernel/spinlock.c\<close>, with the \<^verbatim>\<open>sstatus\<close>
  accessors of \<^verbatim>\<open>kernel/riscv.h\<close> and \<^verbatim>\<open>struct cpu\<close> of \<^verbatim>\<open>kernel/proc.h\<close>). The state of the
  harts and of all the kernel's locks is the record \<open>hart\<close>; every later component extends
  \<open>machine\<close>, which holds it. A lock is named by the kernel object it protects.
\<close>

datatype lockid =
    KmemLk | PidLk | ProcLk nat | TicksLk | BcacheLk | BufLk nat | LogLk nat | IcacheLk
  | InodeLk nat | FtableLk | PipeLk uint64 | ConsLk | PrLk | VdiskLk nat | BuddyLk

record spinlock =
  locked :: bool
  lkname :: string
  lcpu :: "nat option"
  lk_n :: uint
  lk_nts :: uint

record cpu =
  cproc :: "nat option"
  noff :: int
  intena :: bool

record hart =
  tp :: nat
  sstatus :: "nat \<Rightarrow> uint64"
  cpus :: "nat \<Rightarrow> cpu"
  locks :: "lockid \<Rightarrow> spinlock"
  lktab :: "lockid list"

record machine =
  hw :: hart

section \<open>Interrupt enable bit\<close>

definition SSTATUS_SIE :: uint64 where "SSTATUS_SIE = 2"

definition intr_get_hw :: "hart \<Rightarrow> bool" where
  "intr_get_hw h \<longleftrightarrow> sstatus h (tp h) AND SSTATUS_SIE \<noteq> 0"

definition intr_on_hw :: "hart \<Rightarrow> hart" where
  "intr_on_hw h = h\<lparr>sstatus := (sstatus h)(tp h := sstatus h (tp h) OR SSTATUS_SIE)\<rparr>"

definition intr_off_hw :: "hart \<Rightarrow> hart" where
  "intr_off_hw h = h\<lparr>sstatus := (sstatus h)(tp h := sstatus h (tp h) AND NOT SSTATUS_SIE)\<rparr>"

definition intr_get :: "('z machine_scheme, bool) kM" where
  "intr_get = gets (\<lambda>s. intr_get_hw (hw s))"

definition intr_on :: "('z machine_scheme, unit) kM" where
  "intr_on = upd (\<lambda>s. s\<lparr>hw := intr_on_hw (hw s)\<rparr>)"

definition intr_off :: "('z machine_scheme, unit) kM" where
  "intr_off = upd (\<lambda>s. s\<lparr>hw := intr_off_hw (hw s)\<rparr>)"

section \<open>The operations of spinlock.c\<close>

definition mycpu :: "('z machine_scheme, cpu) kM" where
  "mycpu = gets (\<lambda>s. cpus (hw s) (tp (hw s)))"

definition set_mycpu :: "(cpu \<Rightarrow> cpu) \<Rightarrow> ('z machine_scheme, unit) kM" where
  "set_mycpu f = upd (\<lambda>s. s\<lparr>hw := (hw s)\<lparr>cpus :=
     (cpus (hw s))(tp (hw s) := f (cpus (hw s) (tp (hw s))))\<rparr>\<rparr>)"

definition set_lock :: "lockid \<Rightarrow> (spinlock \<Rightarrow> spinlock) \<Rightarrow> ('z machine_scheme, unit) kM" where
  "set_lock l f = upd (\<lambda>s. s\<lparr>hw := (hw s)\<lparr>locks := (locks (hw s))(l := f (locks (hw s) l))\<rparr>\<rparr>)"

definition NLOCK :: nat where "NLOCK = 1000"

definition initlock :: "lockid \<Rightarrow> string \<Rightarrow> ('z machine_scheme, unit) kM" where
  "initlock l nm =
     seq (set_lock l (\<lambda>_. \<lparr>locked = False, lkname = nm, lcpu = None, lk_n = 0, lk_nts = 0\<rparr>))
    (bind (gets (\<lambda>s. lktab (hw s))) (\<lambda>tab.
     seq (whenM (length tab \<ge> NLOCK) (panic ''initlock''))
         (upd (\<lambda>s. s\<lparr>hw := (hw s)\<lparr>lktab := tab @ [l]\<rparr>\<rparr>))))"

definition push_off :: "('z machine_scheme, unit) kM" where
  "push_off =
     bind intr_get (\<lambda>old.
     seq (whenM old intr_off)
    (bind mycpu (\<lambda>c.
     seq (whenM (noff c = 0) (set_mycpu (\<lambda>c. c\<lparr>intena := old\<rparr>)))
         (set_mycpu (\<lambda>c. c\<lparr>noff := noff c + 1\<rparr>)))))"

definition pop_off :: "('z machine_scheme, unit) kM" where
  "pop_off =
     bind intr_get (\<lambda>on.
     seq (whenM on (panic ''pop_off - interruptible''))
    (bind mycpu (\<lambda>c.
     seq (whenM (noff c < 1) (panic ''pop_off''))
    (seq (set_mycpu (\<lambda>c. c\<lparr>noff := noff c - 1\<rparr>))
    (bind mycpu (\<lambda>c.
     whenM (noff c = 0 \<and> intena c) intr_on))))))"

definition holding_hw :: "lockid \<Rightarrow> hart \<Rightarrow> bool" where
  "holding_hw l h \<longleftrightarrow> locked (locks h l) \<and> lcpu (locks h l) = Some (tp h)"

definition holding :: "lockid \<Rightarrow> ('z machine_scheme, bool) kM" where
  "holding l = gets (\<lambda>s. holding_hw l (hw s))"

text \<open>
  The test-and-set loop of \<^verbatim>\<open>acquire\<close> ends at once when the lock is free; when another hart
  holds it, the loop cannot end by itself, which is the outcome \<open>Hang\<close> here. (The interleaved
  execution of several harts, where the holder lets go, is the theory \<open>Xv6_Lock_Protocol\<close>.)
\<close>

definition acquire :: "lockid \<Rightarrow> ('z machine_scheme, unit) kM" where
  "acquire l =
     seq push_off
    (bind (holding l) (\<lambda>held.
     seq (whenM held (panic ''acquire''))
    (seq (set_lock l (\<lambda>k. k\<lparr>lk_n := lk_n k + 1\<rparr>))
    (bind (gets (\<lambda>s. locked (locks (hw s) l))) (\<lambda>busy.
     seq (whenM busy hang)
    (seq (set_lock l (\<lambda>k. k\<lparr>locked := True\<rparr>))
    (bind (gets (\<lambda>s. tp (hw s))) (\<lambda>cpu.
     set_lock l (\<lambda>k. k\<lparr>lcpu := Some cpu\<rparr>)))))))))"

definition release :: "lockid \<Rightarrow> ('z machine_scheme, unit) kM" where
  "release l =
     bind (holding l) (\<lambda>held.
     seq (whenM (\<not> held) (panic ''release''))
    (seq (set_lock l (\<lambda>k. k\<lparr>lcpu := None\<rparr>))
    (seq (set_lock l (\<lambda>k. k\<lparr>locked := False\<rparr>))
         pop_off)))"

section \<open>Closed forms\<close>

definition enter :: "lockid \<Rightarrow> hart \<Rightarrow> hart" where
  "enter l h =
     (let c = cpus h (tp h);
          k = locks h l
      in h\<lparr>sstatus := (sstatus h)(tp h := sstatus h (tp h) AND NOT SSTATUS_SIE),
           cpus := (cpus h)(tp h := c\<lparr>
             intena := (if noff c = 0 then intr_get_hw h else intena c), noff := noff c + 1\<rparr>),
           locks := (locks h)(l := k\<lparr>lk_n := lk_n k + 1, locked := True, lcpu := Some (tp h)\<rparr>)\<rparr>)"

definition leave :: "lockid \<Rightarrow> hart \<Rightarrow> hart" where
  "leave l h =
     (let c = cpus h (tp h);
          k = locks h l;
          h' = h\<lparr>locks := (locks h)(l := k\<lparr>lcpu := None, locked := False\<rparr>),
                 cpus := (cpus h)(tp h := c\<lparr>noff := noff c - 1\<rparr>)\<rparr>
      in if noff c = 1 \<and> intena c then intr_on_hw h' else h')"

lemma and_not_sie:
  assumes "(x :: uint64) AND SSTATUS_SIE = 0"
  shows "x AND NOT SSTATUS_SIE = x"
proof (rule bit_word_eqI)
  fix n assume "n < LENGTH(64)"
  have "\<not> bit (x AND SSTATUS_SIE) n" using assms by simp
  then show "bit (x AND NOT SSTATUS_SIE) n = bit x n"
    using \<open>n < LENGTH(64)\<close> by (auto simp: bit_simps)
qed

lemma sie_nonzero [simp]: "SSTATUS_SIE \<noteq> 0"
  by (simp add: SSTATUS_SIE_def)

lemma sie_bits [simp]:
  "((x :: uint64) AND NOT SSTATUS_SIE) AND SSTATUS_SIE = 0"
  "((x :: uint64) OR SSTATUS_SIE) AND SSTATUS_SIE \<noteq> 0"
proof -
  show "(x AND NOT SSTATUS_SIE) AND SSTATUS_SIE = 0"
    by (rule bit_word_eqI) (auto simp: bit_and_iff bit_not_iff)
  have "(x OR SSTATUS_SIE) AND SSTATUS_SIE = SSTATUS_SIE"
    by (rule bit_word_eqI) (auto simp: bit_and_iff bit_or_iff)
  then show "(x OR SSTATUS_SIE) AND SSTATUS_SIE \<noteq> 0" by simp
qed

lemmas hw_defs = intr_get_def intr_on_def intr_off_def intr_get_hw_def intr_on_hw_def
  intr_off_hw_def mycpu_def set_mycpu_def set_lock_def holding_def holding_hw_def

text \<open>What the critical-section operations need of the calling hart: interrupts are off whenever
  the nesting count is positive.\<close>

definition calm :: "hart \<Rightarrow> bool" where
  "calm h \<longleftrightarrow> 0 \<le> noff (cpus h (tp h)) \<and> (0 < noff (cpus h (tp h)) \<longrightarrow> \<not> intr_get_hw h)"

lemma push_off_run:
  "push_off s = Ok () (s\<lparr>hw := (hw s)\<lparr>
     sstatus := (sstatus (hw s))(tp (hw s) := sstatus (hw s) (tp (hw s)) AND NOT SSTATUS_SIE),
     cpus := (cpus (hw s))(tp (hw s) := (cpus (hw s) (tp (hw s)))\<lparr>
        intena := (if noff (cpus (hw s) (tp (hw s))) = 0 then intr_get_hw (hw s)
                   else intena (cpus (hw s) (tp (hw s)))),
        noff := noff (cpus (hw s) (tp (hw s))) + 1\<rparr>)\<rparr>\<rparr>)"
  by (auto simp: push_off_def hw_defs whenM_def and_not_sie)

lemma acquire_free:
  "\<not> locked (locks (hw s) l) \<Longrightarrow> acquire l s = Ok () (s\<lparr>hw := enter l (hw s)\<rparr>)"
  by (simp add: acquire_def push_off_run hw_defs enter_def Let_def)

lemma acquire_busy:
  "locked (locks (hw s) l) \<Longrightarrow> lcpu (locks (hw s) l) \<noteq> Some (tp (hw s)) \<Longrightarrow> acquire l s = Hang"
  by (simp add: acquire_def push_off_run hw_defs)

lemma acquire_twice:
  "holding_hw l (hw s) \<Longrightarrow> acquire l s = Panic ''acquire''"
  by (simp add: acquire_def push_off_run hw_defs)

lemma release_held:
  "holding_hw l (hw s) \<Longrightarrow> \<not> intr_get_hw (hw s) \<Longrightarrow> 1 \<le> noff (cpus (hw s) (tp (hw s))) \<Longrightarrow>
   release l s = Ok () (s\<lparr>hw := leave l (hw s)\<rparr>)"
  by (simp add: release_def pop_off_def hw_defs leave_def Let_def if_run whenM_def)

lemma release_not_held:
  "\<not> holding_hw l (hw s) \<Longrightarrow> release l s = Panic ''release''"
  by (simp add: release_def hw_defs)

section \<open>What a critical section leaves behind\<close>

text \<open>
  The part of the hart state that callers can rely on: who runs, the interrupt state, the
  nesting count, which locks are held and by whom. The statistics \<^verbatim>\<open>n\<close> and \<^verbatim>\<open>nts\<close> and the
  saved \<^verbatim>\<open>intena\<close> of a hart at nesting depth zero are not part of it.
\<close>

definition lockst :: "spinlock \<Rightarrow> nat option option" where
  "lockst k = (if locked k then Some (lcpu k) else None)"

definition same_hart :: "hart \<Rightarrow> hart \<Rightarrow> bool" where
  "same_hart h h' \<longleftrightarrow> tp h' = tp h \<and> intr_get_hw h' = intr_get_hw h
     \<and> noff (cpus h' (tp h)) = noff (cpus h (tp h))
     \<and> (0 < noff (cpus h (tp h)) \<longrightarrow> intena (cpus h' (tp h)) = intena (cpus h (tp h)))
     \<and> (\<forall>k. lockst (locks h' k) = lockst (locks h k))
     \<and> (\<forall>i. cproc (cpus h' i) = cproc (cpus h i))"

lemma same_hart_refl [simp, intro!]: "same_hart h h"
  by (simp add: same_hart_def)

lemma same_hart_trans [trans]: "same_hart h h' \<Longrightarrow> same_hart h' h'' \<Longrightarrow> same_hart h h''"
  by (auto simp: same_hart_def)

lemma same_hart_locked: "same_hart h h' \<Longrightarrow> locked (locks h' k) = locked (locks h k)"
  by (auto simp: same_hart_def lockst_def split: if_splits)

lemma same_hart_holding: "same_hart h h' \<Longrightarrow> holding_hw k h' = holding_hw k h"
  by (auto simp: same_hart_def lockst_def holding_hw_def split: if_splits)
     (metis option.distinct(1) option.inject)+

lemma same_hart_calm: "same_hart h h' \<Longrightarrow> calm h' = calm h"
  by (auto simp: same_hart_def calm_def)

lemma same_hart_simps:
  assumes "same_hart h h'"
  shows "tp h' = tp h" "noff (cpus h' (tp h)) = noff (cpus h (tp h))"
    "intr_get_hw h' = intr_get_hw h" "cproc (cpus h' i) = cproc (cpus h i)"
  using assms by (auto simp: same_hart_def)

lemma enter_facts [simp]:
  "tp (enter l h) = tp h"
  "noff (cpus (enter l h) (tp h)) = noff (cpus h (tp h)) + 1"
  "\<not> intr_get_hw (enter l h)"
  "holding_hw l (enter l h)"
  "locked (locks (enter l h) l)"
  "k \<noteq> l \<Longrightarrow> locks (enter l h) k = locks h k"
  "cproc (cpus (enter l h) i) = cproc (cpus h i)"
  "lktab (enter l h) = lktab h"
  by (auto simp: enter_def Let_def intr_get_hw_def holding_hw_def)

lemma enter_calm [simp]: "0 \<le> noff (cpus h (tp h)) \<Longrightarrow> calm (enter l h)"
  by (simp add: calm_def)

lemma lockst_free [simp]: "lockst (k\<lparr>lcpu := c, locked := False\<rparr>) = None"
  by (simp add: lockst_def)

lemma lockst_None [simp]: "lockst k = None \<longleftrightarrow> \<not> locked k"
  by (simp add: lockst_def)

lemma leave_facts [simp]:
  "tp (leave l h) = tp h"
  "noff (cpus (leave l h) (tp h)) = noff (cpus h (tp h)) - 1"
  "intena (cpus (leave l h) i) = intena (cpus h i)"
  "intr_get_hw (leave l h) = (noff (cpus h (tp h)) = 1 \<and> intena (cpus h (tp h)) \<or> intr_get_hw h)"
  "k \<noteq> l \<Longrightarrow> locks (leave l h) k = locks h k"
  "\<not> locked (locks (leave l h) l)"
  "cproc (cpus (leave l h) i) = cproc (cpus h i)"
  "lktab (leave l h) = lktab h"
  by (auto simp: leave_def Let_def intr_get_hw_def intr_on_hw_def)

lemma enter_intena:
  "intena (cpus (enter l h) (tp h)) =
     (if noff (cpus h (tp h)) = 0 then intr_get_hw h else intena (cpus h (tp h)))"
  by (simp add: enter_def Let_def)

lemma leave_enter:
  assumes "\<not> locked (locks h l)" and "calm h" and "same_hart (enter l h) h'"
  shows "same_hart h (leave l h')"
proof -
  have a: "tp h' = tp h" "noff (cpus h' (tp h)) = noff (cpus h (tp h)) + 1"
      "\<not> intr_get_hw h'" "intena (cpus h' (tp h)) = intena (cpus (enter l h) (tp h))"
    using assms(2,3) by (auto simp: same_hart_def calm_def)
  have "lockst (locks (leave l h') k) = lockst (locks h k)" for k
  proof (cases "k = l")
    case True
    then show ?thesis using assms(1) by (simp add: lockst_def)
  next
    case False
    then show ?thesis using assms(3) by (simp add: same_hart_def)
  qed
  moreover have "cproc (cpus (leave l h') i) = cproc (cpus h i)" for i
    using assms(3) by (simp add: same_hart_def)
  moreover have "intr_get_hw (leave l h') = intr_get_hw h"
    using a assms(2) by (auto simp: enter_intena calm_def)
  moreover have "noff (cpus (leave l h') (tp h)) = noff (cpus h (tp h))"
    using a leave_facts(2) [of l h'] by simp
  ultimately show ?thesis
    using a by (auto simp: same_hart_def enter_intena)
qed

lemma leave_enter_same:
  "\<not> locked (locks h l) \<Longrightarrow> calm h \<Longrightarrow> same_hart h (leave l (enter l h))"
  by (rule leave_enter) auto

text \<open>Acquire, a body that leaves the hart as it found it, release.\<close>

lemma wp_acquire:
  "\<not> locked (locks (hw s) l) \<Longrightarrow> wp (acquire l) Q s = Q () (s\<lparr>hw := enter l (hw s)\<rparr>)"
  by (simp add: wp_Ok acquire_free)

lemma wp_release:
  assumes "calm h" and "same_hart (enter l h) (hw s)"
  shows "wp (release l) Q s = Q () (s\<lparr>hw := leave l (hw s)\<rparr>)"
proof -
  have "holding_hw l (hw s)" using same_hart_holding [OF assms(2)] by simp
  moreover have "\<not> intr_get_hw (hw s)" and "1 \<le> noff (cpus (hw s) (tp (hw s)))"
    using assms by (auto simp: same_hart_def calm_def)
  ultimately show ?thesis by (simp add: wp_Ok release_held)
qed

lemma critical_section:
  assumes "\<not> locked (locks (hw s) l)" and "calm (hw s)"
    and "wp body (\<lambda>r t. same_hart (enter l (hw s)) (hw t) \<and>
           (\<forall>h'. same_hart (hw s) h' \<longrightarrow> wp (k r) Q (t\<lparr>hw := h'\<rparr>)))
         (s\<lparr>hw := enter l (hw s)\<rparr>)"
  shows "wp (seq (acquire l) (bind body (\<lambda>r. seq (release l) (k r)))) Q s"
proof -
  from assms(3) obtain r t where run: "body (s\<lparr>hw := enter l (hw s)\<rparr>) = Ok r t"
    and same: "same_hart (enter l (hw s)) (hw t)"
    and rest: "\<And>h'. same_hart (hw s) h' \<Longrightarrow> wp (k r) Q (t\<lparr>hw := h'\<rparr>)"
    by (auto simp: wp_iff)
  have "same_hart (hw s) (leave l (hw t))"
    using assms(1,2) same by (rule leave_enter)
  then have "wp (k r) Q (t\<lparr>hw := leave l (hw t)\<rparr>)" by (rule rest)
  then have "wp (seq (release l) (k r)) Q t"
    by (simp add: wp_simps wp_release [OF assms(2) same])
  then show ?thesis
    by (simp add: wp_def acquire_free [OF assms(1)] run)
qed

end
