(* ===== verification/Xv6_Proc_Base.thy ===== *)
theory Xv6_Proc_Base
  imports Xv6_Spinlock
begin

text \<open>
  The process table (\<^verbatim>\<open>struct proc\<close> of \<^verbatim>\<open>kernel/proc.h\<close>) and the part of \<^verbatim>\<open>kernel/proc.c\<close> that
  every other component calls: the current process, sleeping, waking, giving up the CPU and
  the scheduler's choice. \<^verbatim>\<open>swtch()\<close> is the outcome \<open>Swtch\<close>; the code that a thread runs when
  it is switched to again is a definition of its own (\<open>sched_ret\<close>, \<open>sleep_ret\<close>, \<open>yield_ret\<close>).
\<close>

datatype procstate = UNUSED | SLEEPING | RUNNABLE | RUNNING | ZOMBIE

text \<open>Sleep channels are addresses of kernel objects.\<close>

datatype chan =
    ChProc nat | ChTicks | ChSleeplk lockid | ChLog | ChPipeRead uint64 | ChPipeWrite uint64
  | ChConsR | ChBuf nat | ChDiskFree nat

record kcontext =
  ctx_ra :: uint64
  ctx_sp :: uint64
  ctx_s :: "nat \<Rightarrow> uint64"

record proc =
  pstate :: procstate
  parent :: "nat option"
  chan :: "chan option"
  killed :: bool
  xstate :: int
  pid :: int
  kstack :: uint64
  sz :: uint64
  pagetable :: uint64
  tf :: uint64
  pcontext :: kcontext
  ofile :: "nat \<Rightarrow> nat option"
  cwd :: "nat option"
  pname :: bytes

record ptable = machine +
  proc :: "nat \<Rightarrow> proc"
  nextpid :: int
  initproc :: "nat option"
  ticks :: uint

definition NPROC :: nat where "NPROC = 10"

definition set_proc :: "nat \<Rightarrow> (proc \<Rightarrow> proc) \<Rightarrow> ('z ptable_scheme, unit) kM" where
  "set_proc i f = upd (\<lambda>s. s\<lparr>proc := (proc s)(i := f (proc s i))\<rparr>)"

definition get_proc :: "nat \<Rightarrow> ('z ptable_scheme, proc) kM" where
  "get_proc i = gets (\<lambda>s. proc s i)"

section \<open>The current process\<close>

definition myproc :: "('z machine_scheme, nat option) kM" where
  "myproc =
     seq push_off
    (bind mycpu (\<lambda>c.
     seq pop_off
    (ret (cproc c))))"

text \<open>Using the result of \<^verbatim>\<open>myproc()\<close> as a pointer: with no process it is a null dereference, a
  page fault that \<^verbatim>\<open>kerneltrap()\<close> turns into a panic.\<close>

definition curproc :: "('z machine_scheme, nat) kM" where
  "curproc = bind myproc (\<lambda>p. case p of None \<Rightarrow> panic ''kerneltrap'' | Some i \<Rightarrow> ret i)"

definition allocpid :: "('z ptable_scheme, int) kM" where
  "allocpid =
     seq (acquire PidLk)
    (bind (gets nextpid) (\<lambda>pid.
     seq (upd (\<lambda>s. s\<lparr>nextpid := nextpid s + 1\<rparr>))
    (seq (release PidLk)
    (ret pid))))"

section \<open>Giving up the CPU\<close>

definition swtch :: "('s, 'a) kM" where
  "swtch = (\<lambda>s. Swtch s)"

definition sched :: "('z ptable_scheme, unit) kM" where
  "sched =
     bind curproc (\<lambda>p.
     bind (holding (ProcLk p)) (\<lambda>held.
     seq (whenM (\<not> held) (panic ''sched p->lock''))
    (bind mycpu (\<lambda>c.
     seq (whenM (noff c \<noteq> 1) (panic ''sched locks''))
    (bind (get_proc p) (\<lambda>pr.
     seq (whenM (pstate pr = RUNNING) (panic ''sched running''))
    (bind intr_get (\<lambda>on.
     seq (whenM on (panic ''sched interruptible''))
         swtch))))))))"

definition sched_ret :: "bool \<Rightarrow> ('z machine_scheme, unit) kM" where
  "sched_ret ie = set_mycpu (\<lambda>c. c\<lparr>intena := ie\<rparr>)"

definition yield :: "('z ptable_scheme, unit) kM" where
  "yield =
     bind curproc (\<lambda>p.
     seq (acquire (ProcLk p))
    (seq (set_proc p (\<lambda>pr. pr\<lparr>pstate := RUNNABLE\<rparr>))
         sched))"

definition yield_ret :: "nat \<Rightarrow> bool \<Rightarrow> ('z ptable_scheme, unit) kM" where
  "yield_ret p ie = seq (sched_ret ie) (release (ProcLk p))"

definition sleep :: "chan \<Rightarrow> lockid \<Rightarrow> ('z ptable_scheme, 'a) kM" where
  "sleep ch lk =
     bind curproc (\<lambda>p.
     seq (whenM (lk \<noteq> ProcLk p) (seq (acquire (ProcLk p)) (release lk)))
    (seq (set_proc p (\<lambda>pr. pr\<lparr>chan := Some ch\<rparr>))
    (seq (set_proc p (\<lambda>pr. pr\<lparr>pstate := SLEEPING\<rparr>))
    (seq sched
         swtch))))"

definition sleep_ret :: "nat \<Rightarrow> bool \<Rightarrow> lockid \<Rightarrow> ('z ptable_scheme, unit) kM" where
  "sleep_ret p ie lk =
     seq (sched_ret ie)
    (seq (set_proc p (\<lambda>pr. pr\<lparr>chan := None\<rparr>))
         (whenM (lk \<noteq> ProcLk p) (seq (release (ProcLk p)) (acquire lk))))"

section \<open>Waking\<close>

definition wakeup_one :: "chan \<Rightarrow> nat \<Rightarrow> ('z ptable_scheme, unit) kM" where
  "wakeup_one ch i =
     seq (acquire (ProcLk i))
    (bind (get_proc i) (\<lambda>p.
     seq (whenM (pstate p = SLEEPING \<and> chan p = Some ch)
            (set_proc i (\<lambda>p. p\<lparr>pstate := RUNNABLE\<rparr>)))
         (release (ProcLk i))))"

definition wakeup :: "chan \<Rightarrow> ('z ptable_scheme, unit) kM" where
  "wakeup ch = for_upto 0 NPROC (wakeup_one ch)"

definition wakeup1 :: "nat \<Rightarrow> ('z ptable_scheme, unit) kM" where
  "wakeup1 i =
     bind (holding (ProcLk i)) (\<lambda>held.
     seq (whenM (\<not> held) (panic ''wakeup1''))
    (bind (get_proc i) (\<lambda>p.
     whenM (chan p = Some (ChProc i) \<and> pstate p = SLEEPING)
       (set_proc i (\<lambda>p. p\<lparr>pstate := RUNNABLE\<rparr>)))))"

section \<open>Killing\<close>

primrec kill_scan :: "int \<Rightarrow> nat \<Rightarrow> nat \<Rightarrow> ('z ptable_scheme, int) kM" where
  "kill_scan k i 0 = ret (-1)"
| "kill_scan k i (Suc n) =
     seq (acquire (ProcLk i))
    (bind (get_proc i) (\<lambda>p.
     if pid p = k then
       seq (set_proc i (\<lambda>p. p\<lparr>killed := True\<rparr>))
      (seq (whenM (pstate p = SLEEPING) (set_proc i (\<lambda>p. p\<lparr>pstate := RUNNABLE\<rparr>)))
      (seq (release (ProcLk i))
      (ret 0)))
     else
       seq (release (ProcLk i))
           (kill_scan k (Suc i) n)))"

definition kill :: "int \<Rightarrow> ('z ptable_scheme, int) kM" where
  "kill k = kill_scan k 0 NPROC"

section \<open>The scheduler's choice\<close>

text \<open>
  One pass of the \<^verbatim>\<open>for\<close> loop of \<^verbatim>\<open>scheduler()\<close> from table index \<open>i\<close>: the first RUNNABLE
  process is marked RUNNING, becomes the hart's process, and is switched to with its lock
  held. \<open>scheduler_ret\<close> is what the scheduler does with process \<open>i\<close> when it is switched back
  to. The result of a pass that finds nothing is \<^verbatim>\<open>found\<close>, 0, on which the hart waits.
\<close>

primrec scheduler_pass :: "nat \<Rightarrow> nat \<Rightarrow> ('z ptable_scheme, unit) kM" where
  "scheduler_pass i 0 = skip"
| "scheduler_pass i (Suc n) =
     seq (acquire (ProcLk i))
    (bind (get_proc i) (\<lambda>p.
     if pstate p = RUNNABLE then
       seq (set_proc i (\<lambda>p. p\<lparr>pstate := RUNNING\<rparr>))
      (seq (set_mycpu (\<lambda>c. c\<lparr>cproc := Some i\<rparr>))
           swtch)
     else
       seq (set_mycpu (\<lambda>c. c\<lparr>intena := False\<rparr>))
      (seq (release (ProcLk i))
           (scheduler_pass (Suc i) n))))"

definition scheduler :: "('z ptable_scheme, unit) kM" where
  "scheduler =
     seq (set_mycpu (\<lambda>c. c\<lparr>cproc := None\<rparr>))
    (seq intr_on
    (seq intr_off
         (scheduler_pass 0 NPROC)))"

definition scheduler_ret :: "nat \<Rightarrow> ('z ptable_scheme, unit) kM" where
  "scheduler_ret i =
     seq (set_mycpu (\<lambda>c. c\<lparr>cproc := None\<rparr>))
    (seq (set_mycpu (\<lambda>c. c\<lparr>intena := False\<rparr>))
    (seq (release (ProcLk i))
         (scheduler_pass (Suc i) (NPROC - Suc i))))"

lemmas proc_op_defs = set_proc_def get_proc_def

section \<open>Behaviour\<close>

lemma pop_off_run:
  "\<not> intr_get_hw (hw s) \<Longrightarrow> 1 \<le> noff (cpus (hw s) (tp (hw s))) \<Longrightarrow>
   pop_off s = Ok () (s\<lparr>hw := (let h' = (hw s)\<lparr>cpus := (cpus (hw s))(tp (hw s) :=
        (cpus (hw s) (tp (hw s)))\<lparr>noff := noff (cpus (hw s) (tp (hw s))) - 1\<rparr>)\<rparr>
      in if noff (cpus (hw s) (tp (hw s))) = 1 \<and> intena (cpus (hw s) (tp (hw s)))
         then intr_on_hw h' else h')\<rparr>)"
  by (simp add: pop_off_def hw_defs if_run whenM_def Let_def)

lemma myproc_run:
  assumes "calm (hw s)"
  shows "\<exists>h'. same_hart (hw s) h' \<and> myproc s = Ok (cproc (cpus (hw s) (tp (hw s)))) (s\<lparr>hw := h'\<rparr>)"
proof -
  obtain t where t: "push_off s = Ok () t" using push_off_run by blast
  then have t_eq: "t = s\<lparr>hw := hw t\<rparr>" and h: "\<not> intr_get_hw (hw t)" "tp (hw t) = tp (hw s)"
    "noff (cpus (hw t) (tp (hw t))) = noff (cpus (hw s) (tp (hw s))) + 1"
    "intena (cpus (hw t) (tp (hw t))) = (if noff (cpus (hw s) (tp (hw s))) = 0
       then intr_get_hw (hw s) else intena (cpus (hw s) (tp (hw s))))"
    "locks (hw t) = locks (hw s)" "\<And>i. cproc (cpus (hw t) i) = cproc (cpus (hw s) i)"
    by (auto simp: push_off_run intr_get_hw_def)
  from h assms obtain h' where pop: "pop_off t = Ok () (t\<lparr>hw := h'\<rparr>)"
    and h': "h' = (let h' = (hw t)\<lparr>cpus := (cpus (hw t))(tp (hw t) :=
        (cpus (hw t) (tp (hw t)))\<lparr>noff := noff (cpus (hw t) (tp (hw t))) - 1\<rparr>)\<rparr>
      in if noff (cpus (hw t) (tp (hw t))) = 1 \<and> intena (cpus (hw t) (tp (hw t)))
         then intr_on_hw h' else h')"
    by (simp add: pop_off_run calm_def)
  have "same_hart (hw s) h'"
    using h assms unfolding h'
    by (auto simp: same_hart_def Let_def calm_def intr_get_hw_def intr_on_hw_def)
  moreover have "myproc s = Ok (cproc (cpus (hw s) (tp (hw s)))) (t\<lparr>hw := h'\<rparr>)"
    by (simp add: myproc_def t pop mycpu_def h)
  moreover have "t\<lparr>hw := h'\<rparr> = s\<lparr>hw := h'\<rparr>" by (subst t_eq) simp
  ultimately show ?thesis by auto
qed

lemma curproc_run:
  assumes "calm (hw s)" and "cproc (cpus (hw s) (tp (hw s))) = Some p"
  shows "\<exists>h'. same_hart (hw s) h' \<and> curproc s = Ok p (s\<lparr>hw := h'\<rparr>)"
  using myproc_run [OF assms(1)] assms(2) by (auto simp: curproc_def)

text \<open>What \<^verbatim>\<open>wakeup(ch)\<close> does to the process table.\<close>

definition wake :: "chan \<Rightarrow> proc \<Rightarrow> proc" where
  "wake ch p = (if pstate p = SLEEPING \<and> chan p = Some ch then p\<lparr>pstate := RUNNABLE\<rparr> else p)"

definition wake_upto :: "chan \<Rightarrow> nat \<Rightarrow> (nat \<Rightarrow> proc) \<Rightarrow> nat \<Rightarrow> proc" where
  "wake_upto ch n P = (\<lambda>i. if i < n then wake ch (P i) else P i)"

lemma wakeup_one_run:
  assumes "\<not> locked (locks (hw s) (ProcLk i))" and "calm (hw s)"
  shows "\<exists>h'. same_hart (hw s) h' \<and>
    wakeup_one ch i s = Ok () (s\<lparr>hw := h', proc := (proc s)(i := wake ch (proc s i))\<rparr>)"
proof -
  let ?h = "enter (ProcLk i) (hw s)"
  have rel: "holding_hw (ProcLk i) ?h" "\<not> intr_get_hw ?h" "1 \<le> noff (cpus ?h (tp ?h))"
    using assms(2) by (auto simp: calm_def)
  have "wakeup_one ch i s =
      Ok () (s\<lparr>hw := leave (ProcLk i) ?h, proc := (proc s)(i := wake ch (proc s i))\<rparr>)"
    using rel by (simp add: wakeup_one_def acquire_free assms(1) proc_op_defs release_held if_run
        wake_def)
  then show ?thesis using leave_enter_same [OF assms] by blast
qed

definition proc_locks_free :: "hart \<Rightarrow> bool" where
  "proc_locks_free h \<longleftrightarrow> (\<forall>i<NPROC. \<not> locked (locks h (ProcLk i)))"

lemma same_hart_proc_locks_free:
  "same_hart h h' \<Longrightarrow> proc_locks_free h' = proc_locks_free h"
  by (simp add: proc_locks_free_def same_hart_locked)

lemma wakeup_loop_run:
  assumes "\<And>j. i \<le> j \<Longrightarrow> j < i + n \<Longrightarrow> \<not> locked (locks (hw s) (ProcLk j))" and "calm (hw s)"
  shows "\<exists>h'. same_hart (hw s) h' \<and> for_upto i n (wakeup_one ch) s
     = Ok () (s\<lparr>hw := h', proc := (\<lambda>j. if i \<le> j \<and> j < i + n then wake ch (proc s j) else proc s j)\<rparr>)"
  using assms
proof (induction n arbitrary: i s)
  case 0
  have "(\<lambda>j. if i \<le> j \<and> j < i + 0 then wake ch (proc s j) else proc s j) = proc s"
    by (auto simp: fun_eq_iff)
  then show ?case by (intro exI [of _ "hw s"]) (simp del: add_0_right)
next
  case (Suc n)
  from Suc.prems obtain h1 where h1: "same_hart (hw s) h1"
    "wakeup_one ch i s = Ok () (s\<lparr>hw := h1, proc := (proc s)(i := wake ch (proc s i))\<rparr>)"
    using wakeup_one_run [of s i ch] by auto
  let ?s1 = "s\<lparr>hw := h1, proc := (proc s)(i := wake ch (proc s i))\<rparr>"
  have "\<exists>h'. same_hart (hw ?s1) h' \<and> for_upto (Suc i) n (wakeup_one ch) ?s1 = Ok () (?s1\<lparr>hw := h',
      proc := (\<lambda>j. if Suc i \<le> j \<and> j < Suc i + n then wake ch (proc ?s1 j) else proc ?s1 j)\<rparr>)"
    using Suc.prems h1(1) by (intro Suc.IH) (auto simp: same_hart_locked same_hart_calm)
  then obtain h2 where h2: "same_hart h1 h2" "for_upto (Suc i) n (wakeup_one ch) ?s1
      = Ok () (?s1\<lparr>hw := h2, proc := (\<lambda>j. if Suc i \<le> j \<and> j < Suc i + n then wake ch (proc ?s1 j)
        else proc ?s1 j)\<rparr>)" by auto
  have "(\<lambda>j. if Suc i \<le> j \<and> j < Suc i + n then wake ch (proc ?s1 j) else proc ?s1 j)
      = (\<lambda>j. if i \<le> j \<and> j < i + Suc n then wake ch (proc s j) else proc s j)"
    by (auto simp: fun_eq_iff Suc_le_eq)
  with h1 h2 show ?case
    by (auto intro!: exI [of _ h2] elim: same_hart_trans)
qed

lemma wakeup_run:
  assumes "proc_locks_free (hw s)" and "calm (hw s)"
  shows "\<exists>h'. same_hart (hw s) h' \<and>
    wakeup ch s = Ok () (s\<lparr>hw := h', proc := wake_upto ch NPROC (proc s)\<rparr>)"
  using wakeup_loop_run [of 0 NPROC s ch] assms
  by (auto simp: wakeup_def wake_upto_def proc_locks_free_def)

end
