(* ===== verification/Xv6_Sleeplock.thy ===== *)
theory Xv6_Sleeplock
  imports Xv6_Proc_Base
begin

text \<open>
  Sleep locks (\<^verbatim>\<open>kernel/sleeplock.c\<close>). A sleep lock is named by its inner spin lock, the
  \<^verbatim>\<open>lk\<close> field. Waiting for a lock that is held ends in \<open>Swtch\<close> with the process asleep on the
  lock; when it runs again it re-enters the loop, \<open>acquiresleep_loop\<close>.
\<close>

record sleeplock =
  sl_locked :: bool
  sl_name :: string
  sl_pid :: int

record sleeplocks = ptable +
  slk :: "lockid \<Rightarrow> sleeplock"

definition set_slk :: "lockid \<Rightarrow> (sleeplock \<Rightarrow> sleeplock) \<Rightarrow> ('z sleeplocks_scheme, unit) kM" where
  "set_slk l f = upd (\<lambda>s. s\<lparr>slk := (slk s)(l := f (slk s l))\<rparr>)"

definition initsleeplock :: "lockid \<Rightarrow> string \<Rightarrow> ('z sleeplocks_scheme, unit) kM" where
  "initsleeplock l nm =
     seq (initlock l ''sleep lock'')
    (seq (set_slk l (\<lambda>k. k\<lparr>sl_name := nm\<rparr>))
    (seq (set_slk l (\<lambda>k. k\<lparr>sl_locked := False\<rparr>))
         (set_slk l (\<lambda>k. k\<lparr>sl_pid := 0\<rparr>))))"

definition acquiresleep_loop :: "lockid \<Rightarrow> ('z sleeplocks_scheme, unit) kM" where
  "acquiresleep_loop l =
     bind (gets (\<lambda>s. sl_locked (slk s l))) (\<lambda>busy.
     if busy then sleep (ChSleeplk l) l
     else
       seq (set_slk l (\<lambda>k. k\<lparr>sl_locked := True\<rparr>))
      (bind curproc (\<lambda>p.
       bind (get_proc p) (\<lambda>pr.
       seq (set_slk l (\<lambda>k. k\<lparr>sl_pid := pid pr\<rparr>))
           (release l)))))"

definition acquiresleep :: "lockid \<Rightarrow> ('z sleeplocks_scheme, unit) kM" where
  "acquiresleep l = seq (acquire l) (acquiresleep_loop l)"

definition releasesleep :: "lockid \<Rightarrow> ('z sleeplocks_scheme, unit) kM" where
  "releasesleep l =
     seq (acquire l)
    (seq (set_slk l (\<lambda>k. k\<lparr>sl_locked := False\<rparr>))
    (seq (set_slk l (\<lambda>k. k\<lparr>sl_pid := 0\<rparr>))
    (seq (wakeup (ChSleeplk l))
         (release l))))"

definition holdingsleep :: "lockid \<Rightarrow> ('z sleeplocks_scheme, bool) kM" where
  "holdingsleep l =
     seq (acquire l)
    (bind (gets (\<lambda>s. sl_locked (slk s l))) (\<lambda>busy.
     bind (gets (\<lambda>s. sl_pid (slk s l))) (\<lambda>owner.
     bind curproc (\<lambda>p.
     bind (get_proc p) (\<lambda>pr.
     seq (release l)
    (ret (busy \<and> owner = pid pr)))))))"

section \<open>Behaviour in a quiet kernel\<close>

text \<open>
  \<open>quiet p h\<close>: process \<open>p\<close> runs on this hart, and no spin lock is held. This is the state in
  which the file-system code calls everything below it (it may hold sleep locks).
\<close>

definition quiet :: "nat \<Rightarrow> hart \<Rightarrow> bool" where
  "quiet p h \<longleftrightarrow> calm h \<and> cproc (cpus h (tp h)) = Some p \<and> (\<forall>l. \<not> locked (locks h l))"

lemma quietD:
  "quiet p h \<Longrightarrow> calm h" "quiet p h \<Longrightarrow> cproc (cpus h (tp h)) = Some p"
  "quiet p h \<Longrightarrow> \<not> locked (locks h l)" "quiet p h \<Longrightarrow> proc_locks_free h"
  by (auto simp: quiet_def proc_locks_free_def)

lemma same_hart_quiet: "same_hart h h' \<Longrightarrow> quiet p h' = quiet p h"
  by (auto simp: quiet_def same_hart_calm same_hart_locked same_hart_simps)

lemma release_after:
  assumes "calm h" and "same_hart (enter l h) (hw t)"
  shows "release l t = Ok () (t\<lparr>hw := leave l (hw t)\<rparr>)"
proof -
  have "holding_hw l (hw t)" using same_hart_holding [OF assms(2)] by simp
  moreover have "\<not> intr_get_hw (hw t)" and "1 \<le> noff (cpus (hw t) (tp (hw t)))"
    using assms by (auto simp: same_hart_def calm_def)
  ultimately show ?thesis by (rule release_held)
qed

lemma enter_calmD: "calm h \<Longrightarrow> calm (enter l h)"
  by (simp add: calm_def)

lemma acquiresleep_free:
  assumes q: "quiet p (hw s)" and free: "\<not> sl_locked (slk s l)"
  shows "\<exists>h'. same_hart (hw s) h' \<and> acquiresleep l s = Ok () (s\<lparr>hw := h',
     slk := (slk s)(l := (slk s l)\<lparr>sl_locked := True, sl_pid := pid (proc s p)\<rparr>)\<rparr>)"
proof -
  note q' = quietD [OF q]
  let ?h = "enter l (hw s)"
  let ?s1 = "s\<lparr>hw := ?h, slk := (slk s)(l := (slk s l)\<lparr>sl_locked := True\<rparr>)\<rparr>"
  obtain h1 where h1: "same_hart ?h h1" "curproc ?s1 = Ok p (?s1\<lparr>hw := h1\<rparr>)"
    using curproc_run [of ?s1 p] q' by (auto simp: enter_calmD)
  have "same_hart (hw s) (leave l h1)"
    using q' h1(1) by (intro leave_enter) auto
  moreover have "acquiresleep l s = Ok () (s\<lparr>hw := leave l h1,
     slk := (slk s)(l := (slk s l)\<lparr>sl_locked := True, sl_pid := pid (proc s p)\<rparr>)\<rparr>)"
    using free h1 q' by (simp add: acquiresleep_def acquiresleep_loop_def acquire_free set_slk_def
        get_proc_def release_after [OF q'(1)])
  ultimately show ?thesis by blast
qed

lemma releasesleep_run:
  assumes q: "quiet p (hw s)" and l: "\<And>i. l \<noteq> ProcLk i"
  shows "\<exists>h'. same_hart (hw s) h' \<and> releasesleep l s = Ok () (s\<lparr>hw := h',
     proc := wake_upto (ChSleeplk l) NPROC (proc s),
     slk := (slk s)(l := (slk s l)\<lparr>sl_locked := False, sl_pid := 0\<rparr>)\<rparr>)"
proof -
  note q' = quietD [OF q]
  let ?h = "enter l (hw s)"
  let ?s1 = "s\<lparr>hw := ?h, slk := (slk s)(l := (slk s l)\<lparr>sl_locked := False, sl_pid := 0\<rparr>)\<rparr>"
  have "proc_locks_free ?h"
    using q' l by (simp add: proc_locks_free_def) (metis enter_facts(6))
  then obtain h1 where h1: "same_hart ?h h1"
    "wakeup (ChSleeplk l) ?s1 = Ok () (?s1\<lparr>hw := h1, proc := wake_upto (ChSleeplk l) NPROC (proc s)\<rparr>)"
    using wakeup_run [of ?s1 "ChSleeplk l"] q' by (auto simp: enter_calmD)
  have "same_hart (hw s) (leave l h1)"
    using q' h1(1) by (intro leave_enter) auto
  moreover have "releasesleep l s = Ok () (s\<lparr>hw := leave l h1,
     proc := wake_upto (ChSleeplk l) NPROC (proc s),
     slk := (slk s)(l := (slk s l)\<lparr>sl_locked := False, sl_pid := 0\<rparr>)\<rparr>)"
    using h1 q' by (simp add: releasesleep_def acquire_free set_slk_def release_after [OF q'(1)])
  ultimately show ?thesis by blast
qed

lemma holdingsleep_run:
  assumes q: "quiet p (hw s)"
  shows "\<exists>h'. same_hart (hw s) h' \<and> holdingsleep l s =
     Ok (sl_locked (slk s l) \<and> sl_pid (slk s l) = pid (proc s p)) (s\<lparr>hw := h'\<rparr>)"
proof -
  note q' = quietD [OF q]
  let ?h = "enter l (hw s)"
  let ?s1 = "s\<lparr>hw := ?h\<rparr>"
  obtain h1 where h1: "same_hart ?h h1" "curproc ?s1 = Ok p (?s1\<lparr>hw := h1\<rparr>)"
    using curproc_run [of ?s1 p] q' by (auto simp: enter_calmD)
  have "same_hart (hw s) (leave l h1)"
    using q' h1(1) by (intro leave_enter) auto
  moreover have "holdingsleep l s =
     Ok (sl_locked (slk s l) \<and> sl_pid (slk s l) = pid (proc s p)) (s\<lparr>hw := leave l h1\<rparr>)"
    using h1 q' by (simp add: holdingsleep_def acquire_free get_proc_def release_after [OF q'(1)])
  ultimately show ?thesis by blast
qed

section \<open>Operations that hold one lock\<close>

text \<open>Entering a lock, also from an interrupt handler, and leaving it after a wakeup.\<close>

definition no_locks :: "hart \<Rightarrow> bool" where
  "no_locks h \<longleftrightarrow> calm h \<and> (\<forall>l. \<not> locked (locks h l))"

lemma quiet_no_locks: "quiet p h \<Longrightarrow> no_locks h"
  by (simp add: quiet_def no_locks_def)

lemma no_locksD: "no_locks h \<Longrightarrow> calm h" "no_locks h \<Longrightarrow> \<not> locked (locks h l)" "no_locks h \<Longrightarrow> proc_locks_free h"
  by (simp_all add: no_locks_def proc_locks_free_def)

lemma same_hart_no_locks: "same_hart h h' \<Longrightarrow> no_locks h' = no_locks h"
  by (simp add: no_locks_def same_hart_calm same_hart_locked)

lemma proc_locks_free_enter: "no_locks h \<Longrightarrow> (\<And>i. l \<noteq> ProcLk i) \<Longrightarrow> proc_locks_free (enter l h)"
  unfolding proc_locks_free_def using no_locksD(2) [of h] enter_facts(6) [of _ l h] by metis

lemma leave_run:
  assumes n: "no_locks h" and same: "same_hart (enter l h) (hw s)"
  shows "\<exists>h'. same_hart h h' \<and> release l s = Ok () (s\<lparr>hw := h'\<rparr>)"
  using leave_enter [of h l "hw s"] no_locksD(1,2) [OF n] same release_after [OF no_locksD(1) [OF n] same] by blast

lemma wake_run:
  assumes n: "no_locks h" and lk: "\<And>i. l \<noteq> ProcLk i" and same: "same_hart (enter l h) (hw s)"
  shows "\<exists>h'. same_hart (enter l h) h' \<and> wakeup ch s = Ok () (s\<lparr>hw := h', proc := wake_upto ch NPROC (proc s)\<rparr>)"
proof -
  have "proc_locks_free (hw s)" "calm (hw s)"
    using proc_locks_free_enter [OF n lk] same n
    by (simp_all add: same_hart_proc_locks_free same_hart_calm [OF same] enter_calmD no_locksD)
  then obtain h1 where "same_hart (hw s) h1" "wakeup ch s = Ok () (s\<lparr>hw := h1, proc := wake_upto ch NPROC (proc s)\<rparr>)"
    using wakeup_run by blast
  then show ?thesis using same same_hart_trans by blast
qed

lemma wake_release_run:
  assumes n: "no_locks h" and lk: "\<And>i. l \<noteq> ProcLk i" and same: "same_hart (enter l h) (hw s)"
  shows "\<exists>h'. same_hart h h' \<and>
    seq (wakeup ch) (seq (release l) (ret r)) s = Ok r (s\<lparr>hw := h', proc := wake_upto ch NPROC (proc s)\<rparr>)"
proof -
  obtain h1 where h1: "same_hart (enter l h) h1"
    "wakeup ch s = Ok () (s\<lparr>hw := h1, proc := wake_upto ch NPROC (proc s)\<rparr>)" using wake_run [OF n lk same] by blast
  let ?t = "s\<lparr>hw := h1, proc := wake_upto ch NPROC (proc s)\<rparr>"
  obtain h2 where "same_hart h h2" "release l ?t = Ok () (?t\<lparr>hw := h2\<rparr>)"
    using leave_run [OF n, of l ?t] h1(1) by auto
  then show ?thesis using h1(2) by (intro exI [of _ h2]) simp
qed

lemma curproc_lock_run:
  assumes q: "quiet p (hw s)"
  shows "\<exists>h'. same_hart (hw s) h' \<and> bind curproc (\<lambda>p. bind (get_proc p) (\<lambda>pr. seq (acquire l) (k pr))) s =
    k (proc s p) (s\<lparr>hw := enter l h'\<rparr>)"
proof -
  obtain h1 where h1: "same_hart (hw s) h1" "curproc s = Ok p (s\<lparr>hw := h1\<rparr>)"
    using curproc_run quietD [OF q] by blast
  moreover have "\<not> locked (locks h1 l)" using h1(1) quietD(3) [OF q] by (simp add: same_hart_locked)
  ultimately show ?thesis by (intro exI [of _ h1]) (simp add: proc_op_defs acquire_free)
qed

end
