(* ===== verification/Xv6_String.thy ===== *)
theory Xv6_String
  imports Xv6_Prelude
begin

text \<open>
  \<^verbatim>\<open>kernel/string.c\<close>: the memory and string loops. Functions that write through one pointer
  into the memory they read (\<^verbatim>\<open>memset\<close>, \<^verbatim>\<open>memmove\<close>) take the memory and the addresses, so
  that overlap is visible; the string functions take each pointer as the array it points
  into, \<open>p i\<close> being \<^verbatim>\<open>p[i]\<close>. The lemmas say that each loop computes its closed form.
\<close>

section \<open>memset, memcmp, memmove\<close>

function memset_loop :: "nat \<Rightarrow> byte \<Rightarrow> nat \<Rightarrow> nat \<Rightarrow> bytes \<Rightarrow> bytes" where
  "memset_loop dst c i n m =
     (if i < n then memset_loop dst c (Suc i) n (m(dst + i := c)) else m)"
  by pat_completeness auto
termination by (relation "measure (\<lambda>(dst, c, i, n, m). n - i)") auto

definition memset :: "nat \<Rightarrow> byte \<Rightarrow> nat \<Rightarrow> bytes \<Rightarrow> bytes" where
  "memset dst c n m = memset_loop dst c 0 n m"

primrec memcmp :: "bytes \<Rightarrow> bytes \<Rightarrow> nat \<Rightarrow> nat \<Rightarrow> int" where
  "memcmp s1 s2 i 0 = 0"
| "memcmp s1 s2 i (Suc n) =
     (if s1 i \<noteq> s2 i then uint (s1 i) - uint (s2 i) else memcmp s1 s2 (Suc i) n)"

primrec memmove_down :: "nat \<Rightarrow> nat \<Rightarrow> nat \<Rightarrow> bytes \<Rightarrow> bytes" where
  "memmove_down d s 0 m = m"
| "memmove_down d s (Suc n) m = memmove_down d s n (m(d + n := m (s + n)))"

primrec memmove_up :: "nat \<Rightarrow> nat \<Rightarrow> nat \<Rightarrow> bytes \<Rightarrow> bytes" where
  "memmove_up d s 0 m = m"
| "memmove_up d s (Suc n) m = memmove_up (Suc d) (Suc s) n (m(d := m s))"

definition memmove :: "nat \<Rightarrow> nat \<Rightarrow> nat \<Rightarrow> bytes \<Rightarrow> bytes" where
  "memmove d s n m = (if s < d \<and> s + n > d then memmove_down d s n m else memmove_up d s n m)"

definition memcpy :: "nat \<Rightarrow> nat \<Rightarrow> nat \<Rightarrow> bytes \<Rightarrow> bytes" where
  "memcpy d s n m = memmove d s n m"

declare memset_loop.simps [simp del]

lemma memset_loop_fill:
  "i \<le> n \<Longrightarrow> memset_loop dst c i n m = fill (dst + i) c (n - i) m"
proof (induction dst c i n m rule: memset_loop.induct)
  case (1 dst c i n m)
  show ?case
  proof (cases "i < n")
    case True
    with 1 have "memset_loop dst c (Suc i) n (m(dst + i := c))
        = fill (dst + Suc i) c (n - Suc i) (m(dst + i := c))" by (simp add: fun_upd_def)
    with True show ?thesis
      by (subst memset_loop.simps) (auto simp: fill_def)
  next
    case False
    with 1 show ?thesis
      by (subst memset_loop.simps) (auto simp: fill_def fun_eq_iff)
  qed
qed

lemma memset_fill: "memset dst c n m = fill dst c n m"
  by (simp add: memset_def memset_loop_fill)

lemma memmove_down_other: "x < d \<or> d + n \<le> x \<Longrightarrow> memmove_down d s n m x = m x"
  by (induction n arbitrary: m) auto

lemma memmove_down_copy:
  "s \<le> d \<Longrightarrow> i < n \<Longrightarrow> memmove_down d s n m (d + i) = m (s + i)"
proof (induction n arbitrary: m)
  case (Suc n)
  show ?case
  proof (cases "i = n")
    case True
    then show ?thesis by (simp add: memmove_down_other)
  next
    case False
    with Suc show ?thesis by auto
  qed
qed simp

lemma memmove_up_other: "x < d \<or> d + n \<le> x \<Longrightarrow> memmove_up d s n m x = m x"
  by (induction n arbitrary: m d s) auto

lemma memmove_up_copy:
  "d \<le> s \<or> s + n \<le> d \<Longrightarrow> i < n \<Longrightarrow> memmove_up d s n m (d + i) = m (s + i)"
proof (induction n arbitrary: m d s i)
  case (Suc n)
  show ?case
  proof (cases i)
    case 0
    then show ?thesis by (simp add: memmove_up_other)
  next
    case (Suc j)
    have "memmove_up (Suc d) (Suc s) n (m(d := m s)) (Suc d + j) = (m(d := m s)) (Suc s + j)"
      using Suc Suc.prems by (intro Suc.IH) auto
    with Suc Suc.prems show ?thesis by auto
  qed
qed simp

text \<open>Whatever the overlap of source and destination, the bytes of the source arrive.\<close>

lemma memmove_blit: "memmove d s n m = blit d m s n m"
proof
  fix x
  show "memmove d s n m x = blit d m s n m x"
  proof (cases "d \<le> x \<and> x < d + n")
    case True
    define i where "i = x - d"
    have i: "x = d + i" "i < n" using True by (auto simp: i_def)
    show ?thesis
    proof (cases "s < d \<and> s + n > d")
      case True
      with i show ?thesis by (simp add: memmove_def blit_def memmove_down_copy)
    next
      case False
      then have "d \<le> s \<or> s + n \<le> d" by auto
      with i False show ?thesis by (auto simp: memmove_def blit_def memmove_up_copy)
    qed
  next
    case False
    then show ?thesis
      by (auto simp: memmove_def blit_def memmove_down_other memmove_up_other)
  qed
qed

lemma memcmp_eq_0: "memcmp s1 s2 i n = 0 \<longleftrightarrow> (\<forall>j<n. s1 (i + j) = s2 (i + j))"
proof (induction n arbitrary: i)
  case (Suc n)
  show ?case
    by (auto simp: Suc less_Suc_eq_0_disj) (use word_uint_eq_iff in auto)
qed simp

section \<open>Strings\<close>

function strncmp_loop :: "bytes \<Rightarrow> bytes \<Rightarrow> nat \<Rightarrow> nat \<Rightarrow> int" where
  "strncmp_loop p q i n =
     (if n > 0 \<and> p i \<noteq> 0 \<and> p i = q i then strncmp_loop p q (Suc i) (n - 1)
      else if n = 0 then 0
      else uint (p i) - uint (q i))"
  by pat_completeness auto
termination by (relation "measure (\<lambda>(p, q, i, n). n)") auto

declare strncmp_loop.simps [simp del]

definition strncmp :: "bytes \<Rightarrow> bytes \<Rightarrow> nat \<Rightarrow> int" where
  "strncmp p q n = strncmp_loop p q 0 n"

text \<open>The two loops of \<^verbatim>\<open>strncpy\<close>: copy up to and including a NUL, then pad with NULs.\<close>

primrec strncpy_pad :: "nat \<Rightarrow> nat \<Rightarrow> bytes \<Rightarrow> bytes" where
  "strncpy_pad i 0 s = s"
| "strncpy_pad i (Suc n) s = strncpy_pad (Suc i) n (s(i := 0))"

primrec strncpy_copy :: "bytes \<Rightarrow> nat \<Rightarrow> nat \<Rightarrow> bytes \<Rightarrow> bytes" where
  "strncpy_copy t i 0 s = s"
| "strncpy_copy t i (Suc n) s =
     (if t i \<noteq> 0 then strncpy_copy t (Suc i) n (s(i := t i))
      else strncpy_pad (Suc i) n (s(i := t i)))"

definition strncpy :: "bytes \<Rightarrow> bytes \<Rightarrow> int \<Rightarrow> bytes" where
  "strncpy s t n = strncpy_copy t 0 (nat n) s"

primrec safestrcpy_copy :: "bytes \<Rightarrow> nat \<Rightarrow> nat \<Rightarrow> bytes \<Rightarrow> bytes" where
  "safestrcpy_copy t i 0 s = s(i := 0)"
| "safestrcpy_copy t i (Suc n) s =
     (if t i \<noteq> 0 then safestrcpy_copy t (Suc i) n (s(i := t i))
      else (s(i := t i))(Suc i := 0))"

definition safestrcpy :: "bytes \<Rightarrow> bytes \<Rightarrow> int \<Rightarrow> bytes" where
  "safestrcpy s t n = (if n \<le> 0 then s else safestrcpy_copy t 0 (nat n - 1) s)"

partial_function (option) strlen_loop :: "bytes \<Rightarrow> nat \<Rightarrow> nat option" where
  "strlen_loop s n = (if s n = 0 then Some n else strlen_loop s (Suc n))"

definition strlen :: "bytes \<Rightarrow> nat option" where
  "strlen s = strlen_loop s 0"

text \<open>The string in the first \<open>n\<close> bytes of an array: everything before the first NUL.\<close>

definition cname :: "bytes \<Rightarrow> nat \<Rightarrow> byte list" where
  "cname p n = takeWhile (\<lambda>b. b \<noteq> 0) (map p [0..<n])"

lemma cname_Suc: "cname p (Suc n) = (if p 0 \<noteq> 0 then p 0 # cname (\<lambda>i. p (Suc i)) n else [])"
  by (simp add: cname_def upt_conv_Cons map_Suc_upt [symmetric] comp_def del: upt_Suc map_Suc_upt)

lemma cname_0 [simp]: "cname p 0 = []"
  by (simp add: cname_def)

lemma cname_nonzero: "b \<in> set (cname p n) \<Longrightarrow> b \<noteq> 0"
  by (auto simp: cname_def dest: set_takeWhileD)

lemma cname_length: "length (cname p n) \<le> n"
  unfolding cname_def by (rule le_trans [OF length_takeWhile_le]) simp

lemma strncmp_loop_eq_0:
  "strncmp_loop p q i n = 0 \<longleftrightarrow> cname (\<lambda>j. p (i + j)) n = cname (\<lambda>j. q (i + j)) n"
proof (induction p q i n rule: strncmp_loop.induct)
  case (1 p q i n)
  show ?case
  proof (cases n)
    case 0
    then show ?thesis by (simp add: strncmp_loop.simps [of p q i])
  next
    case (Suc k)
    show ?thesis
    proof (cases "p i \<noteq> 0 \<and> p i = q i")
      case True
      then have "strncmp_loop p q i n = strncmp_loop p q (Suc i) k"
        using Suc by (subst strncmp_loop.simps) auto
      also have "\<dots> = 0 \<longleftrightarrow> cname (\<lambda>j. p (Suc i + j)) k = cname (\<lambda>j. q (Suc i + j)) k"
        using "1.IH" True Suc by auto
      finally show ?thesis using True Suc by (auto simp: cname_Suc)
    next
      case False
      have "strncmp_loop p q i n = uint (p i) - uint (q i)"
        using False Suc by (auto simp: strncmp_loop.simps [of p q i])
      moreover have "uint (p i) - uint (q i) = 0 \<longleftrightarrow> p i = q i"
        by (simp add: word_uint_eq_iff)
      ultimately show ?thesis using False Suc by (auto simp: cname_Suc)
    qed
  qed
qed

lemma strncmp_eq_0: "strncmp p q n = 0 \<longleftrightarrow> cname p n = cname q n"
  by (simp add: strncmp_def strncmp_loop_eq_0)

lemma strncpy_pad_apply:
  "strncpy_pad i n s x = (if i \<le> x \<and> x < i + n then 0 else s x)"
  by (induction n arbitrary: i s) auto

lemma strncpy_copy_other: "x < i \<or> i + n \<le> x \<Longrightarrow> strncpy_copy t i n s x = s x"
  by (induction n arbitrary: i s) (auto simp: strncpy_pad_apply)

lemma strncpy_copy_apply:
  "i \<le> x \<Longrightarrow> x < i + n \<Longrightarrow>
   strncpy_copy t i n s x = (if \<exists>j. i \<le> j \<and> j < x \<and> t j = 0 then 0 else t x)"
proof (induction n arbitrary: i s)
  case (Suc n)
  show ?case
  proof (cases "x = i")
    case True
    then show ?thesis by (auto simp: strncpy_copy_other strncpy_pad_apply)
  next
    case False
    then have x: "Suc i \<le> x" "x < Suc i + n" using Suc.prems by auto
    have "{i..<x} = insert i {Suc i..<x}" using x by auto
    then have "(\<exists>j\<in>{i..<x}. t j = 0) \<longleftrightarrow> t i = 0 \<or> (\<exists>j\<in>{Suc i..<x}. t j = 0)" by simp
    then have "(\<exists>j. i \<le> j \<and> j < x \<and> t j = 0) \<longleftrightarrow> t i = 0 \<or> (\<exists>j. Suc i \<le> j \<and> j < x \<and> t j = 0)"
      by (simp add: Bex_def conj_assoc)
    with x show ?thesis by (cases "t i = 0") (simp_all add: strncpy_pad_apply Suc.IH [OF x])
  qed
qed simp

lemma cname_eqI:
  assumes "\<And>x. x < n \<Longrightarrow> p x = (if \<exists>j<x. q j = 0 then 0 else q x)"
  shows "cname p n = cname q n"
  using assms
proof (induction n arbitrary: p q)
  case (Suc n)
  have 0: "p 0 = q 0" using Suc.prems [of 0] by simp
  show ?case
  proof (cases "q 0 = 0")
    case True
    with 0 show ?thesis by (simp add: cname_Suc)
  next
    case False
    have "cname (\<lambda>i. p (Suc i)) n = cname (\<lambda>i. q (Suc i)) n"
    proof (rule Suc.IH)
      fix x assume "x < n"
      have "(\<exists>j<Suc x. q j = 0) \<longleftrightarrow> (\<exists>j<x. q (Suc j) = 0)"
        using False by (auto simp: less_Suc_eq_0_disj)
      with Suc.prems [of "Suc x"] \<open>x < n\<close>
      show "p (Suc x) = (if \<exists>j<x. q (Suc j) = 0 then 0 else q (Suc x))" by simp
    qed
    with 0 False show ?thesis by (simp add: cname_Suc)
  qed
qed simp

lemma strncpy_cname: "cname (strncpy s t (int n)) n = cname t n"
  by (rule cname_eqI) (simp add: strncpy_def strncpy_copy_apply)

lemma strncpy_frame: "int n \<le> int x \<Longrightarrow> strncpy s t (int n) x = s x"
  by (simp add: strncpy_def strncpy_copy_other)

lemma safestrcpy_copy_other: "x < i \<or> i + n < x \<Longrightarrow> safestrcpy_copy t i n s x = s x"
  by (induction n arbitrary: i s) auto

lemma safestrcpy_copy_cname:
  "cname (\<lambda>j. safestrcpy_copy t i n s (i + j)) (Suc n) = cname (\<lambda>j. t (i + j)) n"
proof (induction n arbitrary: i s)
  case (Suc n)
  show ?case
  proof (cases "t i = 0")
    case False
    have "cname (\<lambda>j. safestrcpy_copy t (Suc i) n (s(i := t i)) (Suc i + j)) (Suc n)
        = cname (\<lambda>j. t (Suc i + j)) n" by (rule Suc.IH)
    with False show ?thesis
      by (simp add: cname_Suc [of _ "Suc n"] cname_Suc [of "\<lambda>j. t (i + j)"] safestrcpy_copy_other)
  qed (simp add: cname_Suc)
qed (simp add: cname_Suc)

text \<open>\<^verbatim>\<open>safestrcpy\<close> keeps at most \<open>n - 1\<close> characters, ends them with a NUL and stays inside the
  \<open>n\<close> bytes it was given.\<close>

lemma safestrcpy_cname:
  "0 < n \<Longrightarrow> cname (safestrcpy s t (int n)) n = cname t (n - 1)"
  using safestrcpy_copy_cname [of t 0 "n - 1" s] by (simp add: safestrcpy_def)

lemma safestrcpy_frame: "int n \<le> int x \<Longrightarrow> safestrcpy s t (int n) x = s x"
  by (auto simp: safestrcpy_def safestrcpy_copy_other)

lemma strlen_loop_Some:
  "i \<le> k \<Longrightarrow> s k = 0 \<Longrightarrow> (\<And>j. i \<le> j \<Longrightarrow> j < k \<Longrightarrow> s j \<noteq> 0) \<Longrightarrow> strlen_loop s i = Some k"
proof (induction "k - i" arbitrary: i)
  case 0
  then show ?case by (simp add: strlen_loop.simps [of s i])
next
  case (Suc d)
  have "strlen_loop s (Suc i) = Some k"
    using Suc.hyps(2) Suc.prems by (intro Suc.hyps(1)) auto
  moreover have "s i \<noteq> 0" using Suc.hyps(2) Suc.prems by auto
  ultimately show ?case by (simp add: strlen_loop.simps [of s i])
qed

lemma strlen_Some: "s k = 0 \<Longrightarrow> (\<And>j. j < k \<Longrightarrow> s j \<noteq> 0) \<Longrightarrow> strlen s = Some k"
  unfolding strlen_def by (rule strlen_loop_Some) auto

lemma cname_strlen:
  assumes "k < n" and "s k = 0"
  shows "strlen s = Some (length (cname s n))"
proof -
  obtain l where l: "s l = 0" "l \<le> k" and below: "\<And>j. j < l \<Longrightarrow> s j \<noteq> 0"
    using assms(2) exists_least_iff [of "\<lambda>j. s j = 0"] by (metis not_le)
  have "[0..<n] = [0..<l] @ [l..<n]"
    using upt_add_eq_append [of 0 l "n - l"] l(2) assms(1) by simp
  also have "[l..<n] = l # [Suc l..<n]"
    using l(2) assms(1) by (intro upt_conv_Cons) simp
  finally have "cname s n = takeWhile (\<lambda>b. b \<noteq> 0) (map s [0..<l] @ 0 # map s [Suc l..<n])"
    using l(1) by (simp add: cname_def)
  also have "\<dots> = map s [0..<l]"
    using below by (subst takeWhile_append2) auto
  finally have "cname s n = map s [0..<l]" .
  moreover have "strlen s = Some l" using l(1) below by (rule strlen_Some)
  ultimately show ?thesis by simp
qed

end
