(* ===== verification/Xv6_Kalloc.thy ===== *)
theory Xv6_Kalloc
  imports Xv6_Sleeplock Xv6_String
begin

text \<open>
  The physical page allocator (\<^verbatim>\<open>kernel/kalloc.c\<close>). Physical memory is the byte array \<open>mem\<close>;
  the free list is threaded through the first eight bytes of each free page, as in the code.
  \<open>kend\<close> is the linker symbol \<^verbatim>\<open>end\<close>, the first address after the kernel.
\<close>

definition PGSIZE :: uint64 where "PGSIZE = 4096"
definition KERNBASE :: uint64 where "KERNBASE = 0x80000000"
definition PHYSTOP :: uint64 where "PHYSTOP = KERNBASE + 128*1024*1024"

definition PGROUNDUP :: "uint64 \<Rightarrow> uint64" where
  "PGROUNDUP a = (a + PGSIZE - 1) AND NOT (PGSIZE - 1)"

definition PGROUNDDOWN :: "uint64 \<Rightarrow> uint64" where
  "PGROUNDDOWN a = a AND NOT (PGSIZE - 1)"

record kmem = sleeplocks +
  mem :: bytes
  freelist :: uint64
  kend :: uint64

definition kfree :: "uint64 \<Rightarrow> ('z kmem_scheme, unit) kM" where
  "kfree pa =
     bind (gets kend) (\<lambda>e.
     seq (whenM (pa mod PGSIZE \<noteq> 0 \<or> pa < e \<or> pa \<ge> PHYSTOP) (panic ''kfree''))
    (seq (upd (\<lambda>s. s\<lparr>mem := memset (unat pa) 1 4096 (mem s)\<rparr>))
    (seq (acquire KmemLk)
    (seq (upd (\<lambda>s. s\<lparr>mem := st64 (unat pa) (freelist s) (mem s)\<rparr>))
    (seq (upd (\<lambda>s. s\<lparr>freelist := pa\<rparr>))
         (release KmemLk))))))"

definition kalloc :: "('z kmem_scheme, uint64) kM" where
  "kalloc =
     seq (acquire KmemLk)
    (bind (gets freelist) (\<lambda>r.
     seq (whenM (r \<noteq> 0) (upd (\<lambda>s. s\<lparr>freelist := ld64 (mem s) (unat r)\<rparr>)))
    (seq (release KmemLk)
    (seq (whenM (r \<noteq> 0) (upd (\<lambda>s. s\<lparr>mem := memset (unat r) 5 4096 (mem s)\<rparr>)))
    (ret r)))))"

text \<open>The loop of \<^verbatim>\<open>freerange\<close>; the fuel is the number of pages of the address space.\<close>

primrec freerange_loop :: "nat \<Rightarrow> uint64 \<Rightarrow> uint64 \<Rightarrow> ('z kmem_scheme, unit) kM" where
  "freerange_loop 0 p e = hang"
| "freerange_loop (Suc n) p e =
     (if p + PGSIZE \<le> e then seq (kfree p) (freerange_loop n (p + PGSIZE) e) else skip)"

definition freerange :: "uint64 \<Rightarrow> uint64 \<Rightarrow> ('z kmem_scheme, unit) kM" where
  "freerange pa_start pa_end = freerange_loop (2 ^ 52) (PGROUNDUP pa_start) pa_end"

definition kinit :: "('z kmem_scheme, unit) kM" where
  "kinit =
     seq (initlock KmemLk ''kmem'')
    (bind (gets kend) (\<lambda>e. freerange e PHYSTOP))"

section \<open>Page arithmetic\<close>

lemma PGSIZE_unat [simp]: "unat PGSIZE = 4096"
  by (simp add: PGSIZE_def)

lemma PHYSTOP_unat [simp]: "unat PHYSTOP = 2281701376"
  by (simp add: PHYSTOP_def KERNBASE_def)

lemma mod_PGSIZE: "a mod PGSIZE = 0 \<longleftrightarrow> unat a mod 4096 = 0"
proof -
  have "unat (a mod PGSIZE) = unat a mod 4096"
    by (simp add: unat_mod_distrib)
  then show ?thesis by (metis unat_0 unat_eq_zero)
qed

lemma and_not_4095: "(a :: uint64) AND - 4096 = push_bit 12 (drop_bit 12 a)"
proof -
  have "(- 4096 :: uint64) = NOT (mask 12)" by (simp add: mask_eq_exp_minus_1)
  moreover have "a AND NOT (mask 12) = push_bit 12 (drop_bit 12 a)"
    by (rule bit_word_eqI)
      (auto simp: bit_and_iff bit_not_iff bit_mask_iff bit_push_bit_iff bit_drop_bit_eq)
  ultimately show ?thesis by simp
qed

lemma unat_rounddown: "unat (a AND - 4096 :: uint64) = unat a div 4096 * 4096"
proof -
  have "unat a div 4096 * 4096 \<le> unat a" by simp
  also have "unat a < 2 ^ 64" using unat_bounds(4) [of a] by simp
  finally have "unat a div 4096 * 4096 < 2 ^ 64" .
  moreover have "(a AND - 4096) = 4096 * (a div 4096)"
    by (simp add: and_not_4095 push_bit_eq_mult drop_bit_eq_div)
  ultimately show ?thesis
    by (simp add: unat_word_ariths(2) unat_div_distrib mult.commute)
qed

lemma unat_PGROUNDDOWN: "unat (PGROUNDDOWN a) = unat a div 4096 * 4096"
  by (simp add: PGROUNDDOWN_def PGSIZE_def unat_rounddown)

lemma unat_PGROUNDUP:
  assumes "unat a + 4095 < 18446744073709551616"
  shows "unat (PGROUNDUP a) = (unat a + 4095) div 4096 * 4096"
proof -
  have "PGROUNDUP a = (a + 4095) AND - 4096"
    by (simp add: PGROUNDUP_def PGSIZE_def add.commute)
  moreover have "unat (a + 4095) = unat a + 4095"
    using assms by (simp add: unat_word_ariths(1))
  ultimately show ?thesis by (simp add: unat_rounddown)
qed

section \<open>The free list\<close>

primrec chain :: "bytes \<Rightarrow> uint64 \<Rightarrow> uint64 list \<Rightarrow> bool" where
  "chain m r [] = (r = 0)"
| "chain m r (p # ps) = (r = p \<and> p \<noteq> 0 \<and> chain m (ld64 m (unat p)) ps)"

definition page_ok :: "uint64 \<Rightarrow> uint64 \<Rightarrow> bool" where
  "page_ok e p \<longleftrightarrow> unat p mod 4096 = 0 \<and> e \<le> p \<and> p < PHYSTOP \<and> p \<noteq> 0"

definition in_page :: "uint64 \<Rightarrow> nat \<Rightarrow> bool" where
  "in_page p x \<longleftrightarrow> unat p \<le> x \<and> x < unat p + 4096"

text \<open>\<open>kmem_inv s ps\<close>: the free list of \<open>s\<close> is the list \<open>ps\<close> of distinct pages of the managed range.\<close>

definition kmem_inv :: "'z kmem_scheme \<Rightarrow> uint64 list \<Rightarrow> bool" where
  "kmem_inv s ps \<longleftrightarrow> chain (mem s) (freelist s) ps \<and> distinct ps \<and> (\<forall>p\<in>set ps. page_ok (kend s) p)"

lemma pages_disjoint:
  assumes "page_ok e p" and "page_ok e q" and "p \<noteq> q" and "in_page p x"
  shows "\<not> in_page q x"
proof
  assume "in_page q x"
  have "unat p div 4096 = x div 4096" "unat q div 4096 = x div 4096"
    using assms(1,2,4) \<open>in_page q x\<close>
    by (auto simp: page_ok_def in_page_def)
  then have "unat p = unat q"
    using assms(1,2) by (metis div_mult_mod_eq page_ok_def)
  with assms(3) show False by (simp add: word_unat_eq_iff)
qed

lemma chain_cong:
  "(\<And>p x. p \<in> set ps \<Longrightarrow> in_page p x \<Longrightarrow> m x = m' x) \<Longrightarrow> chain m r ps = chain m' r ps"
proof (induction ps arbitrary: r)
  case (Cons p ps)
  have "ld64 m (unat p) = ld64 m' (unat p)"
    using Cons.prems [of p] by (intro ld_cong) (auto simp: in_page_def)
  moreover have "chain m t ps = chain m' t ps" for t
    using Cons.prems by (intro Cons.IH) auto
  ultimately show ?case by simp
qed simp

lemma chain_unique: "chain m r ps \<Longrightarrow> chain m r qs \<Longrightarrow> ps = qs"
proof (induction ps arbitrary: r qs)
  case Nil
  then show ?case by (cases qs) auto
next
  case (Cons p ps)
  then show ?case by (cases qs) auto
qed

lemma kalloc_empty:
  assumes "calm (hw s)" and "\<not> locked (locks (hw s) KmemLk)" and "freelist s = 0"
  shows "\<exists>h'. same_hart (hw s) h' \<and> kalloc s = Ok 0 (s\<lparr>hw := h'\<rparr>)"
  using assms leave_enter_same [OF assms(2,1)]
  by (auto simp: kalloc_def acquire_free release_after [OF assms(1)] intro!: exI)

lemma kalloc_take:
  assumes "calm (hw s)" and "\<not> locked (locks (hw s) KmemLk)" and "freelist s = p" and "p \<noteq> 0"
  shows "\<exists>h'. same_hart (hw s) h' \<and> kalloc s = Ok p (s\<lparr>hw := h',
     freelist := ld64 (mem s) (unat p), mem := fill (unat p) 5 4096 (mem s)\<rparr>)"
  using assms leave_enter_same [OF assms(2,1)]
  by (auto simp: kalloc_def acquire_free release_after [OF assms(1)] memset_fill intro!: exI)

lemma kfree_ok:
  assumes "calm (hw s)" and "\<not> locked (locks (hw s) KmemLk)" and "page_ok (kend s) p"
  shows "\<exists>h'. same_hart (hw s) h' \<and> kfree p s = Ok () (s\<lparr>hw := h',
     mem := st64 (unat p) (freelist s) (fill (unat p) 1 4096 (mem s)), freelist := p\<rparr>)"
proof -
  have "p mod PGSIZE = 0" "\<not> p < kend s" "\<not> PHYSTOP \<le> p"
    using assms(3) by (auto simp: page_ok_def mod_PGSIZE)
  then show ?thesis
    using assms leave_enter_same [OF assms(2,1)]
    by (auto simp: kfree_def acquire_free release_after [OF assms(1)] memset_fill intro!: exI)
qed


lemma kmem_inv_take:
  assumes "kmem_inv s (p # ps)"
  shows "kmem_inv (s\<lparr>hw := h', freelist := ld64 (mem s) (unat p),
     mem := fill (unat p) 5 4096 (mem s)\<rparr>) ps"
proof -
  have "chain (fill (unat p) 5 4096 (mem s)) (ld64 (mem s) (unat p)) ps
      = chain (mem s) (ld64 (mem s) (unat p)) ps"
  proof (rule chain_cong)
    fix q x assume "q \<in> set ps" "in_page q x"
    with assms have "\<not> in_page p x"
      by (intro pages_disjoint [of "kend s" q]) (auto simp: kmem_inv_def)
    then show "fill (unat p) 5 4096 (mem s) x = mem s x" by (auto simp: fill_def in_page_def)
  qed
  with assms show ?thesis by (simp add: kmem_inv_def)
qed

lemma kmem_inv_put:
  assumes "kmem_inv s ps" and "page_ok (kend s) p" and "p \<notin> set ps"
  shows "kmem_inv (s\<lparr>hw := h', mem := st64 (unat p) (freelist s) (fill (unat p) 1 4096 (mem s)),
     freelist := p\<rparr>) (p # ps)"
proof -
  let ?m = "st64 (unat p) (freelist s) (fill (unat p) 1 4096 (mem s))"
  have "chain ?m (freelist s) ps = chain (mem s) (freelist s) ps"
  proof (rule chain_cong)
    fix q x assume "q \<in> set ps" "in_page q x"
    with assms have "\<not> in_page p x"
      by (intro pages_disjoint [of "kend s" q]) (auto simp: kmem_inv_def)
    then show "?m x = mem s x" by (auto simp: fill_def in_page_def st_other)
  qed
  with assms show ?thesis by (auto simp: kmem_inv_def page_ok_def)
qed

section \<open>Filling the free list at boot\<close>

lemma aligned_less:
  fixes a b :: nat
  assumes "a mod 4096 = 0" and "b mod 4096 = 0"
  shows "a < b + 4096 \<longleftrightarrow> a \<le> b" and "a < b \<longleftrightarrow> a + 4096 \<le> b"
proof -
  obtain i j where "a = 4096 * i" "b = 4096 * j" using assms by (auto simp: mod_eq_0_iff_dvd dvd_def)
  then show "a < b + 4096 \<longleftrightarrow> a \<le> b" and "a < b \<longleftrightarrow> a + 4096 \<le> b" by auto
qed

lemma page_ok_next:
  assumes "page_ok e p"
  shows "unat (p + PGSIZE) = unat p + 4096" and "p + PGSIZE \<le> PHYSTOP"
proof -
  have p: "unat p < 2281701376" "unat p mod 4096 = 0"
    using assms by (simp_all add: page_ok_def word_less_nat_alt)
  then show *: "unat (p + PGSIZE) = unat p + 4096" by (simp add: unat_word_ariths(1))
  have "unat p + 4096 \<le> 2281701376" using p aligned_less(2) [of "unat p" 2281701376] by simp
  with * show "p + PGSIZE \<le> PHYSTOP" by (simp add: word_le_nat_alt)
qed

lemma freerange_loop_all:
  fixes s :: "'z kmem_scheme"
  assumes "calm (hw s)" and "\<not> locked (locks (hw s) KmemLk)"
    and "unat p mod 4096 = 0" and "kend s \<le> p" and "p \<le> PHYSTOP" and "kend s \<noteq> 0"
    and "kmem_inv s ps" and "set ps = {q. page_ok (kend s) q \<and> q < p}"
    and "(unat PHYSTOP - unat p) div 4096 < n"
  shows "\<exists>h' m' f' ps'. same_hart (hw s) h' \<and>
     freerange_loop n p PHYSTOP s = Ok () (s\<lparr>hw := h', mem := m', freelist := f'\<rparr>) \<and>
     kmem_inv (s\<lparr>hw := h', mem := m', freelist := f'\<rparr>) ps' \<and> set ps' = {q. page_ok (kend s) q}"
  using assms
proof (induction n arbitrary: p s ps)
  case (Suc n)
  have pos: "p \<noteq> 0" using Suc.prems(4,6) by auto
  show ?case
  proof (cases "p < PHYSTOP")
    case True
    then have ok: "page_ok (kend s) p"
      using Suc.prems pos by (simp add: page_ok_def)
    note nxt = page_ok_next [OF ok]
    obtain h1 where h1: "same_hart (hw s) h1" "kfree p s = Ok () (s\<lparr>hw := h1,
        mem := st64 (unat p) (freelist s) (fill (unat p) 1 4096 (mem s)), freelist := p\<rparr>)"
      using kfree_ok [OF Suc.prems(1,2) ok] by blast
    let ?s1 = "s\<lparr>hw := h1, mem := st64 (unat p) (freelist s) (fill (unat p) 1 4096 (mem s)),
        freelist := p\<rparr>"
    have inv1: "kmem_inv ?s1 (p # ps)"
      using Suc.prems(7,8) ok by (intro kmem_inv_put) auto
    have lt: "q < p + PGSIZE \<longleftrightarrow> q = p \<or> q < p" if "page_ok (kend s) q" for q
    proof -
      have "unat q mod 4096 = 0" using that by (simp add: page_ok_def)
      then have "unat q < unat p + 4096 \<longleftrightarrow> unat q = unat p \<or> unat q < unat p"
        using Suc.prems(3) by (auto simp: aligned_less(1))
      then show ?thesis by (simp add: word_less_nat_alt nxt(1) word_unat_eq_iff)
    qed
    have "\<exists>h' m' f' ps'. same_hart (hw ?s1) h' \<and>
      freerange_loop n (p + PGSIZE) PHYSTOP ?s1 = Ok () (?s1\<lparr>hw := h', mem := m', freelist := f'\<rparr>) \<and>
      kmem_inv (?s1\<lparr>hw := h', mem := m', freelist := f'\<rparr>) ps' \<and> set ps' = {q. page_ok (kend ?s1) q}"
    proof (rule Suc.IH [OF _ _ _ _ nxt(2) _ inv1])
      show "calm (hw ?s1)" "\<not> locked (locks (hw ?s1) KmemLk)"
        using Suc.prems(1,2) h1(1) by (auto simp: same_hart_calm same_hart_locked)
      show "unat (p + PGSIZE) mod 4096 = 0" using Suc.prems(3) nxt(1) by simp
      show "kend ?s1 \<le> p + PGSIZE" using Suc.prems(4) nxt(1) by (simp add: word_le_nat_alt)
      show "kend ?s1 \<noteq> 0" using Suc.prems(6) by simp
      show "set (p # ps) = {q. page_ok (kend ?s1) q \<and> q < p + PGSIZE}"
        using Suc.prems(8) ok lt by auto
      have "unat p < 2281701376" using True by (simp add: word_less_nat_alt)
      then show "(unat PHYSTOP - unat (p + PGSIZE)) div 4096 < n"
        using Suc.prems(9) nxt page_ok_next [OF ok] by (simp add: word_le_nat_alt)
    qed
    then obtain h' m' f' ps' where r: "same_hart h1 h'"
      "freerange_loop n (p + PGSIZE) PHYSTOP ?s1 = Ok () (?s1\<lparr>hw := h', mem := m', freelist := f'\<rparr>)"
      "kmem_inv (?s1\<lparr>hw := h', mem := m', freelist := f'\<rparr>) ps'" "set ps' = {q. page_ok (kend s) q}"
      by auto
    have "freerange_loop (Suc n) p PHYSTOP s = Ok () (s\<lparr>hw := h', mem := m', freelist := f'\<rparr>)"
      using nxt(2) h1(2) r(2) by simp
    moreover have "same_hart (hw s) h'" using h1(1) r(1) by (rule same_hart_trans)
    moreover have "kmem_inv (s\<lparr>hw := h', mem := m', freelist := f'\<rparr>) ps'"
      using r(3) by (simp add: kmem_inv_def)
    ultimately show ?thesis using r(4) by blast
  next
    case False
    then have p: "p = PHYSTOP" using Suc.prems(5) by simp
    have "\<not> PHYSTOP + PGSIZE \<le> PHYSTOP"
      by (simp add: PHYSTOP_def PGSIZE_def KERNBASE_def)
    then have "freerange_loop (Suc n) p PHYSTOP s = Ok () s" by (simp add: p)
    moreover have "(page_ok (kend s) q \<and> q < PHYSTOP) = page_ok (kend s) q" for q
      by (auto simp: page_ok_def)
    then have "set ps = {q. page_ok (kend s) q}"
      using Suc.prems(8) by (simp only: p)
    ultimately show ?thesis
      using Suc.prems(7) by (intro exI [of _ "hw s"] exI [of _ "mem s"] exI [of _ "freelist s"]
        exI [of _ ps]) simp
  qed
qed simp

lemma kmem_inv_hw [simp]: "kmem_inv (s\<lparr>hw := h\<rparr>) ps = kmem_inv s ps"
  by (simp add: kmem_inv_def)

lemma initlock_run:
  "length (lktab (hw s)) < NLOCK \<Longrightarrow> initlock l nm s = Ok () (s\<lparr>hw := (hw s)\<lparr>
     locks := (locks (hw s))(l := \<lparr>locked = False, lkname = nm, lcpu = None, lk_n = 0, lk_nts = 0\<rparr>),
     lktab := lktab (hw s) @ [l]\<rparr>\<rparr>)"
  by (simp add: initlock_def set_lock_def if_run whenM_def)

lemma round_up_bounds:
  fixes n k :: nat
  assumes "n \<le> k * 4096"
  shows "(n + 4095) div 4096 * 4096 \<le> k * 4096" and "n \<le> (n + 4095) div 4096 * 4096"
    and "(n + 4095) div 4096 * 4096 < n + 4096"
proof -
  have "(n + 4095) div 4096 < Suc k" using assms by (simp add: less_mult_imp_div_less)
  then show "(n + 4095) div 4096 * 4096 \<le> k * 4096" by simp
  have "(n + 4095) div 4096 * 4096 + (n + 4095) mod 4096 = n + 4095" "(n + 4095) mod 4096 < 4096"
    by (rule div_mult_mod_eq) simp
  then show "n \<le> (n + 4095) div 4096 * 4096" "(n + 4095) div 4096 * 4096 < n + 4096" by linarith+
qed

lemma kinit_run:
  fixes s :: "'z kmem_scheme"
  assumes "calm (hw s)" and "length (lktab (hw s)) < NLOCK" and "freelist s = 0"
    and "kend s \<noteq> 0" and "kend s \<le> PHYSTOP"
  shows "\<exists>h' m' f' ps. kinit s = Ok () (s\<lparr>hw := h', mem := m', freelist := f'\<rparr>) \<and>
     kmem_inv (s\<lparr>hw := h', mem := m', freelist := f'\<rparr>) ps \<and> set ps = {q. page_ok (kend s) q} \<and>
     calm h' \<and> \<not> locked (locks h' KmemLk)"
proof -
  let ?h0 = "(hw s)\<lparr>locks := (locks (hw s))(KmemLk := \<lparr>locked = False, lkname = ''kmem'', lcpu = None,
     lk_n = 0, lk_nts = 0\<rparr>), lktab := lktab (hw s) @ [KmemLk]\<rparr>"
  let ?s0 = "s\<lparr>hw := ?h0\<rparr>"
  let ?p = "PGROUNDUP (kend s)"
  have e: "unat (kend s) \<le> 2281701376" "unat (kend s) > 0"
    using assms(4,5) by (simp_all add: word_le_nat_alt unat_gt_0)
  then have p: "unat ?p = (unat (kend s) + 4095) div 4096 * 4096" by (simp add: unat_PGROUNDUP)
  have p_le: "unat ?p \<le> 2281701376" "unat (kend s) \<le> unat ?p" "unat ?p < unat (kend s) + 4096"
    using round_up_bounds [of "unat (kend s)" 557056] e(1) by (simp_all add: p)
  have none: "\<not> (page_ok (kend s) q \<and> q < ?p)" for q
  proof
    assume q: "page_ok (kend s) q \<and> q < ?p"
    then have "unat q + 4096 \<le> unat ?p"
      using aligned_less(2) [of "unat q" "unat ?p"] by (simp add: page_ok_def word_less_nat_alt p)
    with p_le(3) q show False by (auto simp: page_ok_def word_le_nat_alt)
  qed
  have c0: "calm ?h0" using assms(1) by (simp add: calm_def intr_get_hw_def)
  have "\<exists>h' m' f' ps'. same_hart (hw ?s0) h' \<and>
     freerange_loop (2 ^ 52) ?p PHYSTOP ?s0 = Ok () (?s0\<lparr>hw := h', mem := m', freelist := f'\<rparr>) \<and>
     kmem_inv (?s0\<lparr>hw := h', mem := m', freelist := f'\<rparr>) ps' \<and> set ps' = {q. page_ok (kend ?s0) q}"
  proof (rule freerange_loop_all [where ps = "[]"])
    show "kmem_inv ?s0 []" using assms(3) by (simp add: kmem_inv_def)
    show "set [] = {q. page_ok (kend ?s0) q \<and> q < ?p}" using none by simp
    have "(unat PHYSTOP - unat ?p) div 4096 \<le> 2281701376 div 4096" by (intro div_le_mono) simp
    then show "(unat PHYSTOP - unat ?p) div 4096 < 2 ^ 52" by simp
  qed (use c0 e p p_le assms(4) in \<open>simp_all add: word_le_nat_alt\<close>)
  then obtain h' m' f' ps where r: "same_hart ?h0 h'"
    "freerange_loop (2 ^ 52) ?p PHYSTOP ?s0 = Ok () (?s0\<lparr>hw := h', mem := m', freelist := f'\<rparr>)"
    "kmem_inv (?s0\<lparr>hw := h', mem := m', freelist := f'\<rparr>) ps" "set ps = {q. page_ok (kend s) q}"
    by auto
  have "kinit s = Ok () (s\<lparr>hw := h', mem := m', freelist := f'\<rparr>)"
    using r(2) by (simp add: kinit_def initlock_run assms(2) freerange_def)
  moreover have "kmem_inv (s\<lparr>hw := h', mem := m', freelist := f'\<rparr>) ps"
    using r(3) by (simp add: kmem_inv_def)
  moreover have "calm h'" "\<not> locked (locks h' KmemLk)"
    using same_hart_calm [OF r(1)] same_hart_locked [OF r(1), of KmemLk] c0 by simp_all
  ultimately show ?thesis using r(4) by blast
qed

section \<open>The allocator's contract\<close>

text \<open>\<open>allocs alloc n\<close>: \<open>n\<close> allocations in a row, the results in order.\<close>

primrec allocs :: "('s, uint64) kM \<Rightarrow> nat \<Rightarrow> ('s, uint64 list) kM" where
  "allocs alloc 0 = ret []"
| "allocs alloc (Suc n) = bind alloc (\<lambda>p. bind (allocs alloc n) (\<lambda>ps. ret (p # ps)))"

locale page_allocator =
  fixes alloc :: "('s, uint64) kM"
    and dealloc :: "uint64 \<Rightarrow> ('s, unit) kM"
    and ready :: "'s \<Rightarrow> bool"
    and free_list :: "'s \<Rightarrow> uint64 list \<Rightarrow> bool"
    and managed :: "'s \<Rightarrow> uint64 \<Rightarrow> bool"
  assumes alloc_none: "ready s \<Longrightarrow> free_list s [] \<Longrightarrow>
      wp alloc (\<lambda>r t. r = 0 \<and> ready t \<and> free_list t [] \<and> managed t = managed s) s"
    and alloc_some: "ready s \<Longrightarrow> free_list s (p # ps) \<Longrightarrow>
      wp alloc (\<lambda>r t. r = p \<and> ready t \<and> free_list t ps \<and> managed t = managed s) s"
    and dealloc_ok: "ready s \<Longrightarrow> free_list s ps \<Longrightarrow> managed s p \<Longrightarrow> p \<notin> set ps \<Longrightarrow>
      wp (dealloc p) (\<lambda>_ t. ready t \<and> free_list t (p # ps) \<and> managed t = managed s) s"
    and free_list_ok: "free_list s ps \<Longrightarrow> distinct ps \<and> 0 \<notin> set ps \<and> (\<forall>p\<in>set ps. managed s p)"
begin

lemma allocs_run:
  "ready s \<Longrightarrow> free_list s ps \<Longrightarrow>
   wp (allocs alloc n) (\<lambda>rs t. rs = take n ps @ replicate (n - length ps) 0 \<and> ready t \<and>
     free_list t (drop n ps) \<and> managed t = managed s) s"
proof (induction n arbitrary: s ps)
  case 0
  then show ?case by (simp add: wp_simps)
next
  case (Suc n)
  show ?case
  proof (cases ps)
    case Nil
    with Suc.prems have "wp alloc (\<lambda>r t. r = 0 \<and> ready t \<and> free_list t [] \<and> managed t = managed s) s"
      by (simp add: alloc_none)
    then show ?thesis
      using Nil by (auto simp: wp_simps elim!: wp_mono intro!: wp_mono [OF Suc.IH [where ps = "[]"]])
  next
    case (Cons p qs)
    with Suc.prems have "wp alloc (\<lambda>r t. r = p \<and> ready t \<and> free_list t qs \<and> managed t = managed s) s"
      by (simp add: alloc_some)
    then show ?thesis
      using Cons by (auto simp: wp_simps elim!: wp_mono intro!: wp_mono [OF Suc.IH [where ps = qs]])
  qed
qed

lemma allocs_distinct:
  assumes "ready s" and "free_list s ps" and "n \<le> length ps"
  shows "wp (allocs alloc n) (\<lambda>rs t. length rs = n \<and> distinct rs \<and> 0 \<notin> set rs \<and>
     (\<forall>r\<in>set rs. managed s r) \<and> (\<exists>qs. free_list t qs \<and> set rs \<inter> set qs = {})) s"
proof (rule wp_mono [OF allocs_run [OF assms(1,2)]])
  fix rs t
  assume "rs = take n ps @ replicate (n - length ps) 0 \<and> ready t \<and> free_list t (drop n ps) \<and>
    managed t = managed s"
  moreover have "set (take n ps) \<inter> set (drop n ps) = {}"
    using free_list_ok [OF assms(2)] by (simp add: set_take_disj_set_drop_if_distinct)
  ultimately show "length rs = n \<and> distinct rs \<and> 0 \<notin> set rs \<and> (\<forall>r\<in>set rs. managed s r) \<and>
      (\<exists>qs. free_list t qs \<and> set rs \<inter> set qs = {})"
    using assms(3) free_list_ok [OF assms(2)] by (auto dest: in_set_takeD)
qed

lemma dealloc_alloc:
  assumes "ready s" and "free_list s ps" and "managed s p" and "p \<notin> set ps"
  shows "wp (seq (dealloc p) alloc) (\<lambda>r t. r = p \<and> free_list t ps) s"
  using dealloc_ok [OF assms] alloc_some by (fastforce simp: wp_simps elim!: wp_mono)

end

definition kmem_ready :: "'z kmem_scheme \<Rightarrow> bool" where
  "kmem_ready s \<longleftrightarrow> calm (hw s) \<and> \<not> locked (locks (hw s) KmemLk)"

lemma kmem_ready_same_hart: "kmem_ready s \<Longrightarrow> same_hart (hw s) (hw t) \<Longrightarrow> kmem_ready t"
  by (simp add: kmem_ready_def same_hart_calm same_hart_locked)

lemma kmem_inv_freelist:
  "kmem_inv s [] \<Longrightarrow> freelist s = 0" "kmem_inv s (p # ps) \<Longrightarrow> freelist s = p \<and> p \<noteq> 0"
  by (auto simp: kmem_inv_def)

lemma wp_kalloc_empty:
  assumes "kmem_ready s" and "kmem_inv s []"
  shows "wp kalloc (\<lambda>r t. r = 0 \<and> (\<exists>h'. same_hart (hw s) h' \<and> t = s\<lparr>hw := h'\<rparr>)) s"
  using kalloc_empty [of s] assms by (auto simp: wp_iff kmem_ready_def kmem_inv_freelist)

lemma wp_kalloc_take:
  assumes "kmem_ready s" and "kmem_inv s (p # ps)"
  shows "wp kalloc (\<lambda>r t. r = p \<and> (\<exists>h'. same_hart (hw s) h' \<and> t = s\<lparr>hw := h',
     freelist := ld64 (mem s) (unat p), mem := fill (unat p) 5 4096 (mem s)\<rparr>) \<and> kmem_inv t ps) s"
  using kalloc_take [of s p] assms kmem_inv_take [OF assms(2)]
  by (auto simp: wp_iff kmem_ready_def kmem_inv_freelist)

lemma wp_kfree:
  assumes "kmem_ready s" and "kmem_inv s ps" and "page_ok (kend s) p" and "p \<notin> set ps"
  shows "wp (kfree p) (\<lambda>_ t. (\<exists>h'. same_hart (hw s) h' \<and> t = s\<lparr>hw := h',
     mem := st64 (unat p) (freelist s) (fill (unat p) 1 4096 (mem s)), freelist := p\<rparr>) \<and>
     kmem_inv t (p # ps)) s"
  using kfree_ok [of s p] assms kmem_inv_put [OF assms(2-4)]
  by (auto simp: wp_iff kmem_ready_def)

interpretation ka: page_allocator kalloc kfree kmem_ready kmem_inv "\<lambda>s. page_ok (kend s)"
proof unfold_locales
  fix s :: "'a kmem_scheme" and p ps
  assume r: "kmem_ready s"
  show "kmem_inv s [] \<Longrightarrow> wp kalloc (\<lambda>r t. r = 0 \<and> kmem_ready t \<and> kmem_inv t [] \<and>
      page_ok (kend t) = page_ok (kend s)) s"
    by (rule wp_mono [OF wp_kalloc_empty [OF r]]) (auto intro: kmem_ready_same_hart [OF r])
  show "kmem_inv s (p # ps) \<Longrightarrow> wp kalloc (\<lambda>ra t. ra = p \<and> kmem_ready t \<and> kmem_inv t ps \<and>
      page_ok (kend t) = page_ok (kend s)) s"
    by (rule wp_mono [OF wp_kalloc_take [OF r]]) (auto intro: kmem_ready_same_hart [OF r])
  show "kmem_inv s ps \<Longrightarrow> page_ok (kend s) p \<Longrightarrow> p \<notin> set ps \<Longrightarrow>
      wp (kfree p) (\<lambda>_ t. kmem_ready t \<and> kmem_inv t (p # ps) \<and> page_ok (kend t) = page_ok (kend s)) s"
    by (rule wp_mono [OF wp_kfree [OF r]]) (auto intro: kmem_ready_same_hart [OF r])
qed (auto simp: kmem_inv_def page_ok_def)

section \<open>Properties\<close>

text \<open>A machine with three free pages, on which the properties are applied.\<close>

definition hart0 :: hart where
  "hart0 = \<lparr>tp = 0, sstatus = (\<lambda>_. 0), cpus = (\<lambda>_. \<lparr>cproc = Some 0, noff = 0, intena = False\<rparr>),
     locks = (\<lambda>_. \<lparr>locked = False, lkname = [], lcpu = None, lk_n = 0, lk_nts = 0\<rparr>), lktab = []\<rparr>"

definition proc0 :: proc where
  "proc0 = \<lparr>pstate = RUNNING, parent = None, chan = None, killed = False, xstate = 0, pid = 1,
     kstack = 0, sz = 0, pagetable = 0, tf = 0,
     pcontext = \<lparr>ctx_ra = 0, ctx_sp = 0, ctx_s = (\<lambda>_. 0)\<rparr>, ofile = (\<lambda>_. None), cwd = None,
     pname = (\<lambda>_. 0)\<rparr>"

definition kmem0 :: kmem where
  "kmem0 = \<lparr>hw = hart0, proc = (\<lambda>_. proc0), nextpid = 1, initproc = None, ticks = 0,
     slk = (\<lambda>_. \<lparr>sl_locked = False, sl_name = [], sl_pid = 0\<rparr>),
     mem = (\<lambda>a. 0), freelist = 0, kend = 0x80000000\<rparr>"

lemma hart0_facts [simp]:
  "calm hart0" "\<not> locked (locks hart0 l)" "quiet 0 hart0" "lktab hart0 = []" "tp hart0 = 0"
  by (simp_all add: hart0_def calm_def quiet_def)

lemma ld64_zero [simp]: "ld64 (\<lambda>_. 0) a = 0"
proof -
  have "get_le w (\<lambda>_. 0) a = 0" for w by (induction w arbitrary: a) auto
  then show ?thesis by (simp add: ld64_def)
qed

lemma kmem0_inv: "kmem_inv (kmem0\<lparr>freelist := 0x80000000\<rparr>) [0x80000000]" "kmem_ready kmem0"
  by (simp_all add: kmem_inv_def kmem0_def page_ok_def PHYSTOP_def KERNBASE_def kmem_ready_def)

text \<open>
  C5: With \<open>n\<close> or more pages on the free list, \<open>n\<close> calls of \<^verbatim>\<open>kalloc()\<close> in a row return \<open>n\<close>
  pairwise different, non-null, page-aligned pages of the managed range, and none of them is on
  the free list that is left: no page is ever handed out twice.
\<close>

theorem kalloc_distinct:
  assumes "kmem_ready s" and "kmem_inv s ps" and "n \<le> length ps"
  shows "wp (allocs kalloc n) (\<lambda>rs t. length rs = n \<and> distinct rs \<and> 0 \<notin> set rs \<and>
     (\<forall>r\<in>set rs. page_ok (kend s) r) \<and> (\<exists>qs. kmem_inv t qs \<and> set rs \<inter> set qs = {})) s"
  using assms by (rule ka.allocs_distinct)

theorem kalloc_distinct_witness:
  "wp (allocs kalloc 1) (\<lambda>rs t. length rs = 1 \<and> distinct rs \<and> 0 \<notin> set rs \<and>
     (\<forall>r\<in>set rs. page_ok 0x80000000 r) \<and> (\<exists>qs. kmem_inv t qs \<and> set rs \<inter> set qs = {}))
     (kmem0\<lparr>freelist := 0x80000000\<rparr>)"
  using kalloc_distinct [of "kmem0\<lparr>freelist := 0x80000000\<rparr>" "[0x80000000]" 1] kmem0_inv
  by (simp add: kmem0_def kmem_ready_def)



text \<open>
  C20: \<^verbatim>\<open>kinit()\<close> returns with a free list of exactly the whole pages between the end of the
  kernel and the top of memory.
\<close>

theorem kinit_all_pages:
  fixes s :: "'z kmem_scheme"
  assumes "calm (hw s)" and "length (lktab (hw s)) < NLOCK" and "freelist s = 0"
    and "kend s \<noteq> 0" and "kend s \<le> PHYSTOP"
  shows "wp kinit (\<lambda>_ t. kmem_ready t \<and>
     (\<exists>ps. kmem_inv t ps \<and> set ps = {q. unat q mod 4096 = 0 \<and> kend s \<le> q \<and> q < PHYSTOP})) s"
proof -
  have "{q. page_ok (kend s) q} = {q. unat q mod 4096 = 0 \<and> kend s \<le> q \<and> q < PHYSTOP}"
    using assms(4) by (auto simp: page_ok_def)
  then show ?thesis
    using kinit_run [OF assms] by (auto simp: wp_iff kmem_ready_def)
qed

theorem kinit_all_pages_witness:
  "wp kinit (\<lambda>_ t. kmem_ready t \<and> (\<exists>ps. kmem_inv t ps \<and>
     set ps = {q. unat q mod 4096 = 0 \<and> 0x80000000 \<le> q \<and> q < PHYSTOP})) kmem0"
  using kinit_all_pages [of kmem0] by (simp add: kmem0_def NLOCK_def PHYSTOP_def KERNBASE_def)

end
