(* ===== verification/Xv6_Printf.thy ===== *)
theory Xv6_Printf
  imports Xv6_Kalloc
begin

text \<open>
  The UART (\<^verbatim>\<open>kernel/uart.c\<close>), \<^verbatim>\<open>consputc()\<close> of \<^verbatim>\<open>kernel/console.c\<close> and the kernel's
  \<^verbatim>\<open>printf()\<close> (\<^verbatim>\<open>kernel/printf.c\<close>). The device is the byte string transmitted so far, the queue
  of received bytes and the control registers last written. A call of \<^verbatim>\<open>panic()\<close> is the outcome
  \<open>Panic\<close>; \<open>panicked\<close> says that another hart has called it.
\<close>

record tty = kmem +
  uart_out :: "byte list"
  uart_in :: "byte list"
  uart_thre :: bool
  uart_reg :: "nat \<Rightarrow> byte"
  panicked :: bool
  pr_locking :: bool

section \<open>The UART\<close>

definition WriteReg :: "nat \<Rightarrow> byte \<Rightarrow> ('z tty_scheme, unit) kM" where
  "WriteReg r v = upd (\<lambda>s. s\<lparr>uart_reg := (uart_reg s)(r := v)\<rparr>)"

definition IER :: nat where "IER = 1"
definition FCR :: nat where "FCR = 2"
definition LCR :: nat where "LCR = 3"

definition uartinit :: "('z tty_scheme, unit) kM" where
  "uartinit =
     seq (WriteReg IER 0x00)
    (seq (WriteReg LCR 0x80)
    (seq (WriteReg 0 0x03)
    (seq (WriteReg 1 0x00)
    (seq (WriteReg LCR 0x03)
    (seq (WriteReg FCR 0x07)
         (WriteReg IER 0x01))))))"

text \<open>\<^verbatim>\<open>uartputc()\<close> spins until the transmitter is empty; a transmitter that never becomes empty is
  \<open>Hang\<close>.\<close>

definition uartputc :: "int \<Rightarrow> ('z tty_scheme, unit) kM" where
  "uartputc c =
     bind (gets uart_thre) (\<lambda>empty.
     if empty then upd (\<lambda>s. s\<lparr>uart_out := uart_out s @ [of_int c]\<rparr>) else hang)"

definition uartgetc :: "('z tty_scheme, int) kM" where
  "uartgetc =
     bind (gets uart_in) (\<lambda>q. case q of
       c # cs \<Rightarrow> seq (upd (\<lambda>s. s\<lparr>uart_in := cs\<rparr>)) (ret (uint c))
     | [] \<Rightarrow> ret (-1))"

definition BACKSPACE :: int where "BACKSPACE = 0x100"

definition consputc :: "int \<Rightarrow> ('z tty_scheme, unit) kM" where
  "consputc c =
     bind (gets panicked) (\<lambda>dead.
     if dead then hang
     else if c = BACKSPACE then seq (uartputc 8) (seq (uartputc 32) (uartputc 8))
     else uartputc c)"

section \<open>printf\<close>

definition digits :: "nat \<Rightarrow> int" where
  "digits d = (if d < 10 then 48 + int d else 87 + int d)"

text \<open>
  The \<^verbatim>\<open>do ... while\<close> loop of \<^verbatim>\<open>printint\<close>; the first argument is the space left in
  \<^verbatim>\<open>char buf[16]\<close>, and \<open>None\<close> is a store past its end.
\<close>

primrec printint_loop :: "nat \<Rightarrow> uint \<Rightarrow> uint \<Rightarrow> int list \<Rightarrow> int list option" where
  "printint_loop 0 x base buf = None"
| "printint_loop (Suc n) x base buf =
     (let buf' = buf @ [digits (unat (x mod base))]; x' = x div base
      in if x' \<noteq> 0 then printint_loop n x' base buf' else Some buf')"

definition printint_buf :: "int \<Rightarrow> uint \<Rightarrow> bool \<Rightarrow> int list option" where
  "printint_buf xx base sign =
     (let neg = (sign \<and> xx < 0);
          x = (if neg then of_int (- xx) else of_int xx)
      in case printint_loop 16 x base [] of
           None \<Rightarrow> None
         | Some buf \<Rightarrow> if neg then (if length buf < 16 then Some (buf @ [45]) else None) else Some buf)"

primrec consputs :: "int list \<Rightarrow> ('z tty_scheme, unit) kM" where
  "consputs [] = skip"
| "consputs (c # cs) = seq (consputc c) (consputs cs)"

definition printint :: "int \<Rightarrow> uint \<Rightarrow> bool \<Rightarrow> ('z tty_scheme, unit) kM" where
  "printint xx base sign = (case printint_buf xx base sign of
       None \<Rightarrow> hang
     | Some buf \<Rightarrow> consputs (rev buf))"

primrec printptr_loop :: "nat \<Rightarrow> uint64 \<Rightarrow> ('z tty_scheme, unit) kM" where
  "printptr_loop 0 x = skip"
| "printptr_loop (Suc n) x =
     seq (consputc (digits (unat (drop_bit 60 x)))) (printptr_loop n (push_bit 4 x))"

definition printptr :: "uint64 \<Rightarrow> ('z tty_scheme, unit) kM" where
  "printptr x = seq (consputc 48) (seq (consputc 120) (printptr_loop 16 x))"

text \<open>
  The variable arguments, typed. A directive whose argument is missing or of another type is
  undefined behaviour in C, and \<open>Hang\<close> here. A string argument is its characters up to the
  terminating zero, \<open>None\<close> being the null pointer.
\<close>

datatype vararg = VInt int | VPtr uint64 | VStr "string option"

definition str_bytes :: "string \<Rightarrow> int list" where
  "str_bytes s = map of_char s"

fun printf_loop :: "string \<Rightarrow> vararg list \<Rightarrow> ('z tty_scheme, unit) kM" where
  "printf_loop [] ap = skip"
| "printf_loop (c # cs) ap =
     (if c \<noteq> CHR ''%'' then seq (consputc (of_char c)) (printf_loop cs ap)
      else case cs of
        [] \<Rightarrow> skip
      | d # ds \<Rightarrow>
          if d = CHR ''d'' then (case ap of
              VInt n # ap' \<Rightarrow> seq (printint n 10 True) (printf_loop ds ap') | _ \<Rightarrow> hang)
          else if d = CHR ''x'' then (case ap of
              VInt n # ap' \<Rightarrow> seq (printint n 16 True) (printf_loop ds ap') | _ \<Rightarrow> hang)
          else if d = CHR ''p'' then (case ap of
              VPtr p # ap' \<Rightarrow> seq (printptr p) (printf_loop ds ap') | _ \<Rightarrow> hang)
          else if d = CHR ''s'' then (case ap of
              VStr s # ap' \<Rightarrow>
                seq (consputs (str_bytes (case s of None \<Rightarrow> ''(null)'' | Some t \<Rightarrow> t)))
                    (printf_loop ds ap')
            | _ \<Rightarrow> hang)
          else if d = CHR ''%'' then seq (consputc 37) (printf_loop ds ap)
          else seq (consputc 37) (seq (consputc (of_char d)) (printf_loop ds ap)))"

definition printf :: "string option \<Rightarrow> vararg list \<Rightarrow> ('z tty_scheme, unit) kM" where
  "printf fmt ap =
     bind (gets pr_locking) (\<lambda>locking.
     seq (whenM locking (acquire PrLk))
    (case fmt of
       None \<Rightarrow> panic ''null fmt''
     | Some f \<Rightarrow> seq (printf_loop f ap) (whenM locking (release PrLk))))"

definition printfinit :: "('z tty_scheme, unit) kM" where
  "printfinit = seq (initlock PrLk ''pr'') (upd (\<lambda>s. s\<lparr>pr_locking := True\<rparr>))"

end
