(* ===== verification/Xv6_Vm.thy ===== *)
theory Xv6_Vm
  imports Xv6_Printf
begin

text \<open>
  Virtual memory (\<^verbatim>\<open>kernel/vm.c\<close>, with the page-table macros of \<^verbatim>\<open>kernel/riscv.h\<close> and the
  copies of \<^verbatim>\<open>kernel/proc.c\<close> that choose between user and kernel addresses). Page tables live in
  the physical memory \<open>mem\<close>, entry by entry. Kernel objects that are not pages (a local variable,
  the data of a disk buffer) are byte arrays of their own: a copy from or to one takes the array.
  \<open>kstk\<close> holds the local objects of the running thread that are passed to \<^verbatim>\<open>readi\<close> and
  \<^verbatim>\<open>writei\<close> by kernel address.
\<close>

record vm = tty +
  kernel_pagetable :: uint64
  satp :: uint64
  etext :: uint64
  trampoline :: uint64
  kstk :: bytes

definition PTE_V :: uint64 where "PTE_V = 1"
definition PTE_R :: uint64 where "PTE_R = 2"
definition PTE_W :: uint64 where "PTE_W = 4"
definition PTE_X :: uint64 where "PTE_X = 8"
definition PTE_U :: uint64 where "PTE_U = 16"

definition PA2PTE :: "uint64 \<Rightarrow> uint64" where
  "PA2PTE pa = push_bit 10 (drop_bit 12 pa)"

definition PTE2PA :: "uint64 \<Rightarrow> uint64" where
  "PTE2PA pte = push_bit 12 (drop_bit 10 pte)"

definition PTE_FLAGS :: "uint64 \<Rightarrow> uint64" where
  "PTE_FLAGS pte = pte AND 0x3FF"

definition PX :: "nat \<Rightarrow> uint64 \<Rightarrow> uint64" where
  "PX level va = drop_bit (12 + 9 * level) va AND 0x1FF"

definition MAXVA :: uint64 where "MAXVA = push_bit 38 1"
definition TRAMPOLINE :: uint64 where "TRAMPOLINE = MAXVA - PGSIZE"
definition TRAPFRAME :: uint64 where "TRAPFRAME = TRAMPOLINE - PGSIZE"
definition MAKE_SATP :: "uint64 \<Rightarrow> uint64" where
  "MAKE_SATP pt = push_bit 60 8 OR drop_bit 12 pt"

definition UART0 :: uint64 where "UART0 = 0x10000000"
definition CLINT :: uint64 where "CLINT = 0x2000000"
definition PLIC :: uint64 where "PLIC = 0x0c000000"
definition VIRTION :: "nat \<Rightarrow> uint64" where "VIRTION n = 0x10000000 + (of_nat n + 1) * 0x1000"

section \<open>Walking and mapping\<close>

definition ldm :: "uint64 \<Rightarrow> ('z kmem_scheme, uint64) kM" where
  "ldm a = gets (\<lambda>s. ld64 (mem s) (unat a))"

definition stm :: "uint64 \<Rightarrow> uint64 \<Rightarrow> ('z kmem_scheme, unit) kM" where
  "stm a v = upd (\<lambda>s. s\<lparr>mem := st64 (unat a) v (mem s)\<rparr>)"

definition zero_page :: "uint64 \<Rightarrow> ('z kmem_scheme, unit) kM" where
  "zero_page p = upd (\<lambda>s. s\<lparr>mem := memset (unat p) 0 4096 (mem s)\<rparr>)"

primrec walk_loop :: "nat \<Rightarrow> uint64 \<Rightarrow> uint64 \<Rightarrow> bool \<Rightarrow> ('z kmem_scheme, uint64) kM" where
  "walk_loop 0 pt va alloc = ret (pt + 8 * PX 0 va)"
| "walk_loop (Suc l) pt va alloc =
     bind (ldm (pt + 8 * PX (Suc l) va)) (\<lambda>pte.
     if pte AND PTE_V \<noteq> 0 then walk_loop l (PTE2PA pte) va alloc
     else if \<not> alloc then ret 0
     else bind kalloc (\<lambda>p.
       if p = 0 then ret 0
       else seq (zero_page p)
           (seq (stm (pt + 8 * PX (Suc l) va) (PA2PTE p OR PTE_V))
                (walk_loop l p va alloc))))"

definition walk :: "uint64 \<Rightarrow> uint64 \<Rightarrow> bool \<Rightarrow> ('z kmem_scheme, uint64) kM" where
  "walk pt va alloc = (if va \<ge> MAXVA then panic ''walk'' else walk_loop 2 pt va alloc)"

definition walkaddr :: "uint64 \<Rightarrow> uint64 \<Rightarrow> ('z kmem_scheme, uint64) kM" where
  "walkaddr pt va =
     (if va \<ge> MAXVA then ret 0
      else bind (walk pt va False) (\<lambda>pa.
        if pa = 0 then ret 0
        else bind (ldm pa) (\<lambda>pte.
          if pte AND PTE_V = 0 then ret 0
          else if pte AND PTE_U = 0 then ret 0
          else ret (PTE2PA pte))))"

text \<open>
  The loops over the pages of a range stop when \<^verbatim>\<open>a == last\<close>. Both are page aligned, so there are
  exactly \<^verbatim>\<open>(last - a) / PGSIZE + 1\<close> turns (modulo the wrap-around of addresses), which is the fuel.
\<close>

primrec mappages_loop :: "nat \<Rightarrow> uint64 \<Rightarrow> uint64 \<Rightarrow> uint64 \<Rightarrow> uint64 \<Rightarrow> uint64 \<Rightarrow> ('z kmem_scheme, int) kM" where
  "mappages_loop 0 pt a lst pa perm = hang"
| "mappages_loop (Suc n) pt a lst pa perm =
     bind (walk pt a True) (\<lambda>pte.
     if pte = 0 then ret (-1)
     else bind (ldm pte) (\<lambda>e.
       seq (whenM (e AND PTE_V \<noteq> 0) (panic ''remap''))
      (seq (stm pte (PA2PTE pa OR perm OR PTE_V))
      (if a = lst then ret 0
       else mappages_loop n pt (a + PGSIZE) lst (pa + PGSIZE) perm))))"

definition range_fuel :: "uint64 \<Rightarrow> uint64 \<Rightarrow> nat" where
  "range_fuel a lst = Suc (unat (lst - a) div 4096)"

definition mappages :: "uint64 \<Rightarrow> uint64 \<Rightarrow> uint64 \<Rightarrow> uint64 \<Rightarrow> uint64 \<Rightarrow> ('z kmem_scheme, int) kM" where
  "mappages pt va len pa perm =
     (let a = PGROUNDDOWN va; lst = PGROUNDDOWN (va + len - 1)
      in mappages_loop (range_fuel a lst) pt a lst pa perm)"

primrec uvmunmap_loop :: "nat \<Rightarrow> uint64 \<Rightarrow> uint64 \<Rightarrow> uint64 \<Rightarrow> bool \<Rightarrow> ('z tty_scheme, unit) kM" where
  "uvmunmap_loop 0 pt a lst do_free = hang"
| "uvmunmap_loop (Suc n) pt a lst do_free =
     bind (walk pt a False) (\<lambda>pte.
     if pte = 0 then panic ''uvmunmap: walk''
     else bind (ldm pte) (\<lambda>e.
       if e AND PTE_V = 0 then
         seq (printf (Some ''va=%p pte=%p\<newline>'') [VPtr a, VPtr e]) (panic ''uvmunmap: not mapped'')
       else if PTE_FLAGS e = PTE_V then panic ''uvmunmap: not a leaf''
       else
         seq (whenM do_free (kfree (PTE2PA e)))
        (seq (stm pte 0)
        (if a = lst then skip
         else uvmunmap_loop n pt (a + PGSIZE) lst do_free))))"

definition uvmunmap :: "uint64 \<Rightarrow> uint64 \<Rightarrow> uint64 \<Rightarrow> bool \<Rightarrow> ('z tty_scheme, unit) kM" where
  "uvmunmap pt va len do_free =
     (let a = PGROUNDDOWN va; lst = PGROUNDDOWN (va + len - 1)
      in uvmunmap_loop (range_fuel a lst) pt a lst do_free)"

section \<open>The kernel's page table\<close>

definition kvmmap :: "uint64 \<Rightarrow> uint64 \<Rightarrow> uint64 \<Rightarrow> uint64 \<Rightarrow> ('z vm_scheme, unit) kM" where
  "kvmmap va pa len perm =
     bind (gets kernel_pagetable) (\<lambda>kpt.
     bind (mappages kpt va len pa perm) (\<lambda>r.
     whenM (r \<noteq> 0) (panic ''kvmmap'')))"

text \<open>With no page left, \<^verbatim>\<open>kvminit\<close> clears address 0 before there is a trap handler: \<open>Hang\<close>.\<close>

definition kvminit :: "('z vm_scheme, unit) kM" where
  "kvminit =
     bind kalloc (\<lambda>kpt.
     seq (upd (\<lambda>s. s\<lparr>kernel_pagetable := kpt\<rparr>))
    (seq (if kpt = 0 then hang else zero_page kpt)
    (seq (kvmmap UART0 UART0 PGSIZE (PTE_R OR PTE_W))
    (seq (kvmmap (VIRTION 0) (VIRTION 0) PGSIZE (PTE_R OR PTE_W))
    (seq (kvmmap (VIRTION 1) (VIRTION 1) PGSIZE (PTE_R OR PTE_W))
    (seq (kvmmap CLINT CLINT 0x10000 (PTE_R OR PTE_W))
    (seq (kvmmap PLIC PLIC 0x400000 (PTE_R OR PTE_W))
    (bind (gets etext) (\<lambda>e.
     seq (kvmmap KERNBASE KERNBASE (e - KERNBASE) (PTE_R OR PTE_X))
    (seq (kvmmap e e (PHYSTOP - e) (PTE_R OR PTE_W))
    (bind (gets trampoline) (\<lambda>tr.
     kvmmap TRAMPOLINE tr PGSIZE (PTE_R OR PTE_X)))))))))))))"

definition kvminithart :: "('z vm_scheme, unit) kM" where
  "kvminithart = upd (\<lambda>s. s\<lparr>satp := MAKE_SATP (kernel_pagetable s)\<rparr>)"

definition kvmpa :: "uint64 \<Rightarrow> ('z vm_scheme, uint64) kM" where
  "kvmpa va =
     bind (gets kernel_pagetable) (\<lambda>kpt.
     bind (walk kpt va False) (\<lambda>pte.
     seq (whenM (pte = 0) (panic ''kvmpa''))
    (bind (ldm pte) (\<lambda>e.
     seq (whenM (e AND PTE_V = 0) (panic ''kvmpa''))
    (ret (PTE2PA e + va mod PGSIZE))))))"

section \<open>User memory\<close>

definition uvmcreate :: "('z kmem_scheme, uint64) kM" where
  "uvmcreate =
     bind kalloc (\<lambda>pt.
     seq (whenM (pt = 0) (panic ''uvmcreate: out of memory''))
    (seq (zero_page pt)
    (ret pt)))"

text \<open>The result of \<^verbatim>\<open>kalloc\<close> is used unchecked: with no page left the kernel faults on address 0.\<close>

definition uvminit :: "uint64 \<Rightarrow> bytes \<Rightarrow> nat \<Rightarrow> ('z kmem_scheme, unit) kM" where
  "uvminit pt src len =
     seq (whenM (len \<ge> 4096) (panic ''inituvm: more than a page''))
    (bind kalloc (\<lambda>p.
     seq (whenM (p = 0) (panic ''kerneltrap''))
    (seq (zero_page p)
    (seq (mappages pt 0 PGSIZE p (PTE_W OR PTE_R OR PTE_X OR PTE_U))
         (upd (\<lambda>s. s\<lparr>mem := blit (unat p) src 0 len (mem s)\<rparr>))))))"

definition uvmdealloc :: "uint64 \<Rightarrow> uint64 \<Rightarrow> uint64 \<Rightarrow> ('z tty_scheme, uint64) kM" where
  "uvmdealloc pt oldsz newsz =
     (if newsz \<ge> oldsz then ret oldsz
      else let newup = PGROUNDUP newsz
        in seq (whenM (newup < PGROUNDUP oldsz) (uvmunmap pt newup (oldsz - newup) True))
               (ret newsz))"

primrec uvmalloc_loop :: "nat \<Rightarrow> uint64 \<Rightarrow> uint64 \<Rightarrow> uint64 \<Rightarrow> uint64 \<Rightarrow> ('z tty_scheme, uint64) kM" where
  "uvmalloc_loop 0 pt a oldsz newsz = hang"
| "uvmalloc_loop (Suc n) pt a oldsz newsz =
     (if a < newsz then
        bind kalloc (\<lambda>p.
        if p = 0 then seq (uvmdealloc pt a oldsz) (ret 0)
        else seq (zero_page p)
            (bind (mappages pt a PGSIZE p (PTE_W OR PTE_X OR PTE_R OR PTE_U)) (\<lambda>r.
             if r \<noteq> 0 then seq (kfree p) (seq (uvmdealloc pt a oldsz) (ret 0))
             else uvmalloc_loop n pt (a + PGSIZE) oldsz newsz)))
      else ret newsz)"

definition uvmalloc :: "uint64 \<Rightarrow> uint64 \<Rightarrow> uint64 \<Rightarrow> ('z tty_scheme, uint64) kM" where
  "uvmalloc pt oldsz newsz =
     (if newsz < oldsz then ret oldsz
      else let oldsz = PGROUNDUP oldsz
        in uvmalloc_loop (unat newsz div 4096 + 2) pt oldsz oldsz newsz)"

text \<open>
  \<^verbatim>\<open>freewalk\<close> recurses along the page-table tree. The first argument bounds the depth; \<^verbatim>\<open>walk\<close>
  builds trees of three levels, and a deeper one would make the code recurse without end.
\<close>

primrec freewalk_rec :: "nat \<Rightarrow> uint64 \<Rightarrow> ('z kmem_scheme, unit) kM" where
  "freewalk_rec 0 pt = hang"
| "freewalk_rec (Suc l) pt =
     seq (for_upto 0 512 (\<lambda>i.
       bind (ldm (pt + 8 * of_nat i)) (\<lambda>pte.
       if pte AND PTE_V \<noteq> 0 \<and> pte AND (PTE_R OR PTE_W OR PTE_X) = 0 then
         seq (freewalk_rec l (PTE2PA pte)) (stm (pt + 8 * of_nat i) 0)
       else whenM (pte AND PTE_V \<noteq> 0) (panic ''freewalk: leaf''))))
    (kfree pt)"

definition freewalk :: "uint64 \<Rightarrow> ('z kmem_scheme, unit) kM" where
  "freewalk pt = freewalk_rec 3 pt"

definition uvmfree :: "uint64 \<Rightarrow> uint64 \<Rightarrow> ('z tty_scheme, unit) kM" where
  "uvmfree pt len = seq (uvmunmap pt 0 len True) (freewalk pt)"

primrec uvmcopy_loop :: "nat \<Rightarrow> uint64 \<Rightarrow> uint64 \<Rightarrow> uint64 \<Rightarrow> uint64 \<Rightarrow> ('z tty_scheme, int) kM" where
  "uvmcopy_loop 0 old new i len = hang"
| "uvmcopy_loop (Suc n) old new i len =
     (if i < len then
        bind (walk old i False) (\<lambda>pte.
        seq (whenM (pte = 0) (panic ''uvmcopy: pte should exist''))
       (bind (ldm pte) (\<lambda>e.
        seq (whenM (e AND PTE_V = 0) (panic ''uvmcopy: page not present''))
       (bind kalloc (\<lambda>p.
        if p = 0 then seq (uvmunmap new 0 i True) (ret (-1))
        else seq (upd (\<lambda>s. s\<lparr>mem := memmove (unat p) (unat (PTE2PA e)) 4096 (mem s)\<rparr>))
            (bind (mappages new i PGSIZE p (PTE_FLAGS e)) (\<lambda>r.
             if r \<noteq> 0 then seq (kfree p) (seq (uvmunmap new 0 i True) (ret (-1)))
             else uvmcopy_loop n old new (i + PGSIZE) len)))))))
      else ret 0)"

definition uvmcopy :: "uint64 \<Rightarrow> uint64 \<Rightarrow> uint64 \<Rightarrow> ('z tty_scheme, int) kM" where
  "uvmcopy old new len = uvmcopy_loop (unat len div 4096 + 2) old new 0 len"

definition uvmclear :: "uint64 \<Rightarrow> uint64 \<Rightarrow> ('z kmem_scheme, unit) kM" where
  "uvmclear pt va =
     bind (walk pt va False) (\<lambda>pte.
     seq (whenM (pte = 0) (panic ''uvmclear''))
    (bind (ldm pte) (\<lambda>e. stm pte (e AND NOT PTE_U))))"

section \<open>Copies between the kernel and user memory\<close>

text \<open>
  Each turn of \<^verbatim>\<open>copyout\<close> and \<^verbatim>\<open>copyin\<close> covers the rest of one page, so a copy of \<open>len\<close> bytes takes at
  most \<^verbatim>\<open>len / PGSIZE + 2\<close> turns. The kernel side is the array \<open>src\<close> (or \<open>dst\<close>) from index \<open>off\<close>.
\<close>

primrec copyout_loop :: "nat \<Rightarrow> uint64 \<Rightarrow> uint64 \<Rightarrow> bytes \<Rightarrow> nat \<Rightarrow> uint64 \<Rightarrow> ('z kmem_scheme, int) kM" where
  "copyout_loop 0 pt dstva src off len = (if len > 0 then hang else ret 0)"
| "copyout_loop (Suc k) pt dstva src off len =
     (if len > 0 then
        let va0 = PGROUNDDOWN dstva
        in bind (walkaddr pt va0) (\<lambda>pa0.
           if pa0 = 0 then ret (-1)
           else
             let n0 = PGSIZE - (dstva - va0);
                 n = (if n0 > len then len else n0)
             in seq (upd (\<lambda>s. s\<lparr>mem := blit (unat (pa0 + (dstva - va0))) src off (unat n) (mem s)\<rparr>))
                    (copyout_loop k pt (va0 + PGSIZE) src (off + unat n) (len - n)))
      else ret 0)"

definition copy_fuel :: "uint64 \<Rightarrow> nat" where
  "copy_fuel len = unat len div 4096 + 2"

definition copyout :: "uint64 \<Rightarrow> uint64 \<Rightarrow> bytes \<Rightarrow> nat \<Rightarrow> uint64 \<Rightarrow> ('z kmem_scheme, int) kM" where
  "copyout pt dstva src off len = copyout_loop (copy_fuel len) pt dstva src off len"

primrec copyin_loop :: "nat \<Rightarrow> uint64 \<Rightarrow> bytes \<Rightarrow> nat \<Rightarrow> uint64 \<Rightarrow> uint64 \<Rightarrow> ('z kmem_scheme, int \<times> bytes) kM" where
  "copyin_loop 0 pt dst off srcva len = (if len > 0 then hang else ret (0, dst))"
| "copyin_loop (Suc k) pt dst off srcva len =
     (if len > 0 then
        let va0 = PGROUNDDOWN srcva
        in bind (walkaddr pt va0) (\<lambda>pa0.
           if pa0 = 0 then ret (-1, dst)
           else
             let n0 = PGSIZE - (srcva - va0);
                 n = (if n0 > len then len else n0)
             in bind (gets mem) (\<lambda>m.
                copyin_loop k pt (blit off m (unat (pa0 + (srcva - va0))) (unat n) dst)
                  (off + unat n) (va0 + PGSIZE) (len - n)))
      else ret (0, dst))"

definition copyin :: "uint64 \<Rightarrow> bytes \<Rightarrow> nat \<Rightarrow> uint64 \<Rightarrow> uint64 \<Rightarrow> ('z kmem_scheme, int \<times> bytes) kM" where
  "copyin pt dst off srcva len = copyin_loop (copy_fuel len) pt dst off srcva len"

text \<open>The byte loop of \<^verbatim>\<open>copyinstr\<close> over one page: the array, the next index, and whether the zero
  byte was found.\<close>

primrec copyinstr_page :: "nat \<Rightarrow> bytes \<Rightarrow> nat \<Rightarrow> bytes \<Rightarrow> nat \<Rightarrow> bytes \<times> nat \<times> bool" where
  "copyinstr_page 0 m p dst off = (dst, off, False)"
| "copyinstr_page (Suc n) m p dst off =
     (if m p = 0 then (dst(off := 0), off, True)
      else copyinstr_page n m (Suc p) (dst(off := m p)) (Suc off))"

primrec copyinstr_loop :: "nat \<Rightarrow> uint64 \<Rightarrow> bytes \<Rightarrow> nat \<Rightarrow> uint64 \<Rightarrow> uint64 \<Rightarrow> ('z kmem_scheme, int \<times> bytes) kM" where
  "copyinstr_loop 0 pt dst off srcva mx = (if mx > 0 then hang else ret (-1, dst))"
| "copyinstr_loop (Suc k) pt dst off srcva mx =
     (if mx > 0 then
        let va0 = PGROUNDDOWN srcva
        in bind (walkaddr pt va0) (\<lambda>pa0.
           if pa0 = 0 then ret (-1, dst)
           else
             let n0 = PGSIZE - (srcva - va0);
                 n = (if n0 > mx then mx else n0)
             in bind (gets mem) (\<lambda>m.
                case copyinstr_page (unat n) m (unat (pa0 + (srcva - va0))) dst off of
                  (dst', off', got_null) \<Rightarrow>
                    if got_null then ret (0, dst')
                    else copyinstr_loop k pt dst' off' (va0 + PGSIZE) (mx - n)))
      else ret (-1, dst))"

definition copyinstr :: "uint64 \<Rightarrow> bytes \<Rightarrow> uint64 \<Rightarrow> uint64 \<Rightarrow> ('z kmem_scheme, int \<times> bytes) kM" where
  "copyinstr pt dst srcva mx = copyinstr_loop (copy_fuel mx) pt dst 0 srcva mx"

text \<open>
  An address that is either a user virtual address (\<^verbatim>\<open>user_dst\<close> or \<^verbatim>\<open>user_src\<close> set), a physical
  address of the kernel's direct map, or a local object of the thread.
\<close>

datatype eaddr = UserVA uint64 | KernPA uint64 | KernStk nat

fun eaddr_plus :: "eaddr \<Rightarrow> uint64 \<Rightarrow> eaddr" where
  "eaddr_plus (UserVA a) n = UserVA (a + n)"
| "eaddr_plus (KernPA a) n = KernPA (a + n)"
| "eaddr_plus (KernStk a) n = KernStk (a + unat n)"

definition either_copyout :: "eaddr \<Rightarrow> bytes \<Rightarrow> nat \<Rightarrow> uint64 \<Rightarrow> ('z vm_scheme, int) kM" where
  "either_copyout dst src off len =
     bind myproc (\<lambda>p. case dst of
       UserVA va \<Rightarrow> (case p of None \<Rightarrow> panic ''kerneltrap''
         | Some i \<Rightarrow> bind (get_proc i) (\<lambda>pr. copyout (pagetable pr) va src off len))
     | KernPA pa \<Rightarrow> seq (upd (\<lambda>s. s\<lparr>mem := blit (unat pa) src off (unat len) (mem s)\<rparr>)) (ret 0)
     | KernStk a \<Rightarrow> seq (upd (\<lambda>s. s\<lparr>kstk := blit a src off (unat len) (kstk s)\<rparr>)) (ret 0))"

definition either_copyin :: "bytes \<Rightarrow> nat \<Rightarrow> eaddr \<Rightarrow> uint64 \<Rightarrow> ('z vm_scheme, int \<times> bytes) kM" where
  "either_copyin dst off src len =
     bind myproc (\<lambda>p. case src of
       UserVA va \<Rightarrow> (case p of None \<Rightarrow> panic ''kerneltrap''
         | Some i \<Rightarrow> bind (get_proc i) (\<lambda>pr. copyin (pagetable pr) dst off va len))
     | KernPA pa \<Rightarrow> bind (gets mem) (\<lambda>m. ret (0, blit off m (unat pa) (unat len) dst))
     | KernStk a \<Rightarrow> bind (gets kstk) (\<lambda>m. ret (0, blit off m a (unat len) dst)))"

end
