(* ===== verification/Xv6_Virtio.thy ===== *)
theory Xv6_Virtio
  imports Xv6_Vm
begin

text \<open>
  The virtio disk driver (\<^verbatim>\<open>kernel/virtio_disk.c\<close>) and the disk buffers it fills
  (\<^verbatim>\<open>kernel/buf.h\<close>). Queue memory is modelled field by field; an address given to the device is a
  reference to the kernel object it points at. The device itself is hardware: \<open>virtio_device\<close> is
  what the virtio specification says it does with the next available request it was notified of, on
  the disk image \<open>img\<close>, and \<open>wtrace\<close> records the completed writes in order, so that a crash can be
  placed between any two of them. The last two fields of \<open>disk\<close> are the device's own: \<open>last_avail\<close>,
  how many entries of the available ring it has consumed, and \<open>kicked\<close>, the value of
  \<^verbatim>\<open>avail[1]\<close> at the last store to \<^verbatim>\<open>VIRTIO_MMIO_QUEUE_NOTIFY\<close>, beyond which it does not look.
\<close>

section \<open>State\<close>

datatype dma = DmaNone | DmaHdr nat | DmaData nat | DmaStatus nat

record VRingDesc =
  d_addr :: dma
  d_len :: uint
  d_flags :: uint16
  d_next :: uint16

record virtio_blk_outhdr =
  oh_type :: uint
  oh_reserved :: uint
  oh_sector :: uint64

record disk =
  desc :: "nat \<Rightarrow> VRingDesc"
  avail_idx :: uint16
  avail_ring :: "nat \<Rightarrow> uint16"
  used_id :: uint16
  used_elems :: "nat \<Rightarrow> uint"
  dfree :: "nat \<Rightarrow> bool"
  used_idx :: uint16
  info_b :: "nat \<Rightarrow> nat option"
  info_status :: "nat \<Rightarrow> byte"
  dinit :: bool
  dpages :: uint64
  last_avail :: uint16
  kicked :: uint16

record buf =
  valid :: bool
  bdisk :: bool
  bdev :: uint
  blockno :: uint
  refcnt :: uint
  bprev :: nat
  bnext :: nat
  bdata :: bytes

record vdisk = vm +
  bufs :: "nat \<Rightarrow> buf"
  vd :: "nat \<Rightarrow> disk"
  vhdr :: "nat \<Rightarrow> virtio_blk_outhdr"
  mmio :: "nat \<Rightarrow> nat \<Rightarrow> uint"
  img :: "nat \<Rightarrow> bytes"
  wtrace :: "(nat \<times> nat \<times> bytes) list"

definition NUM :: nat where "NUM = 8"
definition BSIZE :: nat where "BSIZE = 1024"
definition VRING_DESC_F_NEXT :: uint16 where "VRING_DESC_F_NEXT = 1"
definition VRING_DESC_F_WRITE :: uint16 where "VRING_DESC_F_WRITE = 2"
definition VIRTIO_BLK_T_IN :: uint where "VIRTIO_BLK_T_IN = 0"
definition VIRTIO_BLK_T_OUT :: uint where "VIRTIO_BLK_T_OUT = 1"

definition set_disk :: "nat \<Rightarrow> (disk \<Rightarrow> disk) \<Rightarrow> ('z vdisk_scheme, unit) kM" where
  "set_disk n f = upd (\<lambda>s. s\<lparr>vd := (vd s)(n := f (vd s n))\<rparr>)"

definition set_desc :: "nat \<Rightarrow> nat \<Rightarrow> (VRingDesc \<Rightarrow> VRingDesc) \<Rightarrow> ('z vdisk_scheme, unit) kM" where
  "set_desc n i f = set_disk n (\<lambda>d. d\<lparr>desc := (desc d)(i := f (desc d i))\<rparr>)"

definition set_buf :: "nat \<Rightarrow> (buf \<Rightarrow> buf) \<Rightarrow> ('z vdisk_scheme, unit) kM" where
  "set_buf b f = upd (\<lambda>s. s\<lparr>bufs := (bufs s)(b := f (bufs s b))\<rparr>)"

definition get_buf :: "nat \<Rightarrow> ('z vdisk_scheme, buf) kM" where
  "get_buf b = gets (\<lambda>s. bufs s b)"

definition rd_reg :: "nat \<Rightarrow> nat \<Rightarrow> ('z vdisk_scheme, uint) kM" where
  "rd_reg n r = gets (\<lambda>s. mmio s n r)"

definition wr_reg :: "nat \<Rightarrow> nat \<Rightarrow> uint \<Rightarrow> ('z vdisk_scheme, unit) kM" where
  "wr_reg n r v = upd (\<lambda>s. s\<lparr>mmio := (mmio s)(n := (mmio s n)(r := v))\<rparr>)"

text \<open>A store of a queue number to \<^verbatim>\<open>VIRTIO_MMIO_QUEUE_NOTIFY\<close> (offset 0x050) reaches the device: it
  learns how far the driver has filled the available ring of queue 0.\<close>

definition queue_notify :: "nat \<Rightarrow> uint \<Rightarrow> ('z vdisk_scheme, unit) kM" where
  "queue_notify n q =
     seq (wr_reg n 0x050 q)
         (whenM (q = 0) (set_disk n (\<lambda>d. d\<lparr>kicked := avail_idx d\<rparr>)))"

section \<open>Initialisation\<close>

definition virtio_disk_init :: "nat \<Rightarrow> ('z vdisk_scheme, unit) kM" where
  "virtio_disk_init n =
     bind (gets (\<lambda>s. dinit (vd s n))) (\<lambda>done.
     if done then skip else
     seq (printf (Some ''virtio disk init %d\<newline>'') [VInt (int n)])
    (seq (initlock (VdiskLk n) ''virtio_disk'')
    (bind (rd_reg n 0x000) (\<lambda>magic.
     bind (rd_reg n 0x004) (\<lambda>version.
     bind (rd_reg n 0x008) (\<lambda>device.
     bind (rd_reg n 0x00c) (\<lambda>vendor.
     seq (whenM (magic \<noteq> 0x74726976 \<or> version \<noteq> 1 \<or> device \<noteq> 2 \<or> vendor \<noteq> 0x554d4551)
            (panic ''could not find virtio disk''))
    (seq (wr_reg n 0x070 1)
    (seq (wr_reg n 0x070 (1 OR 2))
    (bind (rd_reg n 0x010) (\<lambda>features.
     seq (wr_reg n 0x020 (features AND NOT (push_bit 5 1) AND NOT (push_bit 7 1)
            AND NOT (push_bit 11 1) AND NOT (push_bit 12 1) AND NOT (push_bit 27 1)
            AND NOT (push_bit 29 1) AND NOT (push_bit 28 1)))
    (seq (wr_reg n 0x070 (1 OR 2 OR 8))
    (seq (wr_reg n 0x070 (1 OR 2 OR 8 OR 4))
    (seq (wr_reg n 0x028 4096)
    (seq (wr_reg n 0x030 0)
    (bind (rd_reg n 0x034) (\<lambda>mx.
     seq (whenM (mx = 0) (panic ''virtio disk has no queue 0''))
    (seq (whenM (mx < of_nat NUM) (panic ''virtio disk max queue too short''))
    (seq (wr_reg n 0x038 (of_nat NUM))
    (seq (set_disk n (\<lambda>d. d\<lparr>desc := (\<lambda>_. \<lparr>d_addr = DmaNone, d_len = 0, d_flags = 0, d_next = 0\<rparr>),
              avail_idx := 0, avail_ring := (\<lambda>_. 0), used_id := 0, used_elems := (\<lambda>_. 0)\<rparr>))
    (bind (gets (\<lambda>s. dpages (vd s n))) (\<lambda>pages.
     seq (wr_reg n 0x040 (ucast (drop_bit 12 pages)))
    (seq (set_disk n (\<lambda>d. d\<lparr>dfree := (\<lambda>i. if i < NUM then True else dfree d i)\<rparr>))
         (set_disk n (\<lambda>d. d\<lparr>dinit := True\<rparr>)))))))))))))))))))))))))"

section \<open>Descriptors\<close>

primrec alloc_desc_scan :: "nat \<Rightarrow> nat \<Rightarrow> nat \<Rightarrow> ('z vdisk_scheme, int) kM" where
  "alloc_desc_scan n i 0 = ret (-1)"
| "alloc_desc_scan n i (Suc k) =
     bind (gets (\<lambda>s. dfree (vd s n) i)) (\<lambda>fr.
     if fr then seq (set_disk n (\<lambda>d. d\<lparr>dfree := (dfree d)(i := False)\<rparr>)) (ret (int i))
     else alloc_desc_scan n (Suc i) k)"

definition alloc_desc :: "nat \<Rightarrow> ('z vdisk_scheme, int) kM" where
  "alloc_desc n = alloc_desc_scan n 0 NUM"

definition free_desc :: "nat \<Rightarrow> nat \<Rightarrow> ('z vdisk_scheme, unit) kM" where
  "free_desc n i =
     seq (whenM (i \<ge> NUM) (panic ''virtio_disk_intr 1''))
    (bind (gets (\<lambda>s. dfree (vd s n) i)) (\<lambda>fr.
     seq (whenM fr (panic ''virtio_disk_intr 2''))
    (seq (set_desc n i (\<lambda>e. e\<lparr>d_addr := DmaNone\<rparr>))
    (seq (set_disk n (\<lambda>d. d\<lparr>dfree := (dfree d)(i := True)\<rparr>))
         (wakeup (ChDiskFree n))))))"

text \<open>A chain has at most \<^verbatim>\<open>NUM\<close> descriptors; a longer walk meets a free one and panics.\<close>

primrec free_chain_loop :: "nat \<Rightarrow> nat \<Rightarrow> nat \<Rightarrow> ('z vdisk_scheme, unit) kM" where
  "free_chain_loop 0 n i = hang"
| "free_chain_loop (Suc k) n i =
     seq (free_desc n i)
    (bind (gets (\<lambda>s. desc (vd s n) i)) (\<lambda>e.
     if d_flags e AND VRING_DESC_F_NEXT \<noteq> 0 then free_chain_loop k n (unat (d_next e))
     else skip))"

definition free_chain :: "nat \<Rightarrow> nat \<Rightarrow> ('z vdisk_scheme, unit) kM" where
  "free_chain n i = free_chain_loop (Suc NUM) n i"

primrec free_descs :: "nat \<Rightarrow> nat list \<Rightarrow> ('z vdisk_scheme, unit) kM" where
  "free_descs n [] = skip"
| "free_descs n (i # is) = seq (free_desc n i) (free_descs n is)"

primrec alloc3_loop :: "nat \<Rightarrow> nat \<Rightarrow> nat list \<Rightarrow> ('z vdisk_scheme, nat list option) kM" where
  "alloc3_loop n 0 idx = ret (Some idx)"
| "alloc3_loop n (Suc k) idx =
     bind (alloc_desc n) (\<lambda>i.
     if i < 0 then seq (free_descs n idx) (ret None)
     else alloc3_loop n k (idx @ [nat i]))"

definition alloc3_desc :: "nat \<Rightarrow> ('z vdisk_scheme, nat list option) kM" where
  "alloc3_desc n = alloc3_loop n 3 []"

section \<open>The device\<close>

text \<open>
  The next available request the device was notified of: a chain of header, data and status
  descriptors. The device follows \<^verbatim>\<open>next\<close> only where \<^verbatim>\<open>VRING_DESC_F_NEXT\<close> is set, and writes memory
  only through a descriptor with \<^verbatim>\<open>VRING_DESC_F_WRITE\<close>, reads it only through one without; a chain
  whose flags do not fit its request is not served.
\<close>

definition chain_ok :: "uint \<Rightarrow> VRingDesc \<Rightarrow> VRingDesc \<Rightarrow> VRingDesc \<Rightarrow> bool" where
  "chain_ok ty d0 d1 d2 \<longleftrightarrow>
     d_flags d0 AND VRING_DESC_F_NEXT \<noteq> 0 \<and> d_flags d0 AND VRING_DESC_F_WRITE = 0 \<and>
     unat (d_len d0) = 16 \<and>
     d_flags d1 AND VRING_DESC_F_NEXT \<noteq> 0 \<and>
     (d_flags d1 AND VRING_DESC_F_WRITE \<noteq> 0 \<longleftrightarrow> ty = VIRTIO_BLK_T_IN) \<and>
     d_flags d2 AND VRING_DESC_F_NEXT = 0 \<and> d_flags d2 AND VRING_DESC_F_WRITE \<noteq> 0 \<and>
     unat (d_len d2) = 1"

definition virtio_device :: "nat \<Rightarrow> ('z vdisk_scheme, unit) kM" where
  "virtio_device n =
     bind (gets (\<lambda>s. vd s n)) (\<lambda>d.
     if last_avail d = kicked d then skip
     else
       let head = unat (avail_ring d (unat (last_avail d) mod NUM));
           d0 = desc d head;
           d1 = desc d (unat (d_next d0));
           d2 = desc d (unat (d_next d1))
       in case (d_addr d0, d_addr d1, d_addr d2) of
            (DmaHdr p, DmaData b, DmaStatus k) \<Rightarrow>
              bind (gets (\<lambda>s. vhdr s p)) (\<lambda>hdr.
              bind (get_buf b) (\<lambda>bf.
              bind (gets (\<lambda>s. img s n)) (\<lambda>im.
              if \<not> chain_ok (oh_type hdr) d0 d1 d2 then skip else
              let base = 512 * unat (oh_sector hdr); len = unat (d_len d1)
              in seq (if oh_type hdr = VIRTIO_BLK_T_OUT
                      then upd (\<lambda>s. s\<lparr>img := (img s)(n := blit base (bdata bf) 0 len im),
                                      wtrace := wtrace s @ [(n, base, bdata bf)]\<rparr>)
                      else set_buf b (\<lambda>b. b\<lparr>bdata := blit 0 im base len (bdata b)\<rparr>))
                     (set_disk n (\<lambda>d. d\<lparr>info_status := (info_status d)(k := 0),
                        used_elems := (used_elems d)(unat (used_id d) mod NUM := of_nat head),
                        used_id := used_id d + 1,
                        last_avail := last_avail d + 1\<rparr>)))))
          | _ \<Rightarrow> skip)"

section \<open>Requests and completions\<close>

primrec virtio_disk_intr_loop :: "nat \<Rightarrow> nat \<Rightarrow> ('z vdisk_scheme, unit) kM" where
  "virtio_disk_intr_loop 0 n = hang"
| "virtio_disk_intr_loop (Suc k) n =
     bind (gets (\<lambda>s. vd s n)) (\<lambda>d.
     if unat (used_idx d) mod NUM \<noteq> unat (used_id d) mod NUM then
       let id = unat (used_elems d (unat (used_idx d)))
       in seq (whenM (info_status d id \<noteq> 0) (panic ''virtio_disk_intr status''))
         (case info_b d id of
            None \<Rightarrow> panic ''kerneltrap''
          | Some b \<Rightarrow>
              seq (set_buf b (\<lambda>x. x\<lparr>bdisk := False\<rparr>))
             (seq (wakeup (ChBuf b))
             (seq (set_disk n (\<lambda>d. d\<lparr>used_idx := (used_idx d + 1) mod of_nat NUM\<rparr>))
                  (virtio_disk_intr_loop k n))))
     else skip)"

definition virtio_disk_intr :: "nat \<Rightarrow> ('z vdisk_scheme, unit) kM" where
  "virtio_disk_intr n =
     seq (acquire (VdiskLk n)) (seq (virtio_disk_intr_loop NUM n) (release (VdiskLk n)))"

text \<open>
  Sleeping until an interrupt has run: the thread gives up the hart in \<^verbatim>\<open>sleep()\<close>, the scheduler
  lets go of its lock (\<open>sched_back\<close>), the interrupt handler \<open>ev\<close> runs, the scheduler finds the
  process RUNNABLE and switches back to it (\<open>sched_pick\<close>), and \<^verbatim>\<open>sleep()\<close> returns. No other process
  runs in between; a process that was not woken is not picked, \<open>Hang\<close>.
\<close>

definition sched_back :: "nat \<Rightarrow> ('z ptable_scheme, unit) kM" where
  "sched_back p =
     seq (set_mycpu (\<lambda>c. c\<lparr>cproc := None\<rparr>))
    (seq (set_mycpu (\<lambda>c. c\<lparr>intena := False\<rparr>))
         (release (ProcLk p)))"

definition sched_pick :: "nat \<Rightarrow> ('z ptable_scheme, unit) kM" where
  "sched_pick p =
     seq (acquire (ProcLk p))
    (bind (get_proc p) (\<lambda>pr.
     if pstate pr = RUNNABLE then
       seq (set_proc p (\<lambda>pr. pr\<lparr>pstate := RUNNING\<rparr>))
           (set_mycpu (\<lambda>c. c\<lparr>cproc := Some p\<rparr>))
     else hang))"

definition await :: "chan \<Rightarrow> lockid \<Rightarrow> ('z ptable_scheme, unit) kM \<Rightarrow> ('z ptable_scheme, unit) kM" where
  "await ch lk ev = (\<lambda>s.
     let c = cpus (hw s) (tp (hw s))
     in case sleep ch lk s of
          Swtch t \<Rightarrow> (case cproc c of
              None \<Rightarrow> Hang
            | Some p \<Rightarrow>
                seq (sched_back p) (seq ev (seq (sched_pick p) (sleep_ret p (intena c) lk))) t)
        | Ok u t \<Rightarrow> Ok u t
        | Panic e \<Rightarrow> Panic e
        | Hang \<Rightarrow> Hang)"

text \<open>
  \<^verbatim>\<open>while(b->disk == 1) sleep(b, &disk[n].vdisk_lock)\<close>. The event that happens while the thread
  sleeps is the disk's: the device serves the next request it was notified of, if there is one, and
  raises its interrupt. A thread whose request was not notified is therefore never woken, and
  \<open>await\<close> hangs; so does a second sleep, which has no event left.
\<close>

definition virtio_wait :: "nat \<Rightarrow> nat \<Rightarrow> ('z vdisk_scheme, unit) kM" where
  "virtio_wait n b =
     bind (get_buf b) (\<lambda>bf.
     if bdisk bf then
       seq (await (ChBuf b) (VdiskLk n) (seq (virtio_device n) (virtio_disk_intr n)))
      (bind (get_buf b) (\<lambda>bf. if bdisk bf then hang else skip))
     else skip)"

text \<open>Formatting the three descriptors of a request and handing it to the device. The header
  \<^verbatim>\<open>buf0\<close> is a local of the calling thread. The address the device is given for it,
  \<^verbatim>\<open>kvmpa(&buf0)\<close>, is the symbolic \<open>DmaHdr p\<close>: the translation itself, and with it the two panics
  of \<^verbatim>\<open>kvmpa()\<close> on a kernel stack that is not mapped, is not part of this definition
  (\<open>kvmpa\<close> is modelled with the page tables).\<close>

definition virtio_submit :: "nat \<Rightarrow> nat \<Rightarrow> bool \<Rightarrow> nat \<Rightarrow> uint64 \<Rightarrow> nat \<Rightarrow> nat \<Rightarrow> nat \<Rightarrow> ('z vdisk_scheme, unit) kM" where
  "virtio_submit n b write p sector i0 i1 i2 =
     seq (upd (\<lambda>s. s\<lparr>vhdr := (vhdr s)(p :=
            \<lparr>oh_type = (if write then VIRTIO_BLK_T_OUT else VIRTIO_BLK_T_IN), oh_reserved = 0,
             oh_sector = sector\<rparr>)\<rparr>))
    (seq (set_desc n i0 (\<lambda>_. \<lparr>d_addr = DmaHdr p, d_len = 16, d_flags = VRING_DESC_F_NEXT,
            d_next = of_nat i1\<rparr>))
    (seq (set_desc n i1 (\<lambda>_. \<lparr>d_addr = DmaData b, d_len = of_nat BSIZE,
            d_flags = (if write then 0 else VRING_DESC_F_WRITE) OR VRING_DESC_F_NEXT,
            d_next = of_nat i2\<rparr>))
    (seq (set_disk n (\<lambda>d. d\<lparr>info_status := (info_status d)(i0 := 0)\<rparr>))
    (seq (set_desc n i2 (\<lambda>_. \<lparr>d_addr = DmaStatus i0, d_len = 1, d_flags = VRING_DESC_F_WRITE,
            d_next = 0\<rparr>))
    (seq (set_buf b (\<lambda>x. x\<lparr>bdisk := True\<rparr>))
    (seq (set_disk n (\<lambda>d. d\<lparr>info_b := (info_b d)(i0 := Some b)\<rparr>))
    (seq (set_disk n (\<lambda>d. d\<lparr>avail_ring := (avail_ring d)(unat (avail_idx d) mod NUM := of_nat i0)\<rparr>))
    (seq (set_disk n (\<lambda>d. d\<lparr>avail_idx := avail_idx d + 1\<rparr>))
         (queue_notify n 0)))))))))"

text \<open>
  From the top of the allocation loop on: three descriptors are taken, or the thread sleeps on
  \<^verbatim>\<open>&disk[n].free[0]\<close>. A thread woken from that sleep holds \<^verbatim>\<open>vdisk_lock\<close> again (\<open>sleep_ret\<close>) and goes
  back to the top of the loop: it re-enters \<open>virtio_rw_loop\<close> (\<open>virtio_rw_ret\<close>).
\<close>

definition virtio_rw_loop :: "nat \<Rightarrow> nat \<Rightarrow> bool \<Rightarrow> uint64 \<Rightarrow> ('z vdisk_scheme, unit) kM" where
  "virtio_rw_loop n b write sector =
     bind (alloc3_desc n) (\<lambda>r. case r of
        Some [i0, i1, i2] \<Rightarrow>
          bind curproc (\<lambda>p.
          seq (virtio_submit n b write p sector i0 i1 i2)
         (seq (virtio_wait n b)
         (seq (set_disk n (\<lambda>d. d\<lparr>info_b := (info_b d)(i0 := None)\<rparr>))
         (seq (free_chain n i0)
              (release (VdiskLk n))))))
      | _ \<Rightarrow> sleep (ChDiskFree n) (VdiskLk n))"

definition virtio_rw_ret :: "nat \<Rightarrow> bool \<Rightarrow> nat \<Rightarrow> nat \<Rightarrow> bool \<Rightarrow> uint64 \<Rightarrow> ('z vdisk_scheme, unit) kM" where
  "virtio_rw_ret p ie n b write sector =
     seq (sleep_ret p ie (VdiskLk n)) (virtio_rw_loop n b write sector)"

definition virtio_disk_rw :: "nat \<Rightarrow> nat \<Rightarrow> bool \<Rightarrow> ('z vdisk_scheme, unit) kM" where
  "virtio_disk_rw n b write =
     bind (get_buf b) (\<lambda>bf.
     let sector = ucast (blockno bf * (of_nat (BSIZE div 512)))
     in seq (acquire (VdiskLk n)) (virtio_rw_loop n b write sector))"

end
