(* ===== verification/Xv6_Dlist.thy ===== *)
theory Xv6_Dlist
  imports Xv6_Prelude
begin

text \<open>
  Circular doubly linked lists with a head node, as the kernel threads them through its own
  objects: the LRU list of \<^verbatim>\<open>kernel/bio.c\<close> and the free lists of \<^verbatim>\<open>kernel/list.c\<close>. The locale
  \<open>dll_store\<close> is the interface both offer (read and write the two links of a node); the effect of
  unlinking a node and of linking one behind the head is proved once, over that interface.
\<close>

text \<open>\<open>seg f a xs b\<close>: following \<open>f\<close> from \<open>a\<close> visits \<open>xs\<close> and then \<open>b\<close>.\<close>

primrec seg :: "('a \<Rightarrow> 'a) \<Rightarrow> 'a \<Rightarrow> 'a list \<Rightarrow> 'a \<Rightarrow> bool" where
  "seg f a [] b = (f a = b)"
| "seg f a (x # xs) b = (f a = x \<and> seg f x xs b)"

definition dlist :: "('a \<Rightarrow> 'a) \<Rightarrow> ('a \<Rightarrow> 'a) \<Rightarrow> 'a \<Rightarrow> 'a list \<Rightarrow> bool" where
  "dlist nx pv h xs \<longleftrightarrow> seg nx h xs h \<and> seg pv h (rev xs) h \<and> distinct (h # xs)"

lemma seg_append: "seg f a (xs @ y # ys) b \<longleftrightarrow> seg f a xs y \<and> seg f y ys b"
  by (induction xs arbitrary: a) auto

lemma seg_cong: "(\<And>x. x \<in> set (a # xs) \<Longrightarrow> f x = g x) \<Longrightarrow> seg f a xs b = seg g a xs b"
  by (induction xs arbitrary: a) auto

lemma seg_hd: "seg f a xs b \<Longrightarrow> f a = hd (xs @ [b])"
  by (cases xs) auto

lemma seg_redirect:
  assumes "seg f a xs b" and "distinct (a # xs)"
    and "\<And>x. x \<in> set (a # xs) \<Longrightarrow> g x = (if x = last (a # xs) then c else f x)"
  shows "seg g a xs c"
  using assms
proof (induction xs arbitrary: a)
  case (Cons x xs)
  have "a \<noteq> last (x # xs)" using Cons.prems(2) last_in_set [of "x # xs"] by (metis distinct.simps(2) list.simps(3))
  then have "g a = x" using Cons.prems by simp
  moreover have "seg g x xs c" using Cons.prems by (intro Cons.IH) auto
  ultimately show ?case by simp
qed auto

lemma seg_first:
  assumes "seg f a xs b" and "distinct (a # xs)" and "e \<notin> set (a # xs)" and "g a = e" and "g e = f a"
    and "\<And>x. x \<in> set xs \<Longrightarrow> g x = f x"
  shows "seg g a (e # xs) b"
proof (cases xs)
  case (Cons y ys)
  have "seg g y ys b = seg f y ys b" using assms(2,6) Cons by (intro seg_cong) auto
  with Cons assms show ?thesis by simp
qed (use assms in auto)

text \<open>The two links of a node other than the head stay inside the list.\<close>

lemma seg_skip:
  assumes "seg f h (xs @ e # ys) h" and "distinct (h # xs @ e # ys)"
    and "\<And>x. x \<in> set (h # xs @ ys) \<Longrightarrow> g x = (if x = last (h # xs) then f e else f x)"
  shows "seg g h (xs @ ys) h"
proof -
  have a: "seg f h xs e" "seg f e ys h" using assms(1) by (simp_all add: seg_append)
  have b: "seg g h xs (f e)"
    using assms(2,3) by (intro seg_redirect [OF a(1)]) auto
  show ?thesis
  proof (cases ys)
    case Nil
    with a b show ?thesis by simp
  next
    case (Cons y zs)
    have "last (h # xs) \<notin> set ys"
      using assms(2) last_in_set [of "h # xs"] by auto
    then have "seg g y zs h = seg f y zs h"
      using assms(3) Cons by (intro seg_cong) auto
    with a b Cons show ?thesis by (simp add: seg_append)
  qed
qed

lemma dlist_links:
  assumes "dlist nx pv h (xs @ e # ys)"
  shows "nx e = hd (ys @ [h])" and "pv e = last (h # xs)"
proof -
  show "nx e = hd (ys @ [h])"
    using assms by (auto simp: dlist_def seg_append intro: seg_hd)
  have "seg pv h (rev ys @ e # rev xs) h" using assms by (simp add: dlist_def)
  then have "pv e = hd (rev xs @ [h])" by (auto simp: seg_append intro: seg_hd)
  also have "\<dots> = last (h # xs)" by (cases xs rule: rev_cases) auto
  finally show "pv e = last (h # xs)" .
qed

locale dll_store =
  fixes nx pv :: "'s \<Rightarrow> 'a \<Rightarrow> 'a"
    and set_nx set_pv :: "'a \<Rightarrow> 'a \<Rightarrow> 's \<Rightarrow> 's"
    and node :: "'a \<Rightarrow> bool"
  assumes nx_set_nx: "node a \<Longrightarrow> node b \<Longrightarrow> nx (set_nx a v s) b = (if b = a then v else nx s b)"
    and nx_set_pv: "node a \<Longrightarrow> node b \<Longrightarrow> nx (set_pv a v s) b = nx s b"
    and pv_set_pv: "node a \<Longrightarrow> node b \<Longrightarrow> pv (set_pv a v s) b = (if b = a then v else pv s b)"
    and pv_set_nx: "node a \<Longrightarrow> node b \<Longrightarrow> pv (set_nx a v s) b = pv s b"
begin

lemmas link_simps = nx_set_nx nx_set_pv pv_set_pv pv_set_nx

text \<open>\<^verbatim>\<open>e->next->prev = e->prev; e->prev->next = e->next;\<close> in either order.\<close>

lemma unlink_dlist:
  assumes "dlist (nx s) (pv s) h (xs @ e # ys)" and "\<forall>x\<in>set (h # xs @ e # ys). node x"
    and "\<And>x. node x \<Longrightarrow> nx t x = (if x = pv s e then nx s e else nx s x)"
    and "\<And>x. node x \<Longrightarrow> pv t x = (if x = nx s e then pv s e else pv s x)"
  shows "dlist (nx t) (pv t) h (xs @ ys)"
proof -
  note l = dlist_links [OF assms(1)]
  have d: "distinct (h # xs @ e # ys)" and a: "seg (nx s) h (xs @ e # ys) h"
    "seg (pv s) h (rev ys @ e # rev xs) h" using assms(1) by (simp_all add: dlist_def)
  have "seg (nx t) h (xs @ ys) h"
    by (rule seg_skip [OF a(1) d]) (use assms(2,3) l(2) in auto)
  moreover have "hd (ys @ [h]) = last (h # rev ys)" by (cases ys) auto
  then have "seg (pv t) h (rev ys @ rev xs) h"
    using d assms(2,4) l(1) by (intro seg_skip [OF a(2)]) auto
  ultimately show ?thesis using d by (simp add: dlist_def)
qed

lemma unlink_run:
  assumes "dlist (nx s) (pv s) h (xs @ e # ys)" and "\<forall>x\<in>set (h # xs @ e # ys). node x"
    and "s1 = set_pv (nx s e) (pv s e) s" and "t = set_nx (pv s1 e) (nx s1 e) s1"
  shows "dlist (nx t) (pv t) h (xs @ ys)"
proof (rule unlink_dlist [OF assms(1,2)])
  note l = dlist_links [OF assms(1)]
  have n: "node e" "node (nx s e)" "node (pv s e)"
    using assms(2) l last_in_set [of "h # xs"] hd_in_set [of "ys @ [h]"] by auto
  have "pv s1 e = pv s e"
  proof -
    have "e \<noteq> hd (ys @ [h])" using assms(1) hd_in_set [of "ys @ [h]"] by (auto simp: dlist_def)
    then show ?thesis using n l(1) by (simp add: assms(3) link_simps)
  qed
  then show "nx t x = (if x = pv s e then nx s e else nx s x)"
    "pv t x = (if x = nx s e then pv s e else pv s x)" if "node x" for x
    using n that by (simp_all add: assms(3,4) link_simps)
qed

lemma push_dlist:
  assumes "dlist (nx s) (pv s) h xs" and "\<forall>x\<in>set (h # e # xs). node x" and "e \<notin> set (h # xs)"
    and "t = set_nx h e (set_pv (nx s h) e (set_pv e h (set_nx e (nx s h) s)))"
  shows "dlist (nx t) (pv t) h (e # xs)"
proof -
  have d: "distinct (h # xs)" and a: "seg (nx s) h xs h" "seg (pv s) h (rev xs) h"
    using assms(1) by (simp_all add: dlist_def)
  have l: "nx s h = last (h # rev xs)" using seg_hd [OF a(1)] by (cases xs) auto
  have n: "node (nx s h)" "nx s h \<noteq> e"
    using assms(2,3) last_in_set [of "h # rev xs"] unfolding l by auto
  have "seg (nx t) h (e # xs) h"
    by (rule seg_first [OF a(1)]) (use assms(2-4) d n in \<open>auto simp: link_simps\<close>)
  moreover have "seg (pv t) h (rev xs) e"
    by (rule seg_redirect [OF a(2)]) (use assms(2-4) d n l in \<open>auto simp: link_simps\<close>)
  moreover have "pv t e = h" using assms(2-4) n by (auto simp: link_simps)
  ultimately show ?thesis using d assms(3) by (auto simp: dlist_def seg_append)
qed

end

end
