(* ===== verification/Xv6_Bio.thy ===== *)
theory Xv6_Bio
  imports Xv6_Virtio Xv6_Dlist
begin

text \<open>
  The buffer cache (\<^verbatim>\<open>kernel/bio.c\<close>). Buffer \<open>i < NBUF\<close> is \<^verbatim>\<open>bcache.buf[i]\<close>; the list head
  \<^verbatim>\<open>bcache.head\<close> is buffer number \<open>NBUF\<close>, of which only the two links are used. The list is
  followed through the \<^verbatim>\<open>next\<close> and \<^verbatim>\<open>prev\<close> fields, as in the code.
\<close>

definition NBUF :: nat where "NBUF = 30"

definition binit_one :: "nat \<Rightarrow> ('z vdisk_scheme, unit) kM" where
  "binit_one b =
     bind (get_buf NBUF) (\<lambda>head.
     seq (set_buf b (\<lambda>x. x\<lparr>bnext := bnext head\<rparr>))
    (seq (set_buf b (\<lambda>x. x\<lparr>bprev := NBUF\<rparr>))
    (seq (initsleeplock (BufLk b) ''buffer'')
    (seq (set_buf (bnext head) (\<lambda>x. x\<lparr>bprev := b\<rparr>))
         (set_buf NBUF (\<lambda>x. x\<lparr>bnext := b\<rparr>))))))"

definition binit :: "('z vdisk_scheme, unit) kM" where
  "binit =
     seq (initlock BcacheLk ''bcache'')
    (seq (set_buf NBUF (\<lambda>x. x\<lparr>bprev := NBUF\<rparr>))
    (seq (set_buf NBUF (\<lambda>x. x\<lparr>bnext := NBUF\<rparr>))
         (for_upto 0 NBUF binit_one)))"

text \<open>The two scans of \<^verbatim>\<open>bget\<close>. The list has \<open>NBUF\<close> buffers, so \<open>NBUF + 1\<close> steps reach the head again.\<close>

primrec bget_cached :: "nat \<Rightarrow> nat \<Rightarrow> uint \<Rightarrow> uint \<Rightarrow> ('z vdisk_scheme, nat option) kM" where
  "bget_cached 0 b dev bno = hang"
| "bget_cached (Suc k) b dev bno =
     (if b = NBUF then ret None
      else bind (get_buf b) (\<lambda>x.
        if bdev x = dev \<and> blockno x = bno then ret (Some b)
        else bget_cached k (bnext x) dev bno))"

primrec bget_unused :: "nat \<Rightarrow> nat \<Rightarrow> ('z vdisk_scheme, nat option) kM" where
  "bget_unused 0 b = hang"
| "bget_unused (Suc k) b =
     (if b = NBUF then ret None
      else bind (get_buf b) (\<lambda>x.
        if refcnt x = 0 then ret (Some b)
        else bget_unused k (bprev x)))"

definition bget :: "uint \<Rightarrow> uint \<Rightarrow> ('z vdisk_scheme, nat) kM" where
  "bget dev bno =
     seq (acquire BcacheLk)
    (bind (get_buf NBUF) (\<lambda>head.
     bind (bget_cached (Suc NBUF) (bnext head) dev bno) (\<lambda>r. case r of
       Some b \<Rightarrow>
         seq (set_buf b (\<lambda>x. x\<lparr>refcnt := refcnt x + 1\<rparr>))
        (seq (release BcacheLk)
        (seq (acquiresleep (BufLk b))
        (ret b)))
     | None \<Rightarrow>
         bind (bget_unused (Suc NBUF) (bprev head)) (\<lambda>r. case r of
           Some b \<Rightarrow>
             seq (set_buf b (\<lambda>x. x\<lparr>bdev := dev\<rparr>))
            (seq (set_buf b (\<lambda>x. x\<lparr>blockno := bno\<rparr>))
            (seq (set_buf b (\<lambda>x. x\<lparr>valid := False\<rparr>))
            (seq (set_buf b (\<lambda>x. x\<lparr>refcnt := 1\<rparr>))
            (seq (release BcacheLk)
            (seq (acquiresleep (BufLk b))
            (ret b))))))
         | None \<Rightarrow> panic ''bget: no buffers''))))"

definition bread :: "uint \<Rightarrow> uint \<Rightarrow> ('z vdisk_scheme, nat) kM" where
  "bread dev bno =
     bind (bget dev bno) (\<lambda>b.
     bind (get_buf b) (\<lambda>x.
     seq (whenM (\<not> valid x)
            (seq (virtio_disk_rw (unat (bdev x)) b False) (set_buf b (\<lambda>x. x\<lparr>valid := True\<rparr>))))
    (ret b)))"

definition bwrite :: "nat \<Rightarrow> ('z vdisk_scheme, unit) kM" where
  "bwrite b =
     bind (holdingsleep (BufLk b)) (\<lambda>held.
     seq (whenM (\<not> held) (panic ''bwrite''))
    (bind (get_buf b) (\<lambda>x. virtio_disk_rw (unat (bdev x)) b True)))"

definition move_to_front :: "nat \<Rightarrow> ('z vdisk_scheme, unit) kM" where
  "move_to_front b =
     bind (get_buf b) (\<lambda>x.
     seq (set_buf (bnext x) (\<lambda>y. y\<lparr>bprev := bprev x\<rparr>))
    (bind (get_buf b) (\<lambda>x.
     seq (set_buf (bprev x) (\<lambda>y. y\<lparr>bnext := bnext x\<rparr>))
    (bind (get_buf NBUF) (\<lambda>head.
     seq (set_buf b (\<lambda>y. y\<lparr>bnext := bnext head\<rparr>))
    (seq (set_buf b (\<lambda>y. y\<lparr>bprev := NBUF\<rparr>))
    (bind (get_buf NBUF) (\<lambda>head.
     seq (set_buf (bnext head) (\<lambda>y. y\<lparr>bprev := b\<rparr>))
         (set_buf NBUF (\<lambda>y. y\<lparr>bnext := b\<rparr>))))))))))"

definition brelse :: "nat \<Rightarrow> ('z vdisk_scheme, unit) kM" where
  "brelse b =
     bind (holdingsleep (BufLk b)) (\<lambda>held.
     seq (whenM (\<not> held) (panic ''brelse''))
    (seq (releasesleep (BufLk b))
    (seq (acquire BcacheLk)
    (seq (set_buf b (\<lambda>x. x\<lparr>refcnt := refcnt x - 1\<rparr>))
    (bind (get_buf b) (\<lambda>x.
     seq (whenM (refcnt x = 0) (move_to_front b))
         (release BcacheLk)))))))"

definition bpin :: "nat \<Rightarrow> ('z vdisk_scheme, unit) kM" where
  "bpin b =
     seq (acquire BcacheLk)
    (seq (set_buf b (\<lambda>x. x\<lparr>refcnt := refcnt x + 1\<rparr>))
         (release BcacheLk))"

definition bunpin :: "nat \<Rightarrow> ('z vdisk_scheme, unit) kM" where
  "bunpin b =
     seq (acquire BcacheLk)
    (seq (set_buf b (\<lambda>x. x\<lparr>refcnt := refcnt x - 1\<rparr>))
         (release BcacheLk))"

definition set_data :: "nat \<Rightarrow> (bytes \<Rightarrow> bytes) \<Rightarrow> ('z vdisk_scheme, unit) kM" where
  "set_data b f = set_buf b (\<lambda>x. x\<lparr>bdata := f (bdata x)\<rparr>)"

definition get_data :: "nat \<Rightarrow> ('z vdisk_scheme, bytes) kM" where
  "get_data b = gets (\<lambda>s. bdata (bufs s b))"

end
