(* ===== verification/Xv6_Log.thy ===== *)
theory Xv6_Log
  imports Xv6_Bio
begin

text \<open>
  The redo log (\<^verbatim>\<open>kernel/log.c\<close>) and the superblock that locates it (\<^verbatim>\<open>kernel/fs.h\<close>). The header
  block holds the count \<^verbatim>\<open>n\<close> in its first four bytes and the block numbers after it. A store
  past the end of \<^verbatim>\<open>int block[LOGSIZE]\<close> is undefined behaviour in C, and \<open>Hang\<close> here.
\<close>

record superblock =
  sb_magic :: uint
  sb_size :: uint
  sb_nblocks :: uint
  sb_ninodes :: uint
  sb_nlog :: uint
  sb_logstart :: uint
  sb_inodestart :: uint
  sb_bmapstart :: uint

record log =
  lstart :: int
  lsize :: int
  outstanding :: int
  committing :: bool
  ldev :: int
  lh_n :: int
  lh_block :: "nat \<Rightarrow> uint"

record logs = vdisk +
  log :: "nat \<Rightarrow> log"

definition MAXOPBLOCKS :: int where "MAXOPBLOCKS = 10"
definition LOGSIZE :: int where "LOGSIZE = MAXOPBLOCKS * 3"

definition get_log :: "nat \<Rightarrow> ('z logs_scheme, log) kM" where
  "get_log dev = gets (\<lambda>s. log s dev)"

definition set_log :: "nat \<Rightarrow> (log \<Rightarrow> log) \<Rightarrow> ('z logs_scheme, unit) kM" where
  "set_log dev f = upd (\<lambda>s. s\<lparr>log := (log s)(dev := f (log s dev))\<rparr>)"

section \<open>Moving blocks between the log and their home\<close>

definition install_one :: "nat \<Rightarrow> nat \<Rightarrow> ('z logs_scheme, unit) kM" where
  "install_one dev tail =
     bind (get_log dev) (\<lambda>l.
     bind (bread (of_nat dev) (of_int (lstart l + int tail + 1))) (\<lambda>lbuf.
     bind (bread (of_nat dev) (lh_block l tail)) (\<lambda>dbuf.
     bind (get_data lbuf) (\<lambda>d.
     seq (set_data dbuf (blit 0 d 0 BSIZE))
    (seq (bwrite dbuf)
    (seq (bunpin dbuf)
    (seq (brelse lbuf)
         (brelse dbuf))))))))"

definition install_trans :: "nat \<Rightarrow> ('z logs_scheme, unit) kM" where
  "install_trans dev = bind (get_log dev) (\<lambda>l. for_upto 0 (nat (lh_n l)) (install_one dev))"

definition read_head :: "nat \<Rightarrow> ('z logs_scheme, unit) kM" where
  "read_head dev =
     bind (get_log dev) (\<lambda>l.
     bind (bread (of_nat dev) (of_int (lstart l))) (\<lambda>b.
     bind (get_data b) (\<lambda>d.
     seq (set_log dev (\<lambda>l. l\<lparr>lh_n := sint (ld32 d 0)\<rparr>))
    (seq (for_upto 0 (nat (sint (ld32 d 0))) (\<lambda>i.
            if int i < LOGSIZE
            then set_log dev (\<lambda>l. l\<lparr>lh_block := (lh_block l)(i := ld32 d (4 + 4 * i))\<rparr>)
            else hang))
         (brelse b)))))"

definition write_head :: "nat \<Rightarrow> ('z logs_scheme, unit) kM" where
  "write_head dev =
     bind (get_log dev) (\<lambda>l.
     bind (bread (of_nat dev) (of_int (lstart l))) (\<lambda>b.
     seq (set_data b (st32 0 (of_int (lh_n l))))
    (seq (for_upto 0 (nat (lh_n l)) (\<lambda>i. set_data b (st32 (4 + 4 * i) (lh_block l i))))
    (seq (bwrite b)
         (brelse b)))))"

definition recover_from_log :: "nat \<Rightarrow> ('z logs_scheme, unit) kM" where
  "recover_from_log dev =
     seq (read_head dev)
    (seq (install_trans dev)
    (seq (set_log dev (\<lambda>l. l\<lparr>lh_n := 0\<rparr>))
         (write_head dev)))"

definition initlog :: "nat \<Rightarrow> superblock \<Rightarrow> ('z logs_scheme, unit) kM" where
  "initlog dev sb =
     seq (whenM (4 + 4 * nat LOGSIZE \<ge> BSIZE) (panic ''initlog: too big logheader''))
    (seq (initlock (LogLk dev) ''log'')
    (seq (set_log dev (\<lambda>l. l\<lparr>lstart := sint (sb_logstart sb)\<rparr>))
    (seq (set_log dev (\<lambda>l. l\<lparr>lsize := sint (sb_nlog sb)\<rparr>))
    (seq (set_log dev (\<lambda>l. l\<lparr>ldev := int dev\<rparr>))
         (recover_from_log dev)))))"

section \<open>Transactions\<close>

text \<open>\<open>begin_op_loop\<close> is the \<^verbatim>\<open>while(1)\<close> of \<^verbatim>\<open>begin_op\<close>; a thread that slept re-enters it.\<close>

definition begin_op_loop :: "nat \<Rightarrow> ('z logs_scheme, unit) kM" where
  "begin_op_loop dev =
     bind (get_log dev) (\<lambda>l.
     if committing l then sleep ChLog (LogLk dev)
     else if lh_n l + (outstanding l + 1) * MAXOPBLOCKS > LOGSIZE then sleep ChLog (LogLk dev)
     else
       seq (set_log dev (\<lambda>l. l\<lparr>outstanding := outstanding l + 1\<rparr>))
           (release (LogLk dev)))"

definition begin_op :: "nat \<Rightarrow> ('z logs_scheme, unit) kM" where
  "begin_op dev = seq (acquire (LogLk dev)) (begin_op_loop dev)"

definition write_log_one :: "nat \<Rightarrow> nat \<Rightarrow> ('z logs_scheme, unit) kM" where
  "write_log_one dev tail =
     bind (get_log dev) (\<lambda>l.
     bind (bread (of_nat dev) (of_int (lstart l + int tail + 1))) (\<lambda>to.
     bind (bread (of_nat dev) (lh_block l tail)) (\<lambda>from.
     bind (get_data from) (\<lambda>d.
     seq (set_data to (blit 0 d 0 BSIZE))
    (seq (bwrite to)
    (seq (brelse from)
         (brelse to)))))))"

definition write_log :: "nat \<Rightarrow> ('z logs_scheme, unit) kM" where
  "write_log dev = bind (get_log dev) (\<lambda>l. for_upto 0 (nat (lh_n l)) (write_log_one dev))"

definition commit :: "nat \<Rightarrow> ('z logs_scheme, unit) kM" where
  "commit dev =
     bind (get_log dev) (\<lambda>l.
     whenM (lh_n l > 0)
       (seq (write_log dev)
       (seq (write_head dev)
       (seq (install_trans dev)
       (seq (set_log dev (\<lambda>l. l\<lparr>lh_n := 0\<rparr>))
            (write_head dev))))))"

definition end_op :: "nat \<Rightarrow> ('z logs_scheme, unit) kM" where
  "end_op dev =
     seq (acquire (LogLk dev))
    (seq (set_log dev (\<lambda>l. l\<lparr>outstanding := outstanding l - 1\<rparr>))
    (bind (get_log dev) (\<lambda>l.
     seq (whenM (committing l) (panic ''log[dev].committing''))
    (let do_commit = (outstanding l = 0)
     in seq (if do_commit then set_log dev (\<lambda>l. l\<lparr>committing := True\<rparr>) else wakeup ChLog)
       (seq (release (LogLk dev))
            (whenM do_commit
              (seq (commit dev)
              (seq (acquire (LogLk dev))
              (seq (set_log dev (\<lambda>l. l\<lparr>committing := False\<rparr>))
              (seq (wakeup ChLog)
                   (release (LogLk dev))))))))))))"

primrec log_find :: "nat \<Rightarrow> nat \<Rightarrow> (nat \<Rightarrow> uint) \<Rightarrow> uint \<Rightarrow> nat" where
  "log_find i 0 blocks bno = i"
| "log_find i (Suc k) blocks bno = (if blocks i = bno then i else log_find (Suc i) k blocks bno)"

definition log_write :: "nat \<Rightarrow> ('z logs_scheme, unit) kM" where
  "log_write b =
     bind (get_buf b) (\<lambda>x.
     let dev = unat (bdev x)
     in bind (get_log dev) (\<lambda>l.
        seq (whenM (lh_n l \<ge> LOGSIZE \<or> lh_n l \<ge> lsize l - 1) (panic ''too big a transaction''))
       (seq (whenM (outstanding l < 1) (panic ''log_write outside of trans''))
       (seq (acquire (LogLk dev))
       (bind (get_log dev) (\<lambda>l.
        let i = log_find 0 (nat (lh_n l)) (lh_block l) (blockno x)
        in seq (set_log dev (\<lambda>l. l\<lparr>lh_block := (lh_block l)(i := blockno x)\<rparr>))
          (seq (whenM (int i = lh_n l)
                 (seq (bpin b) (set_log dev (\<lambda>l. l\<lparr>lh_n := lh_n l + 1\<rparr>))))
               (release (LogLk dev)))))))))"

end
