(* ===== verification/Xv6_Fs.thy ===== *)
theory Xv6_Fs
  imports Xv6_Log
begin

text \<open>
  The file system proper (\<^verbatim>\<open>kernel/fs.c\<close>, with the on-disk format of \<^verbatim>\<open>kernel/fs.h\<close> and the
  in-memory inode of \<^verbatim>\<open>kernel/file.h\<close>): block allocation, inodes, file contents, directories and
  path names. A \<^verbatim>\<open>struct dinode\<close> is the 64 bytes of its slot in an inode block, a
  \<^verbatim>\<open>struct dirent\<close> the 16 bytes of its slot in a directory. A path is the list of its bytes
  before the terminating zero. An in-memory inode is its index in \<^verbatim>\<open>icache.inode\<close>, \<open>None\<close> the
  null pointer.
\<close>

record inode =
  idev :: uint
  inum :: uint
  iref :: int
  ivalid :: bool
  itype :: uint16
  imajor :: uint16
  iminor :: uint16
  inlink :: uint16
  isize :: uint
  addrs :: "nat \<Rightarrow> uint"

record fs = logs +
  sb :: superblock
  inode :: "nat \<Rightarrow> inode"

definition FSMAGIC :: uint where "FSMAGIC = 0x10203040"
definition NDIRECT :: nat where "NDIRECT = 12"
definition NINDIRECT :: nat where "NINDIRECT = BSIZE div 4"
definition MAXFILE :: nat where "MAXFILE = NDIRECT + NINDIRECT"
definition IPB :: nat where "IPB = BSIZE div 64"
definition BPB :: nat where "BPB = BSIZE * 8"
definition DIRSIZ :: nat where "DIRSIZ = 14"
definition NINODE :: nat where "NINODE = 50"
definition ROOTDEV :: uint where "ROOTDEV = 0"
definition ROOTINO :: uint where "ROOTINO = 1"
definition T_DIR :: uint16 where "T_DIR = 1"
definition T_FILE :: uint16 where "T_FILE = 2"
definition T_DEVICE :: uint16 where "T_DEVICE = 3"

definition IBLOCK :: "uint \<Rightarrow> superblock \<Rightarrow> uint" where
  "IBLOCK i S = of_nat (unat i div IPB) + sb_inodestart S"

definition BBLOCK :: "uint \<Rightarrow> superblock \<Rightarrow> uint" where
  "BBLOCK b S = of_nat (unat b div BPB) + sb_bmapstart S"

definition get_inode :: "nat \<Rightarrow> ('z fs_scheme, inode) kM" where
  "get_inode ip = gets (\<lambda>s. inode s ip)"

definition set_inode :: "nat \<Rightarrow> (inode \<Rightarrow> inode) \<Rightarrow> ('z fs_scheme, unit) kM" where
  "set_inode ip f = upd (\<lambda>s. s\<lparr>inode := (inode s)(ip := f (inode s ip))\<rparr>)"

section \<open>Superblock\<close>

definition decode_sb :: "bytes \<Rightarrow> superblock" where
  "decode_sb d = \<lparr>sb_magic = ld32 d 0, sb_size = ld32 d 4, sb_nblocks = ld32 d 8,
     sb_ninodes = ld32 d 12, sb_nlog = ld32 d 16, sb_logstart = ld32 d 20,
     sb_inodestart = ld32 d 24, sb_bmapstart = ld32 d 28\<rparr>"

definition readsb :: "nat \<Rightarrow> ('z fs_scheme, unit) kM" where
  "readsb dev =
     bind (bread (of_nat dev) 1) (\<lambda>bp.
     bind (get_data bp) (\<lambda>d.
     seq (upd (\<lambda>s. s\<lparr>sb := decode_sb d\<rparr>))
         (brelse bp)))"

definition fsinit :: "nat \<Rightarrow> ('z fs_scheme, unit) kM" where
  "fsinit dev =
     seq (readsb dev)
    (bind (gets sb) (\<lambda>b.
     seq (whenM (sb_magic b \<noteq> FSMAGIC) (panic ''invalid file system''))
         (initlog dev b)))"

section \<open>Blocks\<close>

definition bzero :: "uint \<Rightarrow> uint \<Rightarrow> ('z logs_scheme, unit) kM" where
  "bzero dev bno =
     bind (bread dev bno) (\<lambda>bp.
     seq (set_data bp (memset 0 0 BSIZE))
    (seq (log_write bp)
         (brelse bp)))"

definition bitmask :: "nat \<Rightarrow> byte" where
  "bitmask bi = push_bit (bi mod 8) 1"

text \<open>The inner loop of \<^verbatim>\<open>balloc\<close>: the first clear bit, from \<open>bi\<close> on, of the bitmap block that
  starts at block \<open>b\<close>.\<close>

primrec balloc_scan :: "bytes \<Rightarrow> nat \<Rightarrow> nat \<Rightarrow> nat \<Rightarrow> nat \<Rightarrow> nat option" where
  "balloc_scan d b nbl bi 0 = None"
| "balloc_scan d b nbl bi (Suc k) =
     (if b + bi < nbl then
        if d (bi div 8) AND bitmask bi = 0 then Some bi
        else balloc_scan d b nbl (Suc bi) k
      else None)"

primrec balloc_loop :: "nat \<Rightarrow> uint \<Rightarrow> nat \<Rightarrow> ('z fs_scheme, uint) kM" where
  "balloc_loop 0 dev b = panic ''balloc: out of blocks''"
| "balloc_loop (Suc k) dev b =
     bind (gets sb) (\<lambda>sb.
     if b < unat (sb_size sb) then
       bind (bread dev (BBLOCK (of_nat b) sb)) (\<lambda>bp.
       bind (get_data bp) (\<lambda>d.
       case balloc_scan d b (unat (sb_size sb)) 0 BPB of
         Some bi \<Rightarrow>
           seq (set_data bp (\<lambda>d. d(bi div 8 := d (bi div 8) OR bitmask bi)))
          (seq (log_write bp)
          (seq (brelse bp)
          (seq (bzero dev (of_nat (b + bi)))
          (ret (of_nat (b + bi))))))
       | None \<Rightarrow> seq (brelse bp) (balloc_loop k dev (b + BPB))))
     else panic ''balloc: out of blocks'')"

definition balloc :: "uint \<Rightarrow> ('z fs_scheme, uint) kM" where
  "balloc dev = bind (gets sb) (\<lambda>sb. balloc_loop (unat (sb_size sb) div BPB + 1) dev 0)"

definition bfree :: "uint \<Rightarrow> uint \<Rightarrow> ('z fs_scheme, unit) kM" where
  "bfree dev b =
     bind (gets sb) (\<lambda>sb.
     bind (bread dev (BBLOCK b sb)) (\<lambda>bp.
     let bi = unat b mod BPB
     in bind (get_data bp) (\<lambda>d.
        seq (whenM (d (bi div 8) AND bitmask bi = 0) (panic ''freeing free block''))
       (seq (set_data bp (\<lambda>d. d(bi div 8 := d (bi div 8) AND NOT (bitmask bi))))
       (seq (log_write bp)
            (brelse bp))))))"

section \<open>Inodes\<close>

definition iinit :: "('z fs_scheme, unit) kM" where
  "iinit =
     seq (initlock IcacheLk ''icache'')
         (for_upto 0 NINODE (\<lambda>i. initsleeplock (InodeLk i) ''inode''))"

primrec iget_scan :: "uint \<Rightarrow> uint \<Rightarrow> (nat \<Rightarrow> inode) \<Rightarrow> nat \<Rightarrow> nat \<Rightarrow> nat option \<Rightarrow> nat option \<times> nat option" where
  "iget_scan dev n I ip 0 emp = (None, emp)"
| "iget_scan dev n I ip (Suc k) emp =
     (if iref (I ip) > 0 \<and> idev (I ip) = dev \<and> inum (I ip) = n then (Some ip, emp)
      else iget_scan dev n I (Suc ip) k
             (if emp = None \<and> iref (I ip) = 0 then Some ip else emp))"

definition iget :: "uint \<Rightarrow> uint \<Rightarrow> ('z fs_scheme, nat) kM" where
  "iget dev n =
     seq (acquire IcacheLk)
    (bind (gets inode) (\<lambda>I.
     case iget_scan dev n I 0 NINODE None of
       (Some ip, _) \<Rightarrow>
         seq (set_inode ip (\<lambda>x. x\<lparr>iref := iref x + 1\<rparr>))
        (seq (release IcacheLk)
        (ret ip))
     | (None, None) \<Rightarrow> panic ''iget: no inodes''
     | (None, Some ip) \<Rightarrow>
         seq (set_inode ip (\<lambda>x. x\<lparr>idev := dev\<rparr>))
        (seq (set_inode ip (\<lambda>x. x\<lparr>inum := n\<rparr>))
        (seq (set_inode ip (\<lambda>x. x\<lparr>iref := 1\<rparr>))
        (seq (set_inode ip (\<lambda>x. x\<lparr>ivalid := False\<rparr>))
        (seq (release IcacheLk)
        (ret ip)))))))"

definition dip_off :: "uint \<Rightarrow> nat" where
  "dip_off n = 64 * (unat n mod IPB)"

primrec ialloc_loop :: "nat \<Rightarrow> uint \<Rightarrow> uint16 \<Rightarrow> uint \<Rightarrow> ('z fs_scheme, nat) kM" where
  "ialloc_loop 0 dev type n = panic ''ialloc: no inodes''"
| "ialloc_loop (Suc k) dev type n =
     bind (gets sb) (\<lambda>sb.
     if n < sb_ninodes sb then
       bind (bread dev (IBLOCK n sb)) (\<lambda>bp.
       bind (get_data bp) (\<lambda>d.
       if ld16 d (dip_off n) = 0 then
         seq (set_data bp (memset (dip_off n) 0 64))
        (seq (set_data bp (st16 (dip_off n) type))
        (seq (log_write bp)
        (seq (brelse bp)
             (iget dev n))))
       else seq (brelse bp) (ialloc_loop k dev type (n + 1))))
     else panic ''ialloc: no inodes'')"

definition ialloc :: "uint \<Rightarrow> uint16 \<Rightarrow> ('z fs_scheme, nat) kM" where
  "ialloc dev type = bind (gets sb) (\<lambda>sb. ialloc_loop (unat (sb_ninodes sb)) dev type 1)"

primrec put_addrs :: "nat \<Rightarrow> nat \<Rightarrow> (nat \<Rightarrow> uint) \<Rightarrow> nat \<Rightarrow> bytes \<Rightarrow> bytes" where
  "put_addrs a i A 0 d = d"
| "put_addrs a i A (Suc k) d = put_addrs a (Suc i) A k (st32 (a + 4 * i) (A i) d)"

definition put_dinode :: "nat \<Rightarrow> inode \<Rightarrow> bytes \<Rightarrow> bytes" where
  "put_dinode a x d =
     put_addrs (a + 12) 0 (addrs x) (NDIRECT + 1)
       (st32 (a + 8) (isize x)
       (st16 (a + 6) (inlink x)
       (st16 (a + 4) (iminor x)
       (st16 (a + 2) (imajor x)
       (st16 a (itype x) d)))))"

definition iupdate :: "nat \<Rightarrow> ('z fs_scheme, unit) kM" where
  "iupdate ip =
     bind (gets sb) (\<lambda>sb.
     bind (get_inode ip) (\<lambda>x.
     bind (bread (idev x) (IBLOCK (inum x) sb)) (\<lambda>bp.
     seq (set_data bp (put_dinode (dip_off (inum x)) x))
    (seq (log_write bp)
         (brelse bp)))))"

definition idup :: "nat \<Rightarrow> ('z fs_scheme, nat) kM" where
  "idup ip =
     seq (acquire IcacheLk)
    (seq (set_inode ip (\<lambda>x. x\<lparr>iref := iref x + 1\<rparr>))
    (seq (release IcacheLk)
    (ret ip)))"

definition get_dinode :: "nat \<Rightarrow> bytes \<Rightarrow> inode \<Rightarrow> inode" where
  "get_dinode a d x = x\<lparr>itype := ld16 d a, imajor := ld16 d (a + 2), iminor := ld16 d (a + 4),
     inlink := ld16 d (a + 6), isize := ld32 d (a + 8),
     addrs := (\<lambda>i. if i < NDIRECT + 1 then ld32 d (a + 12 + 4 * i) else addrs x i)\<rparr>"

definition ilock :: "nat option \<Rightarrow> ('z fs_scheme, unit) kM" where
  "ilock p = (case p of None \<Rightarrow> panic ''ilock'' | Some ip \<Rightarrow>
     bind (get_inode ip) (\<lambda>x.
     seq (whenM (iref x < 1) (panic ''ilock''))
    (seq (acquiresleep (InodeLk ip))
    (bind (get_inode ip) (\<lambda>x.
     whenM (\<not> ivalid x)
       (bind (gets sb) (\<lambda>sb.
        bind (bread (idev x) (IBLOCK (inum x) sb)) (\<lambda>bp.
        bind (get_data bp) (\<lambda>d.
        seq (set_inode ip (get_dinode (dip_off (inum x)) d))
       (seq (brelse bp)
       (seq (set_inode ip (\<lambda>x. x\<lparr>ivalid := True\<rparr>))
       (bind (get_inode ip) (\<lambda>x.
        whenM (itype x = 0) (panic ''ilock: no type''))))))))))))))"

definition iunlock :: "nat option \<Rightarrow> ('z fs_scheme, unit) kM" where
  "iunlock p = (case p of None \<Rightarrow> panic ''iunlock'' | Some ip \<Rightarrow>
     bind (holdingsleep (InodeLk ip)) (\<lambda>held.
     bind (get_inode ip) (\<lambda>x.
     seq (whenM (\<not> held \<or> iref x < 1) (panic ''iunlock''))
         (releasesleep (InodeLk ip)))))"

section \<open>Inode content\<close>

definition bmap :: "nat \<Rightarrow> uint \<Rightarrow> ('z fs_scheme, uint) kM" where
  "bmap ip bn =
     bind (get_inode ip) (\<lambda>x.
     if unat bn < NDIRECT then
       (if addrs x (unat bn) = 0 then
          bind (balloc (idev x)) (\<lambda>addr.
          seq (set_inode ip (\<lambda>x. x\<lparr>addrs := (addrs x)(unat bn := addr)\<rparr>))
         (ret addr))
        else ret (addrs x (unat bn)))
     else
       let bn = unat (bn - of_nat NDIRECT)
       in if bn < NINDIRECT then
            bind (if addrs x NDIRECT = 0 then
                    bind (balloc (idev x)) (\<lambda>addr.
                    seq (set_inode ip (\<lambda>x. x\<lparr>addrs := (addrs x)(NDIRECT := addr)\<rparr>))
                   (ret addr))
                  else ret (addrs x NDIRECT)) (\<lambda>addr.
            bind (bread (idev x) addr) (\<lambda>bp.
            bind (get_data bp) (\<lambda>d.
            if ld32 d (4 * bn) = 0 then
              bind (balloc (idev x)) (\<lambda>addr.
              seq (set_data bp (st32 (4 * bn) addr))
             (seq (log_write bp)
             (seq (brelse bp)
             (ret addr))))
            else seq (brelse bp) (ret (ld32 d (4 * bn))))))
          else panic ''bmap: out of range'')"

definition itrunc :: "nat \<Rightarrow> ('z fs_scheme, unit) kM" where
  "itrunc ip =
     seq (for_upto 0 NDIRECT (\<lambda>i.
            bind (get_inode ip) (\<lambda>x.
            whenM (addrs x i \<noteq> 0)
              (seq (bfree (idev x) (addrs x i))
                   (set_inode ip (\<lambda>x. x\<lparr>addrs := (addrs x)(i := 0)\<rparr>))))))
    (bind (get_inode ip) (\<lambda>x.
     seq (whenM (addrs x NDIRECT \<noteq> 0)
            (bind (bread (idev x) (addrs x NDIRECT)) (\<lambda>bp.
             seq (for_upto 0 NINDIRECT (\<lambda>j.
                    bind (get_data bp) (\<lambda>d.
                    whenM (ld32 d (4 * j) \<noteq> 0) (bfree (idev x) (ld32 d (4 * j))))))
            (seq (brelse bp)
            (seq (bfree (idev x) (addrs x NDIRECT))
                 (set_inode ip (\<lambda>x. x\<lparr>addrs := (addrs x)(NDIRECT := 0)\<rparr>)))))))
    (seq (set_inode ip (\<lambda>x. x\<lparr>isize := 0\<rparr>))
         (iupdate ip))))"

definition iput :: "nat \<Rightarrow> ('z fs_scheme, unit) kM" where
  "iput ip =
     seq (acquire IcacheLk)
    (bind (get_inode ip) (\<lambda>x.
     seq (whenM (iref x = 1 \<and> ivalid x \<and> inlink x = 0)
            (seq (acquiresleep (InodeLk ip))
            (seq (release IcacheLk)
            (seq (itrunc ip)
            (seq (set_inode ip (\<lambda>x. x\<lparr>itype := 0\<rparr>))
            (seq (iupdate ip)
            (seq (set_inode ip (\<lambda>x. x\<lparr>ivalid := False\<rparr>))
            (seq (releasesleep (InodeLk ip))
                 (acquire IcacheLk)))))))))
    (seq (set_inode ip (\<lambda>x. x\<lparr>iref := iref x - 1\<rparr>))
         (release IcacheLk))))"

definition iunlockput :: "nat \<Rightarrow> ('z fs_scheme, unit) kM" where
  "iunlockput ip = seq (iunlock (Some ip)) (iput ip)"

record stat =
  st_dev :: uint
  st_ino :: uint
  st_type :: uint16
  st_nlink :: uint16
  st_size :: uint64

definition stati :: "nat \<Rightarrow> ('z fs_scheme, stat) kM" where
  "stati ip = bind (get_inode ip) (\<lambda>x.
     ret \<lparr>st_dev = idev x, st_ino = inum x, st_type = itype x, st_nlink = inlink x,
          st_size = ucast (isize x)\<rparr>)"

text \<open>
  \<^verbatim>\<open>readi\<close> and \<^verbatim>\<open>writei\<close>: each turn moves the bytes up to the end of a block, so \<open>n\<close> bytes take at
  most \<^verbatim>\<open>n / BSIZE + 2\<close> turns.
\<close>

definition chunk :: "uint \<Rightarrow> uint \<Rightarrow> uint" where
  "chunk left off = (if left < of_nat BSIZE - off mod of_nat BSIZE then left
     else of_nat BSIZE - off mod of_nat BSIZE)"

primrec readi_loop :: "nat \<Rightarrow> nat \<Rightarrow> eaddr \<Rightarrow> uint \<Rightarrow> uint \<Rightarrow> uint \<Rightarrow> ('z fs_scheme, unit) kM" where
  "readi_loop 0 ip dst off n tot = (if tot < n then hang else skip)"
| "readi_loop (Suc k) ip dst off n tot =
     (if tot < n then
        bind (get_inode ip) (\<lambda>x.
        bind (bmap ip (off div of_nat BSIZE)) (\<lambda>addr.
        bind (bread (idev x) addr) (\<lambda>bp.
        let m = chunk (n - tot) off
        in bind (get_data bp) (\<lambda>d.
           bind (either_copyout dst d (unat off mod BSIZE) (ucast m)) (\<lambda>r.
           if r = -1 then brelse bp
           else seq (brelse bp)
                    (readi_loop k ip (eaddr_plus dst (ucast m)) (off + m) n (tot + m)))))))
      else skip)"

definition readi :: "nat \<Rightarrow> eaddr \<Rightarrow> uint \<Rightarrow> uint \<Rightarrow> ('z fs_scheme, int) kM" where
  "readi ip dst off n =
     bind (get_inode ip) (\<lambda>x.
     if off > isize x \<or> off + n < off then ret (-1)
     else
       let n = (if off + n > isize x then isize x - off else n)
       in seq (readi_loop (unat n div BSIZE + 2) ip dst off n 0) (ret (sint n)))"

primrec writei_loop :: "nat \<Rightarrow> nat \<Rightarrow> eaddr \<Rightarrow> uint \<Rightarrow> uint \<Rightarrow> uint \<Rightarrow> ('z fs_scheme, uint) kM" where
  "writei_loop 0 ip src off n tot = (if tot < n then hang else ret off)"
| "writei_loop (Suc k) ip src off n tot =
     (if tot < n then
        bind (get_inode ip) (\<lambda>x.
        bind (bmap ip (off div of_nat BSIZE)) (\<lambda>addr.
        bind (bread (idev x) addr) (\<lambda>bp.
        let m = chunk (n - tot) off
        in bind (get_data bp) (\<lambda>d.
           bind (either_copyin d (unat off mod BSIZE) src (ucast m)) (\<lambda>(r, d').
           seq (set_data bp (\<lambda>_. d'))
          (if r = -1 then seq (brelse bp) (ret off)
           else seq (log_write bp)
               (seq (brelse bp)
                    (writei_loop k ip (eaddr_plus src (ucast m)) (off + m) n (tot + m)))))))))
      else ret off)"

definition writei :: "nat \<Rightarrow> eaddr \<Rightarrow> uint \<Rightarrow> uint \<Rightarrow> ('z fs_scheme, int) kM" where
  "writei ip src off n =
     bind (get_inode ip) (\<lambda>x.
     if off > isize x \<or> off + n < off then ret (-1)
     else if unat (off + n) > MAXFILE * BSIZE then ret (-1)
     else
       bind (writei_loop (unat n div BSIZE + 2) ip src off n 0) (\<lambda>off.
       seq (whenM (n > 0)
              (bind (get_inode ip) (\<lambda>x.
               seq (whenM (off > isize x) (set_inode ip (\<lambda>x. x\<lparr>isize := off\<rparr>)))
                   (iupdate ip))))
      (ret (sint n))))"

section \<open>Directories\<close>

definition namecmp :: "bytes \<Rightarrow> bytes \<Rightarrow> int" where
  "namecmp s t = strncmp s t DIRSIZ"

text \<open>The local \<^verbatim>\<open>struct dirent de\<close> is the first 16 bytes of \<open>kstk\<close>.\<close>

definition de_inum :: "bytes \<Rightarrow> uint16" where
  "de_inum d = ld16 d 0"

definition de_name :: "bytes \<Rightarrow> bytes" where
  "de_name d = (\<lambda>i. d (2 + i))"

primrec dirlookup_loop :: "nat \<Rightarrow> nat \<Rightarrow> bytes \<Rightarrow> uint \<Rightarrow> ('z fs_scheme, (nat \<times> uint) option) kM" where
  "dirlookup_loop 0 dp name off = hang"
| "dirlookup_loop (Suc k) dp name off =
     bind (get_inode dp) (\<lambda>x.
     if off < isize x then
       bind (readi dp (KernStk 0) off 16) (\<lambda>r.
       seq (whenM (r \<noteq> 16) (panic ''dirlookup read''))
      (bind (gets kstk) (\<lambda>d.
       if de_inum d = 0 then dirlookup_loop k dp name (off + 16)
       else if namecmp name (de_name d) = 0 then
         bind (iget (idev x) (ucast (de_inum d))) (\<lambda>ip. ret (Some (ip, off)))
       else dirlookup_loop k dp name (off + 16))))
     else ret None)"

definition dirlookup :: "nat \<Rightarrow> bytes \<Rightarrow> ('z fs_scheme, (nat \<times> uint) option) kM" where
  "dirlookup dp name =
     bind (get_inode dp) (\<lambda>x.
     seq (whenM (itype x \<noteq> T_DIR) (panic ''dirlookup not DIR''))
         (dirlookup_loop (unat (isize x) div 16 + 2) dp name 0))"

primrec dirlink_scan :: "nat \<Rightarrow> nat \<Rightarrow> uint \<Rightarrow> ('z fs_scheme, uint) kM" where
  "dirlink_scan 0 dp off = hang"
| "dirlink_scan (Suc k) dp off =
     bind (get_inode dp) (\<lambda>x.
     if off < isize x then
       bind (readi dp (KernStk 0) off 16) (\<lambda>r.
       seq (whenM (r \<noteq> 16) (panic ''dirlink read''))
      (bind (gets kstk) (\<lambda>d.
       if de_inum d = 0 then ret off else dirlink_scan k dp (off + 16))))
     else ret off)"

definition dirlink :: "nat \<Rightarrow> bytes \<Rightarrow> uint \<Rightarrow> ('z fs_scheme, int) kM" where
  "dirlink dp name n =
     bind (dirlookup dp name) (\<lambda>r. case r of
       Some (ip, _) \<Rightarrow> seq (iput ip) (ret (-1))
     | None \<Rightarrow>
         bind (get_inode dp) (\<lambda>x.
         bind (dirlink_scan (unat (isize x) div 16 + 2) dp 0) (\<lambda>off.
         seq (upd (\<lambda>s. s\<lparr>kstk := blit 2 (strncpy (de_name (kstk s)) name (int DIRSIZ)) 0 DIRSIZ (kstk s)\<rparr>))
        (seq (upd (\<lambda>s. s\<lparr>kstk := st16 0 (ucast n) (kstk s)\<rparr>))
        (bind (writei dp (KernStk 0) off 16) (\<lambda>r.
         seq (whenM (r \<noteq> 16) (panic ''dirlink''))
        (ret 0)))))))"

section \<open>Path names\<close>

definition slash :: byte where "slash = 47"

definition skipelem :: "byte list \<Rightarrow> bytes \<Rightarrow> (byte list \<times> bytes) option" where
  "skipelem path name =
     (let s = dropWhile (\<lambda>c. c = slash) path
      in if s = [] then None
         else
           let elem = takeWhile (\<lambda>c. c \<noteq> slash) s;
               rest = dropWhile (\<lambda>c. c \<noteq> slash) s;
               len = length elem;
               name' = (if len \<ge> DIRSIZ then blit 0 (\<lambda>i. elem ! i) 0 DIRSIZ name
                        else (blit 0 (\<lambda>i. elem ! i) 0 len name)(len := 0))
           in Some (dropWhile (\<lambda>c. c = slash) rest, name'))"

primrec namex_loop :: "nat \<Rightarrow> nat \<Rightarrow> byte list \<Rightarrow> bool \<Rightarrow> bytes \<Rightarrow> ('z fs_scheme, nat option \<times> bytes) kM" where
  "namex_loop 0 ip path par name = hang"
| "namex_loop (Suc k) ip path par name =
     (case skipelem path name of
        None \<Rightarrow> if par then seq (iput ip) (ret (None, name)) else ret (Some ip, name)
      | Some (path, name) \<Rightarrow>
          seq (ilock (Some ip))
         (bind (get_inode ip) (\<lambda>x.
          if itype x \<noteq> T_DIR then seq (iunlockput ip) (ret (None, name))
          else if par \<and> path = [] then seq (iunlock (Some ip)) (ret (Some ip, name))
          else bind (dirlookup ip name) (\<lambda>r. case r of
              None \<Rightarrow> seq (iunlockput ip) (ret (None, name))
            | Some (nxt, _) \<Rightarrow> seq (iunlockput ip) (namex_loop k nxt path par name)))))"

definition namex :: "byte list \<Rightarrow> bool \<Rightarrow> bytes \<Rightarrow> ('z fs_scheme, nat option \<times> bytes) kM" where
  "namex path par name =
     bind (if path \<noteq> [] \<and> hd path = slash then iget ROOTDEV ROOTINO
           else bind curproc (\<lambda>p. bind (get_proc p) (\<lambda>pr.
             case cwd pr of None \<Rightarrow> panic ''kerneltrap'' | Some d \<Rightarrow> idup d))) (\<lambda>ip.
     namex_loop (Suc (length path)) ip path par name)"

definition namei :: "byte list \<Rightarrow> ('z fs_scheme, nat option) kM" where
  "namei path = bind (namex path False (\<lambda>_. 0)) (\<lambda>(ip, _). ret ip)"

definition nameiparent :: "byte list \<Rightarrow> bytes \<Rightarrow> ('z fs_scheme, nat option \<times> bytes) kM" where
  "nameiparent path name = namex path True name"

end
