(* ===== verification/Xv6_Console.thy ===== *)
theory Xv6_Console
  imports Xv6_Fs
begin

text \<open>
  The console (\<^verbatim>\<open>kernel/console.c\<close>), the UART interrupt loop (\<^verbatim>\<open>uartintr\<close> of \<^verbatim>\<open>kernel/uart.c\<close>) and
  \<^verbatim>\<open>procdump\<close> of \<^verbatim>\<open>kernel/proc.c\<close>. The input ring has three running indices, compared and
  incremented modulo \<open>2^32\<close>. A device switch entry is empty or the console's function.
\<close>

datatype devfn = ConsoleFn

record console = fs +
  cons_buf :: "nat \<Rightarrow> byte"
  cons_r :: uint
  cons_w :: uint
  cons_e :: uint
  devsw_read :: "nat \<Rightarrow> devfn option"
  devsw_write :: "nat \<Rightarrow> devfn option"

definition INPUT_BUF :: nat where "INPUT_BUF = 128"
definition CONSOLE :: nat where "CONSOLE = 1"

section \<open>System calls\<close>

primrec consolewrite_loop :: "eaddr \<Rightarrow> nat \<Rightarrow> nat \<Rightarrow> ('z console_scheme, unit) kM" where
  "consolewrite_loop src i 0 = skip"
| "consolewrite_loop src i (Suc k) =
     bind (either_copyin (\<lambda>_. 0) 0 (eaddr_plus src (of_nat i)) 1) (\<lambda>(r, c).
     if r = -1 then skip
     else seq (consputc (uint (c 0))) (consolewrite_loop src (Suc i) k))"

definition consolewrite :: "eaddr \<Rightarrow> int \<Rightarrow> ('z console_scheme, int) kM" where
  "consolewrite src n =
     seq (acquire ConsLk)
    (seq (consolewrite_loop src 0 (nat n))
    (seq (release ConsLk)
    (ret n)))"

text \<open>
  The outer loop of \<^verbatim>\<open>consoleread\<close>, by the number of bytes still wanted; the result is that number
  when the loop ends, \<open>None\<close> when the process was killed while it waited. A thread that slept
  re-enters the loop with the same arguments.
\<close>

primrec consoleread_loop :: "uint \<Rightarrow> eaddr \<Rightarrow> nat \<Rightarrow> ('z console_scheme, nat option) kM" where
  "consoleread_loop target dst 0 = ret (Some 0)"
| "consoleread_loop target dst (Suc n) =
     bind (gets (\<lambda>s. cons_r s = cons_w s)) (\<lambda>empty_ring.
     if empty_ring then
       bind curproc (\<lambda>p. bind (get_proc p) (\<lambda>pr.
       if killed pr then seq (release ConsLk) (ret None)
       else sleep ChConsR ConsLk))
     else
       bind (gets (\<lambda>s. cons_buf s (unat (cons_r s) mod INPUT_BUF))) (\<lambda>c.
       seq (upd (\<lambda>s. s\<lparr>cons_r := cons_r s + 1\<rparr>))
      (if c = 4 then
         seq (whenM (of_nat (Suc n) < target) (upd (\<lambda>s. s\<lparr>cons_r := cons_r s - 1\<rparr>)))
             (ret (Some (Suc n)))
       else
         bind (either_copyout dst (\<lambda>_. c) 0 1) (\<lambda>r.
         if r = -1 then ret (Some (Suc n))
         else if c = 10 then ret (Some n)
         else consoleread_loop target (eaddr_plus dst 1) n))))"

definition consoleread :: "eaddr \<Rightarrow> int \<Rightarrow> ('z console_scheme, int) kM" where
  "consoleread dst n =
     seq (acquire ConsLk)
    (bind (consoleread_loop (of_int n) dst (nat n)) (\<lambda>r. case r of
       None \<Rightarrow> ret (-1)
     | Some left \<Rightarrow> seq (release ConsLk) (ret (if n > 0 then n - int left else 0))))"

section \<open>Process listing\<close>

definition state_name :: "procstate \<Rightarrow> string" where
  "state_name st = (case st of UNUSED \<Rightarrow> ''unused'' | SLEEPING \<Rightarrow> ''sleep '' | RUNNABLE \<Rightarrow> ''runble''
     | RUNNING \<Rightarrow> ''run   '' | ZOMBIE \<Rightarrow> ''zombie'')"

definition pname_str :: "bytes \<Rightarrow> nat \<Rightarrow> string" where
  "pname_str p n = map (\<lambda>b. char_of (unat b)) (cname p n)"

definition procdump :: "('z console_scheme, unit) kM" where
  "procdump =
     seq (printf (Some ''\<newline>'') [])
         (for_upto 0 NPROC (\<lambda>i.
            bind (get_proc i) (\<lambda>p.
            whenM (pstate p \<noteq> UNUSED)
              (seq (printf (Some ''%d %s %s'')
                      [VInt (pid p), VStr (Some (state_name (pstate p))), VStr (Some (pname_str (pname p) 16))])
                   (printf (Some ''\<newline>'') [])))))"

section \<open>Input interrupts\<close>

primrec kill_line :: "nat \<Rightarrow> ('z console_scheme, unit) kM" where
  "kill_line 0 = skip"
| "kill_line (Suc k) =
     bind (gets (\<lambda>s. cons_e s \<noteq> cons_w s \<and> cons_buf s (unat (cons_e s - 1) mod INPUT_BUF) \<noteq> 10)) (\<lambda>more.
     whenM more
       (seq (upd (\<lambda>s. s\<lparr>cons_e := cons_e s - 1\<rparr>))
       (seq (consputc BACKSPACE)
            (kill_line k))))"

definition consoleintr :: "int \<Rightarrow> ('z console_scheme, unit) kM" where
  "consoleintr c =
     seq (acquire ConsLk)
    (seq (if c = 16 then procdump
          else if c = 21 then bind (gets (\<lambda>s. unat (cons_e s - cons_w s))) kill_line
          else if c = 8 \<or> c = 127 then
            bind (gets (\<lambda>s. cons_e s \<noteq> cons_w s)) (\<lambda>more.
            whenM more (seq (upd (\<lambda>s. s\<lparr>cons_e := cons_e s - 1\<rparr>)) (consputc BACKSPACE)))
          else
            bind (gets (\<lambda>s. unat (cons_e s - cons_r s) < INPUT_BUF)) (\<lambda>room.
            whenM (c \<noteq> 0 \<and> room)
              (let c = (if c = 13 then 10 else c)
               in seq (consputc c)
                 (seq (upd (\<lambda>s. s\<lparr>cons_buf := (cons_buf s)(unat (cons_e s) mod INPUT_BUF := of_int c),
                                  cons_e := cons_e s + 1\<rparr>))
                 (bind (gets (\<lambda>s. cons_e s = cons_r s + of_nat INPUT_BUF)) (\<lambda>full.
                  whenM (c = 10 \<or> c = 4 \<or> full)
                    (seq (upd (\<lambda>s. s\<lparr>cons_w := cons_e s\<rparr>))
                         (wakeup ChConsR))))))))
         (release ConsLk))"

text \<open>
  \<^verbatim>\<open>while(1)\<close> in \<^verbatim>\<open>uartintr\<close> ends when \<^verbatim>\<open>uartgetc()\<close> finds the receiver empty. The queue \<open>uart_in\<close> holds the
  bytes the line delivers until then, those that arrive while the loop runs included; each turn
  takes one of them, so one turn more than their number is enough.
\<close>

primrec uartintr_loop :: "nat \<Rightarrow> ('z console_scheme, unit) kM" where
  "uartintr_loop 0 = hang"
| "uartintr_loop (Suc k) =
     bind uartgetc (\<lambda>c. if c = -1 then skip else seq (consoleintr c) (uartintr_loop k))"

definition uartintr :: "('z console_scheme, unit) kM" where
  "uartintr = bind (gets uart_in) (\<lambda>q. uartintr_loop (Suc (length q)))"

definition consoleinit :: "('z console_scheme, unit) kM" where
  "consoleinit =
     seq (initlock ConsLk ''cons'')
    (seq uartinit
    (seq (upd (\<lambda>s. s\<lparr>devsw_read := (devsw_read s)(CONSOLE := Some ConsoleFn)\<rparr>))
         (upd (\<lambda>s. s\<lparr>devsw_write := (devsw_write s)(CONSOLE := Some ConsoleFn)\<rparr>))))"

end
