(* ===== verification/Xv6_File.thy ===== *)
theory Xv6_File
  imports Xv6_Console
begin

text \<open>
  Open files and pipes (\<^verbatim>\<open>kernel/file.c\<close>, \<^verbatim>\<open>kernel/pipe.c\<close>). A file is its index in
  \<^verbatim>\<open>ftable.file\<close>; a pipe is the object at the address of the page it was allocated in. Loops that
  may sleep are definitions of their own, which a woken thread re-enters.
\<close>

datatype filetype = FD_NONE | FD_PIPE | FD_INODE | FD_DEVICE

record file_t =
  ftype :: filetype
  fref :: int
  readable :: bool
  writable :: bool
  fpipe :: uint64
  fip :: "nat option"
  foff :: uint
  fmajor :: uint16
  fminor :: uint16

record pipe =
  pdata :: "nat \<Rightarrow> byte"
  nread :: uint
  nwrite :: uint
  readopen :: bool
  writeopen :: bool

record ftable = console +
  files :: "nat \<Rightarrow> file_t"
  pipes :: "uint64 \<Rightarrow> pipe"

definition NFILE :: nat where "NFILE = 100"
definition NDEV :: int where "NDEV = 10"
definition PIPESIZE :: nat where "PIPESIZE = 512"

definition get_file :: "nat \<Rightarrow> ('z ftable_scheme, file_t) kM" where
  "get_file f = gets (\<lambda>s. files s f)"

definition set_file :: "nat \<Rightarrow> (file_t \<Rightarrow> file_t) \<Rightarrow> ('z ftable_scheme, unit) kM" where
  "set_file f g = upd (\<lambda>s. s\<lparr>files := (files s)(f := g (files s f))\<rparr>)"

definition get_pipe :: "uint64 \<Rightarrow> ('z ftable_scheme, pipe) kM" where
  "get_pipe p = gets (\<lambda>s. pipes s p)"

definition set_pipe :: "uint64 \<Rightarrow> (pipe \<Rightarrow> pipe) \<Rightarrow> ('z ftable_scheme, unit) kM" where
  "set_pipe p g = upd (\<lambda>s. s\<lparr>pipes := (pipes s)(p := g (pipes s p))\<rparr>)"

section \<open>The file table\<close>

definition fileinit :: "('z ftable_scheme, unit) kM" where
  "fileinit = initlock FtableLk ''ftable''"

primrec filealloc_scan :: "nat \<Rightarrow> nat \<Rightarrow> ('z ftable_scheme, nat option) kM" where
  "filealloc_scan f 0 = ret None"
| "filealloc_scan f (Suc k) =
     bind (get_file f) (\<lambda>x.
     if fref x = 0 then seq (set_file f (\<lambda>x. x\<lparr>fref := 1\<rparr>)) (ret (Some f))
     else filealloc_scan (Suc f) k)"

definition filealloc :: "('z ftable_scheme, nat option) kM" where
  "filealloc =
     seq (acquire FtableLk)
    (bind (filealloc_scan 0 NFILE) (\<lambda>r.
     seq (release FtableLk)
    (ret r)))"

definition filedup :: "nat \<Rightarrow> ('z ftable_scheme, nat) kM" where
  "filedup f =
     seq (acquire FtableLk)
    (bind (get_file f) (\<lambda>x.
     seq (whenM (fref x < 1) (panic ''filedup''))
    (seq (set_file f (\<lambda>x. x\<lparr>fref := fref x + 1\<rparr>))
    (seq (release FtableLk)
    (ret f)))))"

section \<open>Pipes\<close>

definition pipeclose :: "uint64 \<Rightarrow> bool \<Rightarrow> ('z ftable_scheme, unit) kM" where
  "pipeclose pi w =
     seq (acquire (PipeLk pi))
    (seq (if w then seq (set_pipe pi (\<lambda>x. x\<lparr>writeopen := False\<rparr>)) (wakeup (ChPipeRead pi))
          else seq (set_pipe pi (\<lambda>x. x\<lparr>readopen := False\<rparr>)) (wakeup (ChPipeWrite pi)))
    (bind (get_pipe pi) (\<lambda>x.
     if \<not> readopen x \<and> \<not> writeopen x then seq (release (PipeLk pi)) (kfree pi)
     else release (PipeLk pi))))"

primrec pipewrite_loop :: "uint64 \<Rightarrow> uint64 \<Rightarrow> uint64 \<Rightarrow> nat \<Rightarrow> nat \<Rightarrow> ('z ftable_scheme, bool) kM" where
  "pipewrite_loop pi pt addr i 0 = ret True"
| "pipewrite_loop pi pt addr i (Suc k) =
     bind (get_pipe pi) (\<lambda>x.
     if nwrite x = nread x + of_nat PIPESIZE then
       bind curproc (\<lambda>p. bind (get_proc p) (\<lambda>pr.
       if \<not> readopen x \<or> killed pr then seq (release (PipeLk pi)) (ret False)
       else seq (wakeup (ChPipeRead pi)) (sleep (ChPipeWrite pi) (PipeLk pi))))
     else
       bind (copyin pt (\<lambda>_. 0) 0 (addr + of_nat i) 1) (\<lambda>(r, c).
       if r = -1 then ret True
       else seq (set_pipe pi (\<lambda>x. x\<lparr>pdata := (pdata x)(unat (nwrite x) mod PIPESIZE := c 0),
                    nwrite := nwrite x + 1\<rparr>))
                (pipewrite_loop pi pt addr (Suc i) k)))"

definition pipewrite :: "uint64 \<Rightarrow> uint64 \<Rightarrow> int \<Rightarrow> ('z ftable_scheme, int) kM" where
  "pipewrite pi addr n =
     bind curproc (\<lambda>p. bind (get_proc p) (\<lambda>pr.
     seq (acquire (PipeLk pi))
    (bind (pipewrite_loop pi (pagetable pr) addr 0 (nat n)) (\<lambda>fin.
     if fin then
       seq (wakeup (ChPipeRead pi))
      (seq (release (PipeLk pi))
      (ret n))
     else ret (-1)))))"

primrec piperead_loop :: "uint64 \<Rightarrow> uint64 \<Rightarrow> uint64 \<Rightarrow> nat \<Rightarrow> nat \<Rightarrow> ('z ftable_scheme, nat) kM" where
  "piperead_loop pi pt addr i 0 = ret i"
| "piperead_loop pi pt addr i (Suc k) =
     bind (get_pipe pi) (\<lambda>x.
     if nread x = nwrite x then ret i
     else
       let c = pdata x (unat (nread x) mod PIPESIZE)
       in seq (set_pipe pi (\<lambda>x. x\<lparr>nread := nread x + 1\<rparr>))
         (bind (copyout pt (addr + of_nat i) (\<lambda>_. c) 0 1) (\<lambda>r.
          if r = -1 then ret i
          else piperead_loop pi pt addr (Suc i) k)))"

text \<open>\<open>piperead_body\<close> is \<^verbatim>\<open>piperead\<close> from the test of its \<^verbatim>\<open>while\<close> loop on.\<close>

definition piperead_body :: "uint64 \<Rightarrow> uint64 \<Rightarrow> uint64 \<Rightarrow> int \<Rightarrow> ('z ftable_scheme, int) kM" where
  "piperead_body pi pt addr n =
     bind (get_pipe pi) (\<lambda>x.
     if nread x = nwrite x \<and> writeopen x then
       bind curproc (\<lambda>p. bind (get_proc p) (\<lambda>pr.
       if killed pr then seq (release (PipeLk pi)) (ret (-1))
       else sleep (ChPipeRead pi) (PipeLk pi)))
     else
       bind (piperead_loop pi pt addr 0 (nat n)) (\<lambda>i.
       seq (wakeup (ChPipeWrite pi))
      (seq (release (PipeLk pi))
      (ret (int i)))))"

definition piperead :: "uint64 \<Rightarrow> uint64 \<Rightarrow> int \<Rightarrow> ('z ftable_scheme, int) kM" where
  "piperead pi addr n =
     bind curproc (\<lambda>p. bind (get_proc p) (\<lambda>pr.
     seq (acquire (PipeLk pi))
         (piperead_body pi (pagetable pr) addr n)))"

section \<open>Closing, reading, writing\<close>

text \<open>The last \<^verbatim>\<open>ff.ip->dev\<close> is read after \<^verbatim>\<open>iput\<close> has given the inode up.\<close>

definition fileclose :: "nat \<Rightarrow> ('z ftable_scheme, unit) kM" where
  "fileclose f =
     seq (acquire FtableLk)
    (bind (get_file f) (\<lambda>x.
     seq (whenM (fref x < 1) (panic ''fileclose''))
    (seq (set_file f (\<lambda>x. x\<lparr>fref := fref x - 1\<rparr>))
    (bind (get_file f) (\<lambda>ff.
     if fref ff > 0 then release FtableLk
     else
       seq (set_file f (\<lambda>x. x\<lparr>fref := 0\<rparr>))
      (seq (set_file f (\<lambda>x. x\<lparr>ftype := FD_NONE\<rparr>))
      (seq (release FtableLk)
      (if ftype ff = FD_PIPE then pipeclose (fpipe ff) (writable ff)
       else if ftype ff = FD_INODE \<or> ftype ff = FD_DEVICE then
         (case fip ff of
            None \<Rightarrow> panic ''kerneltrap''
          | Some ip \<Rightarrow>
              bind (get_inode ip) (\<lambda>x.
              seq (begin_op (unat (idev x)))
             (seq (iput ip)
             (bind (get_inode ip) (\<lambda>x.
              end_op (unat (idev x)))))))
       else skip))))))))"

definition encode_stat :: "stat \<Rightarrow> bytes" where
  "encode_stat st = st64 16 (st_size st) (st16 10 (st_nlink st) (st16 8 (st_type st)
     (st32 4 (st_ino st) (st32 0 (st_dev st) (\<lambda>_. 0)))))"

definition filestat :: "nat \<Rightarrow> uint64 \<Rightarrow> ('z ftable_scheme, int) kM" where
  "filestat f addr =
     bind curproc (\<lambda>p.
     bind (get_file f) (\<lambda>x.
     if ftype x = FD_INODE \<or> ftype x = FD_DEVICE then
       seq (ilock (fip x))
      (bind (stati (the (fip x))) (\<lambda>st.
       seq (iunlock (fip x))
      (bind (get_proc p) (\<lambda>pr.
       bind (copyout (pagetable pr) addr (encode_stat st) 0 24) (\<lambda>r.
       ret (if r < 0 then -1 else 0))))))
     else ret (-1)))"

definition fileread :: "nat \<Rightarrow> uint64 \<Rightarrow> int \<Rightarrow> ('z ftable_scheme, int) kM" where
  "fileread f addr n =
     bind (get_file f) (\<lambda>x.
     if \<not> readable x then ret (-1)
     else case ftype x of
       FD_PIPE \<Rightarrow> piperead (fpipe x) addr n
     | FD_DEVICE \<Rightarrow>
         bind (gets devsw_read) (\<lambda>dr.
         if sint (fmajor x) < 0 \<or> sint (fmajor x) \<ge> NDEV then ret (-1)
         else case dr (unat (fmajor x)) of
           None \<Rightarrow> ret (-1)
         | Some ConsoleFn \<Rightarrow> consoleread (UserVA addr) n)
     | FD_INODE \<Rightarrow>
         seq (ilock (fip x))
        (bind (readi (the (fip x)) (UserVA addr) (foff x) (of_int n)) (\<lambda>r.
         seq (whenM (r > 0) (set_file f (\<lambda>x. x\<lparr>foff := foff x + of_int r\<rparr>)))
        (seq (iunlock (fip x))
        (ret r))))
     | FD_NONE \<Rightarrow> panic ''fileread'')"

definition FW_MAX :: int where
  "FW_MAX = ((MAXOPBLOCKS - 1 - 1 - 2) div 2) * int BSIZE"

text \<open>The loop of \<^verbatim>\<open>filewrite\<close> writes at least one byte each turn; its result is the count \<^verbatim>\<open>i\<close>.\<close>

primrec filewrite_loop :: "nat \<Rightarrow> nat \<Rightarrow> nat \<Rightarrow> uint64 \<Rightarrow> int \<Rightarrow> int \<Rightarrow> ('z ftable_scheme, int) kM" where
  "filewrite_loop 0 f ip addr n i = (if i < n then hang else ret i)"
| "filewrite_loop (Suc k) f ip addr n i =
     (if i < n then
        let n1 = (if n - i > FW_MAX then FW_MAX else n - i)
        in bind (get_inode ip) (\<lambda>x.
           seq (begin_op (unat (idev x)))
          (seq (ilock (Some ip))
          (bind (get_file f) (\<lambda>ff.
           bind (writei ip (UserVA (addr + of_int i)) (foff ff) (of_int n1)) (\<lambda>r.
           seq (whenM (r > 0) (set_file f (\<lambda>x. x\<lparr>foff := foff x + of_int r\<rparr>)))
          (seq (iunlock (Some ip))
          (bind (get_inode ip) (\<lambda>x.
           seq (end_op (unat (idev x)))
          (if r < 0 then ret i
           else seq (whenM (r \<noteq> n1) (panic ''short filewrite''))
                    (filewrite_loop k f ip addr n (i + r)))))))))))
      else ret i)"

definition filewrite :: "nat \<Rightarrow> uint64 \<Rightarrow> int \<Rightarrow> ('z ftable_scheme, int) kM" where
  "filewrite f addr n =
     bind (get_file f) (\<lambda>x.
     if \<not> writable x then ret (-1)
     else case ftype x of
       FD_PIPE \<Rightarrow> pipewrite (fpipe x) addr n
     | FD_DEVICE \<Rightarrow>
         bind (gets devsw_write) (\<lambda>dw.
         if sint (fmajor x) < 0 \<or> sint (fmajor x) \<ge> NDEV then ret (-1)
         else case dw (unat (fmajor x)) of
           None \<Rightarrow> ret (-1)
         | Some ConsoleFn \<Rightarrow> consolewrite (UserVA addr) n)
     | FD_INODE \<Rightarrow> (case fip x of
           None \<Rightarrow> panic ''kerneltrap''
         | Some ip \<Rightarrow>
             bind (filewrite_loop (nat n) f ip addr n 0) (\<lambda>i.
             ret (if i = n then n else -1)))
     | FD_NONE \<Rightarrow> panic ''filewrite'')"

definition pipealloc_bad :: "nat option \<Rightarrow> nat option \<Rightarrow> ('z ftable_scheme, (nat \<times> nat) option) kM" where
  "pipealloc_bad f0 f1 =
     seq (case f0 of None \<Rightarrow> skip | Some f \<Rightarrow> fileclose f)
    (seq (case f1 of None \<Rightarrow> skip | Some f \<Rightarrow> fileclose f)
    (ret None))"

definition pipealloc :: "('z ftable_scheme, (nat \<times> nat) option) kM" where
  "pipealloc =
     bind filealloc (\<lambda>r0. case r0 of None \<Rightarrow> pipealloc_bad None None | Some f0 \<Rightarrow>
     bind filealloc (\<lambda>r1. case r1 of None \<Rightarrow> pipealloc_bad (Some f0) None | Some f1 \<Rightarrow>
     bind kalloc (\<lambda>pi.
     if pi = 0 then pipealloc_bad (Some f0) (Some f1)
     else
       seq (set_pipe pi (\<lambda>x. x\<lparr>readopen := True\<rparr>))
      (seq (set_pipe pi (\<lambda>x. x\<lparr>writeopen := True\<rparr>))
      (seq (set_pipe pi (\<lambda>x. x\<lparr>nwrite := 0\<rparr>))
      (seq (set_pipe pi (\<lambda>x. x\<lparr>nread := 0\<rparr>))
      (seq (set_lock (PipeLk pi) (\<lambda>_. \<lparr>locked = False, lkname = [], lcpu = None, lk_n = 0, lk_nts = 0\<rparr>))
      (seq (set_file f0 (\<lambda>x. x\<lparr>ftype := FD_PIPE, readable := True, writable := False, fpipe := pi\<rparr>))
      (seq (set_file f1 (\<lambda>x. x\<lparr>ftype := FD_PIPE, readable := False, writable := True, fpipe := pi\<rparr>))
      (ret (Some (f0, f1))))))))))))"

end
