(* ===== verification/Xv6_Proc.thy ===== *)
theory Xv6_Proc
  imports Xv6_File
begin

text \<open>
  Processes (\<^verbatim>\<open>kernel/proc.c\<close>): creation, memory, fork, exit, wait. The trap frame of a process is
  the page at \<open>tf\<close>, its fields at the offsets of \<^verbatim>\<open>struct trapframe\<close>. The addresses of code that
  the kernel only stores (\<^verbatim>\<open>forkret\<close>, the trap vectors) are constants of the machine.
\<close>

record kernel = ftable +
  forkret_addr :: uint64
  kernelvec_addr :: uint64
  uservec_addr :: uint64
  userret_addr :: uint64
  usertrap_addr :: uint64
  stvec :: uint64
  sepc :: uint64
  scause :: uint64
  stval :: uint64
  sip :: uint64
  plic :: "nat \<Rightarrow> uint"
  first :: bool
  started :: bool

definition NOFILE :: nat where "NOFILE = 16"

definition KSTACK :: "nat \<Rightarrow> uint64" where
  "KSTACK p = TRAMPOLINE - (of_nat p + 1) * 2 * PGSIZE"

text \<open>Offsets in the trap frame, and its size.\<close>

definition TF_KERNEL_SATP :: nat where "TF_KERNEL_SATP = 0"
definition TF_KERNEL_SP :: nat where "TF_KERNEL_SP = 8"
definition TF_KERNEL_TRAP :: nat where "TF_KERNEL_TRAP = 16"
definition TF_EPC :: nat where "TF_EPC = 24"
definition TF_KERNEL_HARTID :: nat where "TF_KERNEL_HARTID = 32"
definition TF_SP :: nat where "TF_SP = 48"
definition TF_A0 :: nat where "TF_A0 = 112"
definition TF_A1 :: nat where "TF_A1 = 120"
definition TF_A7 :: nat where "TF_A7 = 168"
definition TF_SIZE :: nat where "TF_SIZE = 288"

definition get_tf :: "nat \<Rightarrow> nat \<Rightarrow> ('z kmem_scheme, uint64) kM" where
  "get_tf p off = bind (get_proc p) (\<lambda>pr. ldm (tf pr + of_nat off))"

definition set_tf :: "nat \<Rightarrow> nat \<Rightarrow> uint64 \<Rightarrow> ('z kmem_scheme, unit) kM" where
  "set_tf p off v = bind (get_proc p) (\<lambda>pr. stm (tf pr + of_nat off) v)"

section \<open>Set-up\<close>

definition procinit :: "('z kernel_scheme, unit) kM" where
  "procinit =
     seq (initlock PidLk ''nextpid'')
    (seq (for_upto 0 NPROC (\<lambda>p.
       seq (initlock (ProcLk p) ''proc'')
      (bind kalloc (\<lambda>pa.
       seq (whenM (pa = 0) (panic ''kalloc''))
      (seq (kvmmap (KSTACK p) pa PGSIZE (PTE_R OR PTE_W))
           (set_proc p (\<lambda>pr. pr\<lparr>kstack := KSTACK p\<rparr>)))))))
     kvminithart)"

text \<open>The results of both calls of \<^verbatim>\<open>mappages\<close> are ignored.\<close>

definition proc_pagetable :: "nat \<Rightarrow> ('z vm_scheme, uint64) kM" where
  "proc_pagetable p =
     bind uvmcreate (\<lambda>pt.
     bind (gets trampoline) (\<lambda>tr.
     seq (mappages pt TRAMPOLINE PGSIZE tr (PTE_R OR PTE_X))
    (bind (get_proc p) (\<lambda>pr.
     seq (mappages pt TRAPFRAME PGSIZE (tf pr) (PTE_R OR PTE_W))
    (ret pt)))))"

definition proc_freepagetable :: "uint64 \<Rightarrow> uint64 \<Rightarrow> ('z tty_scheme, unit) kM" where
  "proc_freepagetable pt len =
     seq (uvmunmap pt TRAMPOLINE PGSIZE False)
    (seq (uvmunmap pt TRAPFRAME PGSIZE False)
         (whenM (len > 0) (uvmfree pt len)))"

definition freeproc :: "nat \<Rightarrow> ('z tty_scheme, unit) kM" where
  "freeproc p =
     bind (get_proc p) (\<lambda>pr.
     seq (whenM (tf pr \<noteq> 0) (kfree (tf pr)))
    (seq (set_proc p (\<lambda>pr. pr\<lparr>tf := 0\<rparr>))
    (seq (whenM (pagetable pr \<noteq> 0) (proc_freepagetable (pagetable pr) (sz pr)))
         (set_proc p (\<lambda>pr. pr\<lparr>pagetable := 0, sz := 0, pid := 0, parent := None,
            pname := (pname pr)(0 := 0), chan := None, killed := False, xstate := 0,
            pstate := UNUSED\<rparr>)))))"

primrec allocproc_scan :: "nat \<Rightarrow> nat \<Rightarrow> ('z ptable_scheme, nat option) kM" where
  "allocproc_scan p 0 = ret None"
| "allocproc_scan p (Suc k) =
     seq (acquire (ProcLk p))
    (bind (get_proc p) (\<lambda>pr.
     if pstate pr = UNUSED then ret (Some p)
     else seq (release (ProcLk p)) (allocproc_scan (Suc p) k)))"

definition allocproc :: "('z kernel_scheme, nat option) kM" where
  "allocproc =
     bind (allocproc_scan 0 NPROC) (\<lambda>r. case r of
       None \<Rightarrow> ret None
     | Some p \<Rightarrow>
         bind allocpid (\<lambda>n.
         seq (set_proc p (\<lambda>pr. pr\<lparr>pid := n\<rparr>))
        (bind kalloc (\<lambda>t.
         seq (set_proc p (\<lambda>pr. pr\<lparr>tf := t\<rparr>))
        (if t = 0 then seq (release (ProcLk p)) (ret None)
         else
           bind (proc_pagetable p) (\<lambda>pt.
           seq (set_proc p (\<lambda>pr. pr\<lparr>pagetable := pt\<rparr>))
          (bind (gets forkret_addr) (\<lambda>fr.
           seq (set_proc p (\<lambda>pr. pr\<lparr>pcontext :=
                  \<lparr>ctx_ra = fr, ctx_sp = kstack pr + PGSIZE, ctx_s = (\<lambda>_. 0)\<rparr>\<rparr>))
          (ret (Some p))))))))))"

definition initcode :: "byte list" where
  "initcode = [
     0x17, 0x05, 0x00, 0x00, 0x13, 0x05, 0x05, 0x02,
     0x97, 0x05, 0x00, 0x00, 0x93, 0x85, 0x05, 0x02,
     0x9d, 0x48, 0x73, 0x00, 0x00, 0x00, 0x89, 0x48,
     0x73, 0x00, 0x00, 0x00, 0xef, 0xf0, 0xbf, 0xff,
     0x2f, 0x69, 0x6e, 0x69, 0x74, 0x00, 0x00, 0x01,
     0x20, 0x00, 0x00, 0x00, 0x00, 0x00, 0x00, 0x00,
     0x00, 0x00, 0x00]"

text \<open>A string literal of the source as a zero-terminated array.\<close>

definition lit :: "string \<Rightarrow> bytes" where
  "lit s = (\<lambda>i. if i < length s then of_char (s ! i) else 0)"

definition userinit :: "('z kernel_scheme, unit) kM" where
  "userinit =
     bind allocproc (\<lambda>r.
     seq (upd (\<lambda>s. s\<lparr>initproc := r\<rparr>))
    (case r of
       None \<Rightarrow> panic ''kerneltrap''
     | Some p \<Rightarrow>
         bind (get_proc p) (\<lambda>pr.
         seq (uvminit (pagetable pr) (\<lambda>i. initcode ! i) (length initcode))
        (seq (set_proc p (\<lambda>pr. pr\<lparr>sz := PGSIZE\<rparr>))
        (seq (set_tf p TF_EPC 0)
        (seq (set_tf p TF_SP PGSIZE)
        (seq (set_proc p (\<lambda>pr. pr\<lparr>pname := safestrcpy (pname pr) (lit ''initcode'') 16\<rparr>))
        (bind (namei [slash]) (\<lambda>d.
         seq (set_proc p (\<lambda>pr. pr\<lparr>cwd := d\<rparr>))
        (seq (set_proc p (\<lambda>pr. pr\<lparr>pstate := RUNNABLE\<rparr>))
             (release (ProcLk p))))))))))))"

section \<open>Memory and fork\<close>

text \<open>\<^verbatim>\<open>sz\<close> is a 32-bit local: the size, the sum and the result of the call are truncated.\<close>

definition growproc :: "int \<Rightarrow> ('z tty_scheme, int) kM" where
  "growproc n =
     bind curproc (\<lambda>p.
     bind (get_proc p) (\<lambda>pr.
     let len = ucast (sz pr) :: uint
     in if n > 0 then
          bind (uvmalloc (pagetable pr) (ucast len) (ucast (len + of_int n))) (\<lambda>r.
          if ucast r = (0 :: uint) then ret (-1)
          else seq (set_proc p (\<lambda>pr. pr\<lparr>sz := ucast (ucast r :: uint)\<rparr>)) (ret 0))
        else if n < 0 then
          bind (uvmdealloc (pagetable pr) (ucast len) (ucast (len + of_int n))) (\<lambda>r.
          seq (set_proc p (\<lambda>pr. pr\<lparr>sz := ucast (ucast r :: uint)\<rparr>)) (ret 0))
        else seq (set_proc p (\<lambda>pr. pr\<lparr>sz := ucast len\<rparr>)) (ret 0)))"

definition fork_ofile :: "nat \<Rightarrow> nat \<Rightarrow> nat \<Rightarrow> ('z ftable_scheme, unit) kM" where
  "fork_ofile p np i =
     bind (get_proc p) (\<lambda>pr. case ofile pr i of
       None \<Rightarrow> skip
     | Some f \<Rightarrow> bind (filedup f) (\<lambda>g. set_proc np (\<lambda>c. c\<lparr>ofile := (ofile c)(i := Some g)\<rparr>)))"

definition fork :: "('z kernel_scheme, int) kM" where
  "fork =
     bind curproc (\<lambda>p.
     bind allocproc (\<lambda>r. case r of
       None \<Rightarrow> ret (-1)
     | Some np \<Rightarrow>
         bind (get_proc p) (\<lambda>pr.
         bind (get_proc np) (\<lambda>npr.
         bind (uvmcopy (pagetable pr) (pagetable npr) (sz pr)) (\<lambda>e.
         if e < 0 then
           seq (freeproc np)
          (seq (release (ProcLk np))
          (ret (-1)))
         else
           seq (set_proc np (\<lambda>c. c\<lparr>sz := sz pr\<rparr>))
          (seq (set_proc np (\<lambda>c. c\<lparr>parent := Some p\<rparr>))
          (seq (upd (\<lambda>s. s\<lparr>mem := blit (unat (tf npr)) (mem s) (unat (tf pr)) TF_SIZE (mem s)\<rparr>))
          (seq (set_tf np TF_A0 0)
          (seq (for_upto 0 NOFILE (fork_ofile p np))
          (bind (case cwd pr of None \<Rightarrow> panic ''kerneltrap'' | Some d \<Rightarrow> idup d) (\<lambda>d.
           seq (set_proc np (\<lambda>c. c\<lparr>cwd := Some d\<rparr>))
          (seq (set_proc np (\<lambda>c. c\<lparr>pname := safestrcpy (pname c) (pname pr) 16\<rparr>))
          (bind (get_proc np) (\<lambda>npr.
           seq (set_proc np (\<lambda>c. c\<lparr>pstate := RUNNABLE\<rparr>))
          (seq (release (ProcLk np))
          (ret (pid npr)))))))))))))))))"

section \<open>Exit and wait\<close>

definition reparent_one :: "nat \<Rightarrow> nat \<Rightarrow> ('z ptable_scheme, unit) kM" where
  "reparent_one p pp =
     bind (get_proc pp) (\<lambda>pr.
     whenM (parent pr = Some p)
       (seq (acquire (ProcLk pp))
       (bind (gets initproc) (\<lambda>ini.
        seq (set_proc pp (\<lambda>pr. pr\<lparr>parent := ini\<rparr>))
            (release (ProcLk pp))))))"

definition reparent :: "nat \<Rightarrow> ('z ptable_scheme, unit) kM" where
  "reparent p = for_upto 0 NPROC (reparent_one p)"

definition exit_close :: "nat \<Rightarrow> nat \<Rightarrow> ('z ftable_scheme, unit) kM" where
  "exit_close p fd =
     bind (get_proc p) (\<lambda>pr. case ofile pr fd of
       None \<Rightarrow> skip
     | Some f \<Rightarrow> seq (fileclose f) (set_proc p (\<lambda>pr. pr\<lparr>ofile := (ofile pr)(fd := None)\<rparr>)))"

text \<open>A null \<^verbatim>\<open>cwd\<close>, \<^verbatim>\<open>initproc\<close> or parent is dereferenced by the code: a kernel page fault.\<close>

definition deref :: "nat option \<Rightarrow> ('s, nat) kM" where
  "deref p = (case p of None \<Rightarrow> panic ''kerneltrap'' | Some i \<Rightarrow> ret i)"

definition exit :: "int \<Rightarrow> ('z kernel_scheme, 'a) kM" where
  "exit status =
     bind curproc (\<lambda>p.
     bind (gets initproc) (\<lambda>ini.
     seq (whenM (Some p = ini) (panic ''init exiting''))
    (seq (for_upto 0 NOFILE (exit_close p))
    (seq (begin_op (unat ROOTDEV))
    (bind (get_proc p) (\<lambda>pr.
     bind (deref (cwd pr)) (\<lambda>d.
     seq (iput d)
    (seq (end_op (unat ROOTDEV))
    (seq (set_proc p (\<lambda>pr. pr\<lparr>cwd := None\<rparr>))
    (bind (deref ini) (\<lambda>i.
     seq (acquire (ProcLk i))
    (seq (wakeup1 i)
    (seq (release (ProcLk i))
    (seq (acquire (ProcLk p))
    (bind (get_proc p) (\<lambda>pr.
     seq (release (ProcLk p))
    (bind (deref (parent pr)) (\<lambda>op.
     seq (acquire (ProcLk op))
    (seq (acquire (ProcLk p))
    (seq (reparent p)
    (seq (wakeup1 op)
    (seq (set_proc p (\<lambda>pr. pr\<lparr>xstate := status\<rparr>))
    (seq (set_proc p (\<lambda>pr. pr\<lparr>pstate := ZOMBIE\<rparr>))
    (seq (release (ProcLk op))
    (seq sched
         (panic ''zombie exit''))))))))))))))))))))))))))"

definition encode_int :: "int \<Rightarrow> bytes" where
  "encode_int n = st32 0 (of_int n) (\<lambda>_. 0)"

text \<open>One scan of the table: \<open>Inl r\<close> when \<^verbatim>\<open>wait\<close> returns \<open>r\<close>, \<open>Inr havekids\<close> otherwise.\<close>

primrec wait_scan :: "nat \<Rightarrow> uint64 \<Rightarrow> nat \<Rightarrow> nat \<Rightarrow> bool \<Rightarrow> ('z kernel_scheme, int + bool) kM" where
  "wait_scan p addr np 0 havekids = ret (Inr havekids)"
| "wait_scan p addr np (Suc k) havekids =
     bind (get_proc np) (\<lambda>c.
     if parent c = Some p then
       seq (acquire (ProcLk np))
      (bind (get_proc np) (\<lambda>c.
       if pstate c = ZOMBIE then
         bind (get_proc p) (\<lambda>pr.
         bind (if addr \<noteq> 0 then copyout (pagetable pr) addr (encode_int (xstate c)) 0 4 else ret 0) (\<lambda>e.
         if e < 0 then
           seq (release (ProcLk np))
          (seq (release (ProcLk p))
          (ret (Inl (-1))))
         else
           seq (freeproc np)
          (seq (release (ProcLk np))
          (seq (release (ProcLk p))
          (ret (Inl (pid c)))))))
       else seq (release (ProcLk np)) (wait_scan p addr (Suc np) k True)))
     else wait_scan p addr (Suc np) k havekids)"

definition wait_loop :: "nat \<Rightarrow> uint64 \<Rightarrow> ('z kernel_scheme, int) kM" where
  "wait_loop p addr =
     bind (wait_scan p addr 0 NPROC False) (\<lambda>r. case r of
       Inl v \<Rightarrow> ret v
     | Inr havekids \<Rightarrow>
         bind (get_proc p) (\<lambda>pr.
         if \<not> havekids \<or> killed pr then seq (release (ProcLk p)) (ret (-1))
         else sleep (ChProc p) (ProcLk p)))"

definition wait :: "uint64 \<Rightarrow> ('z kernel_scheme, int) kM" where
  "wait addr =
     bind curproc (\<lambda>p.
     seq (acquire (ProcLk p))
         (wait_loop p addr))"

end
