(* ===== verification/Xv6_Exec.thy ===== *)
theory Xv6_Exec
  imports Xv6_Proc
begin

text \<open>
  Loading a program (\<^verbatim>\<open>kernel/exec.c\<close>, with the file format of \<^verbatim>\<open>kernel/elf.h\<close>). The locals
  \<^verbatim>\<open>elf\<close> and \<^verbatim>\<open>ph\<close> are the bytes 0..63 and 64..119 of \<open>kstk\<close>. The arguments are the addresses of
  the pages \<^verbatim>\<open>sys_exec\<close> copied them to. A \<^verbatim>\<open>goto bad\<close> is the left of a sum, with the size to free.
\<close>

definition ELF_MAGIC :: uint where "ELF_MAGIC = 0x464C457F"
definition ELF_PROG_LOAD :: uint where "ELF_PROG_LOAD = 1"
definition MAXARG :: nat where "MAXARG = 32"

record elfhdr =
  elf_magic :: uint
  elf_entry :: uint64
  elf_phoff :: uint64
  elf_phnum :: uint16

record proghdr =
  ph_type :: uint
  ph_off :: uint64
  ph_vaddr :: uint64
  ph_filesz :: uint64
  ph_memsz :: uint64

definition decode_elf :: "bytes \<Rightarrow> elfhdr" where
  "decode_elf d = \<lparr>elf_magic = ld32 d 0, elf_entry = ld64 d 24, elf_phoff = ld64 d 32,
     elf_phnum = ld16 d 56\<rparr>"

definition decode_ph :: "bytes \<Rightarrow> proghdr" where
  "decode_ph d = \<lparr>ph_type = ld32 d 64, ph_off = ld64 d 72, ph_vaddr = ld64 d 80,
     ph_filesz = ld64 d 96, ph_memsz = ld64 d 104\<rparr>"

primrec loadseg_loop :: "nat \<Rightarrow> uint64 \<Rightarrow> uint64 \<Rightarrow> nat \<Rightarrow> uint \<Rightarrow> uint \<Rightarrow> uint \<Rightarrow> ('z fs_scheme, int) kM" where
  "loadseg_loop 0 pt va ip offset len i = hang"
| "loadseg_loop (Suc k) pt va ip offset len i =
     (if i < len then
        bind (walkaddr pt (va + ucast i)) (\<lambda>pa.
        seq (whenM (pa = 0) (panic ''loadseg: address should exist''))
       (let n = (if len - i < 4096 then len - i else 4096)
        in bind (readi ip (KernPA pa) (offset + i) n) (\<lambda>r.
           if (of_int r :: uint) \<noteq> n then ret (-1)
           else loadseg_loop k pt va ip offset len (i + 4096))))
      else ret 0)"

definition loadseg :: "uint64 \<Rightarrow> uint64 \<Rightarrow> nat \<Rightarrow> uint \<Rightarrow> uint \<Rightarrow> ('z fs_scheme, int) kM" where
  "loadseg pt va ip offset len =
     seq (whenM (va mod PGSIZE \<noteq> 0) (panic ''loadseg: va must be page aligned''))
         (loadseg_loop (unat len div 4096 + 2) pt va ip offset len 0)"

primrec exec_load :: "nat \<Rightarrow> nat \<Rightarrow> uint64 \<Rightarrow> uint \<Rightarrow> uint64 \<Rightarrow> ('z fs_scheme, uint64 + uint64) kM" where
  "exec_load 0 ip pt off len = ret (Inr len)"
| "exec_load (Suc k) ip pt off len =
     bind (readi ip (KernStk 64) off 56) (\<lambda>r.
     if r \<noteq> 56 then ret (Inl len)
     else bind (gets kstk) (\<lambda>d.
       let ph = decode_ph d
       in if ph_type ph \<noteq> ELF_PROG_LOAD then exec_load k ip pt (off + 56) len
          else if ph_memsz ph < ph_filesz ph then ret (Inl len)
          else if ph_vaddr ph + ph_memsz ph < ph_vaddr ph then ret (Inl len)
          else bind (uvmalloc pt len (ph_vaddr ph + ph_memsz ph)) (\<lambda>len.
            if len = 0 then ret (Inl len)
            else if ph_vaddr ph mod PGSIZE \<noteq> 0 then ret (Inl len)
            else bind (loadseg pt (ph_vaddr ph) ip (ucast (ph_off ph)) (ucast (ph_filesz ph))) (\<lambda>e.
              if e < 0 then ret (Inl len)
              else exec_load k ip pt (off + 56) len))))"

text \<open>Pushing the argument strings: the stack pointer and the addresses pushed, or \<open>None\<close>.\<close>

fun exec_push :: "uint64 \<Rightarrow> uint64 \<Rightarrow> uint64 \<Rightarrow> uint64 list \<Rightarrow> uint64 list \<Rightarrow> ('z kmem_scheme, (uint64 \<times> uint64 list) option) kM" where
  "exec_push pt stackbase sp [] ustack = ret (Some (sp, ustack))"
| "exec_push pt stackbase sp (a # as) ustack =
     (if length ustack \<ge> MAXARG then ret None
      else bind (gets mem) (\<lambda>m.
        case strlen (\<lambda>i. m (unat a + i)) of
          None \<Rightarrow> hang
        | Some n \<Rightarrow>
            let sp = sp - (of_nat n + 1);
                sp = sp - sp mod 16
            in if sp < stackbase then ret None
               else bind (copyout pt sp (\<lambda>i. m (unat a + i)) 0 (of_nat n + 1)) (\<lambda>e.
                 if e < 0 then ret None
                 else exec_push pt stackbase sp as (ustack @ [sp]))))"

primrec put_words :: "nat \<Rightarrow> uint64 list \<Rightarrow> bytes \<Rightarrow> bytes" where
  "put_words a [] d = d"
| "put_words a (w # ws) d = put_words (a + 8) ws (st64 a w d)"

definition base_name :: "byte list \<Rightarrow> byte list" where
  "base_name path = rev (takeWhile (\<lambda>c. c \<noteq> slash) (rev path))"

definition exec_bad :: "uint64 \<Rightarrow> uint64 \<Rightarrow> nat option \<Rightarrow> ('z fs_scheme, int) kM" where
  "exec_bad pt len ip =
     seq (whenM (pt \<noteq> 0) (proc_freepagetable pt len))
    (seq (case ip of None \<Rightarrow> skip | Some i \<Rightarrow> seq (iunlockput i) (end_op (unat ROOTDEV)))
    (ret (-1)))"

text \<open>From the allocation of the user stack on; the inode has been put and the transaction ended.\<close>

definition exec_stack :: "byte list \<Rightarrow> uint64 list \<Rightarrow> uint64 \<Rightarrow> uint64 \<Rightarrow> uint64 \<Rightarrow> ('z fs_scheme, int) kM" where
  "exec_stack path argv pt entry len =
     bind curproc (\<lambda>p.
     bind (get_proc p) (\<lambda>pr.
     let oldsz = sz pr; len = PGROUNDUP len
     in bind (uvmalloc pt len (len + 2 * PGSIZE)) (\<lambda>len.
        if len = 0 then exec_bad pt len None
        else
          seq (uvmclear pt (len - 2 * PGSIZE))
         (bind (exec_push pt (len - PGSIZE) len argv []) (\<lambda>r. case r of
            None \<Rightarrow> exec_bad pt len None
          | Some (sp, ustack) \<Rightarrow>
              let argc = length ustack;
                  sp = sp - of_nat (argc + 1) * 8;
                  sp = sp - sp mod 16
              in if sp < len - PGSIZE then exec_bad pt len None
                 else bind (copyout pt sp (put_words 0 (ustack @ [0]) (\<lambda>_. 0)) 0 (of_nat (argc + 1) * 8)) (\<lambda>e.
                   if e < 0 then exec_bad pt len None
                   else
                     seq (set_tf p TF_A1 sp)
                    (seq (set_proc p (\<lambda>pr. pr\<lparr>pname := safestrcpy (pname pr)
                            (\<lambda>i. if i < length (base_name path) then base_name path ! i else 0) 16\<rparr>))
                    (bind (get_proc p) (\<lambda>pr.
                     seq (set_proc p (\<lambda>pr. pr\<lparr>pagetable := pt\<rparr>))
                    (seq (set_proc p (\<lambda>pr. pr\<lparr>sz := len\<rparr>))
                    (seq (set_tf p TF_EPC entry)
                    (seq (set_tf p TF_SP sp)
                    (seq (proc_freepagetable (pagetable pr) oldsz)
                    (ret (int argc)))))))))))))))"

definition exec :: "byte list \<Rightarrow> uint64 list \<Rightarrow> ('z fs_scheme, int) kM" where
  "exec path argv =
     bind curproc (\<lambda>p.
     seq (begin_op (unat ROOTDEV))
    (bind (namei path) (\<lambda>r. case r of
       None \<Rightarrow> seq (end_op (unat ROOTDEV)) (ret (-1))
     | Some ip \<Rightarrow>
         seq (ilock (Some ip))
        (bind (readi ip (KernStk 0) 0 64) (\<lambda>r.
         if r \<noteq> 64 then exec_bad 0 0 (Some ip)
         else bind (gets kstk) (\<lambda>d.
           let elf = decode_elf d
           in if elf_magic elf \<noteq> ELF_MAGIC then exec_bad 0 0 (Some ip)
              else bind (proc_pagetable p) (\<lambda>pt.
                if pt = 0 then exec_bad 0 0 (Some ip)
                else bind (exec_load (unat (elf_phnum elf)) ip pt (ucast (elf_phoff elf)) 0) (\<lambda>r.
                  case r of
                    Inl len \<Rightarrow> exec_bad pt len (Some ip)
                  | Inr len \<Rightarrow>
                      seq (iunlockput ip)
                     (seq (end_op (unat ROOTDEV))
                          (exec_stack path argv pt (elf_entry elf) len))))))))))"

end
