(* ===== verification/Xv6_Syscall.thy ===== *)
theory Xv6_Syscall
  imports Xv6_Exec
begin

text \<open>
  System calls (\<^verbatim>\<open>kernel/syscall.c\<close>, \<^verbatim>\<open>kernel/sysfile.c\<close>, \<^verbatim>\<open>kernel/sysproc.c\<close> and \<^verbatim>\<open>sys_ntas\<close> of
  \<^verbatim>\<open>kernel/spinlock.c\<close>). Arguments come from the saved registers of the trap frame, strings and
  arrays from user memory; the result, a 64-bit word, goes to the saved \<^verbatim>\<open>a0\<close>.
\<close>

definition MAXPATH :: nat where "MAXPATH = 128"

section \<open>Arguments\<close>

definition fetchaddr :: "uint64 \<Rightarrow> ('z kernel_scheme, uint64 option) kM" where
  "fetchaddr addr =
     bind curproc (\<lambda>p.
     bind (get_proc p) (\<lambda>pr.
     if addr \<ge> sz pr \<or> addr + 8 > sz pr then ret None
     else bind (copyin (pagetable pr) (\<lambda>_. 0) 0 addr 8) (\<lambda>(r, d).
       ret (if r \<noteq> 0 then None else Some (ld64 d 0)))))"

text \<open>\<^verbatim>\<open>fetchstr\<close>: the length, or -1, and the buffer.\<close>

definition fetchstr :: "uint64 \<Rightarrow> bytes \<Rightarrow> uint64 \<Rightarrow> ('z kernel_scheme, int \<times> bytes) kM" where
  "fetchstr addr b mx =
     bind curproc (\<lambda>p.
     bind (get_proc p) (\<lambda>pr.
     bind (copyinstr (pagetable pr) b addr mx) (\<lambda>(r, d).
     if r < 0 then ret (r, d)
     else case strlen d of None \<Rightarrow> hang | Some n \<Rightarrow> ret (int n, d))))"

definition argraw :: "nat \<Rightarrow> ('z kernel_scheme, uint64) kM" where
  "argraw n =
     bind curproc (\<lambda>p.
     if n \<le> 5 then get_tf p (TF_A0 + 8 * n) else panic ''argraw'')"

definition argint :: "nat \<Rightarrow> ('z kernel_scheme, int) kM" where
  "argint n = bind (argraw n) (\<lambda>x. ret (sint (ucast x :: uint)))"

definition argaddr :: "nat \<Rightarrow> ('z kernel_scheme, uint64) kM" where
  "argaddr n = argraw n"

definition argstr :: "nat \<Rightarrow> nat \<Rightarrow> ('z kernel_scheme, int \<times> bytes) kM" where
  "argstr n mx = bind (argaddr n) (\<lambda>a. fetchstr a (\<lambda>_. 0) (of_nat mx))"

text \<open>\<open>argpath n\<close>: \<^verbatim>\<open>argstr(n, path, MAXPATH)\<close>, the path or \<open>None\<close>.\<close>

definition argpath :: "nat \<Rightarrow> ('z kernel_scheme, byte list option) kM" where
  "argpath n = bind (argstr n MAXPATH) (\<lambda>(r, d). ret (if r < 0 then None else Some (cname d MAXPATH)))"

definition argfd :: "nat \<Rightarrow> ('z kernel_scheme, (nat \<times> nat) option) kM" where
  "argfd n =
     bind (argint n) (\<lambda>fd.
     if fd < 0 \<or> fd \<ge> int NOFILE then ret None
     else bind curproc (\<lambda>p. bind (get_proc p) (\<lambda>pr.
       ret (case ofile pr (nat fd) of None \<Rightarrow> None | Some f \<Rightarrow> Some (nat fd, f)))))"

primrec fdalloc_scan :: "nat \<Rightarrow> nat \<Rightarrow> nat \<Rightarrow> nat \<Rightarrow> ('z ptable_scheme, int) kM" where
  "fdalloc_scan p f fd 0 = ret (-1)"
| "fdalloc_scan p f fd (Suc k) =
     bind (get_proc p) (\<lambda>pr.
     if ofile pr fd = None then
       seq (set_proc p (\<lambda>pr. pr\<lparr>ofile := (ofile pr)(fd := Some f)\<rparr>)) (ret (int fd))
     else fdalloc_scan p f (Suc fd) k)"

definition fdalloc :: "nat \<Rightarrow> ('z ptable_scheme, int) kM" where
  "fdalloc f = bind curproc (\<lambda>p. fdalloc_scan p f 0 NOFILE)"

definition ret_int :: "int \<Rightarrow> ('s, uint64) kM" where
  "ret_int n = ret (of_int n)"

section \<open>File system calls\<close>

definition sys_dup :: "('z kernel_scheme, uint64) kM" where
  "sys_dup =
     bind (argfd 0) (\<lambda>r. case r of None \<Rightarrow> ret_int (-1) | Some (_, f) \<Rightarrow>
     bind (fdalloc f) (\<lambda>fd.
     if fd < 0 then ret_int (-1)
     else seq (filedup f) (ret_int fd)))"

definition sys_read :: "('z kernel_scheme, uint64) kM" where
  "sys_read =
     bind (argfd 0) (\<lambda>r. case r of None \<Rightarrow> ret_int (-1) | Some (_, f) \<Rightarrow>
     bind (argint 2) (\<lambda>n.
     bind (argaddr 1) (\<lambda>p.
     bind (fileread f p n) ret_int)))"

definition sys_write :: "('z kernel_scheme, uint64) kM" where
  "sys_write =
     bind (argfd 0) (\<lambda>r. case r of None \<Rightarrow> ret_int (-1) | Some (_, f) \<Rightarrow>
     bind (argint 2) (\<lambda>n.
     bind (argaddr 1) (\<lambda>p.
     bind (filewrite f p n) ret_int)))"

definition sys_close :: "('z kernel_scheme, uint64) kM" where
  "sys_close =
     bind (argfd 0) (\<lambda>r. case r of None \<Rightarrow> ret_int (-1) | Some (fd, f) \<Rightarrow>
     bind curproc (\<lambda>p.
     seq (set_proc p (\<lambda>pr. pr\<lparr>ofile := (ofile pr)(fd := None)\<rparr>))
    (seq (fileclose f)
    (ret_int 0))))"

definition sys_fstat :: "('z kernel_scheme, uint64) kM" where
  "sys_fstat =
     bind (argfd 0) (\<lambda>r. case r of None \<Rightarrow> ret_int (-1) | Some (_, f) \<Rightarrow>
     bind (argaddr 1) (\<lambda>st.
     bind (filestat f st) ret_int))"

definition end_fail :: "('z kernel_scheme, uint64) kM" where
  "end_fail = seq (end_op (unat ROOTDEV)) (ret_int (-1))"

definition sys_link_bad :: "nat \<Rightarrow> ('z kernel_scheme, uint64) kM" where
  "sys_link_bad ip =
     seq (ilock (Some ip))
    (seq (set_inode ip (\<lambda>x. x\<lparr>inlink := inlink x - 1\<rparr>))
    (seq (iupdate ip)
    (seq (iunlockput ip)
         end_fail)))"

definition sys_link :: "('z kernel_scheme, uint64) kM" where
  "sys_link =
     bind (argpath 0) (\<lambda>r0. case r0 of None \<Rightarrow> ret_int (-1) | Some old \<Rightarrow>
     bind (argpath 1) (\<lambda>r1. case r1 of None \<Rightarrow> ret_int (-1) | Some new \<Rightarrow>
     seq (begin_op (unat ROOTDEV))
    (bind (namei old) (\<lambda>r. case r of None \<Rightarrow> end_fail | Some ip \<Rightarrow>
     seq (ilock (Some ip))
    (bind (get_inode ip) (\<lambda>x.
     if itype x = T_DIR then seq (iunlockput ip) end_fail
     else
       seq (set_inode ip (\<lambda>x. x\<lparr>inlink := inlink x + 1\<rparr>))
      (seq (iupdate ip)
      (seq (iunlock (Some ip))
      (bind (nameiparent new (\<lambda>_. 0)) (\<lambda>(r, name). case r of None \<Rightarrow> sys_link_bad ip | Some dp \<Rightarrow>
       seq (ilock (Some dp))
      (bind (get_inode dp) (\<lambda>dx.
       bind (get_inode ip) (\<lambda>x.
       bind (if idev dx \<noteq> idev x then ret (-1) else dirlink dp name (inum x)) (\<lambda>e.
       if e < 0 then seq (iunlockput dp) (sys_link_bad ip)
       else
         seq (iunlockput dp)
        (seq (iput ip)
        (seq (end_op (unat ROOTDEV))
        (ret_int 0)))))))))))))))))"

primrec isdirempty_loop :: "nat \<Rightarrow> nat \<Rightarrow> uint \<Rightarrow> ('z fs_scheme, bool) kM" where
  "isdirempty_loop 0 dp off = hang"
| "isdirempty_loop (Suc k) dp off =
     bind (get_inode dp) (\<lambda>x.
     if off < isize x then
       bind (readi dp (KernStk 0) off 16) (\<lambda>r.
       seq (whenM (r \<noteq> 16) (panic ''isdirempty: readi''))
      (bind (gets kstk) (\<lambda>d.
       if de_inum d \<noteq> 0 then ret False else isdirempty_loop k dp (off + 16))))
     else ret True)"

definition isdirempty :: "nat \<Rightarrow> ('z fs_scheme, bool) kM" where
  "isdirempty dp = bind (get_inode dp) (\<lambda>x. isdirempty_loop (unat (isize x) div 16 + 2) dp 32)"

definition sys_unlink :: "('z kernel_scheme, uint64) kM" where
  "sys_unlink =
     bind (argpath 0) (\<lambda>r. case r of None \<Rightarrow> ret_int (-1) | Some path \<Rightarrow>
     seq (begin_op (unat ROOTDEV))
    (bind (nameiparent path (\<lambda>_. 0)) (\<lambda>(r, name). case r of None \<Rightarrow> end_fail | Some dp \<Rightarrow>
     seq (ilock (Some dp))
    (if namecmp name (lit ''.'') = 0 \<or> namecmp name (lit ''..'') = 0
     then seq (iunlockput dp) end_fail
     else bind (dirlookup dp name) (\<lambda>r. case r of
       None \<Rightarrow> seq (iunlockput dp) end_fail
     | Some (ip, off) \<Rightarrow>
         seq (ilock (Some ip))
        (bind (get_inode ip) (\<lambda>x.
         seq (whenM (sint (inlink x) < 1) (panic ''unlink: nlink < 1''))
        (bind (if itype x = T_DIR then isdirempty ip else ret True) (\<lambda>ok.
         if \<not> ok then seq (iunlockput ip) (seq (iunlockput dp) end_fail)
         else
           seq (upd (\<lambda>s. s\<lparr>kstk := memset 0 0 16 (kstk s)\<rparr>))
          (bind (writei dp (KernStk 0) off 16) (\<lambda>r.
           seq (whenM (r \<noteq> 16) (panic ''unlink: writei''))
          (seq (whenM (itype x = T_DIR)
                 (seq (set_inode dp (\<lambda>d. d\<lparr>inlink := inlink d - 1\<rparr>)) (iupdate dp)))
          (seq (iunlockput dp)
          (seq (set_inode ip (\<lambda>x. x\<lparr>inlink := inlink x - 1\<rparr>))
          (seq (iupdate ip)
          (seq (iunlockput ip)
          (seq (end_op (unat ROOTDEV))
          (ret_int 0))))))))))))))))))"

definition create :: "byte list \<Rightarrow> uint16 \<Rightarrow> uint16 \<Rightarrow> uint16 \<Rightarrow> ('z kernel_scheme, nat option) kM" where
  "create path type major minor =
     bind (nameiparent path (\<lambda>_. 0)) (\<lambda>(r, name). case r of None \<Rightarrow> ret None | Some dp \<Rightarrow>
     seq (ilock (Some dp))
    (bind (dirlookup dp name) (\<lambda>r. case r of
       Some (ip, _) \<Rightarrow>
         seq (iunlockput dp)
        (seq (ilock (Some ip))
        (bind (get_inode ip) (\<lambda>x.
         if type = T_FILE \<and> (itype x = T_FILE \<or> itype x = T_DEVICE) then ret (Some ip)
         else seq (iunlockput ip) (ret None))))
     | None \<Rightarrow>
         bind (get_inode dp) (\<lambda>dx.
         bind (ialloc (idev dx) type) (\<lambda>ip.
         seq (ilock (Some ip))
        (seq (set_inode ip (\<lambda>x. x\<lparr>imajor := major\<rparr>))
        (seq (set_inode ip (\<lambda>x. x\<lparr>iminor := minor\<rparr>))
        (seq (set_inode ip (\<lambda>x. x\<lparr>inlink := 1\<rparr>))
        (seq (iupdate ip)
        (bind (get_inode ip) (\<lambda>x.
         seq (whenM (type = T_DIR)
                (seq (set_inode dp (\<lambda>d. d\<lparr>inlink := inlink d + 1\<rparr>))
                (seq (iupdate dp)
                (bind (dirlink ip (lit ''.'') (inum x)) (\<lambda>e.
                 if e < 0 then panic ''create dots''
                 else bind (dirlink ip (lit ''..'') (inum dx)) (\<lambda>e.
                   whenM (e < 0) (panic ''create dots'')))))))
        (bind (dirlink dp name (inum x)) (\<lambda>e.
         seq (whenM (e < 0) (panic ''create: dirlink''))
        (seq (iunlockput dp)
        (ret (Some ip))))))))))))))))"

definition O_WRONLY :: uint where "O_WRONLY = 0x001"
definition O_RDWR :: uint where "O_RDWR = 0x002"
definition O_CREATE :: uint where "O_CREATE = 0x200"

definition open_inode :: "byte list \<Rightarrow> uint \<Rightarrow> ('z kernel_scheme, nat option) kM" where
  "open_inode path omode =
     (if omode AND O_CREATE \<noteq> 0 then create path T_FILE 0 0
      else bind (namei path) (\<lambda>r. case r of None \<Rightarrow> ret None | Some ip \<Rightarrow>
        seq (ilock (Some ip))
       (bind (get_inode ip) (\<lambda>x.
        if itype x = T_DIR \<and> omode \<noteq> 0 then seq (iunlockput ip) (ret None)
        else ret (Some ip)))))"

definition sys_open :: "('z kernel_scheme, uint64) kM" where
  "sys_open =
     bind (argpath 0) (\<lambda>r. case r of None \<Rightarrow> ret_int (-1) | Some path \<Rightarrow>
     bind (argint 1) (\<lambda>om.
     let omode = of_int om
     in seq (begin_op (unat ROOTDEV))
       (bind (open_inode path omode) (\<lambda>r. case r of None \<Rightarrow> end_fail | Some ip \<Rightarrow>
        bind (get_inode ip) (\<lambda>x.
        if itype x = T_DEVICE \<and> (sint (imajor x) < 0 \<or> sint (imajor x) \<ge> NDEV)
        then seq (iunlockput ip) end_fail
        else bind filealloc (\<lambda>r. case r of
          None \<Rightarrow> seq (iunlockput ip) end_fail
        | Some f \<Rightarrow>
            bind (fdalloc f) (\<lambda>fd.
            if fd < 0 then seq (fileclose f) (seq (iunlockput ip) end_fail)
            else
              seq (if itype x = T_DEVICE
                   then set_file f (\<lambda>y. y\<lparr>ftype := FD_DEVICE, fmajor := imajor x, fminor := iminor x\<rparr>)
                   else set_file f (\<lambda>y. y\<lparr>ftype := FD_INODE\<rparr>))
             (seq (set_file f (\<lambda>y. y\<lparr>fip := Some ip, foff := 0,
                     readable := (omode AND O_WRONLY = 0),
                     writable := (omode AND O_WRONLY \<noteq> 0 \<or> omode AND O_RDWR \<noteq> 0)\<rparr>))
             (seq (iunlock (Some ip))
             (seq (end_op (unat ROOTDEV))
             (ret_int fd)))))))))))"

definition sys_mkdir :: "('z kernel_scheme, uint64) kM" where
  "sys_mkdir =
     seq (begin_op (unat ROOTDEV))
    (bind (argpath 0) (\<lambda>r. case r of None \<Rightarrow> end_fail | Some path \<Rightarrow>
     bind (create path T_DIR 0 0) (\<lambda>r. case r of None \<Rightarrow> end_fail | Some ip \<Rightarrow>
     seq (iunlockput ip)
    (seq (end_op (unat ROOTDEV))
    (ret_int 0)))))"

definition sys_mknod :: "('z kernel_scheme, uint64) kM" where
  "sys_mknod =
     seq (begin_op (unat ROOTDEV))
    (bind (argpath 0) (\<lambda>r. case r of None \<Rightarrow> end_fail | Some path \<Rightarrow>
     bind (argint 1) (\<lambda>major.
     bind (argint 2) (\<lambda>minor.
     bind (create path T_DEVICE (of_int major) (of_int minor)) (\<lambda>r. case r of None \<Rightarrow> end_fail | Some ip \<Rightarrow>
     seq (iunlockput ip)
    (seq (end_op (unat ROOTDEV))
    (ret_int 0)))))))"

definition sys_chdir :: "('z kernel_scheme, uint64) kM" where
  "sys_chdir =
     bind curproc (\<lambda>p.
     seq (begin_op (unat ROOTDEV))
    (bind (argpath 0) (\<lambda>r. case r of None \<Rightarrow> end_fail | Some path \<Rightarrow>
     bind (namei path) (\<lambda>r. case r of None \<Rightarrow> end_fail | Some ip \<Rightarrow>
     seq (ilock (Some ip))
    (bind (get_inode ip) (\<lambda>x.
     if itype x \<noteq> T_DIR then seq (iunlockput ip) end_fail
     else
       seq (iunlock (Some ip))
      (bind (get_proc p) (\<lambda>pr.
       bind (deref (cwd pr)) (\<lambda>d.
       seq (iput d)
      (seq (end_op (unat ROOTDEV))
      (seq (set_proc p (\<lambda>pr. pr\<lparr>cwd := Some ip\<rparr>))
      (ret_int 0))))))))))))"

primrec free_argv :: "uint64 list \<Rightarrow> ('z kmem_scheme, unit) kM" where
  "free_argv [] = skip"
| "free_argv (a # as) = seq (kfree a) (free_argv as)"

text \<open>The argument loop of \<^verbatim>\<open>sys_exec\<close>, by the slots of \<^verbatim>\<open>argv[MAXARG]\<close> left: the pages, and whether the
  null pointer that ends the user's array was reached.\<close>

primrec sys_exec_args :: "nat \<Rightarrow> uint64 \<Rightarrow> uint64 list \<Rightarrow> ('z kernel_scheme, uint64 list \<times> bool) kM" where
  "sys_exec_args 0 uargv argv = ret (argv, False)"
| "sys_exec_args (Suc k) uargv argv =
     bind (fetchaddr (uargv + 8 * of_nat (length argv))) (\<lambda>r. case r of
       None \<Rightarrow> ret (argv, False)
     | Some uarg \<Rightarrow>
         if uarg = 0 then ret (argv, True)
         else bind kalloc (\<lambda>pg.
           seq (whenM (pg = 0) (panic ''sys_exec kalloc''))
          (bind (gets mem) (\<lambda>m.
           bind (fetchstr uarg (\<lambda>i. m (unat pg + i)) PGSIZE) (\<lambda>(r, d).
           seq (upd (\<lambda>s. s\<lparr>mem := blit (unat pg) d 0 4096 (mem s)\<rparr>))
          (if r < 0 then ret (argv @ [pg], False)
           else sys_exec_args k uargv (argv @ [pg])))))))"

definition sys_exec :: "('z kernel_scheme, uint64) kM" where
  "sys_exec =
     bind (argpath 0) (\<lambda>r. case r of None \<Rightarrow> ret_int (-1) | Some path \<Rightarrow>
     bind (argaddr 1) (\<lambda>uargv.
     bind (sys_exec_args MAXARG uargv []) (\<lambda>(argv, ok).
     if ok then
       bind (exec path argv) (\<lambda>r.
       seq (free_argv argv)
      (ret_int r))
     else seq (free_argv argv) (ret_int (-1)))))"

definition sys_pipe :: "('z kernel_scheme, uint64) kM" where
  "sys_pipe =
     bind curproc (\<lambda>p.
     bind (argaddr 0) (\<lambda>fdarray.
     bind pipealloc (\<lambda>r. case r of None \<Rightarrow> ret_int (-1) | Some (rfile, wfile) \<Rightarrow>
     bind (fdalloc rfile) (\<lambda>fd0.
     bind (if fd0 < 0 then ret (-1) else fdalloc wfile) (\<lambda>fd1.
     if fd1 < 0 then
       seq (whenM (fd0 \<ge> 0) (set_proc p (\<lambda>pr. pr\<lparr>ofile := (ofile pr)(nat fd0 := None)\<rparr>)))
      (seq (fileclose rfile)
      (seq (fileclose wfile)
      (ret_int (-1))))
     else bind (get_proc p) (\<lambda>pr.
       bind (copyout (pagetable pr) fdarray (encode_int fd0) 0 4) (\<lambda>e0.
       bind (if e0 < 0 then ret e0 else copyout (pagetable pr) (fdarray + 4) (encode_int fd1) 0 4) (\<lambda>e.
       if e < 0 then
         seq (set_proc p (\<lambda>pr. pr\<lparr>ofile := (ofile pr)(nat fd0 := None)\<rparr>))
        (seq (set_proc p (\<lambda>pr. pr\<lparr>ofile := (ofile pr)(nat fd1 := None)\<rparr>))
        (seq (fileclose rfile)
        (seq (fileclose wfile)
        (ret_int (-1)))))
       else ret_int 0))))))))"

section \<open>Process system calls\<close>

definition sys_exit :: "('z kernel_scheme, uint64) kM" where
  "sys_exit = bind (argint 0) (\<lambda>n. seq (exit n :: ('z kernel_scheme, unit) kM) (ret_int 0))"

definition sys_getpid :: "('z kernel_scheme, uint64) kM" where
  "sys_getpid = bind curproc (\<lambda>p. bind (get_proc p) (\<lambda>pr. ret_int (pid pr)))"

definition sys_fork :: "('z kernel_scheme, uint64) kM" where
  "sys_fork = bind fork ret_int"

definition sys_wait :: "('z kernel_scheme, uint64) kM" where
  "sys_wait = bind (argaddr 0) (\<lambda>p. bind (wait p) ret_int)"

text \<open>\<^verbatim>\<open>addr\<close> is a 32-bit signed local.\<close>

definition sys_sbrk :: "('z kernel_scheme, uint64) kM" where
  "sys_sbrk =
     bind (argint 0) (\<lambda>n.
     bind curproc (\<lambda>p.
     bind (get_proc p) (\<lambda>pr.
     bind (growproc n) (\<lambda>r.
     if r < 0 then ret_int (-1)
     else ret_int (sint (ucast (sz pr) :: uint))))))"

definition sys_sleep_loop :: "int \<Rightarrow> uint \<Rightarrow> ('z kernel_scheme, uint64) kM" where
  "sys_sleep_loop n ticks0 =
     bind (gets ticks) (\<lambda>t.
     if t - ticks0 < of_int n then
       bind curproc (\<lambda>p. bind (get_proc p) (\<lambda>pr.
       if killed pr then seq (release TicksLk) (ret_int (-1))
       else sleep ChTicks TicksLk))
     else seq (release TicksLk) (ret_int 0))"

definition sys_sleep :: "('z kernel_scheme, uint64) kM" where
  "sys_sleep =
     bind (argint 0) (\<lambda>n.
     seq (acquire TicksLk)
    (bind (gets ticks) (\<lambda>t. sys_sleep_loop n t)))"

definition sys_kill :: "('z kernel_scheme, uint64) kM" where
  "sys_kill = bind (argint 0) (\<lambda>k. bind (kill k) ret_int)"

definition sys_uptime :: "('z kernel_scheme, uint64) kM" where
  "sys_uptime =
     seq (acquire TicksLk)
    (bind (gets ticks) (\<lambda>t.
     seq (release TicksLk)
    (ret (ucast t))))"

section \<open>Lock statistics\<close>

definition print_lock :: "lockid \<Rightarrow> ('z tty_scheme, unit) kM" where
  "print_lock l =
     bind (gets (\<lambda>s. locks (hw s) l)) (\<lambda>k.
     whenM (lk_n k > 0)
       (printf (Some ''lock: %s: #test-and-set %d #acquire() %d\<newline>'')
          [VStr (Some (lkname k)), VInt (sint (lk_nts k)), VInt (sint (lk_n k))]))"

primrec ntas_reset :: "lockid list \<Rightarrow> ('z machine_scheme, unit) kM" where
  "ntas_reset [] = skip"
| "ntas_reset (l # ls) = seq (set_lock l (\<lambda>k. k\<lparr>lk_nts := 0, lk_n := 0\<rparr>)) (ntas_reset ls)"

primrec ntas_stats :: "lockid list \<Rightarrow> uint \<Rightarrow> ('z tty_scheme, uint) kM" where
  "ntas_stats [] tot = ret tot"
| "ntas_stats (l # ls) tot =
     bind (gets (\<lambda>s. locks (hw s) l)) (\<lambda>k.
     if strncmp (lit (lkname k)) (lit ''bcache'') 6 = 0 \<or> strncmp (lit (lkname k)) (lit ''kmem'') 4 = 0
     then seq (print_lock l) (ntas_stats ls (tot + lk_nts k))
     else ntas_stats ls tot)"

text \<open>The search for the lock with the most failed test-and-sets below \<^verbatim>\<open>last\<close>; \<^verbatim>\<open>last\<close> is an \<^verbatim>\<open>int\<close>
  compared as unsigned. With no lock registered, \<^verbatim>\<open>locks[0]\<close> is a null dereference.\<close>

primrec ntas_top :: "(lockid \<Rightarrow> spinlock) \<Rightarrow> lockid list \<Rightarrow> lockid \<Rightarrow> uint \<Rightarrow> lockid" where
  "ntas_top L [] best lst = best"
| "ntas_top L (l # ls) best lst =
     ntas_top L ls (if lk_nts (L l) > lk_nts (L best) \<and> lk_nts (L l) < lst then l else best) lst"

primrec ntas_top5 :: "nat \<Rightarrow> uint \<Rightarrow> ('z tty_scheme, unit) kM" where
  "ntas_top5 0 lst = skip"
| "ntas_top5 (Suc k) lst =
     bind (gets (\<lambda>s. lktab (hw s))) (\<lambda>tab. case tab of
       [] \<Rightarrow> panic ''kerneltrap''
     | l0 # _ \<Rightarrow>
         bind (gets (\<lambda>s. ntas_top (locks (hw s)) tab l0 lst)) (\<lambda>best.
         seq (print_lock best)
        (bind (gets (\<lambda>s. lk_nts (locks (hw s) best))) (ntas_top5 k))))"

definition sys_ntas :: "('z kernel_scheme, uint64) kM" where
  "sys_ntas =
     bind (argint 0) (\<lambda>zero.
     bind (gets (\<lambda>s. lktab (hw s))) (\<lambda>tab.
     if zero = 0 then seq (ntas_reset tab) (ret_int 0)
     else
       seq (printf (Some ''=== lock kmem/bcache stats\<newline>'') [])
      (bind (ntas_stats tab 0) (\<lambda>tot.
       seq (printf (Some ''=== top 5 contended locks:\<newline>'') [])
      (seq (ntas_top5 5 100000000)
      (ret_int (sint tot)))))))"

section \<open>Dispatch\<close>

definition syscalls :: "int \<Rightarrow> ('z kernel_scheme, uint64) kM option" where
  "syscalls num =
     (if num = 1 then Some sys_fork else if num = 2 then Some sys_exit
      else if num = 3 then Some sys_wait else if num = 4 then Some sys_pipe
      else if num = 5 then Some sys_read else if num = 6 then Some sys_kill
      else if num = 7 then Some sys_exec else if num = 8 then Some sys_fstat
      else if num = 9 then Some sys_chdir else if num = 10 then Some sys_dup
      else if num = 11 then Some sys_getpid else if num = 12 then Some sys_sbrk
      else if num = 13 then Some sys_sleep else if num = 14 then Some sys_uptime
      else if num = 15 then Some sys_open else if num = 16 then Some sys_write
      else if num = 17 then Some sys_mknod else if num = 18 then Some sys_unlink
      else if num = 19 then Some sys_link else if num = 20 then Some sys_mkdir
      else if num = 21 then Some sys_close else if num = 22 then Some sys_ntas
      else None)"

definition syscall :: "('z kernel_scheme, unit) kM" where
  "syscall =
     bind curproc (\<lambda>p.
     bind (get_tf p TF_A7) (\<lambda>a7.
     let num = sint (ucast a7 :: uint)
     in case syscalls num of
          Some f \<Rightarrow> bind f (\<lambda>r. set_tf p TF_A0 r)
        | None \<Rightarrow>
            bind (get_proc p) (\<lambda>pr.
            seq (printf (Some ''%d %s: unknown sys call %d\<newline>'')
                   [VInt (pid pr), VStr (Some (pname_str (pname pr) 16)), VInt num])
                (set_tf p TF_A0 (-1)))))"

end
