(* ===== verification/Xv6_Trap.thy ===== *)
theory Xv6_Trap
  imports Xv6_Syscall
begin

text \<open>
  Traps (\<^verbatim>\<open>kernel/trap.c\<close>), the interrupt controller (\<^verbatim>\<open>kernel/plic.c\<close>), the first return to user
  space (\<^verbatim>\<open>forkret\<close> of \<^verbatim>\<open>kernel/proc.c\<close>) and the boot sequence (\<^verbatim>\<open>kernel/main.c\<close>). The supervisor
  trap registers of the running hart are fields of the state; the PLIC is its registers by offset,
  a read of the claim register giving the pending interrupt. Entering user mode is the outcome
  \<open>Swtch\<close>: the kernel thread stops at the jump to \<^verbatim>\<open>userret\<close>.
\<close>

definition SSTATUS_SPP :: uint64 where "SSTATUS_SPP = push_bit 8 1"
definition SSTATUS_SPIE :: uint64 where "SSTATUS_SPIE = push_bit 5 1"
definition UART0_IRQ :: nat where "UART0_IRQ = 10"
definition VIRTIO0_IRQ :: nat where "VIRTIO0_IRQ = 1"
definition VIRTIO1_IRQ :: nat where "VIRTIO1_IRQ = 2"

definition r_sstatus :: "('z machine_scheme, uint64) kM" where
  "r_sstatus = gets (\<lambda>s. sstatus (hw s) (tp (hw s)))"

definition w_sstatus :: "uint64 \<Rightarrow> ('z machine_scheme, unit) kM" where
  "w_sstatus x = upd (\<lambda>s. s\<lparr>hw := (hw s)\<lparr>sstatus := (sstatus (hw s))(tp (hw s) := x)\<rparr>\<rparr>)"

definition cpuid :: "('z machine_scheme, nat) kM" where
  "cpuid = gets (\<lambda>s. tp (hw s))"

section \<open>The interrupt controller\<close>

definition wr_plic :: "nat \<Rightarrow> uint \<Rightarrow> ('z kernel_scheme, unit) kM" where
  "wr_plic off v = upd (\<lambda>s. s\<lparr>plic := (plic s)(off := v)\<rparr>)"

definition PLIC_SENABLE :: "nat \<Rightarrow> nat" where "PLIC_SENABLE h = 0x2080 + h * 0x100"
definition PLIC_SPRIORITY :: "nat \<Rightarrow> nat" where "PLIC_SPRIORITY h = 0x201000 + h * 0x2000"
definition PLIC_SCLAIM :: "nat \<Rightarrow> nat" where "PLIC_SCLAIM h = 0x201004 + h * 0x2000"

definition plicinit :: "('z kernel_scheme, unit) kM" where
  "plicinit = seq (wr_plic (UART0_IRQ * 4) 1) (wr_plic (VIRTIO0_IRQ * 4) 1)"

definition plicinithart :: "('z kernel_scheme, unit) kM" where
  "plicinithart =
     bind cpuid (\<lambda>h.
     seq (wr_plic (PLIC_SENABLE h) (push_bit UART0_IRQ 1 OR push_bit VIRTIO0_IRQ 1))
         (wr_plic (PLIC_SPRIORITY h) 0))"

definition plic_claim :: "('z kernel_scheme, nat) kM" where
  "plic_claim = bind cpuid (\<lambda>h. gets (\<lambda>s. unat (plic s (PLIC_SCLAIM h))))"

definition plic_complete :: "nat \<Rightarrow> ('z kernel_scheme, unit) kM" where
  "plic_complete irq = bind cpuid (\<lambda>h. wr_plic (PLIC_SCLAIM h) (of_nat irq))"

section \<open>Interrupts\<close>

definition trapinit :: "('z kernel_scheme, unit) kM" where
  "trapinit = initlock TicksLk ''time''"

definition trapinithart :: "('z kernel_scheme, unit) kM" where
  "trapinithart = upd (\<lambda>s. s\<lparr>stvec := kernelvec_addr s\<rparr>)"

definition clockintr :: "('z kernel_scheme, unit) kM" where
  "clockintr =
     seq (acquire TicksLk)
    (seq (upd (\<lambda>s. s\<lparr>ticks := ticks s + 1\<rparr>))
    (seq (wakeup ChTicks)
         (release TicksLk)))"

definition devintr :: "('z kernel_scheme, int) kM" where
  "devintr =
     bind (gets scause) (\<lambda>c.
     if c AND 0x8000000000000000 \<noteq> 0 \<and> c AND 0xff = 9 then
       bind plic_claim (\<lambda>irq.
       seq (if irq = UART0_IRQ then uartintr
            else whenM (irq = VIRTIO0_IRQ \<or> irq = VIRTIO1_IRQ) (virtio_disk_intr (irq - VIRTIO0_IRQ)))
      (seq (whenM (irq \<noteq> 0) (plic_complete irq))
      (ret 1)))
     else if c = 0x8000000000000001 then
       bind cpuid (\<lambda>h.
       seq (whenM (h = 0) clockintr)
      (seq (upd (\<lambda>s. s\<lparr>sip := sip s AND NOT 2\<rparr>))
      (ret 2)))
     else ret 0)"

definition intr_desc :: "nat \<Rightarrow> string" where
  "intr_desc code =
     (if code = 0 then ''user software interrupt''
      else if code = 1 then ''supervisor software interrupt''
      else if code = 4 then ''user timer interrupt''
      else if code = 5 then ''supervisor timer interrupt''
      else if code = 8 then ''user external interrupt''
      else if code = 9 then ''supervisor external interrupt''
      else ''<reserved for future standard use>'')"

definition nointr_desc :: "nat \<Rightarrow> string" where
  "nointr_desc code =
     (if code = 0 then ''instruction address misaligned''
      else if code = 1 then ''instruction access fault''
      else if code = 2 then ''illegal instruction''
      else if code = 3 then ''breakpoint''
      else if code = 4 then ''load address misaligned''
      else if code = 5 then ''load access fault''
      else if code = 6 then ''store/AMO address misaligned''
      else if code = 7 then ''store/AMO access fault''
      else if code = 8 then ''environment call from U-mode''
      else if code = 9 then ''environment call from S-mode''
      else if code = 12 then ''instruction page fault''
      else if code = 13 then ''load page fault''
      else if code = 15 then ''store/AMO page fault''
      else ''<reserved for future standard use>'')"

definition scause_desc :: "uint64 \<Rightarrow> string" where
  "scause_desc c =
     (let code = unat (c AND NOT 0x8000000000000000)
      in if c AND 0x8000000000000000 \<noteq> 0 then
           (if code < 16 then intr_desc code else ''<reserved for platform use>'')
         else if code < 16 then nointr_desc code
         else if code \<le> 23 then ''<reserved for future standard use>''
         else if code \<le> 31 then ''<reserved for custom use>''
         else if code \<le> 47 then ''<reserved for future standard use>''
         else if code \<le> 63 then ''<reserved for custom use>''
         else ''<reserved for future standard use>'')"

section \<open>Traps from user space\<close>

definition usertrapret :: "('z kernel_scheme, 'a) kM" where
  "usertrapret =
     bind curproc (\<lambda>p.
     seq intr_off
    (bind (gets (\<lambda>s. (uservec_addr s, trampoline s, usertrap_addr s, satp s))) (\<lambda>(uv, tr, ut, sa).
     seq (upd (\<lambda>s. s\<lparr>stvec := TRAMPOLINE + (uv - tr)\<rparr>))
    (bind (get_proc p) (\<lambda>pr.
     seq (set_tf p TF_KERNEL_SATP sa)
    (seq (set_tf p TF_KERNEL_SP (kstack pr + PGSIZE))
    (seq (set_tf p TF_KERNEL_TRAP ut)
    (bind cpuid (\<lambda>h.
     seq (set_tf p TF_KERNEL_HARTID (of_nat h))
    (bind r_sstatus (\<lambda>x.
     seq (w_sstatus ((x AND NOT SSTATUS_SPP) OR SSTATUS_SPIE))
    (bind (get_tf p TF_EPC) (\<lambda>epc.
     seq (upd (\<lambda>s. s\<lparr>sepc := epc\<rparr>))
    (seq (upd (\<lambda>s. s\<lparr>satp := MAKE_SATP (pagetable pr)\<rparr>))
         swtch))))))))))))))"

definition usertrap :: "('z kernel_scheme, unit) kM" where
  "usertrap =
     bind r_sstatus (\<lambda>st.
     seq (whenM (st AND SSTATUS_SPP \<noteq> 0) (panic ''usertrap: not from user mode''))
    (seq (upd (\<lambda>s. s\<lparr>stvec := kernelvec_addr s\<rparr>))
    (bind curproc (\<lambda>p.
     bind (gets sepc) (\<lambda>pc.
     seq (set_tf p TF_EPC pc)
    (bind (gets scause) (\<lambda>c.
     bind (if c = 8 then
             bind (get_proc p) (\<lambda>pr.
             seq (whenM (killed pr) (exit (-1)))
            (bind (get_tf p TF_EPC) (\<lambda>epc.
             seq (set_tf p TF_EPC (epc + 4))
            (seq intr_on
            (seq syscall
            (ret 0))))))
           else
             bind devintr (\<lambda>which_dev.
             if which_dev \<noteq> 0 then ret which_dev
             else
               bind (gets (\<lambda>s. (scause s, sepc s, stval s))) (\<lambda>(c, pc, tv).
               bind (get_proc p) (\<lambda>pr.
               seq (printf (Some ''usertrap(): unexpected scause %p (%s) pid=%d\<newline>'')
                      [VPtr c, VStr (Some (scause_desc c)), VInt (pid pr)])
              (seq (printf (Some ''            sepc=%p stval=%p\<newline>'') [VPtr pc, VPtr tv])
              (seq (set_proc p (\<lambda>pr. pr\<lparr>killed := True\<rparr>))
              (ret 0))))))) (\<lambda>which_dev.
     bind (get_proc p) (\<lambda>pr.
     seq (whenM (killed pr) (exit (-1)))
    (seq (whenM (which_dev = 2) yield)
         usertrapret))))))))))"

definition forkret :: "('z kernel_scheme, unit) kM" where
  "forkret =
     bind curproc (\<lambda>p.
     seq (release (ProcLk p))
    (bind (gets first) (\<lambda>f.
     seq (whenM f (seq (upd (\<lambda>s. s\<lparr>first := False\<rparr>)) (fsinit (unat ROOTDEV))))
         usertrapret)))"

section \<open>Traps from the kernel\<close>

definition kerneltrap :: "('z kernel_scheme, unit) kM" where
  "kerneltrap =
     bind (gets sepc) (\<lambda>pc.
     bind r_sstatus (\<lambda>st.
     bind (gets scause) (\<lambda>c.
     seq (whenM (st AND SSTATUS_SPP = 0) (panic ''kerneltrap: not from supervisor mode''))
    (bind intr_get (\<lambda>on.
     seq (whenM on (panic ''kerneltrap: interrupts enabled''))
    (bind devintr (\<lambda>which_dev.
     seq (whenM (which_dev = 0)
            (bind (gets stval) (\<lambda>tv.
             seq (printf (Some ''scause %p (%s)\<newline>'') [VPtr c, VStr (Some (scause_desc c))])
            (seq (printf (Some ''sepc=%p stval=%p\<newline>'') [VPtr pc, VPtr tv])
                 (panic ''kerneltrap'')))))
    (seq (whenM (which_dev = 2)
            (bind myproc (\<lambda>mp. case mp of
               None \<Rightarrow> skip
             | Some _ \<Rightarrow>
                 bind curproc (\<lambda>p. bind (get_proc p) (\<lambda>pr. whenM (pstate pr = RUNNING) yield)))))
    (seq (upd (\<lambda>s. s\<lparr>sepc := pc\<rparr>))
         (w_sstatus st))))))))))"

section \<open>Booting\<close>

definition boot_hart0 :: "('z kernel_scheme, unit) kM" where
  "boot_hart0 =
     seq consoleinit
    (seq printfinit
    (seq (printf (Some ''\<newline>'') [])
    (seq (printf (Some ''xv6 kernel is booting\<newline>'') [])
    (seq (printf (Some ''\<newline>'') [])
    (seq kinit
    (seq kvminit
    (seq kvminithart
    (seq procinit
    (seq trapinit
    (seq trapinithart
    (seq plicinit
    (seq plicinithart
    (seq binit
    (seq iinit
    (seq fileinit
    (seq (virtio_disk_init (unat ROOTDEV))
    (seq userinit
         (upd (\<lambda>s. s\<lparr>started := True\<rparr>)))))))))))))))))))"

definition main :: "('z kernel_scheme, unit) kM" where
  "main =
     bind cpuid (\<lambda>h.
     seq (if h = 0 then boot_hart0
          else
            bind (gets started) (\<lambda>go.
            if \<not> go then hang
            else
              seq (printf (Some ''hart %d starting\<newline>'') [VInt (int h)])
             (seq kvminithart
             (seq trapinithart
                  plicinithart))))
         scheduler)"

end
