(* ===== verification/Xv6_Virtio_Proofs.thy ===== *)
theory Xv6_Virtio_Proofs
  imports Xv6_Virtio
begin

text \<open>
  The disk driver returns, and a request moves one block: from the image to the buffer, or from
  the buffer to the image and to the end of the write trace. First the hand-over of the hart in
  \<open>await\<close>, then the driver on an idle queue.
\<close>

section \<open>Sleeping and being woken\<close>

text \<open>What a call may do to the other processes: wake some of them.\<close>

definition woken :: "(nat \<Rightarrow> proc) \<Rightarrow> (nat \<Rightarrow> proc) \<Rightarrow> bool" where
  "woken P P' \<longleftrightarrow>
     (\<forall>i. P' i = P i \<or> pstate (P i) = SLEEPING \<and> P' i = (P i)\<lparr>pstate := RUNNABLE\<rparr>)"

lemma woken_refl [simp, intro!]: "woken P P"
  by (simp add: woken_def)

lemma woken_trans [trans]: "woken P Q \<Longrightarrow> woken Q R \<Longrightarrow> woken P R"
  unfolding woken_def
proof (intro allI)
  fix i
  assume "\<forall>i. Q i = P i \<or> pstate (P i) = SLEEPING \<and> Q i = (P i)\<lparr>pstate := RUNNABLE\<rparr>"
    and "\<forall>i. R i = Q i \<or> pstate (Q i) = SLEEPING \<and> R i = (Q i)\<lparr>pstate := RUNNABLE\<rparr>"
  then have "Q i = P i \<or> pstate (P i) = SLEEPING \<and> Q i = (P i)\<lparr>pstate := RUNNABLE\<rparr>"
    and "R i = Q i \<or> pstate (Q i) = SLEEPING \<and> R i = (Q i)\<lparr>pstate := RUNNABLE\<rparr>" by blast+
  then show "R i = P i \<or> pstate (P i) = SLEEPING \<and> R i = (P i)\<lparr>pstate := RUNNABLE\<rparr>"
    by (elim disjE conjE) simp_all
qed

lemma woken_wake_upto [simp, intro!]: "woken P (wake_upto ch n P)"
  by (simp add: woken_def wake_upto_def wake_def)

lemma woken_running:
  "woken P P' \<Longrightarrow> pstate (P i) \<noteq> SLEEPING \<Longrightarrow> P' i = P i"
  by (auto simp: woken_def)

text \<open>\<open>running p s\<close>: process \<open>p\<close> runs on this hart and holds no spin lock.\<close>

definition running :: "nat \<Rightarrow> 'z ptable_scheme \<Rightarrow> bool" where
  "running p s \<longleftrightarrow> quiet p (hw s) \<and> noff (cpus (hw s) (tp (hw s))) = 0 \<and> p < NPROC \<and>
     pstate (proc s p) = RUNNING \<and> chan (proc s p) = None"

lemma runningD:
  assumes "running p s"
  shows "quiet p (hw s)" "p < NPROC" "pstate (proc s p) = RUNNING" "chan (proc s p) = None"
    "noff (cpus (hw s) (tp (hw s))) = 0"
  using assms by (auto simp: running_def)

lemma running_same:
  "running p s \<Longrightarrow> same_hart (hw s) (hw t) \<Longrightarrow> woken (proc s) (proc t) \<Longrightarrow> running p t"
  unfolding running_def using woken_running [of "proc s" "proc t" p] same_hart_quiet [of "hw s" "hw t" p]
  by (simp add: same_hart_def)

text \<open>
  The hart while the scheduler waits: nothing is locked, interrupts are off, nobody runs.
\<close>

definition idle_hart :: "hart \<Rightarrow> bool" where
  "idle_hart h \<longleftrightarrow> noff (cpus h (tp h)) = 0 \<and> \<not> intr_get_hw h \<and> cproc (cpus h (tp h)) = None \<and>
     (\<forall>l. \<not> locked (locks h l))"

lemma idle_hartD:
  "idle_hart h \<Longrightarrow> calm h" "idle_hart h \<Longrightarrow> \<not> locked (locks h l)" "idle_hart h \<Longrightarrow> proc_locks_free h"
  by (auto simp: idle_hart_def calm_def proc_locks_free_def)

definition in_sched :: "nat \<Rightarrow> hart \<Rightarrow> bool \<Rightarrow> hart \<Rightarrow> bool" where
  "in_sched p h0 ie h \<longleftrightarrow> tp h = tp h0 \<and> noff (cpus h (tp h0)) = 1 \<and> \<not> intr_get_hw h \<and>
     intena (cpus h (tp h0)) = ie \<and> holding_hw (ProcLk p) h \<and> (\<forall>l. l \<noteq> ProcLk p \<longrightarrow> \<not> locked (locks h l)) \<and>
     cproc (cpus h (tp h0)) = Some p \<and> (\<forall>i. cproc (cpus h i) = cproc (cpus h0 i))"

lemma quiet_noff: "quiet p h \<Longrightarrow> 0 \<le> noff (cpus h (tp h))"
  by (simp add: quiet_def calm_def)

lemma sleep_run:
  assumes q: "quiet p h0" and n0: "noff (cpus h0 (tp h0)) = 0"
    and h: "same_hart (enter lk h0) (hw s)" and lk: "\<And>i. lk \<noteq> ProcLk i"
    and ie: "ie = intena (cpus (hw s) (tp (hw s)))"
  shows "\<exists>h1. in_sched p h0 ie h1 \<and> sleep ch lk s = Swtch (s\<lparr>hw := h1,
     proc := (proc s)(p := (proc s p)\<lparr>chan := Some ch, pstate := SLEEPING\<rparr>)\<rparr>)"
proof -
  have lk': "ProcLk i \<noteq> lk" for i using lk [of i] by simp
  have c: "calm (hw s)" using h q n0 by (auto simp: same_hart_def calm_def)
  have t: "tp (hw s) = tp h0" "cproc (cpus (hw s) (tp h0)) = Some p" "noff (cpus (hw s) (tp h0)) = 1"
    using h quietD(2) [OF q] n0 by (auto simp: same_hart_def)
  obtain h1 where h1: "same_hart (hw s) h1" "curproc s = Ok p (s\<lparr>hw := h1\<rparr>)"
    using curproc_run [OF c] t by auto
  have free: "\<not> locked (locks h1 (ProcLk p))"
    using h1(1) h lk' quietD(3) [OF q] by (simp add: same_hart_locked)
  let ?h2 = "enter (ProcLk p) h1"
  have i1: "\<not> intr_get_hw h1" using h1(1) h by (auto simp: same_hart_def)
  have hold: "holding_hw lk ?h2"
  proof -
    have "holding_hw lk h1" using same_hart_holding [OF h1(1)] same_hart_holding [OF h] by simp
    then show ?thesis using lk by (auto simp: holding_hw_def enter_facts(6))
  qed
  have n1: "tp h1 = tp h0" "noff (cpus h1 (tp h0)) = 1" "intena (cpus h1 (tp h0)) = ie"
    using h1(1) t ie by (auto simp: same_hart_def)
  have n2: "noff (cpus ?h2 (tp ?h2)) = 2" using n1 enter_facts(2) [of "ProcLk p" h1] by simp
  define h3 where "h3 = leave lk ?h2"
  have rel: "release lk (s\<lparr>hw := ?h2\<rparr>) = Ok () (s\<lparr>hw := h3\<rparr>)"
    using release_held [of lk "s\<lparr>hw := ?h2\<rparr>"] hold n2 by (simp add: h3_def)
  let ?P = "(proc s)(p := (proc s p)\<lparr>chan := Some ch, pstate := SLEEPING\<rparr>)"
  have f3: "tp h3 = tp h0" "noff (cpus h3 (tp h0)) = 1" "\<not> intr_get_hw h3"
    "intena (cpus h3 (tp h0)) = ie" "holding_hw (ProcLk p) h3"
    "\<And>i. cproc (cpus h3 i) = cproc (cpus h0 i)"
  proof -
    show "tp h3 = tp h0" using n1 by (simp add: h3_def)
    show "noff (cpus h3 (tp h0)) = 1" using n1 n2 leave_facts(2) [of lk ?h2] by (simp add: h3_def)
    show "\<not> intr_get_hw h3" using n2 by (simp add: h3_def)
    show "intena (cpus h3 (tp h0)) = ie" using n1 enter_intena [of "ProcLk p" h1] by (simp add: h3_def)
    show "holding_hw (ProcLk p) h3"
      using enter_facts(4) [of "ProcLk p" h1] lk' by (auto simp: holding_hw_def h3_def)
    show "cproc (cpus h3 i) = cproc (cpus h0 i)" for i
      using h1(1) h by (auto simp: same_hart_def h3_def)
  qed
  have c3: "calm h3" using f3 by (simp add: calm_def)
  let ?s3 = "s\<lparr>hw := h3, proc := ?P\<rparr>"
  obtain h4 where h4: "same_hart h3 h4" "curproc ?s3 = Ok p (?s3\<lparr>hw := h4\<rparr>)"
    using curproc_run [of ?s3 p] c3 f3 quietD(2) [OF q] by auto
  have f4: "holding_hw (ProcLk p) h4" "tp h4 = tp h0" "noff (cpus h4 (tp h0)) = 1"
    "\<not> intr_get_hw h4" "intena (cpus h4 (tp h0)) = ie" "\<And>i. cproc (cpus h4 i) = cproc (cpus h0 i)"
    using h4(1) f3 same_hart_holding [OF h4(1), of "ProcLk p"] by (auto simp: same_hart_def)
  have "sleep ch lk s = Swtch (s\<lparr>hw := h4, proc := ?P\<rparr>)"
    using h1(2) lk free rel h4(2) f4
    by (simp add: sleep_def acquire_free set_proc_def sched_def holding_def mycpu_def get_proc_def
        intr_get_def swtch_def fun_upd_upd)
  moreover have "\<not> locked (locks h4 l)" if "l \<noteq> ProcLk p" for l
  proof (cases "l = lk")
    case True
    then show ?thesis using same_hart_locked [OF h4(1), of lk] by (simp add: h3_def)
  next
    case False
    then have "locks h3 l = locks h1 l" using that by (simp add: enter_facts(6) h3_def)
    then show ?thesis
      using same_hart_locked [OF h4(1), of l] same_hart_locked [OF h1(1), of l]
        same_hart_locked [OF h, of l] False quietD(3) [OF q] by simp
  qed
  then have "in_sched p h0 ie h4"
    using f4 quietD(2) [OF q] by (auto simp: in_sched_def)
  ultimately show ?thesis by blast
qed

lemma same_hart_enter:
  assumes s: "same_hart h h'" and n: "0 \<le> noff (cpus h (tp h))"
  shows "same_hart (enter l h) (enter l h')"
proof -
  have "lockst (locks (enter l h') k) = lockst (locks (enter l h) k)" for k
    using s by (cases "k = l") (simp_all add: same_hart_def, simp add: enter_def Let_def lockst_def)
  moreover have "intena (cpus (enter l h') (tp h)) = intena (cpus (enter l h) (tp h))"
    using s n enter_intena [of l h] enter_intena [of l h'] by (auto simp: same_hart_def)
  moreover have "noff (cpus (enter l h') (tp h)) = noff (cpus (enter l h) (tp h))"
    using s enter_facts(2) [of l h] enter_facts(2) [of l h'] by (simp add: same_hart_def)
  ultimately show ?thesis using s by (simp add: same_hart_def)
qed

lemma sched_back_run:
  assumes "in_sched p h0 ie (hw s)"
  shows "\<exists>h1. idle_hart h1 \<and> tp h1 = tp h0 \<and> sched_back p s = Ok () (s\<lparr>hw := h1\<rparr>) \<and>
     (\<forall>i. i \<noteq> tp h0 \<longrightarrow> cproc (cpus h1 i) = cproc (cpus h0 i))"
proof -
  let ?c = "(cpus (hw s) (tp h0))\<lparr>cproc := None, intena := False\<rparr>"
  define h1 where "h1 = (hw s)\<lparr>cpus := (cpus (hw s))(tp h0 := ?c)\<rparr>"
  have f: "tp h1 = tp h0" "noff (cpus h1 (tp h0)) = 1" "\<not> intr_get_hw h1" "holding_hw (ProcLk p) h1"
    "\<not> intena (cpus h1 (tp h0))" "cproc (cpus h1 (tp h0)) = None"
    "\<And>i. i \<noteq> tp h0 \<Longrightarrow> cproc (cpus h1 i) = cproc (cpus h0 i)"
    "\<And>l. l \<noteq> ProcLk p \<Longrightarrow> \<not> locked (locks h1 l)"
    using assms by (auto simp: in_sched_def h1_def intr_get_hw_def holding_hw_def)
  have t: "tp (hw s) = tp h0" using assms by (simp add: in_sched_def)
  have "sched_back p s = Ok () (s\<lparr>hw := leave (ProcLk p) h1\<rparr>)"
    using f release_held [of "ProcLk p" "s\<lparr>hw := h1\<rparr>"]
    by (simp add: sched_back_def set_mycpu_def t h1_def [symmetric])
  moreover have "idle_hart (leave (ProcLk p) h1)"
  proof -
    have "\<not> locked (locks (leave (ProcLk p) h1) l)" for l
      using f(8) [of l] by (cases "l = ProcLk p") auto
    then show ?thesis
      using f leave_facts(2) [of "ProcLk p" h1] by (simp add: idle_hart_def)
  qed
  ultimately show ?thesis using f by auto
qed

lemma sched_pick_run:
  assumes "idle_hart (hw s)" and "pstate (proc s p) = RUNNABLE"
  shows "\<exists>h1. in_sched p h1 False h1 \<and> tp h1 = tp (hw s) \<and>
     (\<forall>i. i \<noteq> tp (hw s) \<longrightarrow> cproc (cpus h1 i) = cproc (cpus (hw s) i)) \<and>
     sched_pick p s = Ok () (s\<lparr>hw := h1, proc := (proc s)(p := (proc s p)\<lparr>pstate := RUNNING\<rparr>)\<rparr>)"
proof -
  have free: "\<not> locked (locks (hw s) (ProcLk p))" using assms(1) by (simp add: idle_hart_def)
  define h2 where "h2 = enter (ProcLk p) (hw s)"
  have f: "tp h2 = tp (hw s)" "noff (cpus h2 (tp (hw s))) = 1" "\<not> intr_get_hw h2"
    "intena (cpus h2 (tp (hw s))) = False" "holding_hw (ProcLk p) h2"
    "\<And>l. l \<noteq> ProcLk p \<Longrightarrow> \<not> locked (locks h2 l)" "\<And>i. cproc (cpus h2 i) = cproc (cpus (hw s) i)"
    using assms(1) enter_facts(2) [of "ProcLk p" "hw s"]
    by (auto simp: h2_def idle_hart_def enter_intena)
  define h1 where "h1 = h2\<lparr>cpus := (cpus h2)(tp (hw s) := (cpus h2 (tp (hw s)))\<lparr>cproc := Some p\<rparr>)\<rparr>"
  have "in_sched p h1 False h1"
    using f by (auto simp: in_sched_def h1_def intr_get_hw_def holding_hw_def)
  moreover have "sched_pick p s = Ok () (s\<lparr>hw := h1, proc := (proc s)(p := (proc s p)\<lparr>pstate := RUNNING\<rparr>)\<rparr>)"
    using assms(2) f by (simp add: sched_pick_def acquire_free free get_proc_def set_proc_def
        set_mycpu_def h1_def h2_def [symmetric])
  ultimately show ?thesis using f by (intro exI [of _ h1]) (simp add: h1_def)
qed

lemma sleep_ret_run:
  assumes "in_sched p h1 False (hw s)" and "lk \<noteq> ProcLk p"
    and q: "quiet p h0" and n0: "noff (cpus h0 (tp h0)) = 0" and tp: "tp h1 = tp h0"
    and ie: "ie = intr_get_hw h0" and cp: "\<And>i. cproc (cpus h1 i) = cproc (cpus h0 i)"
  shows "\<exists>h'. same_hart (enter lk h0) h' \<and> sleep_ret p ie lk s =
     Ok () (s\<lparr>hw := h', proc := (proc s)(p := (proc s p)\<lparr>chan := None\<rparr>)\<rparr>)"
proof -
  define h2 where "h2 = (hw s)\<lparr>cpus := (cpus (hw s))(tp h0 := (cpus (hw s) (tp h0))\<lparr>intena := ie\<rparr>)\<rparr>"
  have f: "tp h2 = tp h0" "noff (cpus h2 (tp h0)) = 1" "\<not> intr_get_hw h2" "intena (cpus h2 (tp h0)) = ie"
    "holding_hw (ProcLk p) h2" "\<And>l. l \<noteq> ProcLk p \<Longrightarrow> \<not> locked (locks h2 l)"
    "\<And>i. cproc (cpus h2 i) = cproc (cpus h0 i)"
    using assms(1) tp cp by (auto simp: in_sched_def h2_def intr_get_hw_def holding_hw_def)
  define h3 where "h3 = leave (ProcLk p) h2"
  have g: "tp h3 = tp h0" "noff (cpus h3 (tp h0)) = 0" "intr_get_hw h3 = ie"
    "\<And>i. cproc (cpus h3 i) = cproc (cpus h0 i)"
    using f leave_facts(2) [of "ProcLk p" h2] by (simp_all add: h3_def)
  have unl: "\<not> locked (locks h3 l)" for l
    using f(6) [of l] by (cases "l = ProcLk p") (auto simp: h3_def)
  have t: "tp (hw s) = tp h0" using assms(1) tp by (simp add: in_sched_def)
  have "same_hart h0 h3"
    using g n0 unl ie quietD(3) [OF q] by (auto simp: same_hart_def lockst_def)
  then have "same_hart (enter lk h0) (enter lk h3)"
    by (rule same_hart_enter) (simp add: n0)
  moreover have "sleep_ret p ie lk s = Ok () (s\<lparr>hw := enter lk h3, proc := (proc s)(p := (proc s p)\<lparr>chan := None\<rparr>)\<rparr>)"
    using f assms(2) unl release_held [of "ProcLk p" "s\<lparr>hw := h2, proc := (proc s)(p := (proc s p)\<lparr>chan := None\<rparr>)\<rparr>"]
    by (simp add: sleep_ret_def sched_ret_def set_mycpu_def set_proc_def t h2_def [symmetric]
        h3_def [symmetric] acquire_free)
  ultimately show ?thesis by blast
qed

text \<open>
  A process that sleeps on \<open>ch\<close> with \<open>lk\<close> held returns with \<open>lk\<close> held again, if the event
  makes it runnable.
\<close>

lemma await_wp:
  assumes q: "quiet p h0" and n0: "noff (cpus h0 (tp h0)) = 0"
    and h: "same_hart (enter lk h0) (hw s)" and lk: "\<And>i. lk \<noteq> ProcLk i"
    and ev: "\<And>h1. idle_hart h1 \<Longrightarrow> tp h1 = tp h0 \<Longrightarrow>
      wp ev (\<lambda>_ t. same_hart h1 (hw t) \<and> pstate (proc t p) = RUNNABLE \<and> Q t)
        (s\<lparr>proc := (proc s)(p := (proc s p)\<lparr>chan := Some ch, pstate := SLEEPING\<rparr>), hw := h1\<rparr>)"
  shows "wp (await ch lk ev) (\<lambda>_ u. same_hart (enter lk h0) (hw u) \<and> (\<exists>t. Q t \<and>
      u = t\<lparr>hw := hw u, proc := (proc t)(p := (proc t p)\<lparr>pstate := RUNNING, chan := None\<rparr>)\<rparr>)) s"
proof -
  let ?ie = "intena (cpus (hw s) (tp (hw s)))"
  have cp: "cproc (cpus (hw s) (tp (hw s))) = Some p" "?ie = intr_get_hw h0"
    using h quietD(2) [OF q] n0 enter_intena [of lk h0] by (auto simp: same_hart_def)
  obtain h1 where h1: "in_sched p h0 ?ie h1" "(sleep ch lk s :: (_, unit) outcome) = Swtch (s\<lparr>hw := h1,
      proc := (proc s)(p := (proc s p)\<lparr>chan := Some ch, pstate := SLEEPING\<rparr>)\<rparr>)" (is "_ = Swtch ?s1")
    using sleep_run [OF q n0 h lk refl] by blast
  obtain h2 where h2: "idle_hart h2" "tp h2 = tp h0" "sched_back p ?s1 = Ok () (?s1\<lparr>hw := h2\<rparr>)"
      "\<And>i. i \<noteq> tp h0 \<Longrightarrow> cproc (cpus h2 i) = cproc (cpus h0 i)"
    using sched_back_run [of p h0 ?ie ?s1] h1(1) by auto
  obtain t where t: "ev (?s1\<lparr>hw := h2\<rparr>) = Ok () t" "same_hart h2 (hw t)" "pstate (proc t p) = RUNNABLE" "Q t"
    using ev [OF h2(1,2)] by (auto simp: wp_iff)
  have idle: "idle_hart (hw t)"
    using t(2) h2(1) same_hart_locked [OF t(2)] by (auto simp: idle_hart_def same_hart_def)
  obtain h3 where h3: "in_sched p h3 False h3" "tp h3 = tp (hw t)"
      "\<And>i. i \<noteq> tp (hw t) \<Longrightarrow> cproc (cpus h3 i) = cproc (cpus (hw t) i)"
      "sched_pick p t = Ok () (t\<lparr>hw := h3, proc := (proc t)(p := (proc t p)\<lparr>pstate := RUNNING\<rparr>)\<rparr>)"
    using sched_pick_run [OF idle t(3)] by blast
  have tp3: "tp h3 = tp h0" using h3(2) t(2) h2(2) by (simp add: same_hart_def)
  have cp3: "cproc (cpus h3 i) = cproc (cpus h0 i)" for i
    using h3(1) h3(3) [of i] h2(2) h2(4) [of i] t(2) tp3 quietD(2) [OF q]
    by (cases "i = tp h0") (auto simp: in_sched_def same_hart_def)
  let ?s3 = "t\<lparr>hw := h3, proc := (proc t)(p := (proc t p)\<lparr>pstate := RUNNING\<rparr>)\<rparr>"
  obtain h4 where h4: "same_hart (enter lk h0) h4"
      "sleep_ret p ?ie lk ?s3 = Ok () (?s3\<lparr>hw := h4, proc := (proc ?s3)(p := (proc ?s3 p)\<lparr>chan := None\<rparr>)\<rparr>)"
    using sleep_ret_run [of p h3 ?s3 lk h0 ?ie] h3(1) lk q n0 tp3 cp(2) cp3 by auto
  have "await ch lk ev s = Ok () (t\<lparr>hw := h4, proc := (proc t)(p := (proc t p)\<lparr>pstate := RUNNING, chan := None\<rparr>)\<rparr>)"
    using h1(2) h2(3) t(1) h3(4) h4(2) cp(1) by (simp add: await_def Let_def)
  then show ?thesis using h4(1) t(4) by (simp add: wp_iff) blast
qed

section \<open>A request on an idle queue\<close>

text \<open>The part of the state the driver may change.\<close>

definition vframe :: "'z vdisk_scheme \<Rightarrow> 'z vdisk_scheme \<Rightarrow> bool" where
  "vframe s t \<longleftrightarrow> t = s\<lparr>hw := hw t, proc := proc t, bufs := bufs t, vd := vd t, vhdr := vhdr t,
     mmio := mmio t, img := img t, wtrace := wtrace t\<rparr>"

lemma vframe_refl [simp, intro!]: "vframe s s"
  by (simp add: vframe_def)

lemma vframe_trans [trans]:
  assumes "vframe s t" and "vframe t u"
  shows "vframe s u"
proof -
  obtain h P B V H M I W where t: "t = s\<lparr>hw := h, proc := P, bufs := B, vd := V, vhdr := H,
      mmio := M, img := I, wtrace := W\<rparr>"
    using assms(1) unfolding vframe_def by blast
  show ?thesis using assms(2) unfolding vframe_def t by simp
qed

definition vq_idle :: "disk \<Rightarrow> bool" where
  "vq_idle d \<longleftrightarrow> (\<forall>i<NUM. dfree d i) \<and> last_avail d = avail_idx d \<and>
     unat (used_idx d) = unat (used_id d) mod NUM"

text \<open>The queue when one request was submitted, when the device served it, when the interrupt
  handler took the completion.\<close>

definition vq_req :: "nat \<Rightarrow> nat \<Rightarrow> bool \<Rightarrow> disk \<Rightarrow> disk" where
  "vq_req p b w d = d\<lparr>dfree := (dfree d)(0 := False, 1 := False, 2 := False),
     info_status := (info_status d)(0 := 0), desc := (desc d)(
       0 := \<lparr>d_addr = DmaHdr p, d_len = 16, d_flags = VRING_DESC_F_NEXT, d_next = 1\<rparr>,
       1 := \<lparr>d_addr = DmaData b, d_len = 1024,
             d_flags = (if w then 0 else VRING_DESC_F_WRITE) OR VRING_DESC_F_NEXT, d_next = 2\<rparr>,
       2 := \<lparr>d_addr = DmaStatus 0, d_len = 1, d_flags = VRING_DESC_F_WRITE, d_next = 0\<rparr>),
     info_b := (info_b d)(0 := Some b),
     avail_ring := (avail_ring d)(unat (avail_idx d) mod NUM := 0), avail_idx := avail_idx d + 1,
     kicked := avail_idx d + 1\<rparr>"

definition vq_served :: "disk \<Rightarrow> disk" where
  "vq_served d = d\<lparr>info_status := (info_status d)(0 := 0),
     used_elems := (used_elems d)(unat (used_id d) mod NUM := 0),
     used_id := used_id d + 1, last_avail := last_avail d + 1\<rparr>"

definition vq_taken :: "disk \<Rightarrow> disk" where
  "vq_taken d = d\<lparr>used_idx := (used_idx d + 1) mod of_nat NUM\<rparr>"

lemma alloc3_idle:
  assumes "\<forall>i<NUM. dfree (vd s n) i"
  shows "alloc3_desc n s = Ok (Some [0, 1, 2])
     (s\<lparr>vd := (vd s)(n := (vd s n)\<lparr>dfree := (dfree (vd s n))(0 := False, 1 := False, 2 := False)\<rparr>)\<rparr>)"
  using assms by (simp add: alloc3_desc_def alloc_desc_def NUM_def set_disk_def numeral_nat)

lemma submit_run:
  "virtio_submit n b w p sec 0 1 2
     (s\<lparr>vd := (vd s)(n := (vd s n)\<lparr>dfree := (dfree (vd s n))(0 := False, 1 := False, 2 := False)\<rparr>), hw := h\<rparr>)
   = Ok () (s\<lparr>hw := h, vhdr := (vhdr s)(p := \<lparr>oh_type = (if w then VIRTIO_BLK_T_OUT else VIRTIO_BLK_T_IN),
        oh_reserved = 0, oh_sector = sec\<rparr>), vd := (vd s)(n := vq_req p b w (vd s n)),
      bufs := (bufs s)(b := (bufs s b)\<lparr>bdisk := True\<rparr>),
      mmio := (mmio s)(n := (mmio s n)(0x050 := 0))\<rparr>)"
  by (cases w; simp add: virtio_submit_def set_desc_def set_disk_def set_buf_def wr_reg_def queue_notify_def BSIZE_def)
     (rule vdisk.equality; simp add: vq_req_def fun_upd_twist)+

lemma wakeup_wp:
  assumes "proc_locks_free (hw s)" and "calm (hw s)"
    and "\<And>h'. same_hart (hw s) h' \<Longrightarrow> Q () (s\<lparr>hw := h', proc := wake_upto ch NPROC (proc s)\<rparr>)"
  shows "wp (wakeup ch) Q s"
  using wakeup_run [OF assms(1,2), of ch] assms(3) by (auto simp: wp_iff)

definition after_rw :: "nat \<Rightarrow> nat \<Rightarrow> bool \<Rightarrow> nat \<Rightarrow> 'z vdisk_scheme \<Rightarrow> 'z vdisk_scheme" where
  "after_rw n b w base s =
     (if w then s\<lparr>img := (img s)(n := blit base (bdata (bufs s b)) 0 1024 (img s n)),
                  wtrace := wtrace s @ [(n, base, bdata (bufs s b))]\<rparr>
      else s\<lparr>bufs := (bufs s)(b := (bufs s b)\<lparr>bdata := blit 0 (img s n) base 1024 (bdata (bufs s b))\<rparr>)\<rparr>)"

lemma device_run:
  assumes "vd s n = vq_req p b w d" and "last_avail d = avail_idx d"
    and "vhdr s p = \<lparr>oh_type = (if w then VIRTIO_BLK_T_OUT else VIRTIO_BLK_T_IN), oh_reserved = 0, oh_sector = sec\<rparr>"
  shows "virtio_device n s =
     Ok () ((after_rw n b w (512 * unat sec) s)\<lparr>vd := (vd s)(n := vq_served (vd s n))\<rparr>)"
proof -
  have "unat (1::uint16) = 1" "unat (2::uint16) = 2" "unat (0::uint16) = 0" "unat (1024::uint) = 1024" by simp_all
  moreover have "avail_idx d \<noteq> avail_idx d + 1" by simp
  ultimately show ?thesis using assms
    by (cases w; simp add: virtio_device_def chain_ok_def vq_req_def VRING_DESC_F_NEXT_def VRING_DESC_F_WRITE_def get_buf_def set_buf_def set_disk_def
        VIRTIO_BLK_T_OUT_def VIRTIO_BLK_T_IN_def after_rw_def vq_served_def Let_def)
qed

lemma idx_next [simp]: "unat ((x + 1) mod of_nat NUM :: uint16) = (unat x + 1) mod NUM"
proof -
  have "(unat x + 1) mod 65536 mod 8 = (unat x + 1) mod (8::nat)" by (rule mod_mod_cancel) simp
  then show ?thesis by (simp add: NUM_def unat_mod unat_word_ariths)
qed

lemma id_next: "unat (x + 1 :: uint16) mod NUM = (unat x + 1) mod NUM"
proof -
  have "(unat x + 1) mod 65536 mod 8 = (unat x + 1) mod (8::nat)" by (rule mod_mod_cancel) simp
  then show ?thesis by (simp add: NUM_def unat_word_ariths)
qed

lemma next_mod_ne: "(x + 1) mod NUM \<noteq> x mod NUM"
  by (simp add: NUM_def mod_Suc)

lemma intr_wp:
  assumes c: "calm (hw s)" "\<And>l. \<not> locked (locks (hw s) l)"
    and d: "unat (used_idx (vd s n)) = u mod NUM" "unat (used_id (vd s n)) mod NUM = (u + 1) mod NUM"
      "used_elems (vd s n) (u mod NUM) = 0" "info_status (vd s n) 0 = 0" "info_b (vd s n) 0 = Some b"
    and Q: "\<And>h'. same_hart (hw s) h' \<Longrightarrow> Q () (s\<lparr>bufs := (bufs s)(b := (bufs s b)\<lparr>bdisk := False\<rparr>),
       proc := wake_upto (ChBuf b) NPROC (proc s), vd := (vd s)(n := vq_taken (vd s n)), hw := h'\<rparr>)"
  shows "wp (virtio_disk_intr n) Q s"
proof -
  let ?h = "enter (VdiskLk n) (hw s)"
  have plf: "proc_locks_free ?h" using c(2) by (simp add: proc_locks_free_def)
  have c': "calm ?h" using c(1) by (simp add: calm_def)
  obtain h2 where h2: "same_hart ?h h2" "wakeup (ChBuf b) (s\<lparr>hw := ?h, bufs := (bufs s)(b := (bufs s b)\<lparr>bdisk := False\<rparr>)\<rparr>)
      = Ok () (s\<lparr>bufs := (bufs s)(b := (bufs s b)\<lparr>bdisk := False\<rparr>), hw := h2, proc := wake_upto (ChBuf b) NPROC (proc s)\<rparr>)"
    using wakeup_run [of "s\<lparr>hw := ?h, bufs := (bufs s)(b := (bufs s b)\<lparr>bdisk := False\<rparr>)\<rparr>" "ChBuf b"] plf c' by auto
  let ?t = "s\<lparr>bufs := (bufs s)(b := (bufs s b)\<lparr>bdisk := False\<rparr>), hw := h2,
    proc := wake_upto (ChBuf b) NPROC (proc s), vd := (vd s)(n := vq_taken (vd s n))\<rparr>"
  obtain k where k: "NUM = Suc (Suc k)" by (rule that [of 6]) (simp add: NUM_def)
  have fuel: "virtio_disk_intr_loop NUM n = virtio_disk_intr_loop (Suc (Suc k)) n" by (simp only: k)
  have "virtio_disk_intr_loop NUM n (s\<lparr>hw := ?h\<rparr>) = Ok () ?t"
    using d h2(2) next_mod_ne [of u]
    by (simp add: fuel set_buf_def set_disk_def vq_taken_def Let_def mod_Suc_eq eq_commute [of "u mod NUM"])
  moreover have "same_hart (hw s) (leave (VdiskLk n) h2)"
    using c h2(1) by (auto intro: leave_enter)
  ultimately show ?thesis
    using Q c by (simp add: virtio_disk_intr_def wp_simps wp_acquire wp_Ok wp_release [OF c(1)] h2(1))
qed

definition vq_free1 :: "nat \<Rightarrow> disk \<Rightarrow> disk" where
  "vq_free1 i d = d\<lparr>desc := (desc d)(i := (desc d i)\<lparr>d_addr := DmaNone\<rparr>), dfree := (dfree d)(i := True)\<rparr>"

lemma free_desc_wp:
  assumes "proc_locks_free (hw s)" and "calm (hw s)" and "i < NUM" and "\<not> dfree (vd s n) i"
    and "\<And>h' P. same_hart (hw s) h' \<Longrightarrow> woken (proc s) P \<Longrightarrow>
       Q () (s\<lparr>vd := (vd s)(n := vq_free1 i (vd s n)), hw := h', proc := P\<rparr>)"
  shows "wp (free_desc n i) Q s"
  using assms by (auto simp: free_desc_def wp_simps set_desc_def set_disk_def vq_free1_def intro!: wakeup_wp)

lemma vq_free1_simps [simp]:
  "dfree (vq_free1 i d) = (dfree d)(i := True)" "d_flags (desc (vq_free1 i d) j) = d_flags (desc d j)"
  "d_next (desc (vq_free1 i d) j) = d_next (desc d j)"
  by (simp_all add: vq_free1_def)

lemma free_chain_step:
  assumes "proc_locks_free (hw s)" and "calm (hw s)" and "i < NUM" and "\<not> dfree (vd s n) i"
    and "\<And>h' P. same_hart (hw s) h' \<Longrightarrow> woken (proc s) P \<Longrightarrow>
       (let s' = s\<lparr>vd := (vd s)(n := vq_free1 i (vd s n)), hw := h', proc := P\<rparr>
        in if d_flags (desc (vd s n) i) AND VRING_DESC_F_NEXT \<noteq> 0
           then wp (free_chain_loop k n (unat (d_next (desc (vd s n) i)))) Q s' else Q () s')"
  shows "wp (free_chain_loop (Suc k) n i) Q s"
  unfolding free_chain_loop.simps wp_seq using assms
  by (intro free_desc_wp) (simp_all add: wp_simps Let_def split: if_splits)

lemma free_chain_wp:
  assumes h: "proc_locks_free (hw s)" "calm (hw s)"
    and d: "\<not> dfree (vd s n) 0" "\<not> dfree (vd s n) 1" "\<not> dfree (vd s n) 2"
    and f: "d_flags (desc (vd s n) 0) AND VRING_DESC_F_NEXT \<noteq> 0" "d_next (desc (vd s n) 0) = 1"
      "d_flags (desc (vd s n) 1) AND VRING_DESC_F_NEXT \<noteq> 0" "d_next (desc (vd s n) 1) = 2"
      "d_flags (desc (vd s n) 2) AND VRING_DESC_F_NEXT = 0"
    and Q: "\<And>h' P. same_hart (hw s) h' \<Longrightarrow> woken (proc s) P \<Longrightarrow>
       Q () (s\<lparr>vd := (vd s)(n := vq_free1 2 (vq_free1 1 (vq_free1 0 (vd s n)))), hw := h', proc := P\<rparr>)"
  shows "wp (free_chain n 0) Q s"
proof -
  obtain k where k: "Suc NUM = Suc (Suc (Suc k))" by (rule that [of 6]) (simp add: NUM_def)
  have n: "0 < NUM" "1 < NUM" "2 < NUM" by (simp_all add: NUM_def)
  have step2: "wp (free_chain_loop (Suc (Suc k)) n 1) Q
      (s\<lparr>vd := (vd s)(n := vq_free1 0 (vd s n)), hw := h1, proc := P1\<rparr>)"
    if 1: "same_hart (hw s) h1" "woken (proc s) P1" for h1 P1
  proof (rule free_chain_step, simp_all add: Let_def 1 h d n [simplified] f same_hart_calm [OF 1(1)]
        same_hart_proc_locks_free [OF 1(1)] d [simplified] f [simplified]
        del: free_chain_loop.simps)
    fix h2 P2 assume 2: "same_hart h1 h2" "woken P1 P2"
    have s2: "same_hart (hw s) h2" using 1(1) 2(1) by (rule same_hart_trans)
    show "wp (free_chain_loop (Suc k) n 2) Q
        (s\<lparr>vd := (vd s)(n := vq_free1 (Suc 0) (vq_free1 0 (vd s n))), hw := h2, proc := P2\<rparr>)"
    proof (rule free_chain_step, simp_all add: Let_def h d n f wp_simps same_hart_calm [OF s2] same_hart_proc_locks_free [OF s2])
      fix h3 P3 assume 3: "same_hart h2 h3" "woken P2 P3"
      show "Q () (s\<lparr>vd := (vd s)(n := vq_free1 2 (vq_free1 (Suc 0) (vq_free1 0 (vd s n)))), hw := h3, proc := P3\<rparr>)"
        using Q [OF same_hart_trans [OF s2 3(1)] woken_trans [OF woken_trans [OF 1(2) 2(2)] 3(2)]] by simp
    qed
  qed
  show ?thesis
    unfolding free_chain_def k
    by (rule free_chain_step) (use step2 in \<open>simp_all add: Let_def h d n f del: free_chain_loop.simps\<close>)
qed

lemma after_rw_simps [simp]:
  "hw (after_rw n b w base s) = hw s" "proc (after_rw n b w base s) = proc s"
  "vd (after_rw n b w base s) = vd s" "bdisk (bufs (after_rw n b w base s) i) = bdisk (bufs s i)"
  by (simp_all add: after_rw_def)

lemma after_rw_hw: "after_rw n b w base (s\<lparr>proc := P, hw := h\<rparr>) = (after_rw n b w base s)\<lparr>proc := P, hw := h\<rparr>"
  by (simp add: after_rw_def)

lemma wait_wp:
  assumes q: "quiet p h0" and n0: "noff (cpus h0 (tp h0)) = 0" and p: "p < NPROC"
    and h: "same_hart (enter (VdiskLk n) h0) (hw s)"
    and pr: "pstate (proc s p) = RUNNING" "chan (proc s p) = None"
    and d: "vq_idle d" "vd s n = vq_req p b w d"
    and hdr: "vhdr s p = \<lparr>oh_type = (if w then VIRTIO_BLK_T_OUT else VIRTIO_BLK_T_IN), oh_reserved = 0, oh_sector = sec\<rparr>"
    and b: "bdisk (bufs s b)"
    and Q: "\<And>h' P. same_hart (enter (VdiskLk n) h0) h' \<Longrightarrow> woken (proc s) P \<Longrightarrow>
      (let t = after_rw n b w (512 * unat sec) s in Q () (t\<lparr>bufs := (bufs t)(b := (bufs t b)\<lparr>bdisk := False\<rparr>),
         vd := (vd s)(n := vq_taken (vq_served (vd s n))), hw := h', proc := P\<rparr>))"
  shows "wp (virtio_wait n b) Q s"
proof -
  let ?P = "(proc s)(p := (proc s p)\<lparr>chan := Some (ChBuf b), pstate := SLEEPING\<rparr>)"
  let ?t = "after_rw n b w (512 * unat sec) s"
  let ?u = "?t\<lparr>bufs := (bufs ?t)(b := (bufs ?t b)\<lparr>bdisk := False\<rparr>), vd := (vd s)(n := vq_taken (vq_served (vd s n)))\<rparr>"
  let ?Q = "\<lambda>u. \<exists>h. u = ?t\<lparr>bufs := (bufs ?t)(b := (bufs ?t b)\<lparr>bdisk := False\<rparr>),
    proc := wake_upto (ChBuf b) NPROC ?P, vd := (vd s)(n := vq_taken (vq_served (vd s n))), hw := h\<rparr>"
  have ev: "wp (seq (virtio_device n) (virtio_disk_intr n))
      (\<lambda>_ u. same_hart h1 (hw u) \<and> pstate (proc u p) = RUNNABLE \<and> ?Q u) (s\<lparr>proc := ?P, hw := h1\<rparr>)"
    if h1: "idle_hart h1" for h1
  proof -
    let ?s1 = "s\<lparr>proc := ?P, hw := h1\<rparr>"
    have dev: "virtio_device n ?s1 = Ok () (?t\<lparr>proc := ?P, hw := h1, vd := (vd s)(n := vq_served (vd s n))\<rparr>)"
      using device_run [of ?s1 n p b w d sec] d hdr by (simp add: vq_idle_def after_rw_hw)
    have f: "unat (used_idx (vq_served (vd s n))) = unat (used_id d) mod NUM"
      "unat (used_id (vq_served (vd s n))) mod NUM = (unat (used_id d) + 1) mod NUM"
      "used_elems (vq_served (vd s n)) (unat (used_id d) mod NUM) = 0"
      "info_status (vq_served (vd s n)) 0 = 0" "info_b (vq_served (vd s n)) 0 = Some b"
      using d by (simp_all add: vq_idle_def vq_served_def vq_req_def id_next)
    have me: "pstate (wake_upto (ChBuf b) NPROC ?P p) = RUNNABLE"
      using p by (simp add: wake_upto_def wake_def)
    show ?thesis
      unfolding wp_seq wp_Ok [where m = "virtio_device n" and s = ?s1, OF dev]
      by (rule intr_wp [where u = "unat (used_id d)" and b = b])
        (use idle_hartD(1,2) [OF h1] f me in auto)
  qed
  let ?P' = "(wake_upto (ChBuf b) NPROC ?P)(p := proc s p)"
  have wk: "woken (proc s) ?P'" by (simp add: woken_def wake_upto_def wake_def)
  have me: "(wake_upto (ChBuf b) NPROC ?P p)\<lparr>pstate := RUNNING, chan := None\<rparr> = proc s p"
    using p pr by (cases "proc s p") (simp add: wake_upto_def wake_def)
  have post: "\<not> bdisk (bufs u b) \<and> Q () u" if u: "same_hart (enter (VdiskLk n) h0) (hw u)"
    "\<exists>t. ?Q t \<and> u = t\<lparr>hw := hw u, proc := (proc t)(p := (proc t p)\<lparr>pstate := RUNNING, chan := None\<rparr>)\<rparr>" for u
  proof -
    obtain h where "u = ?u\<lparr>hw := h, proc := ?P'\<rparr>" using u(2) me by auto
    then show ?thesis using Q [OF u(1) wk] u(1) by (simp add: Let_def)
  qed
  have lk: "\<And>i. VdiskLk n \<noteq> ProcLk i" by simp
  show ?thesis
    unfolding virtio_wait_def get_buf_def
    using b apply (simp add: wp_simps)
    apply (rule wp_mono [OF await_wp [OF q n0 h lk, where Q = ?Q]])
    subgoal using ev by blast
    subgoal for a u using post [of u] by (auto simp: wp_simps)
    done
qed

text \<open>What a request leaves behind.\<close>

definition disk_moved :: "nat \<Rightarrow> nat \<Rightarrow> bool \<Rightarrow> 'z vdisk_scheme \<Rightarrow> 'z vdisk_scheme \<Rightarrow> bool" where
  "disk_moved n b w s t \<longleftrightarrow> vframe s t \<and> same_hart (hw s) (hw t) \<and> woken (proc s) (proc t) \<and>
     vq_idle (vd t n) \<and> (\<forall>m. m \<noteq> n \<longrightarrow> vd t m = vd s m) \<and>
     (let u = after_rw n b w (1024 * unat (blockno (bufs s b))) s
      in img t = img u \<and> wtrace t = wtrace u \<and> bufs t = (bufs u)(b := (bufs u b)\<lparr>bdisk := False\<rparr>))"

lemma sector_bytes:
  assumes "unat (k :: uint) < 2 ^ 31"
  shows "512 * unat (ucast (k * of_nat (BSIZE div 512)) :: uint64) = 1024 * unat k"
proof -
  have "unat (k * 2) = unat k * 2"
    using assms by (subst unat_mult_lem [THEN iffD1]) auto
  moreover have "unat (ucast x :: uint64) = unat x" for x :: uint
  proof -
    have "unat x < 2 ^ LENGTH(32)" by (rule unsigned_less)
    then show ?thesis by (simp add: unsigned_ucast_eq take_bit_nat_eq_self_iff)
  qed
  ultimately show ?thesis by (simp add: BSIZE_def)
qed

lemma vq_finished:
  fixes p b :: nat and w :: bool and d :: disk
  assumes "vq_idle d"
  defines "f \<equiv> vq_taken (vq_served (vq_req p b w d))"
  defines "e \<equiv> f\<lparr>info_b := (info_b f)(0 := None)\<rparr>"
  shows "vq_idle (vq_free1 2 (vq_free1 1 (vq_free1 0 e)))"
    and "\<not> dfree e 0" "\<not> dfree e 1" "\<not> dfree e 2" "d_next (desc e 0) = 1" "d_next (desc e 1) = 2"
    and "d_flags (desc e 0) AND VRING_DESC_F_NEXT \<noteq> 0" "d_flags (desc e 1) AND VRING_DESC_F_NEXT \<noteq> 0"
    and "d_flags (desc e 2) AND VRING_DESC_F_NEXT = 0"
proof -
  have "unat (used_idx e) = unat (used_id e) mod NUM" "last_avail e = avail_idx e"
    "dfree e = (dfree d)(0 := False, 1 := False, 2 := False)"
    using assms(1) by (simp_all add: e_def f_def vq_taken_def vq_served_def vq_req_def vq_idle_def id_next mod_Suc_eq)
  then show "vq_idle (vq_free1 2 (vq_free1 1 (vq_free1 0 e)))"
    using assms(1) by (simp add: vq_idle_def) (simp add: vq_free1_def)
qed (simp_all add: e_def f_def vq_taken_def vq_served_def vq_req_def VRING_DESC_F_NEXT_def VRING_DESC_F_WRITE_def)

lemma request_end_wp:
  assumes h0: "calm h0" "\<And>l. \<not> locked (locks h0 l)" and h: "same_hart (enter (VdiskLk n) h0) (hw s)"
    and d: "vq_idle d" "vd s n = vq_taken (vq_served (vq_req p b w d))"
    and Q: "\<And>h' P d'. same_hart h0 h' \<Longrightarrow> woken (proc s) P \<Longrightarrow> vq_idle d' \<Longrightarrow>
      Q () (s\<lparr>vd := (vd s)(n := d'), proc := P, hw := h'\<rparr>)"
  shows "wp (seq (set_disk n (\<lambda>d. d\<lparr>info_b := (info_b d)(0 := None)\<rparr>))
     (seq (free_chain n 0) (release (VdiskLk n)))) Q s"
proof -
  have c: "calm (hw s)" "proc_locks_free (hw s)"
    unfolding same_hart_calm [OF h] same_hart_proc_locks_free [OF h]
    using h0 by (simp_all add: calm_def proc_locks_free_def)
  note f = vq_finished [OF d(1), of p b w, folded d(2)]
  show ?thesis
    unfolding set_disk_def wp_simps
  proof (rule free_chain_wp, use c f in simp_all)
    fix h' P
    assume 1: "same_hart (hw s) h'" "woken (proc s) P"
    have same: "same_hart (enter (VdiskLk n) h0) h'" using h 1(1) by (rule same_hart_trans)
    have "same_hart h0 (leave (VdiskLk n) h')" using h0 same by (auto intro: leave_enter)
    then show "wp (release (VdiskLk n)) Q (s\<lparr>vd := (vd s)(n := vq_free1 2 (vq_free1 (Suc 0) (vq_free1 0
        ((vd s n)\<lparr>info_b := (info_b (vd s n))(0 := None)\<rparr>)))), hw := h', proc := P\<rparr>)"
      using Q [OF _ 1(2)] f(1) by (simp add: wp_release [OF h0(1)] same)
  qed
qed

text \<open>From the top of the allocation loop, with \<^verbatim>\<open>vdisk_lock\<close> held by a thread that was quiet before.\<close>

lemma virtio_rw_loop_wp:
  assumes q: "quiet p h0" "noff (cpus h0 (tp h0)) = 0" "p < NPROC"
    and h: "same_hart (enter (VdiskLk n) h0) (hw s)"
    and pr: "pstate (proc s p) = RUNNING" "chan (proc s p) = None"
    and d: "vq_idle (vd s n)" and sec: "512 * unat sec = 1024 * unat (blockno (bufs s b))"
    and Q: "\<And>t. disk_moved n b w (s\<lparr>hw := h0\<rparr>) t \<Longrightarrow> Q () t"
  shows "wp (virtio_rw_loop n b w sec) Q s"
proof -
  let ?lk = "VdiskLk n"
  let ?d1 = "(vd s n)\<lparr>dfree := (dfree (vd s n))(0 := False, 1 := False, 2 := False)\<rparr>"
  have c: "calm h0" "calm (hw s)" using quietD(1) [OF q(1)] same_hart_calm [OF h] by (auto simp: calm_def)
  have al: "alloc3_desc n s = Ok (Some [0, 1, 2]) (s\<lparr>vd := (vd s)(n := ?d1)\<rparr>)"
    by (rule alloc3_idle) (use d in \<open>simp add: vq_idle_def\<close>)
  have me: "cproc (cpus (hw s) (tp (hw s))) = Some p" using h quietD(2) [OF q(1)] by (auto simp: same_hart_def)
  obtain h1 where h1: "same_hart (hw s) h1" "curproc (s\<lparr>vd := (vd s)(n := ?d1)\<rparr>) = Ok p (s\<lparr>vd := (vd s)(n := ?d1), hw := h1\<rparr>)"
    using curproc_run [of "s\<lparr>vd := (vd s)(n := ?d1)\<rparr>" p] c me by auto
  let ?s1 = "s\<lparr>hw := h1, vhdr := (vhdr s)(p := \<lparr>oh_type = (if w then VIRTIO_BLK_T_OUT else VIRTIO_BLK_T_IN),
        oh_reserved = 0, oh_sector = sec\<rparr>), vd := (vd s)(n := vq_req p b w (vd s n)),
      bufs := (bufs s)(b := (bufs s b)\<lparr>bdisk := True\<rparr>), mmio := (mmio s)(n := (mmio s n)(0x050 := 0))\<rparr>"
  have main: "wp (seq (virtio_wait n b) (seq (set_disk n (\<lambda>d. d\<lparr>info_b := (info_b d)(0 := None)\<rparr>))
      (seq (free_chain n 0) (release ?lk)))) Q ?s1"
    unfolding wp_seq
  proof (rule wait_wp [OF q, where d = "vd s n" and w = w and sec = sec])
    show "same_hart (enter ?lk h0) (hw ?s1)" using same_hart_trans [OF h h1(1)] by simp
    fix h2 P2
    assume 2: "same_hart (enter ?lk h0) h2" "woken (proc ?s1) P2"
    let ?t = "after_rw n b w (512 * unat sec) ?s1"
    let ?u = "?t\<lparr>bufs := (bufs ?t)(b := (bufs ?t b)\<lparr>bdisk := False\<rparr>),
        vd := (vd ?s1)(n := vq_taken (vq_served (vd ?s1 n))), hw := h2, proc := P2\<rparr>"
    have "wp (set_disk n (\<lambda>d. d\<lparr>info_b := (info_b d)(0 := None)\<rparr>)) (\<lambda>_. wp (free_chain n 0) (\<lambda>_. wp (release ?lk) Q)) ?u"
    proof (rule request_end_wp [unfolded wp_seq, OF c(1) _ _ d, where s = ?u])
      fix h3 P3 d'
      assume 3: "same_hart h0 h3" "woken (proc ?u) P3" "vq_idle d'"
      have "woken (proc s) P3" using 2(2) 3(2) by (auto intro: woken_trans)
      then show "Q () (?u\<lparr>vd := (vd ?u)(n := d'), proc := P3, hw := h3\<rparr>)"
        using 3 sec by (intro Q) (simp add: disk_moved_def vframe_def Let_def after_rw_def)
    qed (use quietD [OF q(1)] 2(1) in simp_all)
    then show "let t = ?t in wp (set_disk n (\<lambda>d. d\<lparr>info_b := (info_b d)(0 := None)\<rparr>)) (\<lambda>_. wp (free_chain n 0) (\<lambda>_. wp (release ?lk) Q))
      (t\<lparr>bufs := (bufs t)(b := (bufs t b)\<lparr>bdisk := False\<rparr>), vd := (vd ?s1)(n := vq_taken (vq_served (vd ?s1 n))), hw := h2, proc := P2\<rparr>)"
      unfolding Let_def .
  qed (use pr d in simp_all)
  show ?thesis
    using main submit_run [of n b w p sec h1 s] al h1(2)
    by (simp add: virtio_rw_loop_def wp_simps wp_Ok)
qed

lemma virtio_disk_rw_wp:
  assumes r: "running p s" and d: "vq_idle (vd s n)" and blk: "unat (blockno (bufs s b)) < 2 ^ 31"
    and Q: "\<And>t. disk_moved n b w s t \<Longrightarrow> Q () t"
  shows "wp (virtio_disk_rw n b w) Q s"
proof -
  note q = runningD [OF r]
  have free: "\<not> locked (locks (hw s) (VdiskLk n))" using quietD [OF q(1)] by auto
  have "wp (virtio_rw_loop n b w (ucast (blockno (bufs s b) * of_nat (BSIZE div 512)))) Q
      (s\<lparr>hw := enter (VdiskLk n) (hw s)\<rparr>)"
    by (rule virtio_rw_loop_wp [OF q(1,5,2)])
      (use q d Q sector_bytes [OF blk] in simp_all)
  then show ?thesis
    by (simp add: virtio_disk_rw_def get_buf_def wp_simps Let_def wp_acquire free)
qed

text \<open>
  A thread that had to sleep for descriptors completes its request once it is woken and finds the
  queue idle: \<open>h0\<close> is the hart before it took \<^verbatim>\<open>vdisk_lock\<close>, \<open>h1\<close> the hart on which the scheduler
  switched back to it.
\<close>

lemma virtio_rw_ret_wp:
  assumes q: "quiet p h0" "noff (cpus h0 (tp h0)) = 0" "p < NPROC"
    and h: "in_sched p h1 False (hw s)" "tp h1 = tp h0" "\<And>i. cproc (cpus h1 i) = cproc (cpus h0 i)"
    and pr: "pstate (proc s p) = RUNNING"
    and d: "vq_idle (vd s n)" and sec: "512 * unat sec = 1024 * unat (blockno (bufs s b))"
    and Q: "\<And>t. disk_moved n b w (s\<lparr>proc := (proc s)(p := (proc s p)\<lparr>chan := None\<rparr>), hw := h0\<rparr>) t \<Longrightarrow> Q () t"
  shows "wp (virtio_rw_ret p (intr_get_hw h0) n b w sec) Q s"
proof -
  obtain h' where h': "same_hart (enter (VdiskLk n) h0) h'" "sleep_ret p (intr_get_hw h0) (VdiskLk n) s =
      Ok () (s\<lparr>hw := h', proc := (proc s)(p := (proc s p)\<lparr>chan := None\<rparr>)\<rparr>)"
    using sleep_ret_run [OF h(1) _ q(1,2) h(2) refl h(3), of "VdiskLk n"] by auto
  have "wp (virtio_rw_loop n b w sec) Q (s\<lparr>hw := h', proc := (proc s)(p := (proc s p)\<lparr>chan := None\<rparr>)\<rparr>)"
    by (rule virtio_rw_loop_wp [OF q]) (use h'(1) pr d sec Q in simp_all)
  then show ?thesis by (simp add: virtio_rw_ret_def wp_simps wp_Ok h'(2))
qed

lemma disk_moved_idle:
  "disk_moved n b w s t \<Longrightarrow> (\<And>m. vq_idle (vd s m)) \<Longrightarrow> vq_idle (vd t m)"
  by (cases "m = n") (auto simp: disk_moved_def)

lemma vframe_slk:
  assumes "vframe s t"
  shows "slk t = slk s"
proof -
  have "slk t = slk (s\<lparr>hw := hw t, proc := proc t, bufs := bufs t, vd := vd t, vhdr := vhdr t,
     mmio := mmio t, img := img t, wtrace := wtrace t\<rparr>)"
    using assms unfolding vframe_def by (rule arg_cong)
  then show ?thesis by simp
qed

section \<open>The driver returns\<close>

text \<open>A machine with an idle queue, zeroed buffers and a zeroed disk.\<close>

definition disk0 :: disk where
  "disk0 = \<lparr>desc = (\<lambda>_. \<lparr>d_addr = DmaNone, d_len = 0, d_flags = 0, d_next = 0\<rparr>), avail_idx = 0,
     avail_ring = (\<lambda>_. 0), used_id = 0, used_elems = (\<lambda>_. 0), dfree = (\<lambda>_. True), used_idx = 0,
     info_b = (\<lambda>_. None), info_status = (\<lambda>_. 0), dinit = True, dpages = 0x80010000, last_avail = 0, kicked = 0\<rparr>"

definition buf0 :: buf where
  "buf0 = \<lparr>valid = False, bdisk = False, bdev = 0, blockno = 0, refcnt = 0, bprev = 0, bnext = 0, bdata = (\<lambda>_. 0)\<rparr>"

definition vdisk0 :: vdisk where
  "vdisk0 = \<lparr>hw = hart0, proc = (\<lambda>_. proc0), nextpid = 1, initproc = None, ticks = 0,
     slk = (\<lambda>_. \<lparr>sl_locked = False, sl_name = [], sl_pid = 0\<rparr>),
     mem = (\<lambda>a. 0), freelist = 0, kend = 0x80000000,
     uart_out = [], uart_in = [], uart_thre = True, uart_reg = (\<lambda>_. 0), panicked = False, pr_locking = True,
     kernel_pagetable = 0, satp = 0, etext = 0, trampoline = 0, kstk = (\<lambda>_. 0),
     bufs = (\<lambda>_. buf0), vd = (\<lambda>_. disk0), vhdr = (\<lambda>_. \<lparr>oh_type = 0, oh_reserved = 0, oh_sector = 0\<rparr>),
     mmio = (\<lambda>_ _. 0), img = (\<lambda>_ _. 0), wtrace = []\<rparr>"

lemma hart0_running: "hw s = hart0 \<Longrightarrow> proc s 0 = proc0 \<Longrightarrow> running 0 s"
  by (simp add: running_def quiet_def NPROC_def) (simp add: hart0_def proc0_def)

lemma disk0_idle [simp]: "vq_idle disk0"
  by (simp add: vq_idle_def disk0_def)

text \<open>
  C15: What a disk request does. \<^verbatim>\<open>virtio_disk_rw(n, b, write)\<close>, called by a running process that holds
  no spin lock while the queue of disk \<open>n\<close> is idle, neither panics nor sleeps forever: the chain it
  builds is one the device accepts, it is published before the device is notified, and the
  completion is handed back to the sleeping process. The request moves exactly one block between the
  image, at byte 1024 * blockno, and the buffer (a write is also the next entry of the trace of
  completed writes), leaves the queue idle with all eight descriptors free, holds no lock, and does
  no more to other processes than wake them. The environment is the one of \<open>virtio_wait\<close>: while the
  process sleeps, the device serves a request if it was notified of it and interrupts, and the
  scheduler goes on with the process if it was made RUNNABLE.
\<close>

theorem virtio_disk_rw_moves:
  assumes "running p s" and "vq_idle (vd s n)" and "unat (blockno (bufs s b)) < 2 ^ 31"
  shows "wp (virtio_disk_rw n b w) (\<lambda>_. disk_moved n b w s) s"
  using assms by (rule virtio_disk_rw_wp)

theorem virtio_disk_rw_moves_witness:
  "wp (virtio_disk_rw 0 3 True) (\<lambda>_. disk_moved 0 3 True vdisk0) vdisk0"
  using virtio_disk_rw_moves [of 0 vdisk0 0 3 True] hart0_running [of vdisk0]
  by (simp add: vdisk0_def buf0_def)

end
