(* ===== verification/Xv6_Bio_Proofs.thy ===== *)
theory Xv6_Bio_Proofs
  imports Xv6_Virtio_Proofs Xv6_Bio
begin

text \<open>
  The buffer cache is a write-back cache of the disk. \<open>bio_inv\<close> is its invariant: the LRU list is
  a permutation of the buffers, a block is in at most one buffer, a buffer nobody refers to is
  clean. \<open>view\<close> is what a reader of a block sees, the cached copy if there is one. Each operation
  keeps the invariant and, but for stores into a buffer, the view.
\<close>

section \<open>The LRU list\<close>

interpretation lru: dll_store "\<lambda>B i. bnext (B i)" "\<lambda>B i. bprev (B i)"
  "\<lambda>a v (B :: nat \<Rightarrow> buf). B(a := (B a)\<lparr>bnext := v\<rparr>)" "\<lambda>a v B. B(a := (B a)\<lparr>bprev := v\<rparr>)" "\<lambda>_. True"
  by unfold_locales auto

definition lru_list :: "(nat \<Rightarrow> buf) \<Rightarrow> nat list \<Rightarrow> bool" where
  "lru_list B xs \<longleftrightarrow> dlist (\<lambda>i. bnext (B i)) (\<lambda>i. bprev (B i)) NBUF xs \<and> set xs = {..<NBUF}"

lemma lru_length: "lru_list B xs \<Longrightarrow> length xs = NBUF"
  using distinct_card [of xs] by (simp add: lru_list_def dlist_def)

lemma lru_list_cong:
  assumes "lru_list B xs" and "\<And>i. bnext (C i) = bnext (B i)" and "\<And>i. bprev (C i) = bprev (B i)"
  shows "lru_list C xs"
  using assms by (simp add: lru_list_def)

lemma find_SomeD: "find P xs = Some x \<Longrightarrow> x \<in> set xs \<and> P x"
  by (induction xs) (auto split: if_splits)

lemma cached_scan:
  assumes "seg (\<lambda>i. bnext (bufs s i)) a xs NBUF" and "NBUF \<notin> set xs" and "length xs < k"
  shows "bget_cached k (bnext (bufs s a)) d n s =
     Ok (find (\<lambda>b. bdev (bufs s b) = d \<and> blockno (bufs s b) = n) xs) s"
  using assms
proof (induction xs arbitrary: a k)
  case Nil
  then show ?case by (cases k) auto
next
  case (Cons x xs)
  then obtain j where "k = Suc j" by (cases k) auto
  with Cons show ?case by (auto simp: get_buf_def)
qed

lemma unused_scan:
  assumes "seg (\<lambda>i. bprev (bufs s i)) a xs NBUF" and "NBUF \<notin> set xs" and "length xs < k"
  shows "bget_unused k (bprev (bufs s a)) s = Ok (find (\<lambda>b. refcnt (bufs s b) = 0) xs) s"
  using assms
proof (induction xs arbitrary: a k)
  case Nil
  then show ?case by (cases k) auto
next
  case (Cons x xs)
  then obtain j where "k = Suc j" by (cases k) auto
  with Cons show ?case by (auto simp: get_buf_def)
qed

lemma lru_scans:
  assumes "lru_list (bufs s) xs"
  shows "bget_cached (Suc NBUF) (bnext (bufs s NBUF)) d n s =
      Ok (find (\<lambda>b. bdev (bufs s b) = d \<and> blockno (bufs s b) = n) xs) s"
    and "bget_unused (Suc NBUF) (bprev (bufs s NBUF)) s = Ok (find (\<lambda>b. refcnt (bufs s b) = 0) (rev xs)) s"
proof -
  have l: "length xs < Suc NBUF" "NBUF \<notin> set xs" "seg (\<lambda>i. bnext (bufs s i)) NBUF xs NBUF"
    "seg (\<lambda>i. bprev (bufs s i)) NBUF (rev xs) NBUF"
    using assms lru_length [OF assms] by (simp_all add: lru_list_def dlist_def)
  show "bget_cached (Suc NBUF) (bnext (bufs s NBUF)) d n s =
      Ok (find (\<lambda>b. bdev (bufs s b) = d \<and> blockno (bufs s b) = n) xs) s"
    by (rule cached_scan [OF l(3,2,1)])
  show "bget_unused (Suc NBUF) (bprev (bufs s NBUF)) s = Ok (find (\<lambda>b. refcnt (bufs s b) = 0) (rev xs)) s"
    by (rule unused_scan [OF l(4)]) (simp_all only: set_rev length_rev l not_False_eq_True)
qed

text \<open>The links of a buffer apart, two buffers agree.\<close>

definition buf_eq :: "buf \<Rightarrow> buf \<Rightarrow> bool" where
  "buf_eq x y \<longleftrightarrow> valid x = valid y \<and> bdisk x = bdisk y \<and> bdev x = bdev y \<and> blockno x = blockno y \<and>
     refcnt x = refcnt y \<and> bdata x = bdata y"

lemma buf_eq_refl [simp, intro!]: "buf_eq x x"
  by (simp add: buf_eq_def)

lemma buf_eqD:
  "buf_eq x y \<Longrightarrow> valid x = valid y" "buf_eq x y \<Longrightarrow> bdev x = bdev y" "buf_eq x y \<Longrightarrow> blockno x = blockno y"
  "buf_eq x y \<Longrightarrow> refcnt x = refcnt y" "buf_eq x y \<Longrightarrow> bdata x = bdata y" "buf_eq x y \<Longrightarrow> bdisk x = bdisk y"
  by (simp_all add: buf_eq_def)

lemma move_to_front_run:
  assumes "lru_list (bufs s) xs" and "b < NBUF"
  shows "\<exists>B ys. move_to_front b s = Ok () (s\<lparr>bufs := B\<rparr>) \<and> lru_list B ys \<and> (\<forall>i. buf_eq (B i) (bufs s i))"
proof -
  obtain us vs where xs: "xs = us @ b # vs"
    using assms by (metis lru_list_def lessThan_iff split_list)
  let ?B = "bufs s"
  define B1 where "B1 = ?B(bnext (?B b) := (?B (bnext (?B b)))\<lparr>bprev := bprev (?B b)\<rparr>)"
  define B2 where "B2 = B1(bprev (B1 b) := (B1 (bprev (B1 b)))\<lparr>bnext := bnext (B1 b)\<rparr>)"
  have d2: "dlist (\<lambda>i. bnext (B2 i)) (\<lambda>i. bprev (B2 i)) NBUF (us @ vs)"
    using assms(1) xs by (intro lru.unlink_run [OF _ _ B1_def B2_def]) (simp_all add: lru_list_def)
  define B3 where "B3 = B2(b := (B2 b)\<lparr>bnext := bnext (B2 NBUF)\<rparr>)"
  define B4 where "B4 = B3(b := (B3 b)\<lparr>bprev := NBUF\<rparr>)"
  define B5 where "B5 = B4(bnext (B2 NBUF) := (B4 (bnext (B2 NBUF)))\<lparr>bprev := b\<rparr>)"
  define B6 where "B6 = B5(NBUF := (B5 NBUF)\<lparr>bnext := b\<rparr>)"
  have b: "b \<notin> set (NBUF # us @ vs)"
    using assms xs by (auto simp: lru_list_def dlist_def)
  have "dlist (\<lambda>i. bnext (B6 i)) (\<lambda>i. bprev (B6 i)) NBUF (b # us @ vs)"
    by (rule lru.push_dlist [OF d2 _ b]) (simp_all only: B6_def B5_def B4_def B3_def ball_triv simp_thms)
  moreover have "set (b # us @ vs) = {..<NBUF}" using assms xs by (auto simp: lru_list_def)
  ultimately have "lru_list B6 (b # us @ vs)" by (simp add: lru_list_def)
  moreover have "move_to_front b s = Ok () (s\<lparr>bufs := B6\<rparr>)"
  proof -
    have "bnext (B4 NBUF) = bnext (B2 NBUF)" using b by (simp add: B4_def B3_def)
    then have B5: "B5 = B4(bnext (B4 NBUF) := (B4 (bnext (B4 NBUF)))\<lparr>bprev := b\<rparr>)" by (simp only: B5_def)
    show ?thesis
      unfolding B6_def B5 unfolding B4_def unfolding B3_def unfolding B2_def unfolding B1_def
      by (simp add: move_to_front_def get_buf_def set_buf_def del: fun_upd_apply)
  qed
  moreover have "buf_eq (B6 i) (bufs s i)" for i
  proof -
    have "buf_eq (B1 i) (bufs s i)" by (simp add: B1_def buf_eq_def)
    moreover have "buf_eq (B2 i) (B1 i)" by (simp add: B2_def buf_eq_def)
    moreover have "buf_eq (B4 i) (B2 i)" by (simp add: B4_def B3_def buf_eq_def)
    moreover have "buf_eq (B5 i) (B4 i)" by (simp add: B5_def buf_eq_def)
    moreover have "buf_eq (B6 i) (B5 i)" by (simp add: B6_def buf_eq_def)
    ultimately show ?thesis by (simp only: buf_eq_def)
  qed
  ultimately show ?thesis by blast
qed

section \<open>The invariant and the view\<close>

definition holds :: "(nat \<Rightarrow> buf) \<Rightarrow> uint \<Rightarrow> uint \<Rightarrow> nat \<Rightarrow> bool" where
  "holds B d n b \<longleftrightarrow> bdev (B b) = d \<and> blockno (B b) = n"

definition slot :: "(nat \<Rightarrow> buf) \<Rightarrow> uint \<Rightarrow> uint \<Rightarrow> nat option" where
  "slot B d n = find (holds B d n) [0..<NBUF]"

text \<open>The contents of a block: its \<^verbatim>\<open>BSIZE\<close> bytes, as a function that is zero elsewhere.\<close>

definition block :: "nat \<Rightarrow> bytes \<Rightarrow> bytes" where
  "block base m = (\<lambda>x. if x < BSIZE then m (base + x) else 0)"

definition dblock :: "(nat \<Rightarrow> bytes) \<Rightarrow> uint \<Rightarrow> uint \<Rightarrow> bytes" where
  "dblock I d n = block (1024 * unat n) (I (unat d))"

definition view :: "'z vdisk_scheme \<Rightarrow> uint \<Rightarrow> uint \<Rightarrow> bytes" where
  "view s d n = (case slot (bufs s) d n of
     Some b \<Rightarrow> if valid (bufs s b) then block 0 (bdata (bufs s b)) else dblock (img s) d n
   | None \<Rightarrow> dblock (img s) d n)"

definition refs :: "(nat \<Rightarrow> buf) \<Rightarrow> uint \<Rightarrow> uint \<Rightarrow> uint" where
  "refs B d n = (case slot B d n of Some b \<Rightarrow> refcnt (B b) | None \<Rightarrow> 0)"

definition buf_uniq :: "(nat \<Rightarrow> buf) \<Rightarrow> bool" where
  "buf_uniq B \<longleftrightarrow> (\<forall>i<NBUF. \<forall>j<NBUF. blockno (B i) \<noteq> 0 \<longrightarrow> bdev (B i) = bdev (B j) \<longrightarrow>
     blockno (B i) = blockno (B j) \<longrightarrow> i = j)"

definition buf_ok :: "(nat \<Rightarrow> bytes) \<Rightarrow> bool \<Rightarrow> buf \<Rightarrow> bool" where
  "buf_ok I held x \<longleftrightarrow> unat (blockno x) < 2 ^ 31 \<and> (refcnt x \<noteq> 0 \<longrightarrow> valid x) \<and>
     (refcnt x = 0 \<longrightarrow> \<not> held \<and> (valid x \<longrightarrow> block 0 (bdata x) = dblock I (bdev x) (blockno x)))"

definition bio_inv :: "'z vdisk_scheme \<Rightarrow> bool" where
  "bio_inv s \<longleftrightarrow> (\<exists>xs. lru_list (bufs s) xs) \<and> buf_uniq (bufs s) \<and> (\<forall>n. vq_idle (vd s n)) \<and>
     (\<forall>b<NBUF. buf_ok (img s) (sl_locked (slk s (BufLk b))) (bufs s b))"

lemma slot_Some:
  assumes "buf_uniq B" and "n \<noteq> 0" and "b < NBUF" and "holds B d n b"
  shows "slot B d n = Some b"
proof -
  have u: "i = b" if "holds B d n i" "i < NBUF" for i
    using assms that unfolding buf_uniq_def holds_def by metis
  have "find (holds B d n) [0..<NBUF] \<noteq> None"
    using assms(3,4) by (auto simp: find_None_iff)
  then obtain c where c: "find (holds B d n) [0..<NBUF] = Some c" by auto
  then have "c < NBUF" "holds B d n c" by (auto simp: find_Some_iff)
  then show ?thesis using u c by (simp add: slot_def)
qed

lemma slot_None: "slot B d n = None \<longleftrightarrow> (\<forall>b<NBUF. \<not> holds B d n b)"
  by (auto simp: slot_def find_None_iff)

lemma slot_SomeD: "slot B d n = Some b \<Longrightarrow> b < NBUF \<and> holds B d n b"
  by (auto simp: slot_def find_Some_iff)

lemma find_slot:
  assumes "buf_uniq B" and "n \<noteq> 0" and "set xs = {..<NBUF}"
  shows "find (holds B d n) xs = slot B d n"
proof (cases "slot B d n")
  case None
  then have "find (holds B d n) xs = None" using assms(3) by (auto simp: slot_None find_None_iff)
  then show ?thesis using None by simp
next
  case (Some b)
  then have "b \<in> set xs" "holds B d n b" using slot_SomeD assms(3) by auto
  then obtain c where "find (holds B d n) xs = Some c"
    by (metis find_None_iff option.exhaust)
  moreover then have "c < NBUF" "holds B d n c" using assms(3) by (auto simp: find_Some_iff)
  ultimately show ?thesis using slot_Some assms by metis
qed

text \<open>What the operations of the cache may change, whatever they do.\<close>

definition bframe :: "'z vdisk_scheme \<Rightarrow> 'z vdisk_scheme \<Rightarrow> bool" where
  "bframe s t \<longleftrightarrow> t = s\<lparr>hw := hw t, proc := proc t, slk := slk t, bufs := bufs t, vd := vd t,
     vhdr := vhdr t, mmio := mmio t, img := img t, wtrace := wtrace t\<rparr> \<and>
     same_hart (hw s) (hw t) \<and> woken (proc s) (proc t)"

lemma bframe_refl [simp, intro!]: "bframe s s"
  by (simp add: bframe_def)

lemma bframe_trans [trans]:
  assumes "bframe s t" and "bframe t u"
  shows "bframe s u"
proof -
  obtain h P K B V H M I W where t: "t = s\<lparr>hw := h, proc := P, slk := K, bufs := B, vd := V, vhdr := H,
      mmio := M, img := I, wtrace := W\<rparr>"
    using assms(1) unfolding bframe_def by blast
  have "u = s\<lparr>hw := hw u, proc := proc u, slk := slk u, bufs := bufs u, vd := vd u,
     vhdr := vhdr u, mmio := mmio u, img := img u, wtrace := wtrace u\<rparr>"
    using assms(2) unfolding bframe_def t by simp
  then show ?thesis
    using assms same_hart_trans woken_trans unfolding bframe_def by blast
qed

lemma vframe_bframe:
  assumes "vframe s t" and "same_hart (hw s) (hw t)" and "woken (proc s) (proc t)"
  shows "bframe s t"
proof -
  obtain h P B V H M I W where t: "t = s\<lparr>hw := h, proc := P, bufs := B, vd := V, vhdr := H,
      mmio := M, img := I, wtrace := W\<rparr>"
    using assms(1) unfolding vframe_def by blast
  show ?thesis using assms(2,3) unfolding bframe_def t by simp
qed

lemma bframe_running: "bframe s t \<Longrightarrow> running p s \<Longrightarrow> running p t"
  by (auto simp: bframe_def intro: running_same)

lemma bget_wp:
  assumes r: "running p s" and inv: "bio_inv s" and n: "n \<noteq> 0"
    and idle: "\<And>b. slot (bufs s) d n = Some b \<Longrightarrow> \<not> sl_locked (slk s (BufLk b))"
    and room: "slot (bufs s) d n \<noteq> None \<or> (\<exists>b<NBUF. refcnt (bufs s b) = 0)"
    and Q: "\<And>h' b x. same_hart (hw s) h' \<Longrightarrow> b < NBUF \<Longrightarrow> \<not> sl_locked (slk s (BufLk b)) \<Longrightarrow>
      (case slot (bufs s) d n of
         Some b' \<Rightarrow> b = b' \<and> x = (bufs s b)\<lparr>refcnt := refcnt (bufs s b) + 1\<rparr>
       | None \<Rightarrow> refcnt (bufs s b) = 0 \<and>
           x = (bufs s b)\<lparr>bdev := d, blockno := n, valid := False, refcnt := 1\<rparr>) \<Longrightarrow>
      Q b (s\<lparr>bufs := (bufs s)(b := x), hw := h',
        slk := (slk s)(BufLk b := (slk s (BufLk b))\<lparr>sl_locked := True, sl_pid := pid (proc s p)\<rparr>)\<rparr>)"
  shows "wp (bget d n) Q s"
proof -
  note q = quietD [OF runningD(1) [OF r]]
  obtain xs where xs: "lru_list (bufs s) xs" "set xs = {..<NBUF}" and uq: "buf_uniq (bufs s)"
    using inv by (auto simp: bio_inv_def lru_list_def)
  let ?h = "enter BcacheLk (hw s)"
  have h1: "same_hart (hw s) (leave BcacheLk ?h)" using q by (intro leave_enter_same) auto
  have fin: "wp (seq (release BcacheLk) (seq (acquiresleep (BufLk b)) (ret b))) Q (s\<lparr>hw := ?h, bufs := (bufs s)(b := x)\<rparr>)"
    if b: "b < NBUF" "\<not> sl_locked (slk s (BufLk b))" "case slot (bufs s) d n of
         Some b' \<Rightarrow> b = b' \<and> x = (bufs s b)\<lparr>refcnt := refcnt (bufs s b) + 1\<rparr>
       | None \<Rightarrow> refcnt (bufs s b) = 0 \<and>
           x = (bufs s b)\<lparr>bdev := d, blockno := n, valid := False, refcnt := 1\<rparr>" for b x
  proof -
    let ?s2 = "s\<lparr>bufs := (bufs s)(b := x), hw := leave BcacheLk ?h\<rparr>"
    obtain h2 where h2: "same_hart (leave BcacheLk ?h) h2" "acquiresleep (BufLk b) ?s2 = Ok () (?s2\<lparr>hw := h2,
        slk := (slk s)(BufLk b := (slk s (BufLk b))\<lparr>sl_locked := True, sl_pid := pid (proc s p)\<rparr>)\<rparr>)"
      using acquiresleep_free [of p ?s2 "BufLk b"] b(2) same_hart_quiet [OF h1] runningD(1) [OF r] by auto
    show ?thesis
      using Q [OF same_hart_trans [OF h1 h2(1)] b] h2(2)
      by (simp add: wp_simps wp_release [OF q(1)] wp_Ok)
  qed
  have f: "find (\<lambda>b. bdev (bufs s b) = d \<and> blockno (bufs s b) = n) xs = slot (bufs s) d n"
    using find_slot [OF uq n xs(2), of d] by (simp add: holds_def [abs_def])
  have scan1: "bget_cached (Suc NBUF) (bnext (bufs s NBUF)) d n (s\<lparr>hw := ?h\<rparr>) = Ok (slot (bufs s) d n) (s\<lparr>hw := ?h\<rparr>)"
    using lru_scans(1) [of "s\<lparr>hw := ?h\<rparr>" xs d n] xs f by (simp del: bget_cached.simps)
  have scan2: "bget_unused (Suc NBUF) (bprev (bufs s NBUF)) (s\<lparr>hw := ?h\<rparr>) =
      Ok (find (\<lambda>b. refcnt (bufs s b) = 0) (rev xs)) (s\<lparr>hw := ?h\<rparr>)"
    using lru_scans(2) [of "s\<lparr>hw := ?h\<rparr>" xs] xs by (simp del: bget_unused.simps)
  show ?thesis
  proof (cases "slot (bufs s) d n")
    case (Some b)
    then show ?thesis
      using fin [of b "(bufs s b)\<lparr>refcnt := refcnt (bufs s b) + 1\<rparr>"] idle [OF Some] slot_SomeD [OF Some]
      by (simp add: bget_def wp_simps wp_acquire q(3) get_buf_def set_buf_def
          wp_Ok [where m = "bget_cached (Suc NBUF) (bnext (bufs s NBUF)) d n", OF scan1] del: bget_cached.simps)
  next
    case None
    obtain b where b: "find (\<lambda>b. refcnt (bufs s b) = 0) (rev xs) = Some b" "b < NBUF" "refcnt (bufs s b) = 0"
    proof -
      have "find (\<lambda>b. refcnt (bufs s b) = 0) (rev xs) \<noteq> None"
        using room None xs(2) by (auto simp: find_None_iff)
      then obtain b where b: "find (\<lambda>b. refcnt (bufs s b) = 0) (rev xs) = Some b" by auto
      from find_SomeD [OF b] have "b \<in> set (rev xs)" "refcnt (bufs s b) = 0" by simp_all
      then show ?thesis using b that xs(2) by auto
    qed
    have "\<not> sl_locked (slk s (BufLk b))" using inv b by (auto simp: bio_inv_def buf_ok_def)
    then show ?thesis
      using fin [of b "(bufs s b)\<lparr>bdev := d, blockno := n, valid := False, refcnt := 1\<rparr>"] b None
      by (simp add: bget_def wp_simps wp_acquire q(3) get_buf_def set_buf_def
          wp_Ok [where m = "bget_cached (Suc NBUF) (bnext (bufs s NBUF)) d n", OF scan1]
          wp_Ok [where m = "bget_unused (Suc NBUF) (bprev (bufs s NBUF))", OF scan2] del: bget_cached.simps bget_unused.simps)
  qed
qed

lemma slot_upd:
  assumes "buf_uniq B" and "buf_uniq (B(b := x))" and "n \<noteq> 0" and "b < NBUF"
  shows "slot (B(b := x)) d n = (if bdev x = d \<and> blockno x = n then Some b
     else if slot B d n = Some b then None else slot B d n)"
proof (cases "bdev x = d \<and> blockno x = n")
  case True
  then show ?thesis using slot_Some [OF assms(2,3,4), of d] by (simp add: holds_def)
next
  case False
  have h: "holds (B(b := x)) d n i \<longleftrightarrow> i \<noteq> b \<and> holds B d n i" for i
    using False by (simp add: holds_def)
  show ?thesis
  proof (cases "slot B d n")
    case None
    then have "slot (B(b := x)) d n = None" using h by (simp add: slot_None)
    then show ?thesis using None False by simp
  next
    case (Some c)
    note c = slot_SomeD [OF Some]
    show ?thesis
    proof (cases "c = b")
      case True
      have "\<not> holds (B(b := x)) d n i" if "i < NBUF" for i
        using h slot_Some [OF assms(1,3) that] Some True by auto
      then have "slot (B(b := x)) d n = None" by (simp add: slot_None)
      then show ?thesis using True Some False by simp
    next
      case c': False
      then have "slot (B(b := x)) d n = Some c" using c h by (intro slot_Some [OF assms(2,3)]) auto
      then show ?thesis using Some False c' by simp
    qed
  qed
qed

lemma buf_uniq_upd:
  assumes "buf_uniq B" and "b < NBUF"
    and "slot B (bdev x) (blockno x) = None \<or> slot B (bdev x) (blockno x) = Some b"
  shows "buf_uniq (B(b := x))"
proof -
  have "\<not> holds B (bdev x) (blockno x) i" if "i < NBUF" "i \<noteq> b" "blockno x \<noteq> 0" for i
    using assms that slot_Some [OF assms(1) that(3,1)] by auto
  then show ?thesis
    using assms(1) unfolding buf_uniq_def holds_def by auto blast
qed

lemma slot_cong: "(\<And>i. i < NBUF \<Longrightarrow> bdev (B i) = bdev (C i) \<and> blockno (B i) = blockno (C i)) \<Longrightarrow> slot B d n = slot C d n"
  unfolding slot_def by (rule find_cong) (auto simp: holds_def)

section \<open>Reading a block\<close>

text \<open>After \<open>bread d n\<close> returned \<open>b\<close>: buffer \<open>b\<close> holds the block, locked by \<open>p\<close>; every other buffer
  and what a reader sees of every block are as before.\<close>

definition took :: "nat \<Rightarrow> uint \<Rightarrow> uint \<Rightarrow> 'z vdisk_scheme \<Rightarrow> nat \<Rightarrow> 'z vdisk_scheme \<Rightarrow> bool" where
  "took p d n s b t \<longleftrightarrow> bframe s t \<and> bio_inv t \<and> img t = img s \<and> wtrace t = wtrace s \<and>
     b < NBUF \<and> bufs t = (bufs s)(b := bufs t b) \<and> holds (bufs t) d n b \<and> valid (bufs t b) \<and>
     (slot (bufs s) d n = Some b \<or> slot (bufs s) d n = None \<and> refcnt (bufs s b) = 0) \<and>
     refcnt (bufs t b) = refs (bufs s) d n + 1 \<and> block 0 (bdata (bufs t b)) = view s d n \<and>
     \<not> sl_locked (slk s (BufLk b)) \<and>
     slk t = (slk s)(BufLk b := (slk s (BufLk b))\<lparr>sl_locked := True, sl_pid := pid (proc s p)\<rparr>)"

lemma took_view:
  assumes "took p d n s b t" and "bio_inv s" and "n \<noteq> 0" and "n' \<noteq> 0"
  shows "view t d' n' = view s d' n'"
proof -
  note t = assms(1) [unfolded took_def]
  let ?x = "bufs t b"
  have x: "bdev ?x = d" "blockno ?x = n" "valid ?x" "img t = img s" "b < NBUF"
    using t assms(2) by (auto simp: holds_def bio_inv_def buf_ok_def refs_def)
  have u: "buf_uniq (bufs s)" "buf_uniq ((bufs s)(b := ?x))" using t assms(2) by (auto simp: bio_inv_def)
  have eq: "bufs t = (bufs s)(b := ?x)" using t by blast
  have sl: "slot (bufs t) d' n' = (if d = d' \<and> n = n' then Some b
     else if slot (bufs s) d' n' = Some b then None else slot (bufs s) d' n')"
    using slot_upd [OF u assms(4), of d'] x eq by simp
  consider "d = d'" "n = n'" | "\<not> (d = d' \<and> n = n')" "slot (bufs s) d' n' = Some b"
    | "\<not> (d = d' \<and> n = n')" "slot (bufs s) d' n' \<noteq> Some b" by blast
  then show ?thesis
  proof cases
    case 1
    then show ?thesis using sl x t by (simp add: view_def)
  next
    case 2
    then have h: "holds (bufs s) d' n' b" using slot_SomeD by blast
    have "refcnt (bufs s b) = 0"
    proof (rule ccontr)
      assume "refcnt (bufs s b) \<noteq> 0"
      then have "holds (bufs s) d n b" using t slot_SomeD by blast
      with h 2 show False by (simp add: holds_def)
    qed
    then have "valid (bufs s b) \<Longrightarrow> block 0 (bdata (bufs s b)) = dblock (img s) d' n'"
      using assms(2) x(5) h by (auto simp: bio_inv_def buf_ok_def holds_def)
    moreover have "slot (bufs t) d' n' = None" using 2 sl by auto
    ultimately show ?thesis using 2(2) x by (simp add: view_def)
  next
    case 3
    then have "bufs t c = bufs s c" if "slot (bufs s) d' n' = Some c" for c
      using fun_cong [OF eq, of c] that 3 by (auto split: if_splits)
    then show ?thesis using 3 sl x by (auto simp: view_def split: option.splits)
  qed
qed

lemma block_blit: "BSIZE \<le> n \<Longrightarrow> block 0 (blit 0 m base n x) = block base m"
  by (auto simp: block_def blit_def)

lemma took_inv:
  assumes inv: "bio_inv s" and n: "n \<noteq> 0" "unat n < 2 ^ 31" and b: "b < NBUF"
    and vq: "\<forall>m. vq_idle (vd t m)" and img: "img t = img s"
    and B: "bufs t = (bufs s)(b := x)" "bdev x = d" "blockno x = n" "valid x" "refcnt x \<noteq> 0"
      "bnext x = bnext (bufs s b)" "bprev x = bprev (bufs s b)"
    and sl: "slot (bufs s) d n = Some b \<or> slot (bufs s) d n = None"
    and K: "\<And>c. c \<noteq> b \<Longrightarrow> slk t (BufLk c) = slk s (BufLk c)"
  shows "bio_inv t"
  unfolding bio_inv_def
proof (intro conjI)
  obtain xs where "lru_list (bufs s) xs" using inv by (auto simp: bio_inv_def)
  then have "lru_list (bufs t) xs" by (rule lru_list_cong) (simp_all add: B)
  then show "\<exists>xs. lru_list (bufs t) xs" ..
  show "buf_uniq (bufs t)"
    unfolding B(1) using inv sl B b by (intro buf_uniq_upd) (auto simp: bio_inv_def)
  show "\<forall>c<NBUF. buf_ok (img t) (sl_locked (slk t (BufLk c))) (bufs t c)"
    using inv B n K img by (auto simp: bio_inv_def buf_ok_def)
qed (rule vq)

lemma bread_wp:
  assumes r: "running p s" and inv: "bio_inv s" and n: "n \<noteq> 0" "unat n < 2 ^ 31"
    and idle: "\<And>b. slot (bufs s) d n = Some b \<Longrightarrow> \<not> sl_locked (slk s (BufLk b))"
    and room: "slot (bufs s) d n \<noteq> None \<or> (\<exists>b<NBUF. refcnt (bufs s b) = 0)"
    and wrap: "refs (bufs s) d n \<noteq> -1"
    and Q: "\<And>b t. took p d n s b t \<Longrightarrow> Q b t"
  shows "wp (bread d n) Q s"
  unfolding bread_def wp_bind
proof (rule bget_wp [OF r inv n(1) idle room])
  fix h' b x
  assume h: "same_hart (hw s) h'" and b: "b < NBUF" "\<not> sl_locked (slk s (BufLk b))"
    and x: "case slot (bufs s) d n of
         Some b' \<Rightarrow> b = b' \<and> x = (bufs s b)\<lparr>refcnt := refcnt (bufs s b) + 1\<rparr>
       | None \<Rightarrow> refcnt (bufs s b) = 0 \<and>
           x = (bufs s b)\<lparr>bdev := d, blockno := n, valid := False, refcnt := 1\<rparr>"
  let ?s1 = "s\<lparr>bufs := (bufs s)(b := x), hw := h',
        slk := (slk s)(BufLk b := (slk s (BufLk b))\<lparr>sl_locked := True, sl_pid := pid (proc s p)\<rparr>)\<rparr>"
  have xf: "bdev x = d" "blockno x = n" "refcnt x = refs (bufs s) d n + 1" "bnext x = bnext (bufs s b)"
    "bprev x = bprev (bufs s b)" "slot (bufs s) d n = Some b \<or> slot (bufs s) d n = None \<and> refcnt (bufs s b) = 0"
    using x slot_SomeD [of "bufs s" d n] by (auto simp: refs_def holds_def split: option.splits)
  have r1: "refcnt x \<noteq> 0" using wrap xf(3) by (metis add.commute add.inverse_unique)
  have vq: "\<And>m. vq_idle (vd s m)" using inv by (simp add: bio_inv_def)
  show "wp (get_buf b) (\<lambda>x. wp (seq (whenM (\<not> valid x)
            (seq (virtio_disk_rw (unat (bdev x)) b False) (set_buf b (\<lambda>x. x\<lparr>valid := True\<rparr>)))) (ret b)) Q) ?s1"
  proof (cases "valid x")
    case True
    have v: "block 0 (bdata x) = view s d n"
      using x True slot_SomeD [of "bufs s" d n] by (auto simp: view_def split: option.splits)
    have "bio_inv ?s1"
      by (rule took_inv [OF inv n b(1), where x = x and d = d]) (use vq xf True r1 in auto)
    then have "took p d n s b ?s1"
      using b xf v True h by (simp add: took_def bframe_def holds_def)
    then show ?thesis using True Q by (simp add: get_buf_def wp_simps)
  next
    case False
    have v: "dblock (img s) d n = view s d n"
      using x False slot_SomeD [of "bufs s" d n] by (auto simp: view_def split: option.splits)
    have r1': "running p ?s1" using r h by (auto intro: running_same)
    have "wp (virtio_disk_rw (unat d) b False) (\<lambda>_. wp (set_buf b (\<lambda>x. x\<lparr>valid := True\<rparr>)) (\<lambda>_. wp (ret b) Q)) ?s1"
    proof (rule virtio_disk_rw_wp [OF r1'])
      fix t assume t: "disk_moved (unat d) b False ?s1 t"
      let ?y = "x\<lparr>bdata := blit 0 (img s (unat d)) (1024 * unat n) 1024 (bdata x), bdisk := False, valid := True\<rparr>"
      let ?u = "t\<lparr>bufs := (bufs s)(b := ?y)\<rparr>"
      have tf: "vframe ?s1 t" "same_hart h' (hw t)" "woken (proc s) (proc t)" "img t = img s" "wtrace t = wtrace s"
        "bufs t = (bufs s)(b := x\<lparr>bdata := blit 0 (img s (unat d)) (1024 * unat n) 1024 (bdata x), bdisk := False\<rparr>)"
        "\<forall>m. vq_idle (vd t m)"
        using t vq xf disk_moved_idle [OF t] by (auto simp: disk_moved_def after_rw_def Let_def)
      have sl: "slk t = slk ?s1" using vframe_slk [OF tf(1)] .
      have "bio_inv ?u"
        by (rule took_inv [OF inv n b(1), where x = ?y and d = d]) (use tf xf r1 sl in auto)
      moreover have "bframe s ?u"
      proof -
        have "bframe s ?s1" using h by (simp add: bframe_def)
        also have "bframe ?s1 t" using tf by (intro vframe_bframe) auto
        also have "bframe t ?u" by (simp add: bframe_def)
        finally show ?thesis .
      qed
      ultimately have "took p d n s b ?u"
        using b xf v tf sl by (simp add: took_def holds_def block_blit BSIZE_def dblock_def)
      then show "wp (set_buf b (\<lambda>x. x\<lparr>valid := True\<rparr>)) (\<lambda>_. wp (ret b) Q) t"
        using Q tf by (simp add: set_buf_def wp_simps)
    qed (use vq xf n in auto)
    then show ?thesis using False xf by (simp add: get_buf_def wp_simps)
  qed
qed

section \<open>Writing, releasing, pinning\<close>

text \<open>\<open>owns p s d n b\<close>: process \<open>p\<close> holds buffer \<open>b\<close>, which caches block \<open>n\<close> of device \<open>d\<close>.\<close>

definition owns :: "nat \<Rightarrow> 'z vdisk_scheme \<Rightarrow> uint \<Rightarrow> uint \<Rightarrow> nat \<Rightarrow> bool" where
  "owns p s d n b \<longleftrightarrow> b < NBUF \<and> holds (bufs s) d n b \<and> valid (bufs s b) \<and>
     sl_locked (slk s (BufLk b)) \<and> sl_pid (slk s (BufLk b)) = pid (proc s p)"

lemma woken_pid: "woken P P' \<Longrightarrow> pid (P' i) = pid (P i)"
  unfolding woken_def by (erule allE [where x = i]) auto

lemma bframe_pid: "bframe s t \<Longrightarrow> pid (proc t i) = pid (proc s i)"
  by (simp add: bframe_def woken_pid)

lemma took_owns: "took p d n s b t \<Longrightarrow> owns p t d n b"
  using bframe_pid [of s t p] by (simp add: took_def owns_def)

lemma took_owns_other:
  assumes "took p d n s b t" and "owns p s d' n' c" and "b \<noteq> c"
  shows "owns p t d' n' c"
proof -
  have "bufs t c = bufs s c" using assms(1,3) by (simp add: took_def) (metis fun_upd_other)
  then show ?thesis
    using assms bframe_pid [of s t p] by (auto simp: took_def owns_def holds_def)
qed

definition blk_write :: "uint \<Rightarrow> uint \<Rightarrow> bytes \<Rightarrow> (nat \<Rightarrow> bytes) \<Rightarrow> nat \<Rightarrow> bytes" where
  "blk_write d n m I = I(unat d := blit (1024 * unat n) m 0 1024 (I (unat d)))"

lemma dblock_write:
  "dblock (blk_write d n m I) d' n' = (if d = d' \<and> n = n' then block 0 m else dblock I d' n')"
proof (cases "d = d'")
  case True
  show ?thesis
  proof (cases "n = n'")
    case False
    then have "unat n \<noteq> unat n'" by (simp add: word_unat_eq_iff)
    then have "\<not> (1024 * unat n \<le> 1024 * unat n' + x \<and> 1024 * unat n' + x < 1024 * unat n + 1024)" if "x < 1024" for x
      using that by linarith
    then show ?thesis using True False
      by (intro ext) (auto simp: dblock_def blk_write_def block_def blit_def BSIZE_def)
  qed (use True in \<open>auto simp: dblock_def blk_write_def block_def blit_def BSIZE_def\<close>)
next
  case False
  then have "unat d \<noteq> unat d'" by (simp add: word_unat_eq_iff)
  then show ?thesis using False by (simp add: dblock_def blk_write_def)
qed

lemma bio_inv_keep:
  assumes "bio_inv s" and "lru_list (bufs t) xs"
    and "\<And>i. bdev (bufs t i) = bdev (bufs s i)" and "\<And>i. blockno (bufs t i) = blockno (bufs s i)"
    and "\<And>m. vq_idle (vd t m)"
    and "\<And>c. c < NBUF \<Longrightarrow> buf_ok (img t) (sl_locked (slk t (BufLk c))) (bufs t c)"
  shows "bio_inv t"
proof -
  have "buf_uniq (bufs t)" using assms(1) unfolding bio_inv_def buf_uniq_def assms(3,4) by blast
  then show ?thesis using assms(2,5,6) by (auto simp: bio_inv_def)
qed

lemma bwrite_wp:
  assumes r: "running p s" and inv: "bio_inv s" and o: "owns p s d n b" and n: "n \<noteq> 0"
    and Q: "\<And>t. bframe s t \<Longrightarrow> bio_inv t \<Longrightarrow> bufs t = (bufs s)(b := (bufs s b)\<lparr>bdisk := False\<rparr>) \<Longrightarrow>
      slk t = slk s \<Longrightarrow> img t = blk_write d n (bdata (bufs s b)) (img s) \<Longrightarrow>
      wtrace t = wtrace s @ [(unat d, 1024 * unat n, bdata (bufs s b))] \<Longrightarrow> Q () t"
  shows "wp (bwrite b) Q s"
proof -
  obtain h where h: "same_hart (hw s) h" "holdingsleep (BufLk b) s = Ok True (s\<lparr>hw := h\<rparr>)"
    using holdingsleep_run [OF runningD(1) [OF r], of "BufLk b"] o by (auto simp: owns_def)
  have b: "b < NBUF" "bdev (bufs s b) = d" "blockno (bufs s b) = n"
    using o by (auto simp: owns_def holds_def)
  let ?s1 = "s\<lparr>hw := h\<rparr>"
  have r1: "running p ?s1" using r h by (auto intro: running_same)
  have vq: "\<And>m. vq_idle (vd s m)" using inv by (simp add: bio_inv_def)
  have blk: "unat n < 2 ^ 31" using inv b by (auto simp: bio_inv_def buf_ok_def)
  have "wp (virtio_disk_rw (unat d) b True) Q ?s1"
  proof (rule virtio_disk_rw_wp [OF r1])
    fix t assume t: "disk_moved (unat d) b True ?s1 t"
    have tf: "vframe ?s1 t" "same_hart h (hw t)" "woken (proc s) (proc t)" "bufs t = (bufs s)(b := (bufs s b)\<lparr>bdisk := False\<rparr>)"
      "img t = blk_write d n (bdata (bufs s b)) (img s)" "wtrace t = wtrace s @ [(unat d, 1024 * unat n, bdata (bufs s b))]"
      using t b by (auto simp: disk_moved_def after_rw_def Let_def blk_write_def)
    have sl: "slk t = slk s" using vframe_slk [OF tf(1)] by simp
    have fr: "bframe s t"
    proof -
      have "bframe s ?s1" using h by (simp add: bframe_def)
      also have "bframe ?s1 t" using tf by (intro vframe_bframe) auto
      finally show ?thesis .
    qed
    obtain xs where "lru_list (bufs s) xs" using inv by (auto simp: bio_inv_def)
    then have lru: "lru_list (bufs t) xs" by (rule lru_list_cong) (simp_all add: tf)
    have "bio_inv t"
    proof (rule bio_inv_keep [OF inv lru])
      fix c assume c: "c < NBUF"
      have uq: "buf_uniq (bufs s)" using inv by (simp add: bio_inv_def)
      have "c = b" if "bdev (bufs s c) = d" "blockno (bufs s c) = n"
        using uq that b c n unfolding buf_uniq_def by metis
      then show "buf_ok (img t) (sl_locked (slk t (BufLk c))) (bufs t c)"
        using inv c o sl unfolding tf
        by (cases "c = b") (auto simp: bio_inv_def buf_ok_def dblock_write owns_def b blk [simplified])
    qed (use tf disk_moved_idle [OF t] vq in auto)
    then show "Q () t" using fr tf sl by (intro Q) auto
  qed (use vq b blk in auto)
  then show ?thesis
    using h b by (simp add: bwrite_def wp_simps wp_Ok get_buf_def)
qed

definition drop_ref :: "nat \<Rightarrow> (nat \<Rightarrow> buf) \<Rightarrow> nat \<Rightarrow> buf" where
  "drop_ref b B = B(b := (B b)\<lparr>refcnt := refcnt (B b) - 1\<rparr>)"

lemma brelse_run:
  assumes r: "running p s" and lru: "lru_list (bufs s) xs" and o: "owns p s d n b"
  shows "\<exists>h P B ys. same_hart (hw s) h \<and> woken (proc s) P \<and> lru_list B ys \<and>
    (\<forall>i. buf_eq (B i) (drop_ref b (bufs s) i)) \<and> brelse b s = Ok () (s\<lparr>proc := P,
      slk := (slk s)(BufLk b := (slk s (BufLk b))\<lparr>sl_locked := False, sl_pid := 0\<rparr>), bufs := B, hw := h\<rparr>)"
proof -
  have b: "b < NBUF" using o by (simp add: owns_def)
  obtain h1 where h1: "same_hart (hw s) h1" "holdingsleep (BufLk b) s = Ok True (s\<lparr>hw := h1\<rparr>)"
    using holdingsleep_run [OF runningD(1) [OF r], of "BufLk b"] o by (auto simp: owns_def)
  let ?s1 = "s\<lparr>hw := h1\<rparr>"
  let ?K = "(slk s)(BufLk b := (slk s (BufLk b))\<lparr>sl_locked := False, sl_pid := 0\<rparr>)"
  let ?P = "wake_upto (ChSleeplk (BufLk b)) NPROC (proc s)"
  have q1: "quiet p h1" using runningD(1) [OF r] same_hart_quiet [OF h1(1)] by simp
  obtain h2 where h2: "same_hart h1 h2" "releasesleep (BufLk b) ?s1 = Ok () (s\<lparr>hw := h2, proc := ?P, slk := ?K\<rparr>)"
    using releasesleep_run [of p ?s1 "BufLk b"] q1 by auto
  have s2: "same_hart (hw s) h2" using h1(1) h2(1) by (rule same_hart_trans)
  have q: "quiet p h2" using runningD(1) [OF r] same_hart_quiet [OF s2] by simp
  let ?h3 = "enter BcacheLk h2"
  let ?s3 = "s\<lparr>proc := ?P, slk := ?K, hw := ?h3, bufs := drop_ref b (bufs s)\<rparr>"
  have lru3: "lru_list (drop_ref b (bufs s)) xs" using lru by (rule lru_list_cong) (simp_all add: drop_ref_def)
  obtain B ys where B: "lru_list B ys" "\<forall>i. buf_eq (B i) (drop_ref b (bufs s) i)"
    "whenM (refcnt (drop_ref b (bufs s) b) = 0) (move_to_front b) ?s3 = Ok () (?s3\<lparr>bufs := B\<rparr>)"
  proof (cases "refcnt (drop_ref b (bufs s) b) = 0")
    case True
    then show ?thesis using move_to_front_run [of ?s3 xs b] lru3 b that by (auto simp: whenM_def)
  next
    case False
    then show ?thesis using lru3 that [of "drop_ref b (bufs s)" xs] by (simp add: whenM_def)
  qed
  have hw4: "same_hart (hw s) (leave BcacheLk ?h3)"
    using s2 leave_enter_same [of h2 BcacheLk] quietD [OF q] by (auto intro: same_hart_trans)
  have "brelse b s = Ok () (s\<lparr>proc := ?P, slk := ?K, bufs := B, hw := leave BcacheLk ?h3\<rparr>)"
    using h1(2) h2(2) B(3) quietD(3) [OF q] release_after [OF quietD(1) [OF q], of BcacheLk "?s3\<lparr>bufs := B\<rparr>"]
    by (simp add: brelse_def acquire_free set_buf_def get_buf_def drop_ref_def)
  then show ?thesis using hw4 B(1,2) woken_wake_upto by blast
qed

lemma brelse_wp:
  assumes r: "running p s" and inv: "bio_inv s" and o: "owns p s d n b"
    and clean: "refcnt (bufs s b) = 1 \<Longrightarrow> block 0 (bdata (bufs s b)) = dblock (img s) d n"
    and Q: "\<And>t. bframe s t \<Longrightarrow> bio_inv t \<Longrightarrow> (\<And>i. buf_eq (bufs t i) (drop_ref b (bufs s) i)) \<Longrightarrow>
      slk t = (slk s)(BufLk b := (slk s (BufLk b))\<lparr>sl_locked := False, sl_pid := 0\<rparr>) \<Longrightarrow>
      img t = img s \<Longrightarrow> wtrace t = wtrace s \<Longrightarrow> Q () t"
  shows "wp (brelse b) Q s"
proof -
  obtain xs where lru: "lru_list (bufs s) xs" using inv by (auto simp: bio_inv_def)
  obtain h P B ys where B: "same_hart (hw s) h" "woken (proc s) P" "lru_list B ys"
    "\<And>i. buf_eq (B i) (drop_ref b (bufs s) i)" "brelse b s = Ok () (s\<lparr>proc := P,
      slk := (slk s)(BufLk b := (slk s (BufLk b))\<lparr>sl_locked := False, sl_pid := 0\<rparr>), bufs := B, hw := h\<rparr>)"
    (is "_ = Ok () ?t") using brelse_run [OF r lru o] by blast
  have b: "b < NBUF" "bdev (bufs s b) = d" "blockno (bufs s b) = n" using o by (auto simp: owns_def holds_def)
  have "bio_inv ?t"
  proof (rule bio_inv_keep [OF inv, where xs = ys])
    fix c assume c: "c < NBUF"
    have ok: "buf_ok (img s) (sl_locked (slk s (BufLk c))) (bufs s c)" using inv c by (simp add: bio_inv_def)
    show "buf_ok (img ?t) (sl_locked (slk ?t (BufLk c))) (bufs ?t c)"
      using ok o clean buf_eqD [OF B(4) [of c]]
      by (cases "c = b") (auto simp: buf_ok_def drop_ref_def owns_def b)
  qed (use inv B(3) buf_eqD [OF B(4)] in \<open>auto simp: bio_inv_def drop_ref_def\<close>)
  moreover have "bframe s ?t" using B by (simp add: bframe_def)
  ultimately show ?thesis using B(4,5) by (auto simp: wp_iff intro!: Q)
qed

lemma view_cong:
  assumes "\<And>i. bdev (bufs t i) = bdev (bufs s i)" and "\<And>i. blockno (bufs t i) = blockno (bufs s i)"
    and "\<And>i. valid (bufs t i) = valid (bufs s i)" and "\<And>i. bdata (bufs t i) = bdata (bufs s i)"
    and "dblock (img t) d n = dblock (img s) d n"
  shows "view t d n = view s d n"
  using slot_cong [of "bufs t" "bufs s" d n] assms by (simp add: view_def split: option.split)

lemma owns_view:
  "owns p s d n b \<Longrightarrow> buf_uniq (bufs s) \<Longrightarrow> n \<noteq> 0 \<Longrightarrow> view s d n = block 0 (bdata (bufs s b))"
  using slot_Some [of "bufs s" n b d] by (simp add: owns_def view_def)

end
