(* ===== verification/Xv6_Bio_View.thy ===== *)
theory Xv6_Bio_View
  imports Xv6_Bio_Proofs
begin

text \<open>
  The buffer cache as its clients see it: references and locks per block of one device, and the
  contents of each block. The rules of this theory are what the log's proofs are made of.
\<close>

text \<open>
  \<open>rest p d f L s\<close>: process \<open>p\<close> runs, the invariant holds, block \<open>n\<close> of device \<open>d\<close> has \<open>f n\<close>
  references and the blocks in \<open>L\<close> are locked; no buffer of another device is in use.
\<close>

definition pins :: "uint \<Rightarrow> (uint \<Rightarrow> uint) \<Rightarrow> uint set \<Rightarrow> 'z vdisk_scheme \<Rightarrow> bool" where
  "pins d f L s \<longleftrightarrow>
     (\<forall>b<NBUF. refcnt (bufs s b) = (if bdev (bufs s b) = d then f (blockno (bufs s b)) else 0) \<and>
        (sl_locked (slk s (BufLk b)) \<longrightarrow> bdev (bufs s b) = d \<and> blockno (bufs s b) \<in> L)) \<and>
     (\<forall>n. f n \<noteq> 0 \<longrightarrow> n \<noteq> 0 \<and> slot (bufs s) d n \<noteq> None)"

definition rest :: "nat \<Rightarrow> uint \<Rightarrow> (uint \<Rightarrow> uint) \<Rightarrow> uint set \<Rightarrow> 'z vdisk_scheme \<Rightarrow> bool" where
  "rest p d f L s \<longleftrightarrow> running p s \<and> bio_inv s \<and> pins d f L s"

lemma restD:
  assumes "rest p d f L s"
  shows "running p s" "bio_inv s" "pins d f L s" "buf_uniq (bufs s)"
  using assms by (auto simp: rest_def bio_inv_def)

lemma pins_room:
  assumes "pins d f L s" and "buf_uniq (bufs s)" and "card {n. f n \<noteq> 0} < NBUF"
  shows "\<exists>b<NBUF. refcnt (bufs s b) = 0"
proof (rule ccontr)
  assume "\<not> ?thesis"
  then have a: "bdev (bufs s b) = d \<and> f (blockno (bufs s b)) \<noteq> 0" if "b < NBUF" for b
    using assms(1) that by (auto simp: pins_def split: if_splits)
  then have nz: "blockno (bufs s b) \<noteq> 0" if "b < NBUF" for b
    using assms(1) that by (auto simp: pins_def)
  have "inj_on (\<lambda>b. blockno (bufs s b)) {..<NBUF}"
    using assms(2) a nz unfolding inj_on_def buf_uniq_def by (metis lessThan_iff)
  then have "card {..<NBUF} \<le> card {n. f n \<noteq> 0}"
    by (rule card_inj_on_le) (use a in auto)
  then show False using assms(3) by simp
qed

lemma pins_slot:
  assumes "pins d f L s" and "slot (bufs s) d n = Some b"
  shows "refcnt (bufs s b) = f n" and "sl_locked (slk s (BufLk b)) \<Longrightarrow> n \<in> L"
proof -
  have b: "b < NBUF" "bdev (bufs s b) = d" "blockno (bufs s b) = n"
    using slot_SomeD [OF assms(2)] by (simp_all add: holds_def)
  show "refcnt (bufs s b) = f n" and "sl_locked (slk s (BufLk b)) \<Longrightarrow> n \<in> L"
    using assms(1) [unfolded pins_def, THEN conjunct1, rule_format, OF b(1)] b by auto
qed

lemma pins_refs:
  assumes "pins d f L s"
  shows "refs (bufs s) d n = f n"
proof (cases "slot (bufs s) d n")
  case None
  then have "f n = 0" using assms by (auto simp: pins_def)
  then show ?thesis using None by (simp add: refs_def)
next
  case (Some b)
  then show ?thesis using pins_slot [OF assms Some] by (simp add: refs_def)
qed

text \<open>A change of one buffer \<open>b\<close>, which holds block \<open>n\<close> afterwards.\<close>

lemma pins_upd:
  assumes "pins d f L s" and u: "buf_uniq (bufs s)" "buf_uniq (bufs t)" and b: "b < NBUF"
    and B: "\<And>c. c \<noteq> b \<Longrightarrow> buf_eq (bufs t c) (bufs s c)" and h: "holds (bufs t) d n b" and n: "n \<noteq> 0"
    and old: "slot (bufs s) d n = Some b \<or> slot (bufs s) d n = None \<and> refcnt (bufs s b) = 0"
    and r: "refcnt (bufs t b) = k"
    and K: "\<And>c. c \<noteq> b \<Longrightarrow> slk t (BufLk c) = slk s (BufLk c)"
    and L: "\<And>m. m \<noteq> n \<Longrightarrow> m \<in> L \<Longrightarrow> m \<in> L'" "sl_locked (slk t (BufLk b)) \<Longrightarrow> n \<in> L'"
  shows "pins d (f(n := k)) L' t"
  unfolding pins_def
proof (intro conjI allI impI)
  fix c assume c: "c < NBUF"
  have s: "refcnt (bufs s c) = (if bdev (bufs s c) = d then f (blockno (bufs s c)) else 0)"
    "sl_locked (slk s (BufLk c)) \<Longrightarrow> bdev (bufs s c) = d \<and> blockno (bufs s c) \<in> L"
    using assms(1) c by (auto simp: pins_def)
  have ne: "\<not> (bdev (bufs t c) = d \<and> blockno (bufs t c) = n)" if "c \<noteq> b"
    using slot_Some [OF u(2) n c, of d] slot_Some [OF u(2) n b h] that by (auto simp: holds_def)
  show "refcnt (bufs t c) = (if bdev (bufs t c) = d then (f(n := k)) (blockno (bufs t c)) else 0)"
  proof (cases "c = b")
    case True
    then show ?thesis using h r by (simp add: holds_def)
  next
    case False
    then show ?thesis using ne s(1) buf_eqD [OF B [OF False]] by auto
  qed
  assume l: "sl_locked (slk t (BufLk c))"
  show "bdev (bufs t c) = d" and "blockno (bufs t c) \<in> L'"
  proof -
    show "bdev (bufs t c) = d"
      using l s(2) h K [of c] buf_eqD [OF B [of c]] by (cases "c = b") (auto simp: holds_def)
    show "blockno (bufs t c) \<in> L'"
      using l s(2) h K [of c] buf_eqD [OF B [of c]] L ne by (cases "c = b") (auto simp: holds_def)
  qed
next
  fix m assume m: "(f(n := k)) m \<noteq> 0"
  show "m \<noteq> 0" using m n assms(1) by (auto simp: pins_def split: if_splits)
  show "slot (bufs t) d m \<noteq> None"
  proof (cases "m = n")
    case True
    then show ?thesis using slot_Some [OF u(2) n b h] by simp
  next
    case False
    then have fm: "f m \<noteq> 0" "m \<noteq> 0" using m assms(1) by (auto simp: pins_def)
    then obtain c where c: "slot (bufs s) d m = Some c" using assms(1) by (auto simp: pins_def)
    have "c \<noteq> b" using pins_slot(1) [OF assms(1) c] old fm slot_SomeD [OF c] slot_SomeD [of "bufs s" d n b] False
      by (auto simp: holds_def)
    then have "holds (bufs t) d m c" "c < NBUF"
      using slot_SomeD [OF c] buf_eqD [OF B [of c]] by (auto simp: holds_def)
    then show ?thesis by (auto simp: slot_None)
  qed
qed

lemma rest_bread:
  assumes r: "rest p d f L s" and n: "n \<noteq> 0" "unat n < 2 ^ 31" "n \<notin> L" "f n \<noteq> -1"
    and room: "f n \<noteq> 0 \<or> card {n. f n \<noteq> 0} < NBUF"
    and Q: "\<And>b t. rest p d (f(n := f n + 1)) (insert n L) t \<Longrightarrow> owns p t d n b \<Longrightarrow> bframe s t \<Longrightarrow>
      img t = img s \<Longrightarrow> wtrace t = wtrace s \<Longrightarrow> (\<And>d' n'. n' \<noteq> 0 \<Longrightarrow> view t d' n' = view s d' n') \<Longrightarrow>
      (\<And>n' c. owns p s d n' c \<Longrightarrow> owns p t d n' c) \<Longrightarrow> Q b t"
  shows "wp (bread d n) Q s"
proof -
  note r' = restD [OF r]
  have refs: "refs (bufs s) d n = f n"
    by (rule pins_refs [OF r'(3)])
  show ?thesis
  proof (rule bread_wp [OF r'(1,2) n(1,2)])
    fix b assume "slot (bufs s) d n = Some b"
    then show "\<not> sl_locked (slk s (BufLk b))"
      using pins_slot [OF r'(3)] n(3) by blast
  next
    show "slot (bufs s) d n \<noteq> None \<or> (\<exists>b<NBUF. refcnt (bufs s b) = 0)"
      using room r'(3) pins_room [OF r'(3,4)] by (auto simp: pins_def)
  next
    show "refs (bufs s) d n \<noteq> - 1" using refs n(4) by simp
  next
    fix b t assume t: "took p d n s b t"
    then have tf: "bframe s t" "bio_inv t" "img t = img s" "wtrace t = wtrace s" "b < NBUF"
      "bufs t = (bufs s)(b := bufs t b)" "holds (bufs t) d n b" "refcnt (bufs t b) = f n + 1"
      "slk t = (slk s)(BufLk b := (slk s (BufLk b))\<lparr>sl_locked := True, sl_pid := pid (proc s p)\<rparr>)"
      "slot (bufs s) d n = Some b \<or> slot (bufs s) d n = None \<and> refcnt (bufs s b) = 0" "\<not> sl_locked (slk s (BufLk b))"
      using refs by (auto simp: took_def)
    have other: "bufs t c = bufs s c" if "c \<noteq> b" for c using fun_cong [OF tf(6), of c] that by simp
    have pins: "pins d (f(n := f n + 1)) (insert n L) t"
      by (rule pins_upd [OF r'(3,4) _ tf(5) _ tf(7) n(1) tf(10,8)])
        (use tf(2,9) other in \<open>auto simp: bio_inv_def\<close>)
    have ow: "owns p t d n' c" if "owns p s d n' c" for n' c
      using took_owns_other [OF t that] that tf(11) by (auto simp: owns_def)
    show "Q b t"
      using pins tf bframe_running [OF tf(1) r'(1)] took_owns [OF t] took_view [OF t r'(2) n(1)] ow
      by (intro Q) (auto simp: rest_def)
  qed
qed

lemma rest_owns_slot: "rest p d f L s \<Longrightarrow> owns p s d n b \<Longrightarrow> n \<noteq> 0 \<Longrightarrow> slot (bufs s) d n = Some b"
  by (rule slot_Some [OF restD(4)]) (simp_all add: owns_def)

lemma rest_owns:
  assumes "rest p d f L s" and "owns p s d n b" and "n \<noteq> 0"
  shows "f n \<noteq> 0" and "n \<in> L" and "refcnt (bufs s b) = f n" and "view s d n = block 0 (bdata (bufs s b))"
proof -
  note r = restD [OF assms(1)]
  note sl = rest_owns_slot [OF assms]
  show "refcnt (bufs s b) = f n" using pins_slot(1) [OF r(3) sl] .
  moreover have "refcnt (bufs s b) \<noteq> 0"
    using r(2) assms(2) by (auto simp: bio_inv_def buf_ok_def owns_def)
  ultimately show "f n \<noteq> 0" by simp
  show "n \<in> L" using pins_slot(2) [OF r(3) sl] assms(2) by (simp add: owns_def)
  show "view s d n = block 0 (bdata (bufs s b))" using owns_view [OF assms(2) r(4) assms(3)] .
qed

lemma owns_same_bufs:
  assumes "owns p s d n b" and "bframe s t" and "slk t (BufLk b) = slk s (BufLk b)"
    and "bdev (bufs t b) = bdev (bufs s b)" and "blockno (bufs t b) = blockno (bufs s b)"
    and "valid (bufs t b) = valid (bufs s b)"
  shows "owns p t d n b"
  using assms bframe_pid [OF assms(2), of p] by (simp add: owns_def holds_def)

lemma pins_cong:
  assumes "pins d f L s" and "slk t = slk s" and "\<And>i. bdev (bufs t i) = bdev (bufs s i)"
    and "\<And>i. blockno (bufs t i) = blockno (bufs s i)" and "\<And>i. refcnt (bufs t i) = refcnt (bufs s i)"
  shows "pins d f L t"
  using assms(1) slot_cong [of "bufs t" "bufs s" d] unfolding pins_def assms(2-5) by simp

text \<open>Writing an owned buffer back.\<close>

lemma rest_bwrite:
  assumes r: "rest p d f L s" and o: "owns p s d n b" and n: "n \<noteq> 0"
    and Q: "\<And>t m. rest p d f L t \<Longrightarrow> bframe s t \<Longrightarrow> block 0 m = view s d n \<Longrightarrow>
      img t = blk_write d n m (img s) \<Longrightarrow> wtrace t = wtrace s @ [(unat d, 1024 * unat n, m)] \<Longrightarrow>
      (\<And>d' n'. view t d' n' = view s d' n') \<Longrightarrow> (\<And>n' c. owns p s d n' c \<Longrightarrow> owns p t d n' c) \<Longrightarrow> Q () t"
  shows "wp (bwrite b) Q s"
proof (rule bwrite_wp [OF restD(1,2) [OF r] o n])
  fix t
  assume t: "bframe s t" "bio_inv t" "bufs t = (bufs s)(b := (bufs s b)\<lparr>bdisk := False\<rparr>)" "slk t = slk s"
    "img t = blk_write d n (bdata (bufs s b)) (img s)"
    "wtrace t = wtrace s @ [(unat d, 1024 * unat n, bdata (bufs s b))]"
  have v: "view t d' n' = view s d' n'" for d' n'
  proof (cases "d' = d \<and> n' = n")
    case True
    have "owns p t d n b" using o t by (intro owns_same_bufs [OF o]) auto
    then show ?thesis
      using True owns_view [of p t d n b] owns_view [OF o restD(4) [OF r] n] t(2,3) n by (simp add: bio_inv_def)
  next
    case False
    then show ?thesis by (intro view_cong) (auto simp: t dblock_write)
  qed
  have "pins d f L t" using t by (intro pins_cong [OF restD(3) [OF r]]) auto
  then have "rest p d f L t" using t bframe_running [OF t(1) restD(1) [OF r]] by (simp add: rest_def)
  then show "Q () t"
    using t v rest_owns(4) [OF r o n] owns_same_bufs [OF _ t(1)]
    by (intro Q [where m = "bdata (bufs s b)"]) auto
qed

text \<open>Storing into an owned buffer.\<close>

lemma rest_set_data:
  assumes r: "rest p d f L s" and o: "owns p s d n b" and n: "n \<noteq> 0"
    and Q: "\<And>t. rest p d f L t \<Longrightarrow> bframe s t \<Longrightarrow> img t = img s \<Longrightarrow> wtrace t = wtrace s \<Longrightarrow>
      bdata (bufs t b) = g (bdata (bufs s b)) \<Longrightarrow> (\<And>c. c \<noteq> b \<Longrightarrow> bufs t c = bufs s c) \<Longrightarrow>
      view t d n = block 0 (g (bdata (bufs s b))) \<Longrightarrow>
      (\<And>d' n'. (d', n') \<noteq> (d, n) \<Longrightarrow> view t d' n' = view s d' n') \<Longrightarrow>
      (\<And>n' c. owns p s d n' c \<Longrightarrow> owns p t d n' c) \<Longrightarrow> Q () t"
  shows "wp (set_data b g) Q s"
proof -
  let ?t = "s\<lparr>bufs := (bufs s)(b := (bufs s b)\<lparr>bdata := g (bdata (bufs s b))\<rparr>)\<rparr>"
  note r' = restD [OF r]
  have fr: "bframe s ?t" by (simp add: bframe_def)
  have ow: "owns p ?t d n' c" if "owns p s d n' c" for n' c
    by (rule owns_same_bufs [OF that fr]) auto
  obtain xs where "lru_list (bufs s) xs" using r'(2) by (auto simp: bio_inv_def)
  then have lru: "lru_list (bufs ?t) xs" by (rule lru_list_cong) auto
  have inv: "bio_inv ?t"
  proof (rule bio_inv_keep [OF r'(2) lru])
    fix c assume "c < NBUF"
    then have "buf_ok (img s) (sl_locked (slk s (BufLk c))) (bufs s c)" using r'(2) by (simp add: bio_inv_def)
    then show "buf_ok (img ?t) (sl_locked (slk ?t (BufLk c))) (bufs ?t c)"
      using o by (cases "c = b") (auto simp: buf_ok_def owns_def)
  qed (use r'(2) in \<open>auto simp: bio_inv_def\<close>)
  have v: "view ?t d' n' = view s d' n'" if "(d', n') \<noteq> (d, n)" for d' n'
  proof -
    have sl: "slot (bufs ?t) d' n' = slot (bufs s) d' n'" by (rule slot_cong) auto
    have "c \<noteq> b" if "slot (bufs s) d' n' = Some c" for c
      using slot_SomeD [OF that] o \<open>(d', n') \<noteq> (d, n)\<close> by (auto simp: owns_def holds_def)
    then show ?thesis unfolding view_def sl by (auto split: option.split)
  qed
  have "pins d f L ?t" by (rule pins_cong [OF r'(3)]) auto
  then have "rest p d f L ?t" using inv bframe_running [OF fr r'(1)] by (simp add: rest_def)
  moreover have "view ?t d n = block 0 (g (bdata (bufs s b)))"
    using owns_view [OF ow [OF o] _ n] inv by (simp add: bio_inv_def)
  ultimately have "Q () ?t" using fr v ow by (intro Q) auto
  then show ?thesis by (simp add: set_data_def set_buf_def wp_simps)
qed

text \<open>Giving up an owned buffer; the last reference only when it is clean.\<close>

lemma rest_brelse:
  assumes r: "rest p d f L s" and o: "owns p s d n b" and n: "n \<noteq> 0"
    and clean: "f n = 1 \<Longrightarrow> view s d n = dblock (img s) d n"
    and Q: "\<And>t. rest p d (f(n := f n - 1)) (L - {n}) t \<Longrightarrow> bframe s t \<Longrightarrow> img t = img s \<Longrightarrow>
      wtrace t = wtrace s \<Longrightarrow> (\<And>d' n'. view t d' n' = view s d' n') \<Longrightarrow>
      (\<And>n' c. owns p s d n' c \<Longrightarrow> n' \<noteq> n \<Longrightarrow> owns p t d n' c) \<Longrightarrow> Q () t"
  shows "wp (brelse b) Q s"
proof (rule brelse_wp [OF restD(1,2) [OF r] o])
  note ro = rest_owns [OF r o n]
  show "block 0 (bdata (bufs s b)) = dblock (img s) d n" if "refcnt (bufs s b) = 1"
    using clean that ro by simp
  fix t
  assume t: "bframe s t" "bio_inv t" and B: "\<And>i. buf_eq (bufs t i) (drop_ref b (bufs s) i)"
    and K: "slk t = (slk s)(BufLk b := (slk s (BufLk b))\<lparr>sl_locked := False, sl_pid := 0\<rparr>)"
    and i: "img t = img s" "wtrace t = wtrace s"
  have eq: "bdev (bufs t i) = bdev (bufs s i)" "blockno (bufs t i) = blockno (bufs s i)"
    "valid (bufs t i) = valid (bufs s i)" "bdata (bufs t i) = bdata (bufs s i)" for i
    using buf_eqD [OF B [of i]] by (simp_all add: drop_ref_def split: if_splits)
  have b: "b < NBUF" "holds (bufs t) d n b" using o eq by (simp_all add: owns_def holds_def)
  have oth: "buf_eq (bufs t c) (bufs s c)" if "c \<noteq> b" for c using B [of c] that by (simp add: drop_ref_def)
  have rc: "refcnt (bufs t b) = f n - 1" using buf_eqD(4) [OF B [of b]] ro(3) by (simp add: drop_ref_def)
  have u: "buf_uniq (bufs t)" using t(2) by (simp add: bio_inv_def)
  have "pins d (f(n := f n - 1)) (L - {n}) t"
    by (rule pins_upd [OF restD(3,4) [OF r] u b(1) oth b(2) n _ rc])
      (use rest_owns_slot [OF r o n] K in auto)
  then have "rest p d (f(n := f n - 1)) (L - {n}) t"
    using t bframe_running [OF t(1) restD(1) [OF r]] by (simp add: rest_def)
  moreover have "view t d' n' = view s d' n'" for d' n'
    by (rule view_cong) (use eq i in auto)
  moreover have "owns p t d n' c" if c: "owns p s d n' c" "n' \<noteq> n" for n' c
    by (rule owns_same_bufs [OF c(1) t(1)]) (use c o K eq in \<open>auto simp: owns_def holds_def\<close>)
  ultimately show "Q () t" using t i by (intro Q) auto
qed

text \<open>
  The end of \<^verbatim>\<open>install_trans\<close>'s loop body. In between the home block may have no reference left while
  it is still locked; the rule is therefore about the three calls together.
\<close>

lemma bunpin_run:
  assumes "running p s"
  shows "\<exists>h. same_hart (hw s) h \<and> bunpin b s = Ok () (s\<lparr>bufs := drop_ref b (bufs s), hw := h\<rparr>)"
proof -
  note q = quietD [OF runningD(1) [OF assms]]
  let ?h = "enter BcacheLk (hw s)"
  have "same_hart (hw s) (leave BcacheLk ?h)" using q by (intro leave_enter_same) auto
  moreover have "bunpin b s = Ok () (s\<lparr>bufs := drop_ref b (bufs s), hw := leave BcacheLk ?h\<rparr>)"
    using release_after [OF q(1), of BcacheLk "s\<lparr>hw := ?h, bufs := drop_ref b (bufs s)\<rparr>"]
    by (simp add: bunpin_def acquire_free q(3) set_buf_def drop_ref_def)
  ultimately show ?thesis by blast
qed

lemma pins_drop:
  assumes p: "pins d f L s" and u: "buf_uniq (bufs s)" and h: "b < NBUF" "holds (bufs s) d n b" and n: "n \<noteq> 0"
    and B: "\<And>i. buf_eq (bufs t i) (drop_ref b (bufs s) i)"
    and K: "\<And>c. c \<noteq> b \<Longrightarrow> slk t (BufLk c) = slk s (BufLk c)" "sl_locked (slk t (BufLk b)) \<Longrightarrow> n \<in> L'" "L - {n} \<subseteq> L'"
  shows "pins d (f(n := f n - 1)) L' t" and "buf_uniq (bufs t)"
proof -
  have eq: "bdev (bufs t i) = bdev (bufs s i)" "blockno (bufs t i) = blockno (bufs s i)" for i
    using buf_eqD [OF B [of i]] by (simp_all add: drop_ref_def split: if_splits)
  show u': "buf_uniq (bufs t)" using u unfolding buf_uniq_def eq by blast
  have oth: "buf_eq (bufs t c) (bufs s c)" if "c \<noteq> b" for c using B [of c] that by (simp add: drop_ref_def)
  have sl: "slot (bufs s) d n = Some b" using u n h by (rule slot_Some)
  have rc: "refcnt (bufs t b) = f n - 1"
    using buf_eqD(4) [OF B [of b]] pins_slot(1) [OF p sl] by (simp add: drop_ref_def)
  have h': "holds (bufs t) d n b" using h(2) eq by (simp add: holds_def)
  show "pins d (f(n := f n - 1)) L' t"
    by (rule pins_upd [OF p u u' h(1) oth h' n _ rc]) (use sl K in auto)
qed

lemma buf_eq_trans: "buf_eq x y \<Longrightarrow> buf_eq y z \<Longrightarrow> buf_eq x z"
  by (simp add: buf_eq_def)

lemma drop_ref_eq: "(\<And>i. buf_eq (B i) (C i)) \<Longrightarrow> buf_eq (drop_ref b B i) (drop_ref b C i)"
  unfolding drop_ref_def buf_eq_def by simp

lemma unpin_release_run:
  assumes r: "rest p d f L s" and o: "owns p s d l lb" "owns p s d n db" and n: "l \<noteq> n"
  shows "\<exists>t. seq (bunpin db) (seq (brelse lb) (brelse db)) s = Ok () t \<and> bframe s t \<and> img t = img s \<and>
    wtrace t = wtrace s \<and> vd t = vd s \<and> (\<exists>xs. lru_list (bufs t) xs) \<and>
    (\<forall>i. buf_eq (bufs t i) (drop_ref db (drop_ref lb (drop_ref db (bufs s))) i)) \<and>
    \<not> sl_locked (slk t (BufLk lb)) \<and> \<not> sl_locked (slk t (BufLk db)) \<and>
    (\<forall>c. c \<noteq> lb \<longrightarrow> c \<noteq> db \<longrightarrow> slk t (BufLk c) = slk s (BufLk c))"
proof -
  note r' = restD [OF r]
  obtain h1 where h1: "same_hart (hw s) h1" "bunpin db s = Ok () (s\<lparr>bufs := drop_ref db (bufs s), hw := h1\<rparr>)"
    (is "_ = Ok () ?s1") using bunpin_run [OF r'(1), of db] by blast
  obtain xs where "lru_list (bufs s) xs" using r'(2) by (auto simp: bio_inv_def)
  then have lru1: "lru_list (bufs ?s1) xs" by (rule lru_list_cong) (simp_all add: drop_ref_def)
  have f1: "bframe s ?s1" using h1(1) by (simp add: bframe_def)
  have r1: "running p ?s1" using f1 r'(1) by (rule bframe_running)
  have o1: "owns p ?s1 d l lb" "owns p ?s1 d n db"
    by (rule owns_same_bufs [OF o(1) f1] owns_same_bufs [OF o(2) f1]; simp add: drop_ref_def)+
  have b: "lb < NBUF" "db < NBUF" "holds (bufs s) d l lb" "holds (bufs s) d n db" "lb \<noteq> db"
    using o n by (auto simp: owns_def holds_def)
  obtain h2 P2 B2 ys where s2: "same_hart h1 h2" "woken (proc s) P2" "lru_list B2 ys"
    "\<And>i. buf_eq (B2 i) (drop_ref lb (bufs ?s1) i)" "brelse lb ?s1 = Ok () (?s1\<lparr>proc := P2,
      slk := (slk s)(BufLk lb := (slk s (BufLk lb))\<lparr>sl_locked := False, sl_pid := 0\<rparr>), bufs := B2, hw := h2\<rparr>)"
    (is "_ = Ok () ?s2") using brelse_run [OF r1 lru1 o1(1)] by auto
  have f2: "bframe s ?s2" using s2 h1 by (simp add: bframe_def same_hart_trans)
  have r2: "running p ?s2" using f2 r'(1) by (rule bframe_running)
  have lru2: "lru_list (bufs ?s2) ys" using s2(3) by simp
  have o2: "owns p ?s2 d n db"
    by (rule owns_same_bufs [OF o(2) f2]; use buf_eqD [OF s2(4) [of db]] b in \<open>simp add: drop_ref_def\<close>)
  obtain h3 P3 B3 zs where s3: "same_hart h2 h3" "woken P2 P3" "lru_list B3 zs"
    "\<And>i. buf_eq (B3 i) (drop_ref db (bufs ?s2) i)" "brelse db ?s2 = Ok () (?s2\<lparr>proc := P3,
      slk := (slk ?s2)(BufLk db := (slk ?s2 (BufLk db))\<lparr>sl_locked := False, sl_pid := 0\<rparr>), bufs := B3, hw := h3\<rparr>)"
    (is "_ = Ok () ?s3") using brelse_run [OF r2 lru2 o2] by auto
  have "bframe s ?s3" using s2 s3 h1 by (auto simp: bframe_def intro: same_hart_trans woken_trans)
  moreover have "buf_eq (B3 i) (drop_ref db (drop_ref lb (drop_ref db (bufs s))) i)" for i
    using buf_eq_trans [OF s3(4) drop_ref_eq] s2(4) by simp
  ultimately show ?thesis using h1(2) s2(5) s3(3,5) by auto
qed

lemma rest_unpin_release:
  assumes r: "rest p d f L s" and o: "owns p s d l lb" "owns p s d n db" and n: "l \<noteq> 0" "n \<noteq> 0" "l \<noteq> n"
    and clean: "f l = 1 \<Longrightarrow> view s d l = dblock (img s) d l" "f n = 2 \<Longrightarrow> view s d n = dblock (img s) d n"
    and Q: "\<And>t. rest p d (f(n := f n - 2, l := f l - 1)) (L - {l, n}) t \<Longrightarrow> bframe s t \<Longrightarrow> img t = img s \<Longrightarrow>
      wtrace t = wtrace s \<Longrightarrow> (\<And>d' n'. view t d' n' = view s d' n') \<Longrightarrow> Q () t"
  shows "wp (seq (bunpin db) (seq (brelse lb) (brelse db))) Q s"
proof -
  note r' = restD [OF r] and ro = rest_owns [OF r o(2) n(2)]
  let ?B1 = "drop_ref db (bufs s)" let ?B2 = "drop_ref lb ?B1" let ?B3 = "drop_ref db ?B2"
  obtain t xs where run: "seq (bunpin db) (seq (brelse lb) (brelse db)) s = Ok () t" and fr: "bframe s t"
    and i: "img t = img s" "wtrace t = wtrace s" "vd t = vd s" and lru: "lru_list (bufs t) xs"
    and B: "\<And>i. buf_eq (bufs t i) (?B3 i)"
    and K: "\<not> sl_locked (slk t (BufLk lb))" "\<not> sl_locked (slk t (BufLk db))"
      "\<And>c. c \<noteq> lb \<Longrightarrow> c \<noteq> db \<Longrightarrow> slk t (BufLk c) = slk s (BufLk c)"
    using unpin_release_run [OF r o n(3)] by blast
  have b: "lb < NBUF" "db < NBUF" "holds (bufs s) d l lb" "holds (bufs s) d n db" "lb \<noteq> db"
    using o n by (auto simp: owns_def holds_def)
  have hd: "holds (drop_ref c B) d m e = holds B d m e" for c B m e by (simp add: holds_def drop_ref_def)
  define u1 where "u1 = s\<lparr>bufs := ?B1\<rparr>"
  define u2 where "u2 = s\<lparr>bufs := ?B2, slk := (slk s)(BufLk lb := slk t (BufLk lb))\<rparr>"
  note p1 = pins_drop [OF r'(3,4) b(2,4) n(2), where t = u1 and L' = L]
  have 1: "pins d (f(n := f n - 1)) L u1" "buf_uniq (bufs u1)"
    by (rule p1; use ro(2) in \<open>auto simp: u1_def\<close>)+
  have h1: "holds (bufs u1) d l lb" "holds (bufs u2) d n db" using b by (simp_all add: u1_def u2_def hd)
  note p2 = pins_drop [OF 1 b(1) h1(1) n(1), where t = u2 and L' = "L - {l}"]
  have 2: "pins d (f(n := f n - 1, l := (f(n := f n - 1)) l - 1)) (L - {l}) u2" "buf_uniq (bufs u2)"
    by (rule p2; use K(1) in \<open>auto simp: u1_def u2_def\<close>)+
  note p3 = pins_drop [OF 2 b(2) h1(2) n(2), where t = t and L' = "L - {l, n}"]
  have K3: "slk t (BufLk c) = slk u2 (BufLk c)" if "c \<noteq> db" for c
    using K(3) [of c] that by (simp add: u2_def)
  have 3: "pins d (f(n := f n - 1, l := (f(n := f n - 1)) l - 1,
      n := (f(n := f n - 1, l := (f(n := f n - 1)) l - 1)) n - 1)) (L - {l, n}) t"
    by (rule p3; use B K(2) K3 in \<open>auto simp: u2_def\<close>)
  have eq: "bdev (bufs t i) = bdev (bufs s i)" "blockno (bufs t i) = blockno (bufs s i)"
    "valid (bufs t i) = valid (bufs s i)" "bdata (bufs t i) = bdata (bufs s i)" for i
    using buf_eqD [OF B [of i]] by (simp_all add: drop_ref_def split: if_splits)
  have inv: "bio_inv t"
  proof (rule bio_inv_keep [OF r'(2) lru])
    fix c assume c: "c < NBUF"
    have ok: "buf_ok (img s) (sl_locked (slk s (BufLk c))) (bufs s c)" using r'(2) c by (simp add: bio_inv_def)
    note ol = rest_owns [OF r o(1) n(1)]
    consider "c = lb" | "c = db" | "c \<noteq> lb" "c \<noteq> db" by blast
    then show "buf_ok (img t) (sl_locked (slk t (BufLk c))) (bufs t c)"
    proof cases
      case 1
      then have "refcnt (bufs t c) = f l - 1" "bdev (bufs t c) = d" "blockno (bufs t c) = l"
        using buf_eqD(4) [OF B [of c]] b(3,5) eq ol(3) by (simp_all add: drop_ref_def holds_def)
      then show ?thesis using 1 ok K(1) clean(1) ol(4) eq o(1) i by (auto simp: buf_ok_def owns_def holds_def)
    next
      case 2
      then have "refcnt (bufs t c) = f n - 2" "bdev (bufs t c) = d" "blockno (bufs t c) = n"
        using buf_eqD(4) [OF B [of c]] b(4,5) eq ro(3) by (simp_all add: drop_ref_def holds_def)
      then show ?thesis using 2 ok K(2) clean(2) ro(4) eq o(2) i by (auto simp: buf_ok_def owns_def holds_def)
    next
      case 3
      then show ?thesis using ok K(3) buf_eqD [OF B [of c]] i by (simp add: buf_ok_def drop_ref_def)
    qed
  qed (use r'(2) eq i in \<open>auto simp: bio_inv_def\<close>)
  have "rest p d (f(n := f n - 2, l := f l - 1)) (L - {l, n}) t"
    using 3 inv bframe_running [OF fr r'(1)] n(3) by (simp add: rest_def fun_upd_twist [of n l])
  moreover have "view t d' n' = view s d' n'" for d' n'
    by (rule view_cong) (use eq i in auto)
  ultimately show ?thesis using run fr i by (auto simp: wp_iff intro!: Q)
qed

section \<open>Initialisation\<close>

text \<open>The part of \<open>bio_inv\<close> that \<^verbatim>\<open>binit()\<close> establishes; the queues are the disk driver's.\<close>

definition cache_ok :: "'z vdisk_scheme \<Rightarrow> bool" where
  "cache_ok s \<longleftrightarrow> (\<exists>xs. lru_list (bufs s) xs) \<and> buf_uniq (bufs s) \<and>
     (\<forall>b<NBUF. buf_ok (img s) (sl_locked (slk s (BufLk b))) (bufs s b))"

lemma bio_inv_cache: "bio_inv s \<longleftrightarrow> cache_ok s \<and> (\<forall>n. vq_idle (vd s n))"
  by (auto simp: bio_inv_def cache_ok_def)

text \<open>The first \<open>j\<close> buffers are linked.\<close>

definition linked :: "nat \<Rightarrow> 'z vdisk_scheme \<Rightarrow> 'z vdisk_scheme \<Rightarrow> bool" where
  "linked j s t \<longleftrightarrow> dlist (\<lambda>i. bnext (bufs t i)) (\<lambda>i. bprev (bufs t i)) NBUF (rev [0..<j]) \<and>
     (\<forall>i. buf_eq (bufs t i) (bufs s i)) \<and> (\<forall>i<j. \<not> sl_locked (slk t (BufLk i))) \<and> img t = img s \<and> vd t = vd s \<and>
     length (lktab (hw t)) = Suc (length (lktab (hw s)) + j)"

lemma binit_one_wp:
  assumes s: "linked j s0 s" and j: "j < NBUF" and l: "length (lktab (hw s0)) + 31 \<le> NLOCK"
  shows "wp (binit_one j) (\<lambda>_. linked (Suc j) s0) s"
proof -
  let ?B = "bufs s"
  define B1 where "B1 = ?B(j := (?B j)\<lparr>bnext := bnext (?B NBUF)\<rparr>)"
  define B2 where "B2 = B1(j := (B1 j)\<lparr>bprev := NBUF\<rparr>)"
  define B3 where "B3 = B2(bnext (?B NBUF) := (B2 (bnext (?B NBUF)))\<lparr>bprev := j\<rparr>)"
  define B4 where "B4 = B3(NBUF := (B3 NBUF)\<lparr>bnext := j\<rparr>)"
  have d: "dlist (\<lambda>i. bnext (?B i)) (\<lambda>i. bprev (?B i)) NBUF (rev [0..<j])"
    and eq: "\<And>i. buf_eq (?B i) (bufs s0 i)" and sl: "\<And>i. i < j \<Longrightarrow> \<not> sl_locked (slk s (BufLk i))"
    and len: "length (lktab (hw s)) = Suc (length (lktab (hw s0)) + j)"
    using s by (auto simp: linked_def)
  have jn: "j \<notin> set (NBUF # rev [0..<j])" using j by auto
  have "dlist (\<lambda>i. bnext (B4 i)) (\<lambda>i. bprev (B4 i)) NBUF (j # rev [0..<j])"
    by (rule lru.push_dlist [OF d _ jn]) (simp_all only: B4_def B3_def B2_def B1_def ball_triv simp_thms)
  moreover have "buf_eq (B4 i) (bufs s0 i)" for i
  proof -
    have "buf_eq (B2 i) (?B i)" by (simp add: B2_def B1_def buf_eq_def)
    moreover have "buf_eq (B3 i) (B2 i)" by (simp add: B3_def buf_eq_def)
    moreover have "buf_eq (B4 i) (B3 i)" by (simp add: B4_def buf_eq_def)
    ultimately show ?thesis using eq [of i] by (simp only: buf_eq_def)
  qed
  moreover have "length (lktab (hw s)) < NLOCK" using len l j by (simp add: NBUF_def)
  moreover have "i = j \<or> i < j" if "i < Suc j" for i using that by auto
  ultimately show ?thesis
    using s sl len unfolding linked_def
    by (simp add: binit_one_def get_buf_def set_buf_def wp_simps initsleeplock_def set_slk_def wp_Ok initlock_run
        B1_def [symmetric] B2_def [symmetric] B3_def [symmetric] B4_def [symmetric] del: fun_upd_apply)
      (auto)
qed

text \<open>
  C23: \<^verbatim>\<open>binit()\<close> on zeroed buffers returns and leaves a well-formed cache: the LRU list links all
  NBUF buffers exactly once in both directions, no block is cached twice, every buffer is unlocked
  and unreferenced.
\<close>

theorem binit_cache_ok:
  assumes "\<forall>b<NBUF. \<not> valid (bufs s b) \<and> refcnt (bufs s b) = 0 \<and> blockno (bufs s b) = 0"
    and "length (lktab (hw s)) + 31 \<le> NLOCK"
  shows "wp binit (\<lambda>_ t. cache_ok t \<and> pins d (\<lambda>_. 0) {} t \<and> lru_list (bufs t) (rev [0..<NBUF]) \<and> vd t = vd s) s"
proof -
  let ?h = "(hw s)\<lparr>locks := (locks (hw s))(BcacheLk :=
     \<lparr>locked = False, lkname = ''bcache'', lcpu = None, lk_n = 0, lk_nts = 0\<rparr>), lktab := lktab (hw s) @ [BcacheLk]\<rparr>"
  let ?s = "s\<lparr>hw := ?h, bufs := (bufs s)(NBUF := (bufs s NBUF)\<lparr>bprev := NBUF, bnext := NBUF\<rparr>)\<rparr>"
  have "linked 0 s ?s" by (simp add: linked_def dlist_def buf_eq_def)
  then have "wp (for_upto 0 NBUF binit_one) (\<lambda>_. linked (0 + NBUF) s) ?s"
    by (rule wp_for_upto) (use assms(2) in \<open>auto intro: binit_one_wp\<close>)
  then have "wp binit (\<lambda>_. linked NBUF s) s"
    using assms(2) by (simp add: binit_def wp_simps wp_Ok initlock_run set_buf_def)
  then show ?thesis
  proof (rule wp_mono)
    fix a t assume t: "linked NBUF s t"
    have eq: "valid (bufs t i) = valid (bufs s i)" "refcnt (bufs t i) = refcnt (bufs s i)"
      "blockno (bufs t i) = blockno (bufs s i)" for i
      using t buf_eqD [of "bufs t i" "bufs s i"] by (auto simp: linked_def)
    have "lru_list (bufs t) (rev [0..<NBUF])" using t by (auto simp: linked_def lru_list_def)
    moreover have "buf_uniq (bufs t)" using assms(1) by (simp add: buf_uniq_def eq)
    moreover have "pins d (\<lambda>_. 0) {} t" using t assms(1) by (auto simp: pins_def linked_def eq)
    ultimately show "cache_ok t \<and> pins d (\<lambda>_. 0) {} t \<and> lru_list (bufs t) (rev [0..<NBUF]) \<and> vd t = vd s"
      using t assms(1) by (auto simp: cache_ok_def buf_ok_def eq linked_def)
  qed
qed

theorem binit_cache_ok_witness:
  "wp binit (\<lambda>_ t. cache_ok t \<and> pins 0 (\<lambda>_. 0) {} t \<and> lru_list (bufs t) (rev [0..<NBUF]) \<and> vd t = vd vdisk0) vdisk0"
  using binit_cache_ok [of vdisk0 0] by (simp add: vdisk0_def buf0_def NLOCK_def)

end
