(* ===== verification/Xv6_Log_Proofs.thy ===== *)
theory Xv6_Log_Proofs
  imports Xv6_Bio_View Xv6_Log
begin

text \<open>
  The redo log makes a transaction atomic. First what each loop body of \<^verbatim>\<open>kernel/log.c\<close> does to the
  disk, on the rules of the buffer cache; then the images of the disk after any number of the
  writes of \<^verbatim>\<open>commit()\<close>, and what recovery makes of each of them.
\<close>

section \<open>Copying one block\<close>

lemma bframe_log:
  assumes "bframe s t"
  shows "log t = log s"
proof -
  have "log t = log (s\<lparr>hw := hw t, proc := proc t, slk := slk t, bufs := bufs t, vd := vd t,
     vhdr := vhdr t, mmio := mmio t, img := img t, wtrace := wtrace t\<rparr>)"
    using assms unfolding bframe_def by (elim conjE) (rule arg_cong)
  then show ?thesis by simp
qed

lemma rest_clean:
  assumes "rest p d f L s" and "f n = 0"
  shows "view s d n = dblock (img s) d n"
proof (cases "slot (bufs s) d n")
  case (Some b)
  have b: "b < NBUF" "bdev (bufs s b) = d" "blockno (bufs s b) = n"
    using slot_SomeD [OF Some] by (auto simp: holds_def)
  moreover have "refcnt (bufs s b) = 0" using pins_slot(1) [OF restD(3) [OF assms(1)] Some] assms(2) by simp
  moreover have "buf_ok (img s) (sl_locked (slk s (BufLk b))) (bufs s b)"
    using restD(2) [OF assms(1)] b by (simp add: bio_inv_def)
  ultimately show ?thesis using Some by (auto simp: view_def buf_ok_def)
qed (simp add: view_def)

lemma block_blit_BSIZE: "block 0 (blit 0 m 0 BSIZE x) = block 0 m"
  by (auto simp: block_def blit_def BSIZE_def)

lemma card_upd_le: "card {n. (f(a := k)) n \<noteq> (0::uint)} \<le> Suc (card {n :: uint. f n \<noteq> 0})"
proof -
  have "{n. (f(a := k)) n \<noteq> 0} \<subseteq> insert a {n. f n \<noteq> 0}" by auto
  then have "card {n. (f(a := k)) n \<noteq> 0} \<le> card (insert a {n. f n \<noteq> 0})" by (rule card_mono [rotated]) simp
  also have "\<dots> \<le> Suc (card {n. f n \<noteq> 0})" by (rule card_insert_le_m1) simp_all
  finally show ?thesis .
qed

text \<open>Two blocks of the device in use at once: \<open>a\<close>, referred to by nobody, and \<open>b\<close>.\<close>

definition two :: "(uint \<Rightarrow> uint) \<Rightarrow> uint \<Rightarrow> uint \<Rightarrow> bool" where
  "two f a b \<longleftrightarrow> a \<noteq> 0 \<and> b \<noteq> 0 \<and> a \<noteq> b \<and> unat a < 2 ^ 31 \<and> unat b < 2 ^ 31 \<and> f a = 0 \<and> f b \<noteq> -1 \<and>
     card {n. f n \<noteq> 0} < NBUF \<and> (f b \<noteq> 0 \<or> Suc (card {n. f n \<noteq> 0}) < NBUF)"

lemma rest_bread2:
  assumes r: "rest p d f {} s" and two: "two f a b"
    and Q: "\<And>x y t. rest p d (f(a := 1, b := f b + 1)) {a, b} t \<Longrightarrow> owns p t d a x \<Longrightarrow> owns p t d b y \<Longrightarrow>
      bframe s t \<Longrightarrow> img t = img s \<Longrightarrow> wtrace t = wtrace s \<Longrightarrow> (\<And>d n. n \<noteq> 0 \<Longrightarrow> view t d n = view s d n) \<Longrightarrow>
      wp (k x y) Q t"
  shows "wp (bind (bread d a) (\<lambda>x. bind (bread d b) (\<lambda>y. k x y))) Q s"
  unfolding wp_bind
proof (rule rest_bread [OF r])
  fix x t
  assume t: "rest p d (f(a := f a + 1)) (insert a {}) t" "owns p t d a x" "bframe s t" "img t = img s"
    "wtrace t = wtrace s" "\<And>d' n'. n' \<noteq> 0 \<Longrightarrow> view t d' n' = view s d' n'"
  show "wp (bread d b) (\<lambda>y. wp (k x y) Q) t"
  proof (rule rest_bread [OF t(1)])
    fix y u
    assume u: "rest p d ((f(a := f a + 1))(b := (f(a := f a + 1)) b + 1)) (insert b (insert a {})) u"
      "owns p u d b y" "bframe t u" "img u = img t" "wtrace u = wtrace t"
      "\<And>d' n'. n' \<noteq> 0 \<Longrightarrow> view u d' n' = view t d' n'" "\<And>n' c. owns p t d n' c \<Longrightarrow> owns p u d n' c"
    show "wp (k x y) Q u"
      by (rule Q) (use u t two bframe_trans in \<open>auto simp: two_def insert_commute\<close>)
  next
    have fb: "(f(a := f a + 1)) b = f b" using two by (auto simp: two_def)
    show "(f(a := f a + 1)) b \<noteq> 0 \<or> card {n. (f(a := f a + 1)) n \<noteq> 0} < NBUF"
      unfolding fb using two card_upd_le [of f a "f a + 1"] unfolding two_def by (meson le_less_trans)
  qed (use two in \<open>auto simp: two_def\<close>)
qed (use two in \<open>auto simp: two_def\<close>)

definition wr :: "uint \<Rightarrow> uint \<Rightarrow> bytes \<Rightarrow> nat \<times> nat \<times> bytes" where
  "wr d n m = (unat d, 1024 * unat n, m)"

text \<open>The contents of the owned block \<open>b\<close> are copied to the owned block \<open>a\<close> and written to disk.\<close>

lemma rest_copy:
  assumes r: "rest p d f L s" and o: "owns p s d a x" "owns p s d b y" and n: "a \<noteq> 0" "b \<noteq> 0" "a \<noteq> b"
    and Q: "\<And>t m. rest p d f L t \<Longrightarrow> owns p t d a x \<Longrightarrow> owns p t d b y \<Longrightarrow> bframe s t \<Longrightarrow>
      block 0 m = view s d b \<Longrightarrow> img t = blk_write d a m (img s) \<Longrightarrow> wtrace t = wtrace s @ [wr d a m] \<Longrightarrow>
      (\<And>n. n \<noteq> 0 \<Longrightarrow> view t d n = (if n = a then view s d b else view s d n)) \<Longrightarrow> wp k Q t"
  shows "wp (bind (get_data y) (\<lambda>m. seq (set_data x (blit 0 m 0 BSIZE)) (seq (bwrite x) k))) Q s"
  unfolding get_data_def wp_bind wp_gets wp_seq
proof (rule rest_set_data [OF r o(1) n(1)])
  let ?m = "bdata (bufs s y)"
  have m: "block 0 ?m = view s d b" using rest_owns(4) [OF r o(2) n(2)] by simp
  fix u
  assume u: "rest p d f L u" "bframe s u" "img u = img s" "wtrace u = wtrace s"
    "view u d a = block 0 (blit 0 ?m 0 BSIZE (bdata (bufs s x)))"
    and vu: "\<And>d' n'. (d', n') \<noteq> (d, a) \<Longrightarrow> view u d' n' = view s d' n'"
    and ou: "\<And>n' c. owns p s d n' c \<Longrightarrow> owns p u d n' c"
  show "wp (bwrite x) (\<lambda>_. wp k Q) u"
  proof (rule rest_bwrite [OF u(1) ou [OF o(1)] n(1)])
    fix v m'
    assume v: "rest p d f L v" "bframe u v" "block 0 m' = view u d a"
      "img v = blk_write d a m' (img u)" "wtrace v = wtrace u @ [(unat d, 1024 * unat a, m')]"
      and vv: "\<And>d' n'. view v d' n' = view u d' n'"
      and ov: "\<And>n' c. owns p u d n' c \<Longrightarrow> owns p v d n' c"
    have "block 0 m' = view s d b" using v(3) u(5) m by (simp add: block_blit_BSIZE)
    moreover have "view v d n = (if n = a then view s d b else view s d n)" for n
      using vv vu [of d n] v(3) \<open>block 0 m' = view s d b\<close> by simp
    ultimately show "wp k Q v"
      using u v ov ou o bframe_trans [OF u(2) v(2)] by (intro Q [where m = m']) (auto simp: wr_def)
  qed
qed

text \<open>The loop body of \<^verbatim>\<open>write_log()\<close>: the block \<open>b\<close>, cached and pinned, goes to the log block \<open>a\<close>.\<close>

lemma write_log_one_wp:
  assumes r: "rest p (of_nat dev) f {} s"
    and ab: "a = of_int (lstart (log s dev) + int tail + 1)" "b = lh_block (log s dev) tail"
    and two: "two f a b" "f b \<noteq> 0"
    and Q: "\<And>t m. rest p (of_nat dev) f {} t \<Longrightarrow> bframe s t \<Longrightarrow> block 0 m = view s (of_nat dev) b \<Longrightarrow>
      img t = blk_write (of_nat dev) a m (img s) \<Longrightarrow> wtrace t = wtrace s @ [wr (of_nat dev) a m] \<Longrightarrow>
      (\<And>n. n \<noteq> 0 \<Longrightarrow> view t (of_nat dev) n = (if n = a then view s (of_nat dev) b else view s (of_nat dev) n)) \<Longrightarrow>
      Q () t"
  shows "wp (write_log_one dev tail) Q s"
proof -
  let ?d = "of_nat dev :: uint"
  have n: "a \<noteq> 0" "b \<noteq> 0" "a \<noteq> b" "f a = 0" "f b \<noteq> -1" using two by (auto simp: two_def)
  show ?thesis
    unfolding write_log_one_def get_log_def wp_gets wp_bind [of "gets _"] ab [symmetric]
  proof (rule rest_bread2 [OF r two(1)])
    fix x y t
    assume t: "rest p ?d (f(a := 1, b := f b + 1)) {a, b} t" "owns p t ?d a x" "owns p t ?d b y" "bframe s t"
      "img t = img s" "wtrace t = wtrace s" and vt: "\<And>d n. n \<noteq> 0 \<Longrightarrow> view t d n = view s d n"
    show "wp (bind (get_data y) (\<lambda>d. seq (set_data x (blit 0 d 0 BSIZE)) (seq (bwrite x) (seq (brelse y) (brelse x))))) Q t"
    proof (rule rest_copy [OF t(1-3) n(1-3)], unfold wp_seq)
      fix u m
      assume u: "rest p ?d (f(a := 1, b := f b + 1)) {a, b} u" "owns p u ?d a x" "owns p u ?d b y" "bframe t u"
        "block 0 m = view t ?d b" "img u = blk_write ?d a m (img t)" "wtrace u = wtrace t @ [wr ?d a m]"
        and vu: "\<And>n. n \<noteq> 0 \<Longrightarrow> view u ?d n = (if n = a then view t ?d b else view t ?d n)"
      show "wp (brelse y) (\<lambda>_. wp (brelse x) Q) u"
      proof (rule rest_brelse [OF u(1,3) n(2)])
        show "view u ?d b = dblock (img u) ?d b" if "(f(a := 1, b := f b + 1)) b = 1"
          using that two(2) by simp
        fix v
        assume v: "rest p ?d ((f(a := 1, b := f b + 1))(b := (f(a := 1, b := f b + 1)) b - 1)) ({a, b} - {b}) v"
          "bframe u v" "img v = img u" "wtrace v = wtrace u" and vv: "\<And>d' n'. view v d' n' = view u d' n'"
          and ov: "\<And>n' c. owns p u ?d n' c \<Longrightarrow> n' \<noteq> b \<Longrightarrow> owns p v ?d n' c"
        show "wp (brelse x) Q v"
        proof (rule rest_brelse [OF v(1) ov [OF u(2) n(3)] n(1)])
          show "view v ?d a = dblock (img v) ?d a"
            using vv vu [OF n(1)] v(3) u(5,6) by (simp add: dblock_write)
          fix w
          assume w: "rest p ?d (((f(a := 1, b := f b + 1))(b := (f(a := 1, b := f b + 1)) b - 1))
              (a := ((f(a := 1, b := f b + 1))(b := (f(a := 1, b := f b + 1)) b - 1)) a - 1)) ({a, b} - {b} - {a}) w"
            "bframe v w" "img w = img v" "wtrace w = wtrace v" and vw: "\<And>d' n'. view w d' n' = view v d' n'"
          have "f(a := 0) = f" using n(4) by auto
          then have "rest p ?d f {} w" using w(1) n(3) by (simp add: fun_upd_twist [of b a] insert_Diff_if)
          moreover have "bframe s w" using t(4) u(4) v(2) w(2) bframe_trans by blast
          ultimately show "Q () w"
            using t u v w vw vv vu vt n by (intro Q [where m = m]) auto
        qed
      qed
    qed
  qed
qed

text \<open>
  The loop body of \<^verbatim>\<open>install_trans()\<close>: the log block \<open>a\<close> goes to its home \<open>b\<close>, which loses one
  reference, whether it was pinned or not.
\<close>

lemma install_one_wp:
  assumes r: "rest p (of_nat dev) f {} s"
    and ab: "a = of_int (lstart (log s dev) + int tail + 1)" "b = lh_block (log s dev) tail"
    and two: "two f a b"
    and Q: "\<And>t m. rest p (of_nat dev) (f(b := f b - 1)) {} t \<Longrightarrow> bframe s t \<Longrightarrow> block 0 m = view s (of_nat dev) a \<Longrightarrow>
      img t = blk_write (of_nat dev) b m (img s) \<Longrightarrow> wtrace t = wtrace s @ [wr (of_nat dev) b m] \<Longrightarrow>
      (\<And>n. n \<noteq> 0 \<Longrightarrow> view t (of_nat dev) n = (if n = b then view s (of_nat dev) a else view s (of_nat dev) n)) \<Longrightarrow>
      Q () t"
  shows "wp (install_one dev tail) Q s"
proof -
  let ?d = "of_nat dev :: uint" and ?f = "f(a := 1, b := f b + 1)"
  have n: "a \<noteq> 0" "b \<noteq> 0" "a \<noteq> b" "b \<noteq> a" "f a = 0" "f b \<noteq> -1" using two by (auto simp: two_def)
  show ?thesis
    unfolding install_one_def get_log_def wp_gets wp_bind [of "gets _"] ab [symmetric]
  proof (rule rest_bread2 [OF r two])
    fix x y t
    assume t: "rest p ?d ?f {a, b} t" "owns p t ?d a x" "owns p t ?d b y" "bframe s t"
      "img t = img s" "wtrace t = wtrace s" and vt: "\<And>d n. n \<noteq> 0 \<Longrightarrow> view t d n = view s d n"
    show "wp (bind (get_data x) (\<lambda>d. seq (set_data y (blit 0 d 0 BSIZE)) (seq (bwrite y)
        (seq (bunpin y) (seq (brelse x) (brelse y)))))) Q t"
    proof (rule rest_copy [OF t(1,3,2) n(2,1,4)])
      fix u m
      assume u: "rest p ?d ?f {a, b} u" "owns p u ?d b y" "owns p u ?d a x" "bframe t u"
        "block 0 m = view t ?d a" "img u = blk_write ?d b m (img t)" "wtrace u = wtrace t @ [wr ?d b m]"
        and vu: "\<And>n. n \<noteq> 0 \<Longrightarrow> view u ?d n = (if n = b then view t ?d a else view t ?d n)"
      show "wp (seq (bunpin y) (seq (brelse x) (brelse y))) Q u"
      proof (rule rest_unpin_release [OF u(1,3,2) n(1-3)])
        show "view u ?d a = dblock (img u) ?d a"
          using vu [OF n(1)] vt [OF n(1)] rest_clean [OF r n(5)] t(5) u(6) n by (simp add: dblock_write)
        show "view u ?d b = dblock (img u) ?d b" using vu [OF n(2)] u(5,6) by (simp add: dblock_write)
        fix w
        assume w: "rest p ?d (?f(b := ?f b - 2, a := ?f a - 1)) ({a, b} - {a, b}) w"
          "bframe u w" "img w = img u" "wtrace w = wtrace u" and vw: "\<And>d' n'. view w d' n' = view u d' n'"
        have "?f(b := ?f b - 2, a := ?f a - 1) = f(b := f b - 1)" using n by auto
        then have "rest p ?d (f(b := f b - 1)) {} w" using w(1) by simp
        moreover have "bframe s w" using t(4) u(4) w(2) bframe_trans by blast
        ultimately show "Q () w"
          using t u w vw vu vt n by (intro Q [where m = m]) auto
      qed
    qed
  qed
qed

section \<open>The header block\<close>

text \<open>\<open>hdr_ok m n bl\<close>: the bytes \<open>m\<close> of the header block encode \<open>n\<close> block numbers.\<close>

definition hdr_ok :: "bytes \<Rightarrow> nat \<Rightarrow> (nat \<Rightarrow> uint) \<Rightarrow> bool" where
  "hdr_ok m n bl \<longleftrightarrow> ld32 m 0 = of_nat n \<and> (\<forall>i<n. ld32 m (4 + 4 * i) = bl i)"

lemma ld32_block: "a + 4 \<le> BSIZE \<Longrightarrow> ld32 (block 0 m) a = ld32 m a"
  by (rule ld_cong) (simp add: block_def)

lemma hdr_block: "n \<le> 30 \<Longrightarrow> hdr_ok (block 0 m) n bl = hdr_ok m n bl"
  by (auto simp: hdr_ok_def ld32_block BSIZE_def)

lemma head_fill_wp:
  assumes r: "rest p d f L s" and o: "owns p s d h x" and h: "h \<noteq> 0"
    and Q: "\<And>t. rest p d f L t \<Longrightarrow> owns p t d h x \<Longrightarrow> bframe s t \<Longrightarrow> img t = img s \<Longrightarrow> wtrace t = wtrace s \<Longrightarrow>
      hdr_ok (bdata (bufs t x)) n bl \<Longrightarrow> (\<And>n. n \<noteq> h \<Longrightarrow> view t d n = view s d n) \<Longrightarrow> wp k Q t"
  shows "wp (seq (set_data x (st32 0 (of_nat n)))
     (seq (for_upto 0 n (\<lambda>i. set_data x (st32 (4 + 4 * i) (bl i)))) k)) Q s"
  unfolding wp_seq
proof (rule rest_set_data [OF r o h])
  fix t
  assume t: "rest p d f L t" "bframe s t" "img t = img s" "wtrace t = wtrace s"
    "bdata (bufs t x) = st32 0 (of_nat n) (bdata (bufs s x))"
    and vt: "\<And>d' n'. (d', n') \<noteq> (d, h) \<Longrightarrow> view t d' n' = view s d' n'"
    and ot: "\<And>n' c. owns p s d n' c \<Longrightarrow> owns p t d n' c"
  let ?I = "\<lambda>j u. rest p d f L u \<and> owns p u d h x \<and> bframe s u \<and> img u = img s \<and> wtrace u = wtrace s \<and>
    ld32 (bdata (bufs u x)) 0 = of_nat n \<and> (\<forall>i<j. ld32 (bdata (bufs u x)) (4 + 4 * i) = bl i) \<and>
    (\<forall>n. n \<noteq> h \<longrightarrow> view u d n = view s d n)"
  have "wp (for_upto 0 n (\<lambda>i. set_data x (st32 (4 + 4 * i) (bl i)))) (\<lambda>_. ?I (0 + n)) t"
  proof (rule wp_for_upto [where I = ?I])
    show "?I 0 t" using t ot o vt by (simp add: le_simps)
    fix j u
    assume u: "?I j u"
    then have ru: "rest p d f L u" and ou: "owns p u d h x" by blast+
    show "wp (set_data x (st32 (4 + 4 * j) (bl j))) (\<lambda>_. ?I (Suc j)) u"
    proof (rule rest_set_data [OF ru ou h])
      fix v
      assume v: "rest p d f L v" "bframe u v" "img v = img u" "wtrace v = wtrace u"
        "bdata (bufs v x) = st32 (4 + 4 * j) (bl j) (bdata (bufs u x))"
        and vv: "\<And>d' n'. (d', n') \<noteq> (d, h) \<Longrightarrow> view v d' n' = view u d' n'"
        and ov: "\<And>n' c. owns p u d n' c \<Longrightarrow> owns p v d n' c"
      have "ld32 (bdata (bufs v x)) (4 + 4 * i) = bl i" if "i < Suc j" for i
        using v(5) u that by (cases "i = j") (auto simp: le_simps)
      moreover have "bframe s v" using u v(2) bframe_trans by blast
      ultimately show "?I (Suc j) v" using u v vv ov by (simp add: le_simps)
    qed
  qed
  then show "wp (for_upto 0 n (\<lambda>i. set_data x (st32 (4 + 4 * i) (bl i)))) (\<lambda>_. wp k Q) t"
    by (rule wp_mono) (auto intro!: Q simp: hdr_ok_def)
qed

definition head_of :: "log \<Rightarrow> uint" where
  "head_of l = of_int (lstart l)"

definition slot_of :: "log \<Rightarrow> nat \<Rightarrow> uint" where
  "slot_of l i = of_int (lstart l + int i + 1)"

lemma write_head_wp:
  assumes r: "rest p (of_nat dev) f {} s" and n: "lh_n (log s dev) = int n" "n \<le> 30"
    and h: "h = head_of (log s dev)" "h \<noteq> 0" "unat h < 2 ^ 31" "f h = 0" "card {n. f n \<noteq> 0} < NBUF"
    and Q: "\<And>t m. rest p (of_nat dev) f {} t \<Longrightarrow> bframe s t \<Longrightarrow> hdr_ok m n (lh_block (log s dev)) \<Longrightarrow>
      img t = blk_write (of_nat dev) h m (img s) \<Longrightarrow> wtrace t = wtrace s @ [wr (of_nat dev) h m] \<Longrightarrow>
      (\<And>n. n \<noteq> 0 \<Longrightarrow> view t (of_nat dev) n = (if n = h then block 0 m else view s (of_nat dev) n)) \<Longrightarrow> Q () t"
  shows "wp (write_head dev) Q s"
proof -
  let ?d = "of_nat dev :: uint" and ?bl = "lh_block (log s dev)"
  have eq: "write_head dev s = bind (bread ?d h) (\<lambda>b. seq (set_data b (st32 0 (of_nat n)))
      (seq (for_upto 0 n (\<lambda>i. set_data b (st32 (4 + 4 * i) (?bl i)))) (seq (bwrite b) (brelse b)))) s"
    using n(1) h(1) by (simp add: write_head_def get_log_def head_of_def)
  have "wp (bind (bread ?d h) (\<lambda>b. seq (set_data b (st32 0 (of_nat n)))
      (seq (for_upto 0 n (\<lambda>i. set_data b (st32 (4 + 4 * i) (?bl i)))) (seq (bwrite b) (brelse b))))) Q s"
    unfolding wp_bind
  proof (rule rest_bread [OF r h(2,3)])
    fix x t
    assume t: "rest p ?d (f(h := f h + 1)) {h} t" "owns p t ?d h x" "bframe s t" "img t = img s"
      "wtrace t = wtrace s" and vt: "\<And>d' n'. n' \<noteq> 0 \<Longrightarrow> view t d' n' = view s d' n'"
    show "wp (seq (set_data x (st32 0 (of_nat n)))
      (seq (for_upto 0 n (\<lambda>i. set_data x (st32 (4 + 4 * i) (?bl i)))) (seq (bwrite x) (brelse x)))) Q t"
    proof (rule head_fill_wp [OF t(1,2) h(2)], unfold wp_seq)
      fix u
      assume u: "rest p ?d (f(h := f h + 1)) {h} u" "owns p u ?d h x" "bframe t u" "img u = img t" "wtrace u = wtrace t"
        "hdr_ok (bdata (bufs u x)) n ?bl" and vu: "\<And>n. n \<noteq> h \<Longrightarrow> view u ?d n = view t ?d n"
      show "wp (bwrite x) (\<lambda>_. wp (brelse x) Q) u"
      proof (rule rest_bwrite [OF u(1,2) h(2)])
        fix v m
        assume v: "rest p ?d (f(h := f h + 1)) {h} v" "bframe u v" "block 0 m = view u ?d h"
          "img v = blk_write ?d h m (img u)" "wtrace v = wtrace u @ [(unat ?d, 1024 * unat h, m)]"
          and vv: "\<And>d' n'. view v d' n' = view u d' n'" and ov: "\<And>n' c. owns p u ?d n' c \<Longrightarrow> owns p v ?d n' c"
        have m: "hdr_ok m n ?bl"
          using rest_owns(4) [OF u(1,2) h(2)] v(3) u(6) hdr_block [OF n(2), of m] hdr_block [OF n(2), of "bdata (bufs u x)"]
          by simp
        show "wp (brelse x) Q v"
        proof (rule rest_brelse [OF v(1) ov [OF u(2)] h(2)])
          show "view v ?d h = dblock (img v) ?d h" using vv v(3,4) by (simp add: dblock_write)
          fix w
          assume w: "rest p ?d ((f(h := f h + 1))(h := (f(h := f h + 1)) h - 1)) ({h} - {h}) w" "bframe v w"
            "img w = img v" "wtrace w = wtrace v" and vw: "\<And>d' n'. view w d' n' = view v d' n'"
          have "rest p ?d f {} w" using w(1) h(4) by (simp add: fun_upd_idem)
          moreover have "bframe s w" using t(3) u(3) v(2) w(2) bframe_trans by blast
          ultimately show "Q () w"
            using t u v w m vw vv vu vt by (intro Q [where m = m]) (auto simp: wr_def)
        qed
      qed
    qed
  qed (use h in auto)
  then show ?thesis by (simp only: wp_def eq)
qed

lemma log_upd_bio [simp]:
  "rest p d f L (s\<lparr>log := X\<rparr>) = rest p d f L s" "owns p (s\<lparr>log := X\<rparr>) d n b = owns p s d n b"
  "view (s\<lparr>log := X\<rparr>) d n = view s d n"
  by (simp_all add: rest_def running_def bio_inv_def pins_def owns_def view_def split: option.split)

text \<open>As \<open>bframe\<close>, but the log record may change.\<close>

definition lframe :: "'z logs_scheme \<Rightarrow> 'z logs_scheme \<Rightarrow> bool" where
  "lframe s t \<longleftrightarrow> bframe (s\<lparr>log := log t\<rparr>) t"

lemma bframe_lframe:
  assumes "bframe s t"
  shows "lframe s t"
proof -
  have "s\<lparr>log := log t\<rparr> = s" using bframe_log [OF assms] by simp
  then show ?thesis using assms by (simp add: lframe_def)
qed

lemma lframe_upd [simp, intro!]: "lframe s (s\<lparr>log := X\<rparr>)"
  by (simp add: lframe_def)

lemma bframe_set_log:
  assumes "bframe s t"
  shows "bframe (s\<lparr>log := X\<rparr>) (t\<lparr>log := X\<rparr>)"
proof -
  obtain h P K B V H M I W where t: "t = s\<lparr>hw := h, proc := P, slk := K, bufs := B, vd := V, vhdr := H,
      mmio := M, img := I, wtrace := W\<rparr>"
    using assms unfolding bframe_def by blast
  show ?thesis using assms unfolding bframe_def t by simp
qed

lemma lframe_trans [trans]: "lframe s t \<Longrightarrow> lframe t u \<Longrightarrow> lframe s u"
  using bframe_set_log [of "s\<lparr>log := log t\<rparr>" t "log u"] bframe_trans by (fastforce simp: lframe_def)

lemma sint_small: "n < 2 ^ 31 \<Longrightarrow> sint (of_nat n :: uint) = int n"
  by (simp add: signed_of_nat signed_take_bit_int_eq_self)

lemma head_load_wp:
  assumes "\<And>i. i < n \<Longrightarrow> ld32 m (4 + 4 * i) = bl i" and "n \<le> 30"
    and Q: "\<And>B. (\<And>i. i < n \<Longrightarrow> B i = bl i) \<Longrightarrow>
      wp k Q (t\<lparr>log := (log t)(dev := (log t dev)\<lparr>lh_n := int n, lh_block := B\<rparr>)\<rparr>)"
  shows "wp (seq (set_log dev (\<lambda>l. l\<lparr>lh_n := int n\<rparr>)) (seq (for_upto 0 n (\<lambda>i. if int i < LOGSIZE
     then set_log dev (\<lambda>l. l\<lparr>lh_block := (lh_block l)(i := ld32 m (4 + 4 * i))\<rparr>) else hang)) k)) Q t"
proof -
  let ?t = "\<lambda>B. t\<lparr>log := (log t)(dev := (log t dev)\<lparr>lh_n := int n, lh_block := B\<rparr>)\<rparr>"
  let ?I = "\<lambda>j u. \<exists>B. (\<forall>i<j. B i = bl i) \<and> u = ?t B"
  let ?body = "\<lambda>i. if int i < LOGSIZE
     then set_log dev (\<lambda>l. l\<lparr>lh_block := (lh_block l)(i := ld32 m (4 + 4 * i))\<rparr>) else hang"
  let ?init = "t\<lparr>log := (log t)(dev := (log t dev)\<lparr>lh_n := int n\<rparr>)\<rparr>"
  have "wp (for_upto 0 n ?body) (\<lambda>_. ?I (0 + n)) ?init"
  proof (rule wp_for_upto [where I = ?I])
    show "?I 0 ?init" by (rule exI [of _ "lh_block (log t dev)"]) simp
    fix j u
    assume j: "j < 0 + n" and "?I j u"
    then obtain B where B: "\<forall>i<j. B i = bl i" "u = ?t B" by blast
    have "int j < LOGSIZE" using j assms(2) by (simp add: LOGSIZE_def MAXOPBLOCKS_def)
    then show "wp (?body j) (\<lambda>_. ?I (Suc j)) u"
      using B assms(1) [of j] j
      by (auto simp: set_log_def wp_simps less_Suc_eq intro!: exI [of _ "B(j := ld32 m (4 + 4 * j))"])
  qed
  then have "wp (for_upto 0 n ?body) (\<lambda>_. wp k Q) ?init"
    by (rule wp_mono) (auto intro: Q)
  then show ?thesis by (simp add: wp_simps set_log_def)
qed

lemma read_head_wp:
  assumes r: "rest p (of_nat dev) f {} s" and n: "hdr_ok (view s (of_nat dev) h) n bl" "n \<le> 30"
    and h: "h = head_of (log s dev)" "h \<noteq> 0" "unat h < 2 ^ 31" "f h = 0" "card {n. f n \<noteq> 0} < NBUF"
    and Q: "\<And>t B. rest p (of_nat dev) f {} t \<Longrightarrow> lframe s t \<Longrightarrow> (\<And>i. i < n \<Longrightarrow> B i = bl i) \<Longrightarrow>
      log t = (log s)(dev := (log s dev)\<lparr>lh_n := int n, lh_block := B\<rparr>) \<Longrightarrow> img t = img s \<Longrightarrow> wtrace t = wtrace s \<Longrightarrow>
      (\<And>n. n \<noteq> 0 \<Longrightarrow> view t (of_nat dev) n = view s (of_nat dev) n) \<Longrightarrow> Q () t"
  shows "wp (read_head dev) Q s"
proof -
  let ?d = "of_nat dev :: uint" and ?l = "log s dev"
  show ?thesis
    unfolding read_head_def get_log_def wp_bind wp_gets head_of_def [symmetric] h(1) [symmetric]
  proof (rule rest_bread [OF r h(2,3)])
    fix x t
    assume t: "rest p ?d (f(h := f h + 1)) {h} t" "owns p t ?d h x" "bframe s t" "img t = img s"
      "wtrace t = wtrace s" and vt: "\<And>d' n'. n' \<noteq> 0 \<Longrightarrow> view t d' n' = view s d' n'"
    let ?m = "bdata (bufs t x)"
    have m: "ld32 ?m 0 = of_nat n" "\<And>i. i < n \<Longrightarrow> ld32 ?m (4 + 4 * i) = bl i"
      using n(1) vt [OF h(2)] rest_owns(4) [OF t(1,2) h(2)] hdr_block [OF n(2)] by (simp_all add: hdr_ok_def)
    have sn: "sint (ld32 ?m 0) = int n" using m(1) n(2) sint_small [of n] by simp
    show "wp (get_data x) (\<lambda>d. wp (seq (set_log dev (\<lambda>l. l\<lparr>lh_n := sint (ld32 d 0)\<rparr>))
        (seq (for_upto 0 (nat (sint (ld32 d 0))) (\<lambda>i. if int i < LOGSIZE
            then set_log dev (\<lambda>l. l\<lparr>lh_block := (lh_block l)(i := ld32 d (4 + 4 * i))\<rparr>) else hang))
        (brelse x))) Q) t"
      unfolding get_data_def wp_gets sn nat_int
    proof (rule head_load_wp [OF m(2) n(2)])
      fix B assume B: "\<And>i. i < n \<Longrightarrow> B i = bl i"
      let ?u = "t\<lparr>log := (log t)(dev := (log t dev)\<lparr>lh_n := int n, lh_block := B\<rparr>)\<rparr>"
      have fu: "lframe s ?u" using bframe_lframe [OF t(3)] by (rule lframe_trans) simp
      show "wp (brelse x) Q ?u"
      proof (rule rest_brelse [of p ?d "f(h := f h + 1)" "{h}", OF _ _ h(2)])
        show "view ?u ?d h = dblock (img ?u) ?d h" using vt h(2) t(4) rest_clean [OF r h(4)] by simp
        fix w
        assume w: "rest p ?d ((f(h := f h + 1))(h := (f(h := f h + 1)) h - 1)) ({h} - {h}) w" "bframe ?u w"
          "img w = img ?u" "wtrace w = wtrace ?u" and vw: "\<And>d' n'. view w d' n' = view ?u d' n'"
        have "rest p ?d f {} w" using w(1) h(4) by (simp add: fun_upd_idem)
        moreover have "lframe s w" using fu bframe_lframe [OF w(2)] by (rule lframe_trans)
        ultimately show "Q () w"
          using t w vw vt B bframe_log [OF w(2)] bframe_log [OF t(3)] by (intro Q [where B = B]) auto
      qed (use t in auto)
    qed
  qed (use h in auto)
qed

section \<open>Copying all blocks\<close>

text \<open>The image after a sequence of completed writes.\<close>

definition replay :: "(nat \<times> nat \<times> bytes) list \<Rightarrow> (nat \<Rightarrow> bytes) \<Rightarrow> nat \<Rightarrow> bytes" where
  "replay W I = fold (\<lambda>(n, base, m) I. I(n := blit base m 0 1024 (I n))) W I"

lemma replay_simps [simp]:
  "replay [] I = I" "replay (W @ W') I = replay W' (replay W I)" "replay [wr d n m] I = blk_write d n m I"
  "replay (wr d n m # W) I = replay W (blk_write d n m I)"
  by (simp_all add: replay_def wr_def blk_write_def)

definition wrs :: "uint \<Rightarrow> (nat \<Rightarrow> uint) \<Rightarrow> (nat \<Rightarrow> bytes) \<Rightarrow> nat \<Rightarrow> (nat \<times> nat \<times> bytes) list" where
  "wrs d dst m n = map (\<lambda>i. wr d (dst i) (m i)) [0..<n]"

lemma wrs_Suc: "wrs d dst m (Suc n) = wrs d dst m n @ [wr d (dst n) (m n)]"
  by (simp add: wrs_def)

lemma wrs_0 [simp]: "wrs d dst m 0 = []"
  by (simp add: wrs_def)

lemma length_wrs [simp]: "length (wrs d dst m n) = n"
  by (simp add: wrs_def)

lemma wrs_cong: "(\<And>i. i < n \<Longrightarrow> m i = m' i) \<Longrightarrow> wrs d dst m n = wrs d dst m' n"
  by (simp add: wrs_def)

lemma take_wrs: "take k (wrs d dst m n) = wrs d dst m (min k n)"
  by (simp add: wrs_def take_map take_upt min_def)

text \<open>A loop whose body copies block \<open>src j\<close> to block \<open>dst j\<close>.\<close>

definition copies :: "uint \<Rightarrow> (nat \<Rightarrow> uint) \<Rightarrow> (nat \<Rightarrow> uint) \<Rightarrow> nat \<Rightarrow> (nat \<Rightarrow> bytes) \<Rightarrow> 'z vdisk_scheme \<Rightarrow> 'z vdisk_scheme \<Rightarrow> bool" where
  "copies d src dst n m s t \<longleftrightarrow> bframe s t \<and> (\<forall>i<n. block 0 (m i) = view s d (src i)) \<and>
     wtrace t = wtrace s @ wrs d dst m n \<and> img t = replay (wrs d dst m n) (img s) \<and>
     (\<forall>i<n. view t d (dst i) = view s d (src i)) \<and>
     (\<forall>x. x \<noteq> 0 \<longrightarrow> x \<notin> dst ` {..<n} \<longrightarrow> view t d x = view s d x)"

lemma copies_0 [simp]: "copies d src dst 0 m s s"
  by (simp add: copies_def)

lemma copies_step:
  assumes c: "copies d src dst j m s t" and u: "bframe t u" "block 0 m' = view t d (src j)"
      "img u = blk_write d (dst j) m' (img t)" "wtrace u = wtrace t @ [wr d (dst j) m']"
    and vu: "\<And>x. x \<noteq> 0 \<Longrightarrow> view u d x = (if x = dst j then view t d (src j) else view t d x)"
    and ne: "src j \<noteq> 0" "dst j \<noteq> 0" "src j \<notin> dst ` {..<j}" "\<And>i. i < j \<Longrightarrow> dst i \<noteq> dst j \<and> dst i \<noteq> 0"
  shows "copies d src dst (Suc j) (m(j := m')) s u"
proof -
  note c' = c [unfolded copies_def]
  have src: "view t d (src j) = view s d (src j)" using c' ne by blast
  have "wrs d dst (m(j := m')) j = wrs d dst m j" by (rule wrs_cong) simp
  then have w: "wtrace u = wtrace s @ wrs d dst (m(j := m')) (Suc j)"
      "img u = replay (wrs d dst (m(j := m')) (Suc j)) (img s)"
    using c' u by (simp_all add: wrs_Suc)
  have "bframe s u" using c' u(1) bframe_trans by blast
  moreover have "block 0 ((m(j := m')) i) = view s d (src i)" if "i < Suc j" for i
    using c' u(2) src that by (cases "i = j") auto
  moreover have "view u d (dst i) = view s d (src i)" if "i < Suc j" for i
    using c' vu [of "dst i"] ne(2) ne(4) [of i] src that by (cases "i = j") auto
  moreover have "view u d x = view s d x" if "x \<noteq> 0" "x \<notin> dst ` {..<Suc j}" for x
    using c' vu that by (auto simp: lessThan_Suc)
  ultimately show ?thesis using w by (simp add: copies_def)
qed

lemma copy_loop:
  assumes r: "rest p d (F 0) {} s"
    and body: "\<And>j t R. j < n \<Longrightarrow> rest p d (F j) {} t \<Longrightarrow> bframe s t \<Longrightarrow>
      (\<And>u m. rest p d (F (Suc j)) {} u \<Longrightarrow> bframe t u \<Longrightarrow> block 0 m = view t d (src j) \<Longrightarrow>
        img u = blk_write d (dst j) m (img t) \<Longrightarrow> wtrace u = wtrace t @ [wr d (dst j) m] \<Longrightarrow>
        (\<And>x. x \<noteq> 0 \<Longrightarrow> view u d x = (if x = dst j then view t d (src j) else view t d x)) \<Longrightarrow> R () u) \<Longrightarrow>
      wp (body j) R t"
    and ne: "\<And>i. i < n \<Longrightarrow> src i \<noteq> 0 \<and> dst i \<noteq> 0" "\<And>i j. i < n \<Longrightarrow> j < n \<Longrightarrow> src i \<noteq> dst j" "inj_on dst {..<n}"
    and Q: "\<And>t m. rest p d (F n) {} t \<Longrightarrow> copies d src dst n m s t \<Longrightarrow> Q () t"
  shows "wp (for_upto 0 n body) Q s"
proof -
  let ?I = "\<lambda>j u. rest p d (F j) {} u \<and> (\<exists>m. copies d src dst j m s u)"
  have "wp (for_upto 0 n body) (\<lambda>_. ?I (0 + n)) s"
  proof (rule wp_for_upto [where I = ?I])
    show "?I 0 s" using r by auto
    fix j t
    assume j: "j < 0 + n" and "?I j t"
    then obtain m where t: "rest p d (F j) {} t" "copies d src dst j m s t" by blast
    show "wp (body j) (\<lambda>_. ?I (Suc j)) t"
    proof (rule body [OF _ t(1)])
      show "j < n" "bframe s t" using j t(2) by (auto simp: copies_def)
      fix u m'
      assume u: "rest p d (F (Suc j)) {} u" "bframe t u" "block 0 m' = view t d (src j)"
        "img u = blk_write d (dst j) m' (img t)" "wtrace u = wtrace t @ [wr d (dst j) m']"
        "\<And>x. x \<noteq> 0 \<Longrightarrow> view u d x = (if x = dst j then view t d (src j) else view t d x)"
      have "copies d src dst (Suc j) (m(j := m')) s u"
        by (rule copies_step [OF t(2) u(2-6)]) (use ne j in \<open>auto simp: inj_on_def\<close>)
      then show "?I (Suc j) u" using u(1) by blast
    qed
  qed
  then show ?thesis by (rule wp_mono) (auto intro: Q)
qed

end
