(* ===== verification/Xv6_Log_Crash.thy ===== *)
theory Xv6_Log_Crash
  imports Xv6_Log_Proofs
begin

text \<open>
  \<^verbatim>\<open>commit()\<close> and \<^verbatim>\<open>recover_from_log()\<close> as a whole, and the atomicity of a transaction: whatever
  prefix of the writes of a commit reaches the disk, recovery leaves either all home blocks old
  or all of them new.
\<close>

section \<open>Layout of the log\<close>

text \<open>The first \<open>n\<close> logged blocks are distinct, and neither the header nor one of the log slots.\<close>

definition log_geom :: "log \<Rightarrow> nat \<Rightarrow> bool" where
  "log_geom l n \<longleftrightarrow> 0 < lstart l \<and> lstart l + 31 < 2 ^ 31 \<and> n \<le> 29 \<and> inj_on (lh_block l) {..<n} \<and>
     (\<forall>i<n. lh_block l i \<noteq> 0 \<and> unat (lh_block l i) < 2 ^ 31 \<and>
        \<not> (lstart l \<le> int (unat (lh_block l i)) \<and> int (unat (lh_block l i)) \<le> lstart l + 30))"

lemma unat_of_int: "0 \<le> k \<Longrightarrow> k < 2 ^ 31 \<Longrightarrow> unat (of_int k :: uint) = nat k"
  by (simp add: unsigned_of_int take_bit_int_eq_self)

lemma unat_head: "log_geom l n \<Longrightarrow> unat (head_of l) = nat (lstart l)"
  by (simp add: log_geom_def head_of_def unat_of_int)

lemma unat_slot: "log_geom l n \<Longrightarrow> i < n \<Longrightarrow> unat (slot_of l i) = nat (lstart l + int i + 1)"
  unfolding slot_of_def by (rule unat_of_int) (simp_all add: log_geom_def)

lemma log_blocks:
  assumes g: "log_geom l n"
  shows "head_of l \<noteq> 0" "unat (head_of l) < 2 ^ 31"
    and "i < n \<Longrightarrow> slot_of l i \<noteq> 0" "i < n \<Longrightarrow> unat (slot_of l i) < 2 ^ 31" "i < n \<Longrightarrow> slot_of l i \<noteq> head_of l"
    and "i < n \<Longrightarrow> lh_block l i \<noteq> 0" "i < n \<Longrightarrow> unat (lh_block l i) < 2 ^ 31" "i < n \<Longrightarrow> lh_block l i \<noteq> head_of l"
    and "i < n \<Longrightarrow> j < n \<Longrightarrow> slot_of l i \<noteq> lh_block l j"
    and "inj_on (slot_of l) {..<n}" "inj_on (lh_block l) {..<n}"
proof -
  note u = unat_head [OF g] unat_slot [OF g]
  have l: "0 < lstart l" "lstart l + 31 < 2 ^ 31" "n \<le> 29" using g by (auto simp: log_geom_def)
  show "head_of l \<noteq> 0" using u(1) l by (metis unat_0 zero_less_nat_eq less_irrefl)
  show "unat (head_of l) < 2 ^ 31" using u(1) l by simp
  show "slot_of l i \<noteq> 0" if "i < n" using u(2) [OF that] l by (auto simp: unat_eq_0 [symmetric] simp del: unat_eq_0)
  show "unat (slot_of l i) < 2 ^ 31" if "i < n" using u(2) [OF that] l that by simp
  show "slot_of l i \<noteq> head_of l" if "i < n"
  proof
    assume "slot_of l i = head_of l"
    then show False using u(1) u(2) [OF that] l by simp
  qed
  show "lh_block l i \<noteq> 0" "unat (lh_block l i) < 2 ^ 31" if "i < n" using g that by (auto simp: log_geom_def)
  show "lh_block l i \<noteq> head_of l" if "i < n"
  proof
    assume "lh_block l i = head_of l"
    then have "int (unat (lh_block l i)) = lstart l" using u(1) l by simp
    then show False using g that by (auto simp: log_geom_def)
  qed
  show "slot_of l i \<noteq> lh_block l j" if "i < n" "j < n"
  proof
    assume "slot_of l i = lh_block l j"
    then have "int (unat (lh_block l j)) = lstart l + int i + 1" using u(2) [OF that(1)] l by simp
    then show False using g that by (auto simp: log_geom_def)
  qed
  show "inj_on (slot_of l) {..<n}"
  proof (rule inj_onI)
    fix i j assume "i \<in> {..<n}" "j \<in> {..<n}" "slot_of l i = slot_of l j"
    then show "i = j" using u(2) [of i] u(2) [of j] l by simp
  qed
  show "inj_on (lh_block l) {..<n}" using g by (simp add: log_geom_def)
qed

text \<open>The references while the first \<open>j\<close> of the blocks, which had \<open>g\<close> references each, lost one.\<close>

definition part :: "log \<Rightarrow> nat \<Rightarrow> uint \<Rightarrow> nat \<Rightarrow> uint \<Rightarrow> uint" where
  "part l n g j x = (if x \<in> lh_block l ` {..<j} then g - 1 else if x \<in> lh_block l ` {..<n} then g else 0)"

lemma part_card: "log_geom l n \<Longrightarrow> j \<le> n \<Longrightarrow> card {x. part l n g j x \<noteq> 0} \<le> n"
proof -
  assume "log_geom l n" "j \<le> n"
  have "{x. part l n g j x \<noteq> 0} \<subseteq> lh_block l ` {..<n}"
    using \<open>j \<le> n\<close> by (auto simp: part_def split: if_splits)
  then have "card {x. part l n g j x \<noteq> 0} \<le> card (lh_block l ` {..<n})" by (intro card_mono) auto
  also have "\<dots> \<le> card {..<n}" by (rule card_image_le) simp
  finally show ?thesis by simp
qed

lemma part_card_0: "card {x. part l n 0 j x \<noteq> 0} \<le> j"
proof -
  have "{x. part l n 0 j x \<noteq> 0} \<subseteq> lh_block l ` {..<j}" by (auto simp: part_def split: if_splits)
  then have "card {x. part l n 0 j x \<noteq> 0} \<le> card (lh_block l ` {..<j})" by (intro card_mono) auto
  also have "\<dots> \<le> card {..<j}" by (rule card_image_le) simp
  finally show ?thesis by simp
qed

lemma part_two:
  assumes g: "log_geom l n" and j: "j < n" and k: "k = 0 \<or> k = 1"
  shows "two (part l n k j) (slot_of l j) (lh_block l j)" and "part l n k j (lh_block l j) = k"
    and "(part l n k j)(lh_block l j := part l n k j (lh_block l j) - 1) = part l n k (Suc j)"
proof -
  note b = log_blocks [OF g]
  show eq: "part l n k j (lh_block l j) = k"
  proof -
    have "lh_block l j \<noteq> lh_block l i" if "i < j" for i
      using inj_onD [OF b(11), of j i] that j by auto
    then show ?thesis using j by (auto simp: part_def)
  qed
  have "part l n k j (slot_of l j) = 0" using b(9) [OF j] j by (fastforce simp: part_def)
  moreover have n: "n < NBUF" using g by (simp add: log_geom_def NBUF_def)
  moreover have "card {x. part l n k j x \<noteq> 0} < NBUF" using part_card [OF g, of j k] j n by simp
  moreover have "k = 0 \<Longrightarrow> Suc (card {x. part l n k j x \<noteq> 0}) < NBUF" using part_card_0 [of l n j] j n by simp
  moreover have "slot_of l j \<noteq> lh_block l j" using b(9) [OF j j] .
  moreover have "k \<noteq> -1" using k by auto
  ultimately show "two (part l n k j) (slot_of l j) (lh_block l j)"
    using b(3,4,6,7) [OF j] eq by (auto simp: two_def)
  show "(part l n k j)(lh_block l j := part l n k j (lh_block l j) - 1) = part l n k (Suc j)"
    using eq by (auto simp: part_def lessThan_Suc)
qed

section \<open>The two loops\<close>

lemma write_log_wp:
  assumes r: "rest p (of_nat dev) (part l n 1 0) {} s" and l: "log s dev = l" "lh_n l = int n" and g: "log_geom l n"
    and Q: "\<And>t m. rest p (of_nat dev) (part l n 1 0) {} t \<Longrightarrow>
      copies (of_nat dev) (lh_block l) (slot_of l) n m s t \<Longrightarrow> Q () t"
  shows "wp (write_log dev) Q s"
proof -
  note b = log_blocks [OF g]
  have "wp (for_upto 0 n (write_log_one dev)) Q s"
  proof (rule copy_loop [where F = "\<lambda>_. part l n 1 0" and src = "lh_block l" and dst = "slot_of l"])
    fix j t R
    assume j: "j < n" and t: "rest p (of_nat dev) (part l n 1 0) {} t" "bframe s t"
      and R: "\<And>u m. rest p (of_nat dev) (part l n 1 0) {} u \<Longrightarrow> bframe t u \<Longrightarrow> block 0 m = view t (of_nat dev) (lh_block l j) \<Longrightarrow>
        img u = blk_write (of_nat dev) (slot_of l j) m (img t) \<Longrightarrow> wtrace u = wtrace t @ [wr (of_nat dev) (slot_of l j) m] \<Longrightarrow>
        (\<And>x. x \<noteq> 0 \<Longrightarrow> view u (of_nat dev) x = (if x = slot_of l j then view t (of_nat dev) (lh_block l j) else view t (of_nat dev) x)) \<Longrightarrow>
        R () u"
    have "two (part l n 1 0) (slot_of l j) (lh_block l j)" "part l n 1 0 (lh_block l j) \<noteq> 0"
    proof -
      show "part l n 1 0 (lh_block l j) \<noteq> 0" using j by (auto simp: part_def)
      have "part l n 1 0 (slot_of l j) = 0" using b(9) [OF j] by (fastforce simp: part_def)
      moreover have "card {x. part l n 1 0 x \<noteq> 0} < NBUF"
        using part_card [OF g, of 0 1] g by (simp add: log_geom_def NBUF_def)
      moreover have "part l n 1 0 (lh_block l j) = 1" using j by (auto simp: part_def)
      ultimately show "two (part l n 1 0) (slot_of l j) (lh_block l j)"
        using b(3,4,6,7) [OF j] b(9) [OF j j] by (simp add: two_def)
    qed
    then show "wp (write_log_one dev j) R t"
      using bframe_log [OF t(2)] l(1) R by (intro write_log_one_wp [OF t(1)]) (auto simp: slot_of_def)
  next
    fix i j assume "i < n" "j < n"
    then show "lh_block l i \<noteq> slot_of l j" using b(9) [of j i] by auto
  qed (use r b Q in auto)
  then show ?thesis using l by (simp add: write_log_def get_log_def wp_simps)
qed

lemma install_trans_wp:
  assumes r: "rest p (of_nat dev) (part l n k 0) {} s" and l: "log s dev = l" "lh_n l = int n" and g: "log_geom l n"
    and k: "k = 0 \<or> k = 1"
    and Q: "\<And>t m. rest p (of_nat dev) (part l n k n) {} t \<Longrightarrow>
      copies (of_nat dev) (slot_of l) (lh_block l) n m s t \<Longrightarrow> Q () t"
  shows "wp (install_trans dev) Q s"
proof -
  note b = log_blocks [OF g]
  have "wp (for_upto 0 n (install_one dev)) Q s"
  proof (rule copy_loop [where F = "part l n k" and src = "slot_of l" and dst = "lh_block l"])
    fix j t R
    assume j: "j < n" and t: "rest p (of_nat dev) (part l n k j) {} t" "bframe s t"
      and R: "\<And>u m. rest p (of_nat dev) (part l n k (Suc j)) {} u \<Longrightarrow> bframe t u \<Longrightarrow> block 0 m = view t (of_nat dev) (slot_of l j) \<Longrightarrow>
        img u = blk_write (of_nat dev) (lh_block l j) m (img t) \<Longrightarrow> wtrace u = wtrace t @ [wr (of_nat dev) (lh_block l j) m] \<Longrightarrow>
        (\<And>x. x \<noteq> 0 \<Longrightarrow> view u (of_nat dev) x = (if x = lh_block l j then view t (of_nat dev) (slot_of l j) else view t (of_nat dev) x)) \<Longrightarrow>
        R () u"
    show "wp (install_one dev j) R t"
      using bframe_log [OF t(2)] l(1) R part_two [OF g j k]
      by (intro install_one_wp [OF t(1)]) (auto simp: slot_of_def)
  qed (use r b Q in auto)
  then show ?thesis using l by (simp add: install_trans_def get_log_def wp_simps)
qed

section \<open>Commit\<close>

text \<open>
  \<open>in_trans p dev n s\<close>: a transaction of \<open>n\<close> blocks is complete. Its blocks are cached and pinned,
  nothing else is in use, and the header on disk says that the log is empty.
\<close>

definition in_trans :: "nat \<Rightarrow> nat \<Rightarrow> nat \<Rightarrow> 'z logs_scheme \<Rightarrow> bool" where
  "in_trans p dev n s \<longleftrightarrow> rest p (of_nat dev) (part (log s dev) n 1 0) {} s \<and> lh_n (log s dev) = int n \<and>
     log_geom (log s dev) n \<and> ld32 (dblock (img s) (of_nat dev) (head_of (log s dev))) 0 = 0"

text \<open>The writes of a commit: log blocks, header, home blocks, empty header.\<close>

definition commit_writes :: "nat \<Rightarrow> log \<Rightarrow> nat \<Rightarrow> (nat \<Rightarrow> bytes) \<Rightarrow> bytes \<Rightarrow> (nat \<Rightarrow> bytes) \<Rightarrow> bytes \<Rightarrow>
    (nat \<times> nat \<times> bytes) list" where
  "commit_writes dev l n m h m' h' = wrs (of_nat dev) (slot_of l) m n @ [wr (of_nat dev) (head_of l) h] @
     wrs (of_nat dev) (lh_block l) m' n @ [wr (of_nat dev) (head_of l) h']"

lemma part_end [simp]: "part l n 1 n = (\<lambda>_. 0)"
  by (auto simp: part_def)

lemma copies_frame: "copies d src dst n m s t \<Longrightarrow> bframe s t"
  by (simp add: copies_def)

lemma copies_log: "copies d src dst n m s t \<Longrightarrow> log t = log s"
  by (rule bframe_log) (rule copies_frame)

lemma log_geom_cong: "lstart l' = lstart l \<Longrightarrow> lh_block l' = lh_block l \<Longrightarrow> log_geom l' n = log_geom l n"
  by (simp add: log_geom_def)

lemma head_write_wp:
  assumes r: "rest p (of_nat dev) f {} s" and l: "lh_n (log s dev) = int n" and g: "log_geom l N" "n \<le> 30"
      "head_of (log s dev) = head_of l"
    and f: "f (head_of l) = 0" "card {n. f n \<noteq> 0} < NBUF"
    and Q: "\<And>t m. rest p (of_nat dev) f {} t \<Longrightarrow> bframe s t \<Longrightarrow> hdr_ok m n (lh_block (log s dev)) \<Longrightarrow>
      img t = blk_write (of_nat dev) (head_of l) m (img s) \<Longrightarrow> wtrace t = wtrace s @ [wr (of_nat dev) (head_of l) m] \<Longrightarrow>
      (\<And>n. n \<noteq> 0 \<Longrightarrow> view t (of_nat dev) n = (if n = head_of l then block 0 m else view s (of_nat dev) n)) \<Longrightarrow> Q () t"
  shows "wp (write_head dev) Q s"
  using g f log_blocks [OF g(1)] by (intro write_head_wp [OF r l]) (auto intro: Q)

lemma part_0 [simp]: "part l n 0 0 = (\<lambda>_. 0)"
  by (auto simp: part_def)

lemma part_head: "log_geom l n \<Longrightarrow> j \<le> n \<Longrightarrow> part l n k j (head_of l) = 0"
proof -
  assume g: "log_geom l n" and j: "j \<le> n"
  have "head_of l \<notin> lh_block l ` {..<n}" using log_blocks(8) [OF g] by (metis imageE lessThan_iff)
  moreover have "lh_block l ` {..<j} \<subseteq> lh_block l ` {..<n}" using j by auto
  ultimately show ?thesis by (auto simp: part_def)
qed

lemma part_card_NBUF: "log_geom l n \<Longrightarrow> j \<le> n \<Longrightarrow> card {x. part l n k j x \<noteq> 0} < NBUF"
  using part_card [of l n j k] by (simp add: log_geom_def NBUF_def)

text \<open>The second half of a commit, which is also what recovery does: install, then empty the log.\<close>

lemma install_clear_wp:
  assumes r: "rest p d (part l n k 0) {} s" and l: "log s dev = l" "lh_n l = int n" and g: "log_geom l n"
    and k: "k = 0 \<or> k = 1" and d: "d = of_nat dev"
    and Q: "\<And>t m h. rest p d (part l n k n) {} t \<Longrightarrow> lframe s t \<Longrightarrow> log t = (log s)(dev := l\<lparr>lh_n := 0\<rparr>) \<Longrightarrow>
      (\<And>i. i < n \<Longrightarrow> block 0 (m i) = view s d (slot_of l i)) \<Longrightarrow> ld32 h 0 = 0 \<Longrightarrow>
      wtrace t = wtrace s @ wrs d (lh_block l) m n @ [wr d (head_of l) h] \<Longrightarrow>
      img t = replay (wrs d (lh_block l) m n @ [wr d (head_of l) h]) (img s) \<Longrightarrow> Q () t"
  shows "wp (seq (install_trans dev) (seq (set_log dev (\<lambda>l. l\<lparr>lh_n := 0\<rparr>)) (write_head dev))) Q s"
  unfolding wp_seq
proof (rule install_trans_wp [OF r [unfolded d] l g k])
  fix t m
  assume t: "rest p (of_nat dev) (part l n k n) {} t" "copies (of_nat dev) (slot_of l) (lh_block l) n m s t"
  have lt: "log t = log s" using t(2) by (rule copies_log)
  let ?t = "t\<lparr>log := (log s)(dev := l\<lparr>lh_n := 0\<rparr>)\<rparr>"
  have r': "rest p (of_nat dev) (part l n k n) {} ?t" using t(1) by simp
  have "wp (write_head dev) Q ?t"
  proof (rule head_write_wp [OF r', where n = 0 and l = l and N = n])
    fix u h
    assume u: "rest p (of_nat dev) (part l n k n) {} u" "bframe ?t u" "hdr_ok h 0 (lh_block (log ?t dev))"
      "img u = blk_write (of_nat dev) (head_of l) h (img ?t)" "wtrace u = wtrace ?t @ [wr (of_nat dev) (head_of l) h]"
    have "lframe s u"
      by (rule lframe_trans [OF bframe_lframe [OF copies_frame [OF t(2)]] lframe_trans [OF lframe_upd bframe_lframe [OF u(2)]]])
    then show "Q () u"
      using t(2) u bframe_log [OF u(2)] by (intro Q [where m = m and h = h]) (auto simp: copies_def hdr_ok_def d)
  qed (use g part_head [OF g order_refl] part_card_NBUF [OF g order_refl] in \<open>auto simp: head_of_def\<close>)
  then show "wp (set_log dev (\<lambda>l. l\<lparr>lh_n := 0\<rparr>)) (\<lambda>_. wp (write_head dev) Q) t"
    using lt l by (simp add: set_log_def wp_simps)
qed

text \<open>The first half: the blocks go to the log, then the header commits them.\<close>

lemma log_commit_wp:
  assumes r: "rest p d (part l n 1 0) {} s" and l: "log s dev = l" "lh_n l = int n" and g: "log_geom l n"
    and d: "d = of_nat dev"
    and Q: "\<And>t m h. rest p d (part l n 1 0) {} t \<Longrightarrow> bframe s t \<Longrightarrow> hdr_ok h n (lh_block l) \<Longrightarrow>
      (\<And>i. i < n \<Longrightarrow> block 0 (m i) = view s d (lh_block l i)) \<Longrightarrow>
      (\<And>i. i < n \<Longrightarrow> view t d (slot_of l i) = view s d (lh_block l i)) \<Longrightarrow>
      wtrace t = wtrace s @ wrs d (slot_of l) m n @ [wr d (head_of l) h] \<Longrightarrow>
      img t = replay (wrs d (slot_of l) m n @ [wr d (head_of l) h]) (img s) \<Longrightarrow> wp k Q t"
  shows "wp (seq (write_log dev) (seq (write_head dev) k)) Q s"
  unfolding wp_seq
proof (rule write_log_wp [OF r [unfolded d] l g])
  fix t m
  assume t: "rest p (of_nat dev) (part l n 1 0) {} t" "copies (of_nat dev) (lh_block l) (slot_of l) n m s t"
  have lt: "log t = log s" using t(2) by (rule copies_log)
  show "wp (write_head dev) (\<lambda>_. wp k Q) t"
  proof (rule head_write_wp [OF t(1) _ g])
    fix u h
    assume u: "rest p (of_nat dev) (part l n 1 0) {} u" "bframe t u" "hdr_ok h n (lh_block (log t dev))"
      "img u = blk_write (of_nat dev) (head_of l) h (img t)" "wtrace u = wtrace t @ [wr (of_nat dev) (head_of l) h]"
      and vu: "\<And>n. n \<noteq> 0 \<Longrightarrow> view u (of_nat dev) n = (if n = head_of l then block 0 h else view t (of_nat dev) n)"
    have "view u d (slot_of l i) = view s d (lh_block l i)" if i: "i < n" for i
      using t(2) vu [OF log_blocks(3) [OF g i]] log_blocks(5) [OF g i] i by (simp add: copies_def d)
    then show "wp k Q u"
      using t(2) u lt l bframe_trans [OF copies_frame [OF t(2)] u(2)]
      by (intro Q [where m = m and h = h]) (auto simp: copies_def d)
  qed (use lt l g part_head [OF g] part_card_NBUF [OF g] in \<open>auto simp: log_geom_def\<close>)
qed

lemma commit_run:
  assumes t: "in_trans p dev n s" and n: "0 < n"
  defines "l \<equiv> log s dev" and "d \<equiv> of_nat dev"
  shows "\<exists>u m h m' h'. commit dev s = Ok () u \<and> rest p d (\<lambda>_. 0) {} u \<and> lframe s u \<and>
    log u = (log s)(dev := l\<lparr>lh_n := 0\<rparr>) \<and>
    wtrace u = wtrace s @ commit_writes dev l n m h m' h' \<and> img u = replay (commit_writes dev l n m h m' h') (img s) \<and>
    (\<forall>i<n. block 0 (m i) = view s d (lh_block l i)) \<and> (\<forall>i<n. block 0 (m' i) = view s d (lh_block l i)) \<and>
    hdr_ok h n (lh_block l) \<and> ld32 h' 0 = 0"
proof -
  have g: "log_geom l n" and r: "rest p d (part l n 1 0) {} s" and ln: "lh_n l = int n" "log s dev = l"
    using t by (auto simp: in_trans_def l_def d_def)
  let ?P = "\<lambda>u. \<exists>m h m' h'. rest p d (\<lambda>_. 0) {} u \<and> lframe s u \<and> log u = (log s)(dev := l\<lparr>lh_n := 0\<rparr>) \<and>
    wtrace u = wtrace s @ commit_writes dev l n m h m' h' \<and> img u = replay (commit_writes dev l n m h m' h') (img s) \<and>
    (\<forall>i<n. block 0 (m i) = view s d (lh_block l i)) \<and> (\<forall>i<n. block 0 (m' i) = view s d (lh_block l i)) \<and>
    hdr_ok h n (lh_block l) \<and> ld32 h' 0 = 0"
  have "wp (seq (write_log dev) (seq (write_head dev) (seq (install_trans dev)
       (seq (set_log dev (\<lambda>l. l\<lparr>lh_n := 0\<rparr>)) (write_head dev))))) (\<lambda>_. ?P) s"
  proof (rule log_commit_wp [OF r ln(2,1) g d_def [THEN meta_eq_to_obj_eq]])
    fix s1 m h
    assume s1: "rest p d (part l n 1 0) {} s1" "bframe s s1" "hdr_ok h n (lh_block l)"
      "\<And>i. i < n \<Longrightarrow> block 0 (m i) = view s d (lh_block l i)"
      "\<And>i. i < n \<Longrightarrow> view s1 d (slot_of l i) = view s d (lh_block l i)"
      "wtrace s1 = wtrace s @ wrs d (slot_of l) m n @ [wr d (head_of l) h]"
      "img s1 = replay (wrs d (slot_of l) m n @ [wr d (head_of l) h]) (img s)"
    have l1: "log s1 = log s" using s1(2) by (rule bframe_log)
    show "wp (seq (install_trans dev) (seq (set_log dev (\<lambda>l. l\<lparr>lh_n := 0\<rparr>)) (write_head dev))) (\<lambda>_. ?P) s1"
    proof (rule install_clear_wp [OF s1(1) _ ln(1) g _ d_def [THEN meta_eq_to_obj_eq]])
      fix u m' h'
      assume u: "rest p d (part l n 1 n) {} u" "lframe s1 u" "log u = (log s1)(dev := l\<lparr>lh_n := 0\<rparr>)"
        "\<And>i. i < n \<Longrightarrow> block 0 (m' i) = view s1 d (slot_of l i)" "ld32 h' 0 = 0"
        "wtrace u = wtrace s1 @ wrs d (lh_block l) m' n @ [wr d (head_of l) h']"
        "img u = replay (wrs d (lh_block l) m' n @ [wr d (head_of l) h']) (img s1)"
      have "lframe s u" using bframe_lframe [OF s1(2)] u(2) by (rule lframe_trans)
      then show "?P u"
        using s1 u l1 by (intro exI [of _ m] exI [of _ h] exI [of _ m'] exI [of _ h'])
          (simp add: commit_writes_def d_def)
    qed (use l1 ln in auto)
  qed
  then show ?thesis using n ln by (simp add: commit_def get_log_def whenM_def wp_iff)
qed

section \<open>Recovery\<close>

lemma wrs_dst_cong: "(\<And>i. i < n \<Longrightarrow> dst i = dst' i) \<Longrightarrow> wrs d dst m n = wrs d dst' m n"
  by (simp add: wrs_def)

lemma log_geom_cong': "lstart l' = lstart l \<Longrightarrow> (\<And>i. i < n \<Longrightarrow> lh_block l' i = lh_block l i) \<Longrightarrow>
  log_geom l' n = log_geom l n"
  unfolding log_geom_def inj_on_def by auto

lemma recover_run:
  assumes r: "rest p d (\<lambda>_. 0) {} u" and g: "log_geom l n" and ls: "lstart (log u dev) = lstart l"
    and h: "hdr_ok (dblock (img u) d (head_of l)) n (lh_block l)" and d: "d = of_nat dev"
  shows "\<exists>v m h'. recover_from_log dev u = Ok () v \<and> rest p d (part l n 0 n) {} v \<and> lframe u v \<and> lh_n (log v dev) = 0 \<and>
    (\<forall>i<n. block 0 (m i) = dblock (img u) d (slot_of l i)) \<and> ld32 h' 0 = 0 \<and>
    wtrace v = wtrace u @ wrs d (lh_block l) m n @ [wr d (head_of l) h'] \<and>
    img v = replay (wrs d (lh_block l) m n @ [wr d (head_of l) h']) (img u)"
proof -
  note b = log_blocks [OF g]
  have hd: "head_of l = head_of (log u dev)" using ls by (simp add: head_of_def)
  have n: "n \<le> 30" using g by (simp add: log_geom_def)
  let ?P = "\<lambda>v. \<exists>m h'. rest p d (part l n 0 n) {} v \<and> lframe u v \<and> lh_n (log v dev) = 0 \<and>
    (\<forall>i<n. block 0 (m i) = dblock (img u) d (slot_of l i)) \<and> ld32 h' 0 = 0 \<and>
    wtrace v = wtrace u @ wrs d (lh_block l) m n @ [wr d (head_of l) h'] \<and>
    img v = replay (wrs d (lh_block l) m n @ [wr d (head_of l) h']) (img u)"
  have hv: "hdr_ok (view u d (head_of l)) n (lh_block l)" using h rest_clean [OF r] by simp
  have "wp (recover_from_log dev) (\<lambda>_. ?P) u"
    unfolding recover_from_log_def wp_seq [of "read_head dev"]
  proof (rule read_head_wp [OF r [unfolded d] hv [unfolded d] n hd b(1,2)])
    fix s1 B
    assume s1: "rest p (of_nat dev) (\<lambda>_. 0) {} s1" "lframe u s1" "\<And>i. i < n \<Longrightarrow> B i = lh_block l i"
      "log s1 = (log u)(dev := (log u dev)\<lparr>lh_n := int n, lh_block := B\<rparr>)" "img s1 = img u" "wtrace s1 = wtrace u"
    let ?l = "(log u dev)\<lparr>lh_n := int n, lh_block := B\<rparr>"
    have l1: "slot_of ?l = slot_of l" "log_geom ?l n" "head_of ?l = head_of l"
      using ls g s1(3) log_geom_cong' [of ?l l n] by (auto simp: slot_of_def head_of_def)
    have prt: "part ?l n 0 n = part l n 0 n" using s1(3) by (auto simp: part_def image_iff)
    have dst: "wrs d (lh_block ?l) m n = wrs d (lh_block l) m n" for m
      by (rule wrs_dst_cong) (simp add: s1(3))
    have r1: "rest p d (part ?l n 0 0) {} s1" using s1(1) d by simp
    show "wp (seq (install_trans dev) (seq (set_log dev (\<lambda>l. l\<lparr>lh_n := 0\<rparr>)) (write_head dev))) (\<lambda>_. ?P) s1"
    proof (rule install_clear_wp [OF r1 _ _ l1(2) _ d])
      fix v m h'
      assume v: "rest p d (part ?l n 0 n) {} v" "lframe s1 v" "log v = (log s1)(dev := ?l\<lparr>lh_n := 0\<rparr>)"
        "\<And>i. i < n \<Longrightarrow> block 0 (m i) = view s1 d (slot_of ?l i)" "ld32 h' 0 = 0"
        "wtrace v = wtrace s1 @ wrs d (lh_block ?l) m n @ [wr d (head_of ?l) h']"
        "img v = replay (wrs d (lh_block ?l) m n @ [wr d (head_of ?l) h']) (img s1)"
      have "lframe u v" using s1(2) v(2) by (rule lframe_trans)
      then show "?P v"
        using v s1(5,6) prt dst l1 rest_clean [OF s1(1)] d by (intro exI [of _ m] exI [of _ h']) simp
    qed (use s1(4) in auto)
  qed (auto simp: NBUF_def)
  then obtain x v where "recover_from_log dev u = Ok x v" "?P v" by (rule wpE)
  then show ?thesis by (intro exI [of _ v]) simp
qed

section \<open>Atomicity\<close>

lemma dblock_wrs_other:
  "(\<And>i. i < n \<Longrightarrow> dst i \<noteq> x) \<Longrightarrow> dblock (replay (wrs d dst m n) I) d x = dblock I d x"
  by (induction n) (simp_all add: wrs_Suc dblock_write)

lemma dblock_wrs:
  assumes "inj_on dst {..<n}" and "i < n"
  shows "dblock (replay (wrs d dst m n) I) d (dst i) = block 0 (m i)"
  using assms
proof (induction n)
  case (Suc n)
  have inj: "inj_on dst {..<n}" using Suc.prems(1) by (rule inj_on_subset) auto
  show ?case
  proof (cases "i = n")
    case False
    then have "dst n \<noteq> dst i" using Suc.prems inj_onD [OF Suc.prems(1), of n i] by auto
    then show ?thesis using Suc False inj by (simp add: wrs_Suc dblock_write)
  qed (simp add: wrs_Suc dblock_write)
qed simp

text \<open>What a block outside the log holds: before the commit, and after it.\<close>

definition old_block :: "nat \<Rightarrow> 'z logs_scheme \<Rightarrow> uint \<Rightarrow> bytes" where
  "old_block dev s x = dblock (img s) (of_nat dev) x"

definition new_block :: "nat \<Rightarrow> nat \<Rightarrow> 'z logs_scheme \<Rightarrow> uint \<Rightarrow> bytes" where
  "new_block dev n s x = (if x \<in> lh_block (log s dev) ` {..<n} then view s (of_nat dev) x
     else dblock (img s) (of_nat dev) x)"

definition in_log :: "log \<Rightarrow> nat \<Rightarrow> uint \<Rightarrow> bool" where
  "in_log l n x \<longleftrightarrow> x = head_of l \<or> x \<in> slot_of l ` {..<n}"

text \<open>
  \<open>recovers dev n s I F\<close>: from any freshly booted state (empty cache) whose disk is \<open>I\<close> and whose
  log is where it was in \<open>s\<close>, recovery succeeds and block \<open>x\<close> outside the log then is \<open>F x\<close>, on disk.
\<close>

definition recovers :: "nat \<Rightarrow> nat \<Rightarrow> 'z logs_scheme \<Rightarrow> (nat \<Rightarrow> bytes) \<Rightarrow> (uint \<Rightarrow> bytes) \<Rightarrow> bool" where
  "recovers dev n s I F \<longleftrightarrow> (\<forall>p (u :: 'z logs_scheme).
     rest p (of_nat dev) (\<lambda>_. 0) {} u \<longrightarrow> img u = I \<longrightarrow> lstart (log u dev) = lstart (log s dev) \<longrightarrow>
       (\<exists>v. recover_from_log dev u = Ok () v \<and>
         (\<forall>x. \<not> in_log (log s dev) n x \<longrightarrow> dblock (img v) (of_nat dev) x = F x)))"

lemma recovers_empty:
  assumes g: "log_geom l n" and h: "ld32 (dblock I (of_nat dev) (head_of l)) 0 = 0"
    and F: "\<And>x. \<not> in_log l n x \<Longrightarrow> dblock I (of_nat dev) x = F x"
    and l: "log s dev = l"
  shows "recovers dev n s I F"
  unfolding recovers_def l
proof (intro allI impI)
  fix p and u :: "'a logs_scheme"
  assume u: "rest p (of_nat dev) (\<lambda>_. 0) {} u" "img u = I" "lstart (log u dev) = lstart l"
  have "log_geom l 0" using g by (simp add: log_geom_def)
  moreover have "hdr_ok (dblock (img u) (of_nat dev) (head_of l)) 0 (lh_block l)" using h u(2) by (simp add: hdr_ok_def)
  ultimately obtain v h' where "recover_from_log dev u = Ok () v" "img v = blk_write (of_nat dev) (head_of l) h' I"
    using recover_run [OF u(1) _ u(3)] u(2) by fastforce
  then show "\<exists>v. recover_from_log dev u = Ok () v \<and> (\<forall>x. \<not> in_log l n x \<longrightarrow> dblock (img v) (of_nat dev) x = F x)"
    using F by (auto simp: dblock_write in_log_def)
qed

lemma recovers_full:
  assumes g: "log_geom l n" and h: "hdr_ok (dblock I (of_nat dev) (head_of l)) n (lh_block l)"
    and F: "\<And>x. \<not> in_log l n x \<Longrightarrow> x \<notin> lh_block l ` {..<n} \<Longrightarrow> dblock I (of_nat dev) x = F x"
    and S: "\<And>i. i < n \<Longrightarrow> dblock I (of_nat dev) (slot_of l i) = F (lh_block l i)"
    and l: "log s dev = l"
  shows "recovers dev n s I F"
  unfolding recovers_def l
proof (intro allI impI)
  fix p and u :: "'a logs_scheme"
  assume u: "rest p (of_nat dev) (\<lambda>_. 0) {} u" "img u = I" "lstart (log u dev) = lstart l"
  let ?d = "of_nat dev :: uint"
  have h': "hdr_ok (dblock (img u) ?d (head_of l)) n (lh_block l)" using h u(2) by simp
  obtain v m h' where v: "recover_from_log dev u = Ok () v" "\<forall>i<n. block 0 (m i) = dblock I ?d (slot_of l i)"
    "img v = blk_write ?d (head_of l) h' (replay (wrs ?d (lh_block l) m n) I)"
    using recover_run [OF u(1) g u(3) h' refl] u(2) by auto
  have "dblock (img v) ?d x = F x" if x: "\<not> in_log l n x" for x
  proof (cases "x \<in> lh_block l ` {..<n}")
    case True
    then obtain i where i: "i < n" "x = lh_block l i" by auto
    have "dblock (replay (wrs ?d (lh_block l) m n) I) ?d x = block 0 (m i)"
      unfolding i(2) by (rule dblock_wrs [OF log_blocks(11) [OF g] i(1)])
    then show ?thesis using v S i x by (auto simp: dblock_write in_log_def)
  next
    case False
    then have "dblock (replay (wrs ?d (lh_block l) m n) I) ?d x = dblock I ?d x"
      by (intro dblock_wrs_other) auto
    then show ?thesis using v F [OF x False] x by (auto simp: dblock_write in_log_def)
  qed
  then show "\<exists>v. recover_from_log dev u = Ok () v \<and> (\<forall>x. \<not> in_log l n x \<longrightarrow> dblock (img v) ?d x = F x)"
    using v(1) by blast
qed

text \<open>The disk when the log, the header and the first \<open>j\<close> home blocks have been written.\<close>

definition installing :: "nat \<Rightarrow> log \<Rightarrow> nat \<Rightarrow> (nat \<Rightarrow> bytes) \<Rightarrow> bytes \<Rightarrow> (nat \<Rightarrow> bytes) \<Rightarrow> nat \<Rightarrow>
    (nat \<Rightarrow> bytes) \<Rightarrow> nat \<Rightarrow> bytes" where
  "installing dev l n m h m' j I = replay (wrs (of_nat dev) (lh_block l) m' j)
     (blk_write (of_nat dev) (head_of l) h (replay (wrs (of_nat dev) (slot_of l) m n) I))"

lemma installing_blocks:
  fixes I :: "nat \<Rightarrow> bytes" and m m' :: "nat \<Rightarrow> bytes" and h :: bytes and dev :: nat
  assumes g: "log_geom l n" and j: "j \<le> n"
  defines "J \<equiv> installing dev l n m h m' j I" and "d \<equiv> of_nat dev"
  shows "\<not> in_log l n x \<Longrightarrow> x \<notin> lh_block l ` {..<n} \<Longrightarrow> dblock J d x = dblock I d x"
    and "dblock J d (head_of l) = block 0 h"
    and "i < n \<Longrightarrow> dblock J d (slot_of l i) = block 0 (m i)"
    and "j = n \<Longrightarrow> i < n \<Longrightarrow> dblock J d (lh_block l i) = block 0 (m' i)"
proof -
  note b = log_blocks [OF g]
  let ?I = "replay (wrs d (slot_of l) m n) I"
  have J: "J = replay (wrs d (lh_block l) m' j) (blk_write d (head_of l) h ?I)"
    by (simp add: J_def d_def installing_def)
  have other: "dblock J d y = dblock (blk_write d (head_of l) h ?I) d y" if "y \<notin> lh_block l ` {..<n}" for y
    unfolding J using j that by (intro dblock_wrs_other) auto
  show "dblock J d x = dblock I d x" if "\<not> in_log l n x" "x \<notin> lh_block l ` {..<n}"
  proof -
    have "dblock ?I d x = dblock I d x" using that(1) by (intro dblock_wrs_other) (auto simp: in_log_def)
    then show ?thesis using other [OF that(2)] that(1) by (auto simp: dblock_write in_log_def)
  qed
  have "head_of l \<notin> lh_block l ` {..<n}" using b(8) by (metis imageE lessThan_iff)
  then show "dblock J d (head_of l) = block 0 h" using other by (simp add: dblock_write)
  show "dblock J d (slot_of l i) = block 0 (m i)" if "i < n"
  proof -
    have "slot_of l i \<notin> lh_block l ` {..<n}" using b(9) [OF that] by (metis imageE lessThan_iff)
    then show ?thesis using other b(5) [OF that] dblock_wrs [OF b(10) that] by (simp add: dblock_write)
  qed
  show "dblock J d (lh_block l i) = block 0 (m' i)" if "j = n" "i < n"
    unfolding J that(1) by (rule dblock_wrs [OF b(11) that(2)])
qed

lemma recovers_installing:
  assumes g: "log_geom (log s dev) n" and j: "j \<le> n" and h: "hdr_ok h n (lh_block (log s dev))"
    and m: "\<forall>i<n. block 0 (m i) = view s (of_nat dev) (lh_block (log s dev) i)"
  shows "recovers dev n s (installing dev (log s dev) n m h m' j (img s)) (new_block dev n s)"
proof (rule recovers_full [OF g _ _ _ refl])
  note i = installing_blocks [OF g j]
  have "n \<le> 30" using g by (simp add: log_geom_def)
  then show "hdr_ok (dblock (installing dev (log s dev) n m h m' j (img s)) (of_nat dev) (head_of (log s dev)))
      n (lh_block (log s dev))"
    using h by (simp add: i(2) hdr_block)
qed (use installing_blocks [OF g j] m in \<open>auto simp: new_block_def\<close>)

lemma recovers_installed:
  assumes g: "log_geom (log s dev) n" and h: "ld32 h' 0 = 0"
    and m: "\<forall>i<n. block 0 (m' i) = view s (of_nat dev) (lh_block (log s dev) i)"
  shows "recovers dev n s (blk_write (of_nat dev) (head_of (log s dev)) h'
     (installing dev (log s dev) n m h m' n (img s))) (new_block dev n s)"
proof (rule recovers_empty [OF g _ _ refl])
  note i = installing_blocks [OF g order_refl]
  show "ld32 (dblock (blk_write (of_nat dev) (head_of (log s dev)) h'
      (installing dev (log s dev) n m h m' n (img s))) (of_nat dev) (head_of (log s dev))) 0 = 0"
    using h by (simp add: dblock_write ld32_block BSIZE_def)
  fix x assume x: "\<not> in_log (log s dev) n x"
  then have "x \<noteq> head_of (log s dev)" by (simp add: in_log_def)
  then show "dblock (blk_write (of_nat dev) (head_of (log s dev)) h'
      (installing dev (log s dev) n m h m' n (img s))) (of_nat dev) x = new_block dev n s x"
    using i(1) [OF x] i(4) m by (cases "x \<in> lh_block (log s dev) ` {..<n}") (auto simp: dblock_write new_block_def)
qed

lemma commit_crash:
  assumes t: "in_trans p dev n s" and n: "0 < n"
    and m: "\<forall>i<n. block 0 (m i) = view s (of_nat dev) (lh_block (log s dev) i)"
      "\<forall>i<n. block 0 (m' i) = view s (of_nat dev) (lh_block (log s dev) i)"
    and h: "hdr_ok h n (lh_block (log s dev))" "ld32 h' 0 = 0"
    and W: "W = commit_writes dev (log s dev) n m h m' h'" and k: "k \<le> length W"
  shows "recovers dev n s (replay (take k W) (img s)) (if k \<le> n then old_block dev s else new_block dev n s)"
proof -
  let ?d = "of_nat dev :: uint" and ?l = "log s dev"
  have g: "log_geom ?l n" and hd: "ld32 (dblock (img s) ?d (head_of ?l)) 0 = 0" using t by (auto simp: in_trans_def)
  have "length W = 2 * n + 2" using W by (simp add: commit_writes_def)
  then have "k \<le> n \<or> (\<exists>j. k = n + 1 + j \<and> j \<le> n) \<or> k = 2 * n + 2" using k by presburger
  then consider "k \<le> n" | j where "k = n + 1 + j" "j \<le> n" | "k = 2 * n + 2" by blast
  then show ?thesis
  proof cases
    case 1
    have I: "dblock (replay (take k W) (img s)) ?d x = dblock (img s) ?d x" if "x \<notin> slot_of ?l ` {..<n}" for x
      using 1 that unfolding W commit_writes_def by (simp add: take_wrs) (rule dblock_wrs_other, auto)
    have "head_of ?l \<notin> slot_of ?l ` {..<n}" using log_blocks(5) [OF g] by (metis imageE lessThan_iff)
    then have "recovers dev n s (replay (take k W) (img s)) (old_block dev s)"
      using I hd by (intro recovers_empty [OF g]) (auto simp: old_block_def in_log_def)
    then show ?thesis using 1 by simp
  next
    case (2 j)
    have "replay (take k W) (img s) = installing dev ?l n m h m' j (img s)"
      unfolding W commit_writes_def 2 using 2(2) by (simp add: take_wrs installing_def)
    then show ?thesis using 2 recovers_installing [OF g 2(2) h(1) m(1), of m'] by simp
  next
    case 3
    have "replay (take k W) (img s) = blk_write ?d (head_of ?l) h' (installing dev ?l n m h m' n (img s))"
      unfolding W commit_writes_def 3 by (simp add: installing_def)
    then show ?thesis using 3 recovers_installed [OF g h(2) m(2), of m h] by simp
  qed
qed

definition crash_atomic :: "nat \<Rightarrow> nat \<Rightarrow> 'z logs_scheme \<Rightarrow> (nat \<times> nat \<times> bytes) list \<Rightarrow> bool" where
  "crash_atomic dev n s W \<longleftrightarrow> length W = 2 * n + 2 \<and>
     (\<forall>k\<le>length W. recovers dev n s (replay (take k W) (img s)) (if k \<le> n then old_block dev s else new_block dev n s))"

section \<open>An example\<close>

text \<open>The cache as \<^verbatim>\<open>binit()\<close> leaves it, with block 40 of disk 0 in buffer 0, changed and pinned.\<close>

definition cache0 :: "nat \<Rightarrow> buf" where
  "cache0 i = buf0\<lparr>bnext := (if i = 0 then 30 else i - 1), bprev := (if i = 30 then 0 else i + 1),
     blockno := (if i = 0 then 40 else 0), valid := (i = 0), refcnt := (if i = 0 then 1 else 0),
     bdata := (if i = 0 then (\<lambda>_. 7) else (\<lambda>_. 0))\<rparr>"

lemma seg_down: "(\<And>i. f i = (if i = 0 then m else i - 1)) \<Longrightarrow> seg f k (rev [0..<k]) m"
  by (induction k) simp_all

lemma seg_up:
  assumes "k < n" and "\<And>i. k \<le> i \<Longrightarrow> i < n \<Longrightarrow> f i = Suc i"
  shows "seg f k [Suc k..<n] n"
  using assms
proof (induction "n - k" arbitrary: k)
  case (Suc j)
  show ?case
  proof (cases "Suc k = n")
    case False
    then have "seg f (Suc k) [Suc (Suc k)..<n] n" using Suc by auto
    then show ?thesis using False Suc.prems by (simp add: upt_conv_Cons [of "Suc k"])
  qed (use Suc.prems in auto)
qed simp

lemma cache0_lru: "lru_list cache0 (rev [0..<NBUF])"
proof -
  have "seg (\<lambda>i. bnext (cache0 i)) 30 (rev [0..<30]) 30"
    by (rule seg_down) (simp add: cache0_def)
  moreover have "seg (\<lambda>i. bprev (cache0 i)) 0 [Suc 0..<30] 30"
    by (rule seg_up) (simp_all add: cache0_def)
  then have "seg (\<lambda>i. bprev (cache0 i)) 30 [0..<30] 30"
    by (simp add: upt_conv_Cons [of 0] cache0_def)
  ultimately show ?thesis by (auto simp: lru_list_def dlist_def NBUF_def)
qed

definition logs0 :: logs where
  "logs0 = vdisk.extend (vdisk0\<lparr>bufs := cache0\<rparr>) \<lparr>log = (\<lambda>_. \<lparr>lstart = 2, lsize = 30, outstanding = 0, committing = True,
     ldev = 0, lh_n = 1, lh_block = (\<lambda>_. 40)\<rparr>)\<rparr>"

lemma logs0_fields [simp]:
  "hw logs0 = hart0" "proc logs0 = (\<lambda>_. proc0)" "bufs logs0 = cache0" "vd logs0 = (\<lambda>_. disk0)"
  "img logs0 = (\<lambda>_ _. 0)" "\<not> sl_locked (slk logs0 l)" "wtrace logs0 = []"
  "log logs0 = (\<lambda>_. \<lparr>lstart = 2, lsize = 30, outstanding = 0, committing = True, ldev = 0, lh_n = 1, lh_block = (\<lambda>_. 40)\<rparr>)"
  by (simp_all add: logs0_def vdisk.extend_def vdisk0_def)

lemma logs0_in_trans: "in_trans 0 0 1 logs0"
proof -
  have u: "buf_uniq cache0" by (simp add: buf_uniq_def cache0_def)
  have "slot cache0 0 40 = Some 0"
    by (rule slot_Some [OF u]) (simp_all add: NBUF_def holds_def cache0_def buf0_def)
  then have "pins 0 (part (log logs0 0) 1 1 0) {} logs0"
    by (auto simp: pins_def part_def cache0_def buf0_def)
  moreover have "bio_inv logs0"
    using cache0_lru u by (auto simp: bio_inv_def buf_ok_def cache0_def buf0_def)
  moreover have "running 0 logs0" by (rule hart0_running) simp_all
  moreover have "ld32 (dblock (\<lambda>_ _. 0) 0 2) 0 = 0"
    by (simp add: dblock_def block_def ld32_def get_le_def)
  ultimately show ?thesis
    by (simp add: in_trans_def rest_def log_geom_def head_of_def inj_on_def)
qed

text \<open>
  C1: A commit of a transaction of n blocks succeeds, issues 2n + 2 disk writes, and is atomic with
  respect to crashes: if the machine stops after any k of these writes, recovery at the next boot
  succeeds and leaves every block outside the log as it was before the transaction when k <= n, and
  as the transaction left it when k > n. After the commit the log is empty and nothing is pinned.
\<close>

theorem commit_atomic:
  assumes "in_trans p dev n s" and "0 < n"
  shows "\<exists>t W. commit dev s = Ok () t \<and> wtrace t = wtrace s @ W \<and> img t = replay W (img s) \<and>
    crash_atomic dev n s W \<and> lh_n (log t dev) = 0 \<and> rest p (of_nat dev) (\<lambda>_. 0) {} t"
proof -
  obtain t m h m' h' where t: "commit dev s = Ok () t" "rest p (of_nat dev) (\<lambda>_. 0) {} t"
      "log t = (log s)(dev := (log s dev)\<lparr>lh_n := 0\<rparr>)"
      "wtrace t = wtrace s @ commit_writes dev (log s dev) n m h m' h'"
      "img t = replay (commit_writes dev (log s dev) n m h m' h') (img s)"
    and m: "\<forall>i<n. block 0 (m i) = view s (of_nat dev) (lh_block (log s dev) i)"
      "\<forall>i<n. block 0 (m' i) = view s (of_nat dev) (lh_block (log s dev) i)"
      "hdr_ok h n (lh_block (log s dev))" "ld32 h' 0 = 0"
    using commit_run [OF assms] by blast
  have "crash_atomic dev n s (commit_writes dev (log s dev) n m h m' h')"
    unfolding crash_atomic_def using commit_crash [OF assms m refl] by (simp add: commit_writes_def)
  then show ?thesis using t by auto
qed

theorem commit_atomic_witness:
  "\<exists>t W. commit 0 logs0 = Ok () t \<and> wtrace t = wtrace logs0 @ W \<and> img t = replay W (img logs0) \<and>
     crash_atomic 0 1 logs0 W \<and> lh_n (log t 0) = 0 \<and> rest 0 0 (\<lambda>_. 0) {} t"
  using commit_atomic [OF logs0_in_trans] by simp

lemma get_le_shift: "get_le w (\<lambda>x. m (b + x)) a = get_le w m (b + a)"
  by (induction w arbitrary: a) (simp_all add: add.assoc)

lemma ld32_block_at: "a + 4 \<le> BSIZE \<Longrightarrow> ld32 (block base m) a = ld32 m (base + a)"
proof -
  assume "a + 4 \<le> BSIZE"
  then have "ld32 (block base m) a = ld32 (\<lambda>x. m (base + x)) a"
    by (intro ld_cong) (simp add: block_def)
  then show ?thesis by (simp add: ld32_def get_le_shift)
qed

text \<open>The machine of the example at boot, with a crash after the header was written.\<close>

definition boot0 :: logs where
  "boot0 = logs0\<lparr>bufs := (\<lambda>i. (cache0 i)\<lparr>blockno := 0, valid := False, refcnt := 0\<rparr>),
     img := (\<lambda>_. st32 2052 40 (st32 2048 1 (\<lambda>_. 0)))\<rparr>"

lemma boot0_rest: "rest 0 0 (\<lambda>_. 0) {} boot0"
proof -
  have "lru_list (bufs boot0) (rev [0..<NBUF])"
    using cache0_lru by (rule lru_list_cong) (simp_all add: boot0_def)
  moreover have "pins 0 (\<lambda>_. 0) {} boot0" by (simp add: pins_def boot0_def)
  moreover have "running 0 boot0" by (rule hart0_running) (simp_all add: boot0_def)
  ultimately show ?thesis
    by (auto simp: rest_def bio_inv_def buf_uniq_def buf_ok_def boot0_def)
qed

text \<open>
  C21: Recovery of a committed log of n blocks installs every one of them, but it also unpins
  buffers that nothing pinned: after it the reference count of each recovered block is 2^32 - 1.
\<close>

theorem recover_refcnt_wraps:
  assumes "rest p (of_nat dev) (\<lambda>_. 0) {} u" and "log_geom l n" and "lstart (log u dev) = lstart l"
    and "hdr_ok (dblock (img u) (of_nat dev) (head_of l)) n (lh_block l)" and "i < n"
  shows "\<exists>v. recover_from_log dev u = Ok () v \<and>
    dblock (img v) (of_nat dev) (lh_block l i) = dblock (img u) (of_nat dev) (slot_of l i) \<and>
    unat (refs (bufs v) (of_nat dev) (lh_block l i)) = 2 ^ 32 - 1"
proof -
  let ?d = "of_nat dev :: uint"
  obtain v m h where v: "recover_from_log dev u = Ok () v" "rest p ?d (part l n 0 n) {} v"
      "block 0 (m i) = dblock (img u) ?d (slot_of l i)"
      "img v = replay (wrs ?d (lh_block l) m n @ [wr ?d (head_of l) h]) (img u)"
    using recover_run [OF assms(1-4) refl] assms(5) by blast
  have "refs (bufs v) ?d (lh_block l i) = -1"
    using pins_refs [OF restD(3) [OF v(2)]] assms(5) by (simp add: part_def)
  moreover have "dblock (img v) ?d (lh_block l i) = block 0 (m i)"
    using v(4) dblock_wrs [OF log_blocks(11) [OF assms(2)] assms(5)] log_blocks(8) [OF assms(2,5)]
    by (simp add: dblock_write)
  moreover have "unat (-1 :: uint) = 2 ^ 32 - 1" by (simp add: unsigned_minus_1_eq_mask mask_eq_exp_minus_1)
  ultimately show ?thesis using v(1,3) by (intro exI [of _ v]) simp
qed

theorem recover_refcnt_wraps_witness:
  "\<exists>v. recover_from_log 0 boot0 = Ok () v \<and>
    dblock (img v) 0 40 = dblock (img boot0) 0 3 \<and> unat (refs (bufs v) 0 40) = 2 ^ 32 - 1"
proof -
  let ?l = "log logs0 0"
  have "log_geom ?l 1" using logs0_in_trans by (simp add: in_trans_def)
  moreover have "hdr_ok (dblock (img boot0) 0 (head_of ?l)) 1 (lh_block ?l)"
    by (simp add: hdr_ok_def dblock_def head_of_def ld32_block_at BSIZE_def boot0_def le_simps)
  moreover have "lstart (log boot0 0) = lstart ?l" by (simp add: boot0_def)
  ultimately show ?thesis
    using recover_refcnt_wraps [of 0 0 boot0 ?l 1 0] boot0_rest by (simp add: slot_of_def)
qed

end
