(* ===== verification/Xv6_Ring.thy ===== *)
theory Xv6_Ring
  imports Xv6_Prelude
begin

text \<open>
  Ring buffers with running indices, as \<^verbatim>\<open>kernel/pipe.c\<close> and \<^verbatim>\<open>kernel/console.c\<close> use them: the indices
  are 32-bit counters that are never reduced, and a slot is a counter modulo the capacity. The
  contents are right across the wrap-around of the counters because the capacity divides \<open>2^32\<close>.
\<close>

definition ring_list :: "nat \<Rightarrow> (nat \<Rightarrow> byte) \<Rightarrow> uint \<Rightarrow> uint \<Rightarrow> byte list" where
  "ring_list cap d r w = map (\<lambda>i. d (unat (r + of_nat i) mod cap)) [0..<unat (w - r)]"

definition ring_ok :: "nat \<Rightarrow> uint \<Rightarrow> uint \<Rightarrow> bool" where
  "ring_ok cap r w \<longleftrightarrow> unat (w - r) \<le> cap"

lemma length_ring_list [simp]: "length (ring_list cap d r w) = unat (w - r)"
  by (simp add: ring_list_def)

lemma unat_diff_0: "unat (w - r :: uint) = 0 \<longleftrightarrow> r = w"
  by (auto simp: unat_eq_0)

lemma unat_diff_Suc: "(w :: uint) \<noteq> r \<Longrightarrow> unat (w - (r + 1)) = unat (w - r) - 1"
  using unat_minus_one [of "w - r"] by (simp add: algebra_simps)

lemma unat_plus: "unat a + unat b < 2 ^ 32 \<Longrightarrow> unat (a + b :: uint) = unat a + unat b"
  by (simp add: unat_word_ariths)

lemma unat_diff_plus:
  assumes "unat (w - r :: uint) < cap" and "cap < 2 ^ 32"
  shows "unat (w + 1 - r) = Suc (unat (w - r))"
proof -
  have "unat (w - r + 1) = Suc (unat (w - r))" using assms by (simp add: unat_word_ariths)
  then show ?thesis by (simp add: algebra_simps)
qed

locale ring =
  fixes cap :: nat
  assumes cap_pos: "0 < cap" and cap_lt: "cap < 2 ^ 32" and cap_dvd: "cap dvd 2 ^ 32"
begin

text \<open>Two counters less than \<open>cap\<close> apart are in different slots.\<close>

lemma slot_add: "unat (r + of_nat i :: uint) mod cap = (unat r + i) mod cap"
proof -
  have "unat (r + of_nat i :: uint) = (unat r + i) mod 2 ^ 32"
    by (simp add: unat_word_ariths unsigned_of_nat take_bit_eq_mod mod_add_right_eq)
  then show ?thesis using cap_dvd by (simp add: mod_mod_cancel)
qed

lemma slot_neq:
  assumes "i < j" and "j < i + cap"
  shows "unat (r + of_nat i :: uint) mod cap \<noteq> unat (r + of_nat j :: uint) mod cap"
proof
  assume "unat (r + of_nat i :: uint) mod cap = unat (r + of_nat j :: uint) mod cap"
  then have "(unat r + j) mod cap = (unat r + i) mod cap" unfolding slot_add by simp
  then have "cap dvd (unat r + j) - (unat r + i)" by (metis assms(1) less_imp_le mod_eq_dvd_iff_nat nat_add_left_cancel_le)
  then show False using assms by (auto dest: dvd_imp_le)
qed

lemma full_iff: "ring_ok cap r w \<Longrightarrow> w = r + of_nat cap \<longleftrightarrow> unat (w - r) = cap"
proof -
  have "unat (of_nat cap :: uint) = cap" using cap_lt by (simp add: unsigned_of_nat take_bit_nat_eq_self)
  then show ?thesis by (metis add_diff_cancel_left' diff_add_cancel add.commute word_unat_eq_iff)
qed

lemma push_list:
  assumes "unat (w - r) < cap"
  shows "ring_list cap (d(unat w mod cap := c)) r (w + 1) = ring_list cap d r w @ [c]"
proof -
  have w: "w = r + of_nat (unat (w - r))" by simp
  have "(d(unat w mod cap := c)) (unat (r + of_nat i) mod cap) = d (unat (r + of_nat i) mod cap)" if "i < unat (w - r)" for i
    using slot_neq [of i "unat (w - r)" r] that assms w by simp
  then show ?thesis by (simp add: ring_list_def unat_diff_plus [OF assms cap_lt])
qed

lemma push_ok: "unat (w - r) < cap \<Longrightarrow> ring_ok cap r (w + 1)"
  using unat_diff_plus [OF _ cap_lt, of w r] by (simp add: ring_ok_def)

lemma pop_list:
  assumes "r \<noteq> w"
  shows "ring_list cap d r w = d (unat r mod cap) # ring_list cap d (r + 1) w"
proof -
  obtain n where n: "unat (w - r) = Suc n" using assms unat_diff_0 [of w r] by (cases "unat (w - r)") auto
  then have "unat (w - (r + 1)) = n" using unat_diff_Suc [of w r] assms by simp
  then show ?thesis by (simp add: ring_list_def n map_upt_Suc add.assoc del: upt_Suc)
qed

lemma pop_ok: "r \<noteq> w \<Longrightarrow> ring_ok cap r w \<Longrightarrow> ring_ok cap (r + 1) w"
  by (auto simp: ring_ok_def unat_diff_Suc)

lemma unpush_list:
  assumes "w \<noteq> r"
  shows "ring_list cap d r (w - 1) = butlast (ring_list cap d r w)"
    and "last (ring_list cap d r w) = d (unat (w - 1) mod cap)"
proof -
  obtain n where n: "unat (w - r) = Suc n" using assms unat_diff_0 [of w r] by (cases "unat (w - r)") auto
  then have "unat (w - 1 - r) = n" using unat_minus_one [of "w - r"] assms by (simp add: algebra_simps)
  moreover have "r + of_nat n = w - 1" unfolding calculation [symmetric] by simp
  ultimately show "ring_list cap d r (w - 1) = butlast (ring_list cap d r w)"
    "last (ring_list cap d r w) = d (unat (w - 1) mod cap)"
    by (simp_all add: ring_list_def n)
qed

lemma unpush_ok: "w \<noteq> r \<Longrightarrow> ring_ok cap r w \<Longrightarrow> ring_ok cap r (w - 1)"
  using unat_minus_one [of "w - r"] by (auto simp: ring_ok_def algebra_simps)

text \<open>Two adjacent parts of one ring, as the console has with its line under construction.\<close>

lemma two_parts:
  assumes "unat (w - r) + unat (e - w) \<le> cap"
  shows "unat (e - r) = unat (w - r) + unat (e - w)"
    and "ring_list cap d r e = ring_list cap d r w @ ring_list cap d w e"
proof -
  have "e - r = (w - r) + (e - w)" by (simp add: algebra_simps)
  moreover have "unat (w - r) + unat (e - w) < 2 ^ 32" using assms cap_lt by (rule le_less_trans)
  ultimately show eq: "unat (e - r) = unat (w - r) + unat (e - w)" using unat_plus by metis
  have "map (\<lambda>i. d (unat (r + of_nat i) mod cap)) [unat (w - r)..<unat (w - r) + unat (e - w)] =
      map (\<lambda>i. d (unat (w + of_nat i) mod cap)) [0..<unat (e - w)]"
    by (rule nth_equalityI) simp_all
  then show "ring_list cap d r e = ring_list cap d r w @ ring_list cap d w e"
    unfolding ring_list_def eq by (subst upt_add_eq_append) simp_all
qed

lemma push_second:
  assumes "unat (w - r) + unat (e - w) < cap"
  shows "ring_list cap (d(unat e mod cap := c)) r w = ring_list cap d r w"
    and "ring_list cap (d(unat e mod cap := c)) w (e + 1) = ring_list cap d w e @ [c]"
    and "unat (e + 1 - w) = Suc (unat (e - w))"
proof -
  let ?d = "d(unat e mod cap := c)"
  show p: "ring_list cap ?d w (e + 1) = ring_list cap d w e @ [c]" using assms by (intro push_list) simp
  show n: "unat (e + 1 - w) = Suc (unat (e - w))" using assms by (intro unat_diff_plus [OF _ cap_lt]) simp
  have "ring_list cap ?d r w @ ring_list cap ?d w (e + 1) = ring_list cap ?d r (e + 1)"
    using two_parts(2) [of w r "e + 1" ?d] assms n by simp
  also have "\<dots> = ring_list cap d r w @ ring_list cap d w e @ [c]"
    using push_list [of e r d c] two_parts [of w r e] assms by simp
  finally show "ring_list cap ?d r w = ring_list cap d r w" unfolding p by simp
qed

end

end
