(* ===== verification/Xv6_Vm_Proofs.thy ===== *)
theory Xv6_Vm_Proofs
  imports Xv6_Vm
begin

text \<open>
  Address translation and copies between the kernel and user memory (\<^verbatim>\<open>kernel/vm.c\<close>). Without
  allocation \<^verbatim>\<open>walk()\<close> only reads memory: \<open>xlate\<close> is the translation as a function of memory, and
  \<open>ubyte\<close> what a user address holds. \<^verbatim>\<open>copyin()\<close> and \<^verbatim>\<open>copyout()\<close> always return, and read and write
  exactly the bytes of the user range.
\<close>

section \<open>Translation as a function of memory\<close>

primrec pte_at :: "nat \<Rightarrow> bytes \<Rightarrow> uint64 \<Rightarrow> uint64 \<Rightarrow> uint64" where
  "pte_at 0 m pt va = pt + 8 * PX 0 va"
| "pte_at (Suc l) m pt va =
     (let pte = ld64 m (unat (pt + 8 * PX (Suc l) va))
      in if pte AND PTE_V \<noteq> 0 then pte_at l m (PTE2PA pte) va else 0)"

definition xlate :: "bytes \<Rightarrow> uint64 \<Rightarrow> uint64 \<Rightarrow> uint64" where
  "xlate m pt va =
     (if va \<ge> MAXVA then 0
      else let a = pte_at 2 m pt va; pte = ld64 m (unat a)
        in if a = 0 \<or> pte AND PTE_V = 0 \<or> pte AND PTE_U = 0 then 0 else PTE2PA pte)"

lemma walk_loop_run: "walk_loop l pt va False s = Ok (pte_at l (mem s) pt va) s"
  by (induction l arbitrary: pt) (simp_all add: ldm_def Let_def)

lemma walk_run: "va < MAXVA \<Longrightarrow> walk pt va False s = Ok (pte_at 2 (mem s) pt va) s"
  unfolding walk_def by (subst if_not_P) (simp_all only: not_le walk_loop_run)

lemma walkaddr_run: "walkaddr pt va s = Ok (xlate (mem s) pt va) s"
  by (auto simp: walkaddr_def xlate_def walk_run not_le ldm_def Let_def simp del: walk_loop.simps pte_at.simps)

text \<open>The byte at a user address, if the page is mapped for the user.\<close>

definition ubyte :: "bytes \<Rightarrow> uint64 \<Rightarrow> uint64 \<Rightarrow> byte option" where
  "ubyte m pt va = (let pa = xlate m pt (PGROUNDDOWN va)
     in if pa = 0 then None else Some (m (unat (pa + (va - PGROUNDDOWN va)))))"

section \<open>Pages\<close>

lemma unat_page_off: "unat (va - PGROUNDDOWN va) = unat va mod 4096"
proof -
  have "unat (PGROUNDDOWN va) = unat va div 4096 * 4096" by (rule unat_PGROUNDDOWN)
  moreover have "PGROUNDDOWN va \<le> va" unfolding word_le_nat_alt calculation by simp
  ultimately show ?thesis by (simp add: unat_sub minus_div_mult_eq_mod)
qed

lemma page_end: "unat (va :: uint64) div 4096 * 4096 + 4096 \<le> 2 ^ 64"
proof -
  have "unat va < 2 ^ LENGTH(64)" by (rule unsigned_less)
  then have "unat va div 4096 < 2 ^ 52" by (simp add: less_mult_imp_div_less)
  then show ?thesis by simp
qed

lemma page_add:
  assumes "i < 4096 - unat va mod 4096"
  shows "unat (va + of_nat i :: uint64) = unat va + i"
proof -
  have e: "unat va div 4096 * 4096 + unat va mod 4096 = unat va" by simp
  then have "unat va + i < 2 ^ 64" using assms page_end [of va] by linarith
  moreover have "unat (of_nat i :: uint64) = i" using assms by (simp add: unsigned_of_nat take_bit_nat_eq_self)
  ultimately show ?thesis by (subst unat_add_lem [THEN iffD1]) auto
qed

lemma div_page: "r < 4096 \<Longrightarrow> (q * 4096 + r) div 4096 = (q :: nat)"
  by simp

lemma page_same:
  assumes "i < 4096 - unat va mod 4096"
  shows "PGROUNDDOWN (va + of_nat i) = PGROUNDDOWN va"
proof -
  have e: "unat va div 4096 * 4096 + unat va mod 4096 = unat va" by simp
  have "unat va + i = unat va div 4096 * 4096 + (unat va mod 4096 + i)" using e by linarith
  moreover have "unat va mod 4096 + i < 4096" using assms by linarith
  ultimately have "(unat va + i) div 4096 = unat va div 4096" by (simp only: div_page)
  then show ?thesis
    by (simp add: word_unat_eq_iff unat_PGROUNDDOWN page_add [OF assms])
qed

lemma page_next: "PGROUNDDOWN va + PGSIZE = va + of_nat (4096 - unat va mod 4096)"
proof -
  have "of_nat (unat va mod 4096) = va - PGROUNDDOWN va" by (simp add: unat_page_off [symmetric])
  moreover have "of_nat (4096 - unat va mod 4096) = (4096 - of_nat (unat va mod 4096) :: uint64)"
    by (simp add: of_nat_diff)
  ultimately show ?thesis by (simp add: PGSIZE_def)
qed

text \<open>The part of a range that lies in the first page: the \<^verbatim>\<open>n\<close> of the copy loops.\<close>

definition first_part :: "uint64 \<Rightarrow> uint64 \<Rightarrow> nat" where
  "first_part va len = min (unat len) (4096 - unat va mod 4096)"

lemma first_part_word:
  "(let n0 = PGSIZE - (va - PGROUNDDOWN va) in if n0 > len then len else n0) = of_nat (first_part va len)"
proof -
  have lt: "unat va mod 4096 < 4096" by simp
  then have "va - PGROUNDDOWN va \<le> PGSIZE" by (simp add: word_le_nat_alt unat_page_off less_imp_le)
  then have "unat (PGSIZE - (va - PGROUNDDOWN va)) = 4096 - unat va mod 4096"
    by (simp add: unat_sub unat_page_off)
  then show ?thesis
    by (auto simp: first_part_def Let_def word_less_nat_alt min_def not_less word_unat_eq_iff unsigned_of_nat
        take_bit_nat_eq_self)
qed

lemma first_part_le: "first_part va len \<le> unat len" "first_part va len \<le> 4096 - unat va mod 4096"
  by (simp_all add: first_part_def)

lemma unat_first_part: "unat (of_nat (first_part va len) :: uint64) = first_part va len"
  using first_part_le(2) [of va len] by (simp add: unsigned_of_nat take_bit_nat_eq_self)

lemma unat_rest: "unat (len - of_nat (first_part va len)) = unat len - first_part va len"
  using first_part_le(1) [of va len] by (subst unat_sub) (simp_all add: word_le_nat_alt unat_first_part)

lemma page_fuel:
  assumes "unat len + unat va mod 4096 \<le> Suc k * 4096"
  shows "unat (len - of_nat (first_part va len)) + unat (PGROUNDDOWN va + PGSIZE) mod 4096 \<le> k * 4096 \<or>
     unat (len - of_nat (first_part va len)) = 0"
proof -
  have "unat (PGROUNDDOWN va + PGSIZE) mod 4096 = 0"
  proof -
    have "unat (PGROUNDDOWN va + PGSIZE) = (unat va div 4096 * 4096 + 4096) mod 2 ^ 64"
      by (simp add: unat_word_ariths(1) unat_PGROUNDDOWN PGSIZE_def)
    also have "\<dots> mod 4096 = (unat va div 4096 * 4096 + 4096) mod 4096" by (rule mod_mod_cancel) simp
    finally show ?thesis by simp
  qed
  then show ?thesis using assms unfolding unat_rest unfolding first_part_def by (auto simp: min_def)
qed

text \<open>The next page starts where the first part of the range ends, unless the range ends first.\<close>

lemma page_rest:
  assumes "first_part va len < unat len"
  shows "PGROUNDDOWN va + PGSIZE + of_nat i = va + of_nat (first_part va len + i)"
proof -
  have "first_part va len = 4096 - unat va mod 4096" using assms by (simp add: first_part_def min_def split: if_splits)
  then show ?thesis by (simp add: page_next add.assoc)
qed

lemma ubyte_first:
  assumes "i < first_part va len"
  shows "ubyte m pt (va + of_nat i) = (let pa = xlate m pt (PGROUNDDOWN va)
     in if pa = 0 then None else Some (m (unat (pa + (va - PGROUNDDOWN va) + of_nat i))))"
  using assms first_part_le(2) [of va len] by (simp add: ubyte_def page_same Let_def algebra_simps)

definition urange :: "bytes \<Rightarrow> uint64 \<Rightarrow> uint64 \<Rightarrow> nat \<Rightarrow> bool" where
  "urange m pt va n \<longleftrightarrow> (\<forall>i<n. ubyte m pt (va + of_nat i) \<noteq> None)"

lemma all_less_split:
  assumes "k \<le> (n :: nat)"
  shows "(\<forall>i<n. P i) \<longleftrightarrow> (\<forall>i<k. P i) \<and> (\<forall>i<n - k. P (k + i))"
proof (intro iffI conjI allI impI)
  fix i assume a: "(\<forall>i<k. P i) \<and> (\<forall>i<n - k. P (k + i))" "i < n"
  show "P i"
  proof (cases "i < k")
    case False
    then have "i - k < n - k" "k + (i - k) = i" using a(2) by auto
    then show ?thesis using a(1) by metis
  qed (use a in simp)
qed (use assms in auto)

lemma urange_split:
  assumes "0 < first_part va len"
  shows "urange m pt va (unat len) \<longleftrightarrow> xlate m pt (PGROUNDDOWN va) \<noteq> 0 \<and>
     urange m pt (PGROUNDDOWN va + PGSIZE) (unat len - first_part va len)"
proof -
  have "urange m pt va (unat len) \<longleftrightarrow> (\<forall>i<first_part va len. ubyte m pt (va + of_nat i) \<noteq> None) \<and>
     (\<forall>i<unat len - first_part va len. ubyte m pt (va + of_nat (first_part va len + i)) \<noteq> None)"
    unfolding urange_def by (rule all_less_split [OF first_part_le(1)])
  also have "(\<forall>i<first_part va len. ubyte m pt (va + of_nat i) \<noteq> None) \<longleftrightarrow> xlate m pt (PGROUNDDOWN va) \<noteq> 0"
    using assms by (auto simp: ubyte_first Let_def)
  also have "(\<forall>i<unat len - first_part va len. ubyte m pt (va + of_nat (first_part va len + i)) \<noteq> None) \<longleftrightarrow>
      urange m pt (PGROUNDDOWN va + PGSIZE) (unat len - first_part va len)"
    unfolding urange_def by (cases "first_part va len < unat len") (simp_all add: page_rest)
  finally show ?thesis .
qed

lemma PTE2PA_aligned: "unat (PTE2PA pte) mod 4096 = 0"
proof -
  have "take_bit 12 (push_bit 12 (drop_bit 10 pte)) = 0" by (simp add: take_bit_push_bit)
  then have "unat (take_bit 12 (PTE2PA pte)) = 0" by (simp add: PTE2PA_def)
  then show ?thesis by (simp add: take_bit_eq_mod unat_mod)
qed

lemma xlate_aligned: "unat (xlate m pt va) mod 4096 = 0"
  by (simp add: xlate_def Let_def PTE2PA_aligned)

text \<open>The physical address of a user byte is in the frame of its page, at the same offset.\<close>

lemma frame_add:
  assumes "unat pa mod 4096 = 0" and "i < 4096 - unat va mod 4096"
  shows "unat (pa + (va - PGROUNDDOWN va) + of_nat i :: uint64) = unat pa + unat va mod 4096 + i"
proof -
  have "unat va mod 4096 < 4096" by simp
  then have 1: "unat (pa + of_nat (unat va mod 4096)) = unat pa + unat va mod 4096"
    using assms(1) by (intro page_add) simp
  moreover have "unat (pa + of_nat (unat va mod 4096) + of_nat i) = unat (pa + of_nat (unat va mod 4096)) + i"
    using assms 1 by (intro page_add) (simp add: mod_add_left_eq [symmetric])
  moreover have "of_nat (unat va mod 4096) = va - PGROUNDDOWN va" by (simp add: unat_page_off [symmetric])
  ultimately show ?thesis by simp
qed

lemma ubyte_first':
  assumes "i < first_part va len" and "xlate m pt (PGROUNDDOWN va) \<noteq> 0"
  shows "ubyte m pt (va + of_nat i) = Some (m (unat (xlate m pt (PGROUNDDOWN va) + (va - PGROUNDDOWN va)) + i))"
proof -
  have i: "i < 4096 - unat va mod 4096" "0 < 4096 - unat va mod 4096"
    using assms(1) first_part_le(2) [of va len] by linarith+
  show ?thesis
    using assms frame_add [OF xlate_aligned i(1), of m pt "PGROUNDDOWN va"]
      frame_add [OF xlate_aligned i(2), of m pt "PGROUNDDOWN va"]
    by (simp add: ubyte_first Let_def)
qed

section \<open>Copying in\<close>

text \<open>\<open>got m pt va n dst off dst'\<close>: the \<open>n\<close> user bytes at \<open>va\<close> are in \<open>dst'\<close> from \<open>off\<close>, the rest is \<open>dst\<close>.\<close>

definition got :: "bytes \<Rightarrow> uint64 \<Rightarrow> uint64 \<Rightarrow> nat \<Rightarrow> bytes \<Rightarrow> nat \<Rightarrow> bytes \<Rightarrow> bool" where
  "got m pt va n dst off dst' \<longleftrightarrow>
     (\<forall>i<n. Some (dst' (off + i)) = ubyte m pt (va + of_nat i)) \<and> (\<forall>x. x < off \<or> off + n \<le> x \<longrightarrow> dst' x = dst x)"

lemma copyin_loop_run:
  assumes "unat len + unat va mod 4096 \<le> k * 4096 \<or> unat len = 0"
  shows "\<exists>dst'. copyin_loop k pt dst off va len s =
      Ok (if urange (mem s) pt va (unat len) then 0 else -1, dst') s \<and>
    (urange (mem s) pt va (unat len) \<longrightarrow> got (mem s) pt va (unat len) dst off dst') \<and>
    (\<forall>x. x < off \<or> off + unat len \<le> x \<longrightarrow> dst' x = dst x)"
  using assms
proof (induction k arbitrary: dst off va len)
  case 0
  then have "unat len = 0" by auto
  then have "len = 0" by (simp add: unat_eq_0)
  then show ?case by (simp add: urange_def got_def)
next
  case (Suc k)
  show ?case
  proof (cases "len = 0")
    case True
    then show ?thesis by (simp add: urange_def got_def)
  next
    case False
    let ?n = "first_part va len" and ?pa = "xlate (mem s) pt (PGROUNDDOWN va)"
    let ?va = "PGROUNDDOWN va + PGSIZE" and ?len = "len - of_nat (first_part va len)"
    have pos: "0 < ?n" using False by (simp add: first_part_def unat_gt_0)
    have fuel: "unat ?len + unat ?va mod 4096 \<le> k * 4096 \<or> unat ?len = 0"
      using Suc.prems False by (intro page_fuel) (auto simp: unat_eq_0)
    note split = urange_split [OF pos, of "mem s" pt]
    show ?thesis
    proof (cases "?pa = 0")
      case True
      then have "\<not> urange (mem s) pt va (unat len)" using split by simp
      then show ?thesis using True False by (simp add: walkaddr_run Let_def word_gt_0)
    next
      case pa: False
      let ?dst = "blit off (mem s) (unat (?pa + (va - PGROUNDDOWN va))) ?n dst"
      obtain dst' where d: "copyin_loop k pt ?dst (off + ?n) ?va ?len s =
          Ok (if urange (mem s) pt ?va (unat ?len) then 0 else -1, dst') s"
        "urange (mem s) pt ?va (unat ?len) \<Longrightarrow> got (mem s) pt ?va (unat ?len) ?dst (off + ?n) dst'"
        "\<And>x. x < off + ?n \<or> off + ?n + unat ?len \<le> x \<Longrightarrow> dst' x = ?dst x"
        using Suc.IH [OF fuel, of ?dst "off + ?n"] by blast
      have run: "copyin_loop (Suc k) pt dst off va len s = copyin_loop k pt ?dst (off + ?n) ?va ?len s"
        using False pa first_part_word [of va len]
        by (simp add: walkaddr_run Let_def word_gt_0 unat_first_part del: copyin_loop.simps(2)
            add: copyin_loop.simps(2) [of k])
      have len: "unat ?len = unat len - ?n" "?n \<le> unat len" by (rule unat_rest first_part_le(1))+
      have "got (mem s) pt va (unat len) dst off dst'" if u: "urange (mem s) pt va (unat len)"
        unfolding got_def all_less_split [OF first_part_le(1) [of va len], of "\<lambda>i. Some (dst' (off + i)) = ubyte (mem s) pt (va + of_nat i)"]
      proof (intro conjI allI impI)
        have g: "got (mem s) pt ?va (unat ?len) ?dst (off + ?n) dst'" using d(2) u split len by simp
        fix i assume i: "i < unat len - ?n"
        then have e: "?va + of_nat i = va + of_nat (?n + i)" by (intro page_rest) simp
        have "Some (dst' (off + ?n + i)) = ubyte (mem s) pt (?va + of_nat i)"
          using g len i unfolding got_def by metis
        then show "Some (dst' (off + (?n + i))) = ubyte (mem s) pt (va + of_nat (?n + i))"
          unfolding e [symmetric] by (simp only: add.assoc)
      next
        fix i assume "i < ?n"
        then show "Some (dst' (off + i)) = ubyte (mem s) pt (va + of_nat i)"
          using ubyte_first' [of i va len "mem s" pt] pa d(3) [of "off + i"] by (simp add: blit_def)
      next
        fix x assume "x < off \<or> off + unat len \<le> x"
        then show "dst' x = dst x" using d(3) [of x] len by (auto simp: blit_def)
      qed
      moreover have "dst' x = dst x" if "x < off \<or> off + unat len \<le> x" for x
        using d(3) [of x] len that by (auto simp: blit_def)
      ultimately show ?thesis using run d(1) split pa len by (intro exI [of _ dst']) simp
    qed
  qed
qed

lemma copy_fuel_enough: "unat len + unat (va :: uint64) mod 4096 \<le> copy_fuel len * 4096"
proof -
  have "unat len = unat len div 4096 * 4096 + unat len mod 4096" by simp
  moreover have "unat len mod 4096 < 4096" "unat va mod 4096 < 4096" by simp_all
  moreover have "copy_fuel len * 4096 = unat len div 4096 * 4096 + 8192" by (simp add: copy_fuel_def)
  ultimately show ?thesis by linarith
qed

lemma copyin_run:
  "\<exists>dst'. copyin pt dst off va len s = Ok (if urange (mem s) pt va (unat len) then 0 else -1, dst') s \<and>
    (urange (mem s) pt va (unat len) \<longrightarrow> got (mem s) pt va (unat len) dst off dst') \<and>
    (\<forall>x. x < off \<or> off + unat len \<le> x \<longrightarrow> dst' x = dst x)"
  unfolding copyin_def using copy_fuel_enough [of len va] by (intro copyin_loop_run) simp

section \<open>Copying out\<close>

text \<open>
  A store through a user page must not change the translation: the page-table entries that are
  read for any address lie outside the frames mapped for the user, and no two user pages share a
  frame.
\<close>

primrec pte_reads :: "nat \<Rightarrow> bytes \<Rightarrow> uint64 \<Rightarrow> uint64 \<Rightarrow> uint64 set" where
  "pte_reads 0 m pt va = {pt + 8 * PX 0 va}"
| "pte_reads (Suc l) m pt va = insert (pt + 8 * PX (Suc l) va)
     (let pte = ld64 m (unat (pt + 8 * PX (Suc l) va))
      in if pte AND PTE_V \<noteq> 0 then pte_reads l m (PTE2PA pte) va else {})"

definition pt_sep :: "bytes \<Rightarrow> uint64 \<Rightarrow> bool" where
  "pt_sep m pt \<longleftrightarrow>
     (\<forall>va va'. \<forall>a\<in>pte_reads 2 m pt va'. xlate m pt va \<noteq> 0 \<longrightarrow>
        unat a + 8 \<le> unat (xlate m pt va) \<or> unat (xlate m pt va) + 4096 \<le> unat a) \<and>
     (\<forall>va va'. xlate m pt (PGROUNDDOWN va) \<noteq> 0 \<longrightarrow>
        xlate m pt (PGROUNDDOWN va) = xlate m pt (PGROUNDDOWN va') \<longrightarrow> PGROUNDDOWN va = PGROUNDDOWN va')"

lemma pte_at_cong:
  assumes "\<And>a. a \<in> pte_reads l m pt va \<Longrightarrow> ld64 m' (unat a) = ld64 m (unat a)"
  shows "pte_at l m' pt va = pte_at l m pt va" and "pte_reads l m' pt va = pte_reads l m pt va"
  using assms by (induction l arbitrary: pt) (auto simp: Let_def)

lemma pte_at_reads: "pte_at l m pt va \<noteq> 0 \<Longrightarrow> pte_at l m pt va \<in> pte_reads l m pt va"
  by (induction l arbitrary: pt) (auto simp: Let_def split: if_splits)

lemma xlate_cong:
  assumes "\<And>a. a \<in> pte_reads 2 m pt va \<Longrightarrow> ld64 m' (unat a) = ld64 m (unat a)"
  shows "xlate m' pt va = xlate m pt va"
proof -
  have "pte_at 2 m' pt va = pte_at 2 m pt va" using assms by (rule pte_at_cong)
  moreover have "pte_at 2 m pt va \<noteq> 0 \<Longrightarrow> ld64 m' (unat (pte_at 2 m pt va)) = ld64 m (unat (pte_at 2 m pt va))"
    using assms pte_at_reads [of 2 m pt va] by blast
  ultimately show ?thesis unfolding xlate_def Let_def by (cases "pte_at 2 m pt va = 0") simp_all
qed

lemma store_keeps:
  assumes sep: "pt_sep m pt" and pa: "xlate m pt va \<noteq> 0"
    and m': "\<And>x. x < unat (xlate m pt va) \<or> unat (xlate m pt va) + 4096 \<le> x \<Longrightarrow> m' x = m x"
  shows "xlate m' pt = xlate m pt" and "pt_sep m' pt"
proof -
  have rd: "ld64 m' (unat a) = ld64 m (unat a)" if a: "a \<in> pte_reads 2 m pt va'" for a va'
  proof (rule ld_cong)
    fix x assume x: "unat a \<le> x" "x < unat a + 8"
    have "unat a + 8 \<le> unat (xlate m pt va) \<or> unat (xlate m pt va) + 4096 \<le> unat a"
      using sep a pa unfolding pt_sep_def by (elim conjE) metis
    then show "m' x = m x" using x by (intro m') linarith
  qed
  show x: "xlate m' pt = xlate m pt" by (intro ext xlate_cong rd)
  have "pte_reads 2 m' pt va' = pte_reads 2 m pt va'" for va' by (intro pte_at_cong rd)
  then show "pt_sep m' pt" using sep unfolding pt_sep_def x by simp
qed

text \<open>\<open>put m pt va n src off m'\<close>: the \<open>n\<close> user bytes at \<open>va\<close> are those of \<open>src\<close> from \<open>off\<close>; all other user
  bytes and all memory outside the user's frames are as in \<open>m\<close>.\<close>

definition put :: "bytes \<Rightarrow> uint64 \<Rightarrow> uint64 \<Rightarrow> nat \<Rightarrow> bytes \<Rightarrow> nat \<Rightarrow> bytes \<Rightarrow> bool" where
  "put m pt va n src off m' \<longleftrightarrow> xlate m' pt = xlate m pt \<and> pt_sep m' pt \<and>
     (\<forall>i<n. ubyte m' pt (va + of_nat i) = Some (src (off + i))) \<and>
     (\<forall>a. (\<forall>i<n. a \<noteq> va + of_nat i) \<longrightarrow> ubyte m' pt a = ubyte m pt a) \<and>
     (\<forall>x. (\<forall>a. xlate m pt a \<noteq> 0 \<longrightarrow> x < unat (xlate m pt a) \<or> unat (xlate m pt a) + 4096 \<le> x) \<longrightarrow> m' x = m x)"

lemma frame_off: "unat pa mod 4096 = 0 \<Longrightarrow> unat (pa + (va - PGROUNDDOWN va)) = unat pa + unat va mod 4096"
  using frame_add [of pa 0 va] by simp

lemma frames_apart:
  assumes "unat (p :: uint64) mod 4096 = 0" and "unat q mod 4096 = 0" and "p \<noteq> q" and "r < 4096"
  shows "unat p + r < unat q \<or> unat q + 4096 \<le> unat p + r"
proof -
  obtain a b where "unat p = 4096 * a" "unat q = 4096 * b" using assms by (auto simp: mod_eq_0_iff_dvd elim!: dvdE)
  moreover have "unat p \<noteq> unat q" using assms(3) by (simp add: word_unat_eq_iff)
  ultimately show ?thesis using assms(4) by (cases "a < b") auto
qed

lemma same_page_off:
  assumes "PGROUNDDOWN a = PGROUNDDOWN va" and "unat a mod 4096 = unat va mod 4096 + i"
  shows "a = va + of_nat i"
proof -
  have "unat a div 4096 * 4096 = unat va div 4096 * 4096" using arg_cong [OF assms(1), of unat] by (simp add: unat_PGROUNDDOWN)
  moreover have "unat a div 4096 * 4096 + unat a mod 4096 = unat a" "unat va div 4096 * 4096 + unat va mod 4096 = unat va" by simp_all
  ultimately have e: "unat a = unat va + i" using assms(2) by linarith
  moreover have "unat va mod 4096 + i < 4096" using assms(2) by (metis mod_less_divisor zero_less_numeral)
  ultimately show ?thesis by (simp add: word_unat_eq_iff page_add)
qed

lemma put_page:
  assumes sep: "pt_sep m pt" and pa: "xlate m pt (PGROUNDDOWN va) \<noteq> 0" and n: "n \<le> 4096 - unat va mod 4096"
  shows "put m pt va n src off (blit (unat (xlate m pt (PGROUNDDOWN va) + (va - PGROUNDDOWN va))) src off n m)"
proof -
  let ?pa = "xlate m pt (PGROUNDDOWN va)"
  let ?m = "blit (unat (?pa + (va - PGROUNDDOWN va))) src off n m"
  have base: "unat (?pa + (va - PGROUNDDOWN va)) = unat ?pa + unat va mod 4096" by (rule frame_off [OF xlate_aligned])
  have out: "?m x = m x" if "x < unat ?pa \<or> unat ?pa + 4096 \<le> x" for x
    using that n unfolding blit_def base by auto
  have keep: "xlate ?m pt = xlate m pt" "pt_sep ?m pt" using store_keeps [OF sep pa, of ?m] out by blast+
  have same: "ubyte ?m pt (va + of_nat i) = Some (src (off + i))" if i: "i < n" for i
  proof -
    have "unat (?pa + (va + of_nat i - PGROUNDDOWN va)) = unat ?pa + unat va mod 4096 + i"
      using frame_add [OF xlate_aligned [of m pt "PGROUNDDOWN va"], of i va] n i by (simp add: algebra_simps)
    moreover have "PGROUNDDOWN (va + of_nat i) = PGROUNDDOWN va" using i n by (intro page_same) simp
    moreover have "?m (unat ?pa + unat va mod 4096 + i) = src (off + i)" using i by (simp add: blit_def base)
    ultimately show ?thesis using pa unfolding ubyte_def keep(1) Let_def by simp
  qed
  have other: "ubyte ?m pt a = ubyte m pt a" if a: "\<forall>i<n. a \<noteq> va + of_nat i" for a
  proof -
    let ?q = "xlate m pt (PGROUNDDOWN a)"
    have qa: "unat (?q + (a - PGROUNDDOWN a)) = unat ?q + unat a mod 4096" by (rule frame_off [OF xlate_aligned])
    have "?m (unat ?q + unat a mod 4096) = m (unat ?q + unat a mod 4096)" if q: "?q \<noteq> 0"
    proof (cases "?q = ?pa")
      case True
      then have pg: "PGROUNDDOWN a = PGROUNDDOWN va" using sep q unfolding pt_sep_def by metis
      have "\<not> (unat va mod 4096 \<le> unat a mod 4096 \<and> unat a mod 4096 < unat va mod 4096 + n)"
      proof
        assume in_range: "unat va mod 4096 \<le> unat a mod 4096 \<and> unat a mod 4096 < unat va mod 4096 + n"
        then obtain i where i: "unat a mod 4096 = unat va mod 4096 + i" using le_Suc_ex by blast
        then have "i < n" using in_range by linarith
        then show False using a same_page_off [OF pg i] by blast
      qed
      then show ?thesis unfolding blit_def base True by auto
    next
      case False
      then show ?thesis by (intro out frames_apart xlate_aligned) simp_all
    qed
    then show ?thesis unfolding ubyte_def keep(1) Let_def qa by simp
  qed
  have "?m x = m x" if "\<forall>a. xlate m pt a \<noteq> 0 \<longrightarrow> x < unat (xlate m pt a) \<or> unat (xlate m pt a) + 4096 \<le> x" for x
    using that pa by (intro out) metis
  then show ?thesis unfolding put_def using keep same other by blast
qed

lemma put_0: "pt_sep m pt \<Longrightarrow> put m pt va 0 src off m"
  by (simp add: put_def)

lemma put_trans:
  assumes 1: "put m pt va k src off m'" and 2: "put m' pt va' (n - k) src (off + k) m''"
    and k: "k \<le> n" "n \<le> 2 ^ 64" and va': "k < n \<Longrightarrow> va' = va + of_nat k"
  shows "put m pt va n src off m''"
proof -
  have e: "va' + of_nat i = va + of_nat (k + i)" if "i < n - k" for i using va' that by simp
  have no: "va + of_nat j \<noteq> va' + of_nat i" if "j < k" "i < n - k" for i j
  proof -
    have "unat (of_nat j :: uint64) = j" "unat (of_nat (k + i) :: uint64) = k + i"
      using that k by (simp_all add: unsigned_of_nat take_bit_nat_eq_self del: of_nat_add)
    then have "(of_nat j :: uint64) \<noteq> of_nat (k + i)" using that by (metis not_add_less1)
    then show ?thesis using e [OF that(2)] by simp
  qed
  have rd: "\<forall>i<n. ubyte m'' pt (va + of_nat i) = Some (src (off + i))"
    unfolding all_less_split [OF k(1), of "\<lambda>i. ubyte m'' pt (va + of_nat i) = Some (src (off + i))"]
  proof (intro conjI allI impI)
    fix j assume j: "j < k"
    then have "ubyte m'' pt (va + of_nat j) = ubyte m' pt (va + of_nat j)" using 2 no unfolding put_def by blast
    then show "ubyte m'' pt (va + of_nat j) = Some (src (off + j))" using 1 j unfolding put_def by simp
  next
    fix i assume i: "i < n - k"
    then have "ubyte m'' pt (va' + of_nat i) = Some (src (off + k + i))" using 2 unfolding put_def by blast
    then show "ubyte m'' pt (va + of_nat (k + i)) = Some (src (off + (k + i)))" unfolding e [OF i] by (simp only: add.assoc)
  qed
  have other: "ubyte m'' pt a = ubyte m pt a" if a: "\<forall>i<n. a \<noteq> va + of_nat i" for a
  proof -
    have "a \<noteq> va + of_nat (k + i)" if "i < n - k" for i using a that by (simp del: of_nat_add)
    then have "\<forall>i<n - k. a \<noteq> va' + of_nat i" using e by metis
    moreover have "\<forall>i<k. a \<noteq> va + of_nat i" using a k by simp
    ultimately show ?thesis using 1 2 unfolding put_def by metis
  qed
  show ?thesis using 1 2 rd other unfolding put_def by simp
qed

lemma put_urange: "put m pt va n src off m' \<Longrightarrow> urange m' pt a k = urange m pt a k"
  by (simp add: put_def urange_def ubyte_def Let_def)

lemma copyout_loop_run:
  assumes "pt_sep (mem s) pt" and "unat len + unat va mod 4096 \<le> k * 4096 \<or> unat len = 0"
  shows "\<exists>m' n. copyout_loop k pt va src off len s =
      Ok (if urange (mem s) pt va (unat len) then 0 else -1) (s\<lparr>mem := m'\<rparr>) \<and> n \<le> unat len \<and>
    put (mem s) pt va n src off m' \<and> (urange (mem s) pt va (unat len) \<longrightarrow> n = unat len)"
  using assms
proof (induction k arbitrary: off va len s)
  case 0
  then have "unat len = 0" by auto
  then have "len = 0" by (simp add: unat_eq_0)
  then show ?case using put_0 [OF 0(1)] by (intro exI [of _ "mem s"] exI [of _ 0]) (simp add: urange_def)
next
  case (Suc k)
  show ?case
  proof (cases "len = 0")
    case True
    then show ?thesis using put_0 [OF Suc(2)] by (intro exI [of _ "mem s"] exI [of _ 0]) (simp add: urange_def)
  next
    case False
    let ?n = "first_part va len" and ?pa = "xlate (mem s) pt (PGROUNDDOWN va)"
    let ?va = "PGROUNDDOWN va + PGSIZE" and ?len = "len - of_nat (first_part va len)"
    have pos: "0 < ?n" using False by (simp add: first_part_def unat_gt_0)
    have fuel: "unat ?len + unat ?va mod 4096 \<le> k * 4096 \<or> unat ?len = 0"
      using Suc.prems False by (intro page_fuel) (auto simp: unat_eq_0)
    note split = urange_split [OF pos, of "mem s" pt]
    show ?thesis
    proof (cases "?pa = 0")
      case True
      then have "\<not> urange (mem s) pt va (unat len)" using split by simp
      then show ?thesis using True False put_0 [OF Suc(2)]
        by (intro exI [of _ "mem s"] exI [of _ 0]) (simp add: walkaddr_run Let_def word_gt_0)
    next
      case pa: False
      let ?m = "blit (unat (?pa + (va - PGROUNDDOWN va))) src off ?n (mem s)"
      have put: "put (mem s) pt va ?n src off ?m" by (rule put_page [OF Suc(2) pa first_part_le(2)])
      then have sep: "pt_sep (mem (s\<lparr>mem := ?m\<rparr>)) pt" by (simp add: put_def)
      have run: "copyout_loop (Suc k) pt va src off len s = copyout_loop k pt ?va src (off + ?n) ?len (s\<lparr>mem := ?m\<rparr>)"
        using False pa first_part_word [of va len]
        by (simp add: walkaddr_run Let_def word_gt_0 unat_first_part del: copyout_loop.simps(2)
            add: copyout_loop.simps(2) [of k])
      have len: "unat ?len = unat len - ?n" "?n \<le> unat len" by (rule unat_rest first_part_le(1))+
      have u: "urange ?m pt ?va (unat ?len) = urange (mem s) pt va (unat len)"
        using split pa len put_urange [OF put] by simp
      obtain m' n where n: "copyout_loop k pt ?va src (off + ?n) ?len (s\<lparr>mem := ?m\<rparr>) =
          Ok (if urange (mem s) pt va (unat len) then 0 else -1) (s\<lparr>mem := m'\<rparr>)" "n \<le> unat ?len"
        "put ?m pt ?va n src (off + ?n) m'" "urange (mem s) pt va (unat len) \<Longrightarrow> n = unat ?len"
        using Suc.IH [OF sep fuel, of "off + ?n"] u by auto
      have "?n + n \<le> unat len" using n(2) len by linarith
      moreover have "unat len < 2 ^ LENGTH(64)" by (rule unsigned_less)
      moreover have "put (mem s) pt va (?n + n) src off m'"
      proof (rule put_trans [OF put])
        show "put ?m pt ?va (?n + n - ?n) src (off + ?n) m'" using n(3) by simp
        show "?va = va + of_nat ?n" if "?n < ?n + n"
          using page_rest [of va len 0] that \<open>?n + n \<le> unat len\<close> by simp
      qed (use calculation in simp_all)
      ultimately show ?thesis using run n(1,4) len by (intro exI [of _ m'] exI [of _ "?n + n"]) simp
    qed
  qed
qed

lemma copyout_run:
  assumes "pt_sep (mem s) pt"
  shows "\<exists>m' n. copyout pt va src off len s = Ok (if urange (mem s) pt va (unat len) then 0 else -1) (s\<lparr>mem := m'\<rparr>) \<and>
    n \<le> unat len \<and> put (mem s) pt va n src off m' \<and> (urange (mem s) pt va (unat len) \<longrightarrow> n = unat len)"
  unfolding copyout_def using assms copy_fuel_enough [of len va] by (intro copyout_loop_run) simp_all

section \<open>Copying byte by byte\<close>

text \<open>The longest prefix of a user range that is mapped.\<close>

primrec ubytes :: "bytes \<Rightarrow> uint64 \<Rightarrow> uint64 \<Rightarrow> nat \<Rightarrow> byte list" where
  "ubytes m pt va 0 = []"
| "ubytes m pt va (Suc n) = (case ubyte m pt va of None \<Rightarrow> [] | Some b \<Rightarrow> b # ubytes m pt (va + 1) n)"

lemma length_ubytes: "length (ubytes m pt va n) \<le> n"
  by (induction n arbitrary: va) (auto split: option.split)

lemma urange_1: "urange m pt va (Suc 0) \<longleftrightarrow> ubyte m pt va \<noteq> None"
  by (simp add: urange_def)

lemma urange_Suc: "urange m pt va (Suc n) \<longleftrightarrow> ubyte m pt va \<noteq> None \<and> urange m pt (va + 1) n"
  by (simp add: urange_def all_less_split [of 1 "Suc n"] add.assoc)

lemma ubytes_all: "urange m pt va n \<Longrightarrow> length (ubytes m pt va n) = n"
  by (induction n arbitrary: va) (auto simp: urange_Suc)

lemma ubytes_nth: "i < length (ubytes m pt va n) \<Longrightarrow> ubyte m pt (va + of_nat i) = Some (ubytes m pt va n ! i)"
proof (induction n arbitrary: va i)
  case (Suc n)
  then obtain b where b: "ubyte m pt va = Some b" by (auto split: option.splits)
  show ?case
  proof (cases i)
    case (Suc j)
    then have "ubyte m pt (va + 1 + of_nat j) = Some (ubytes m pt (va + 1) n ! j)"
      using Suc.prems b by (intro Suc.IH) simp
    then show ?thesis using b Suc by (simp add: add.assoc)
  qed (simp add: b)
qed simp

lemma ubytes_put: "xlate m' pt = xlate m pt \<Longrightarrow> length (ubytes m' pt va n) = length (ubytes m pt va n)"
  by (induction n arbitrary: va) (auto simp: ubyte_def Let_def split: option.split)

lemma copyin_byte:
  "\<exists>d. copyin pt dst 0 va 1 s = Ok (if ubyte (mem s) pt va = None then -1 else 0, d) s \<and>
     (ubyte (mem s) pt va \<noteq> None \<longrightarrow> ubyte (mem s) pt va = Some (d 0))"
  using copyin_run [of pt dst 0 va 1 s] by (auto simp: urange_1 got_def)

lemma copyout_byte:
  assumes "pt_sep (mem s) pt"
  shows "\<exists>m'. copyout pt va (\<lambda>_. c) 0 1 s = Ok (if ubyte (mem s) pt va = None then -1 else 0) (s\<lparr>mem := m'\<rparr>) \<and>
    put (mem s) pt va (if ubyte (mem s) pt va = None then 0 else 1) (\<lambda>_. c) 0 m'"
proof -
  obtain m' n where m: "copyout pt va (\<lambda>_. c) 0 1 s = Ok (if urange (mem s) pt va (unat (1 :: uint64)) then 0 else -1) (s\<lparr>mem := m'\<rparr>)"
    "n \<le> unat (1 :: uint64)" "put (mem s) pt va n (\<lambda>_. c) 0 m'" "urange (mem s) pt va (unat (1 :: uint64)) \<Longrightarrow> n = unat (1 :: uint64)"
    using copyout_run [OF assms, of va "\<lambda>_. c" 0 1] by blast
  have u: "urange (mem s) pt va (unat (1 :: uint64)) \<longleftrightarrow> ubyte (mem s) pt va \<noteq> None" by (simp add: urange_1)
  show ?thesis
  proof (cases "ubyte (mem s) pt va = None")
    case True
    have "n = 0"
    proof (rule ccontr)
      assume "n \<noteq> 0"
      then have "ubyte m' pt va \<noteq> None" "xlate m' pt = xlate (mem s) pt" using m(3) by (auto simp: put_def)
      then show False using True by (simp add: ubyte_def Let_def split: if_splits)
    qed
    then show ?thesis using m(1,3) True u by (intro exI [of _ m']) simp
  next
    case False
    then show ?thesis using m u by (intro exI [of _ m']) simp
  qed
qed

lemma put_src_cong:
  "(\<And>i. i < n \<Longrightarrow> src (off + i) = src' (off' + i)) \<Longrightarrow> put m pt va n src off m' = put m pt va n src' off' m'"
  by (auto simp: put_def)

section \<open>Properties\<close>

text \<open>
  C17: \<^verbatim>\<open>copyin()\<close> always returns, whatever the page table holds, and changes nothing but its
  destination. It returns 0 exactly when every byte of the range is mapped for the user; then the
  destination holds exactly those bytes. In every case the memory around the destination is kept.
\<close>

theorem copyin_exact:
  "\<exists>dst'. copyin pt dst off va len s = Ok (if urange (mem s) pt va (unat len) then 0 else -1, dst') s \<and>
     (urange (mem s) pt va (unat len) \<longrightarrow> (\<forall>i<unat len. ubyte (mem s) pt (va + of_nat i) = Some (dst' (off + i)))) \<and>
     (\<forall>x. x < off \<or> off + unat len \<le> x \<longrightarrow> dst' x = dst x)"
  using copyin_run [of pt dst off va len s] unfolding got_def by metis

text \<open>
  C6: bytes that \<^verbatim>\<open>copyout()\<close> wrote to a user range are the bytes \<^verbatim>\<open>copyin()\<close> reads back. For a page
  table that is apart from the frames it maps, \<^verbatim>\<open>copyout()\<close> always returns, with 0 exactly when the
  whole range is mapped; user bytes outside the range and memory outside the user's frames (the
  kernel, the page table itself) are kept, even when it fails half way.
\<close>

theorem copyout_copyin:
  assumes "pt_sep (mem s) pt"
  shows "\<exists>m'. copyout pt va src off len s = Ok (if urange (mem s) pt va (unat len) then 0 else -1) (s\<lparr>mem := m'\<rparr>) \<and>
    (urange (mem s) pt va (unat len) \<longrightarrow> (\<exists>dst'. copyin pt dst o2 va len (s\<lparr>mem := m'\<rparr>) = Ok (0, dst') (s\<lparr>mem := m'\<rparr>) \<and>
       (\<forall>i<unat len. dst' (o2 + i) = src (off + i)))) \<and>
    xlate m' pt = xlate (mem s) pt \<and>
    (\<forall>a. (\<forall>i<unat len. a \<noteq> va + of_nat i) \<longrightarrow> ubyte m' pt a = ubyte (mem s) pt a) \<and>
    (\<forall>x. (\<forall>a. xlate (mem s) pt a \<noteq> 0 \<longrightarrow> x < unat (xlate (mem s) pt a) \<or> unat (xlate (mem s) pt a) + 4096 \<le> x) \<longrightarrow>
       m' x = mem s x)"
proof -
  obtain m' n where out: "copyout pt va src off len s =
      Ok (if urange (mem s) pt va (unat len) then 0 else -1) (s\<lparr>mem := m'\<rparr>)" "n \<le> unat len"
    and p: "put (mem s) pt va n src off m'" and n: "urange (mem s) pt va (unat len) \<Longrightarrow> n = unat len"
    using copyout_run [OF assms, of va src off len] by blast
  have reads: "\<exists>dst'. copyin pt dst o2 va len (s\<lparr>mem := m'\<rparr>) = Ok (0, dst') (s\<lparr>mem := m'\<rparr>) \<and>
      (\<forall>i<unat len. dst' (o2 + i) = src (off + i))" if u: "urange (mem s) pt va (unat len)"
  proof -
    obtain dst' where i: "copyin pt dst o2 va len (s\<lparr>mem := m'\<rparr>) = Ok (0, dst') (s\<lparr>mem := m'\<rparr>)"
      "got m' pt va (unat len) dst o2 dst'"
      using copyin_run [of pt dst o2 va len "s\<lparr>mem := m'\<rparr>"] u put_urange [OF p, of va "unat len"] by auto
    have "Some (dst' (o2 + i)) = Some (src (off + i))" if "i < unat len" for i
      using i(2) p n [OF u] that unfolding got_def put_def by metis
    then show ?thesis using i(1) by blast
  qed
  have other: "ubyte m' pt a = ubyte (mem s) pt a" if "\<forall>i<unat len. a \<noteq> va + of_nat i" for a
    using that p out(2) unfolding put_def by (meson less_le_trans)
  show ?thesis using out(1) reads other p unfolding put_def by blast
qed

text \<open>A page table with three pages of tables, which maps the user pages 0 and \<^verbatim>\<open>0x1000\<close>.\<close>

definition ut0 :: bytes where
  "ut0 = st64 0x80001000 0x20000801 (st64 0x80002000 0x20000C01
     (st64 0x80003000 0x2000101F (st64 0x80003008 0x2000181F (\<lambda>_. 0))))"

definition umem0 :: kmem where
  "umem0 = kmem0\<lparr>mem := ut0\<rparr>"

lemma ut0_entry:
  "ld64 ut0 (0x80001000 + 8 * k) = (if k = 0 then 0x20000801 else if k = 512 then 0x20000C01
     else if k = 1024 then 0x2000101F else if k = 1025 then 0x2000181F else 0)"
proof -
  have 0: "ld64 (\<lambda>_. 0) a = 0" for a by (simp add: ld64_def eval_nat_numeral)
  consider "k = 0" | "k = 512" | "k = 1024" | "k = 1025" | "k \<notin> {0, 512, 1024, 1025}" by blast
  then show ?thesis
  proof cases
    case 5
    then have "k < 512 \<or> 512 < k \<and> k < 1024 \<or> 1025 < k" "0 < k" by auto
    then show ?thesis using 5 by (elim disjE) (simp_all add: ut0_def ld_st_disj 0)
  qed (simp_all add: ut0_def ld_st_disj 0)
qed

lemma unat_PX: "unat (PX l va) = unat va div 2 ^ (12 + 9 * l) mod 512"
proof -
  have "(0x1FF :: uint64) = mask 9" by (simp add: mask_eq_exp_minus_1)
  then have "unat (PX l va) = unat (take_bit 9 (drop_bit (12 + 9 * l) va))" by (simp add: PX_def take_bit_eq_mask)
  also have "\<dots> = unat va div 2 ^ (12 + 9 * l) mod 512"
    using unat_bounds(4) [of va] unfolding unsigned_take_bit_eq unsigned_drop_bit_eq
    by (simp add: take_bit_eq_mod drop_bit_eq_div)
  finally show ?thesis .
qed

lemma unat_PX_lt: "unat (PX l va) < 512"
  unfolding unat_PX by simp

lemma unat_entry:
  assumes "unat (pt :: uint64) < 2 ^ 40"
  shows "unat (pt + 8 * PX l va) = unat pt + 8 * unat (PX l va)"
proof -
  have "unat (8 * PX l va) = 8 * unat (PX l va)" using unat_PX_lt [of l va] by (simp add: unat_word_ariths)
  then show ?thesis using assms unat_PX_lt [of l va] by (simp add: unat_word_ariths)
qed

lemma PX_eq: "PX l va = PX l' va' \<longleftrightarrow> unat (PX l va) = unat (PX l' va')" "PX l va = 0 \<longleftrightarrow> unat (PX l va) = 0"
    "PX l va = 1 \<longleftrightarrow> unat (PX l va) = 1"
  by (simp_all add: word_unat_eq_iff)

lemma ut0_level:
  "ld64 ut0 (unat (0x80001000 + 8 * PX l va)) = (if PX l va = 0 then 0x20000801 else 0)"
  "ld64 ut0 (unat (0x80002000 + 8 * PX l va)) = (if PX l va = 0 then 0x20000C01 else 0)"
  "ld64 ut0 (unat (0x80003000 + 8 * PX l va)) = (if PX l va = 0 then 0x2000101F else if PX l va = 1 then 0x2000181F else 0)"
  using unat_PX_lt [of l va] ut0_entry [of "unat (PX l va)"] ut0_entry [of "512 + unat (PX l va)"]
    ut0_entry [of "1024 + unat (PX l va)"]
  by (simp_all add: unat_entry PX_eq)

lemma ut0_ptes:
  "PTE2PA 0x20000801 = 0x80002000" "PTE2PA 0x20000C01 = 0x80003000" "PTE2PA 0x2000101F = 0x80004000"
  "PTE2PA 0x2000181F = 0x80006000"
  by (simp_all add: PTE2PA_def)

lemma pt_steps:
  "pte_at 2 m pt va = (let pte = ld64 m (unat (pt + 8 * PX 2 va))
      in if pte AND PTE_V \<noteq> 0 then pte_at 1 m (PTE2PA pte) va else 0)"
  "pte_at 1 m pt va = (let pte = ld64 m (unat (pt + 8 * PX 1 va))
      in if pte AND PTE_V \<noteq> 0 then PTE2PA pte + 8 * PX 0 va else 0)"
  "pte_reads 2 m pt va = insert (pt + 8 * PX 2 va) (let pte = ld64 m (unat (pt + 8 * PX 2 va))
      in if pte AND PTE_V \<noteq> 0 then pte_reads 1 m (PTE2PA pte) va else {})"
  "pte_reads 1 m pt va = insert (pt + 8 * PX 1 va) (let pte = ld64 m (unat (pt + 8 * PX 1 va))
      in if pte AND PTE_V \<noteq> 0 then {PTE2PA pte + 8 * PX 0 va} else {})"
  by (simp_all add: numeral_2_eq_2 Let_def)

lemma ut0_at:
  "ld64 ut0 0x80001000 = 0x20000801" "ld64 ut0 0x80002000 = 0x20000C01" "ld64 ut0 0x80003000 = 0x2000101F"
  "ld64 ut0 0x80003008 = 0x2000181F"
  using ut0_entry [of 0] ut0_entry [of 512] ut0_entry [of 1024] ut0_entry [of 1025] by simp_all

lemmas ut0_walk = pt_steps ut0_at ut0_level ut0_ptes PTE_V_def PTE_U_def Let_def

lemma pte_reads_ut0:
  assumes "a \<in> pte_reads 2 ut0 0x80001000 va"
  shows "unat a + 8 \<le> 0x80004000"
proof -
  have "pte_reads 2 ut0 0x80001000 va \<subseteq>
      {0x80001000 + 8 * PX 2 va, 0x80002000 + 8 * PX 1 va, 0x80003000 + 8 * PX 0 va}"
    unfolding pt_steps by (simp add: ut0_walk del: One_nat_def)
  then consider "a = 0x80001000 + 8 * PX 2 va" | "a = 0x80002000 + 8 * PX 1 va" | "a = 0x80003000 + 8 * PX 0 va"
    using assms by blast
  then show ?thesis
    using unat_PX_lt [of 0 va] unat_PX_lt [of 1 va] unat_PX_lt [of 2 va] by cases (simp_all add: unat_entry)
qed

lemma xlate_ut0: "xlate ut0 0x80001000 va = (if va < MAXVA \<and> PX 2 va = 0 \<and> PX 1 va = 0 then
   if PX 0 va = 0 then 0x80004000 else if PX 0 va = 1 then 0x80006000 else 0 else 0)"
proof -
  have "0x80003000 + 8 * PX 0 va \<noteq> 0" by (simp add: word_unat_eq_iff unat_entry)
  moreover have "pte_at 2 ut0 0x80001000 va = (if PX 2 va = 0 \<and> PX 1 va = 0 then 0x80003000 + 8 * PX 0 va else 0)"
    unfolding pt_steps by (simp add: ut0_walk del: One_nat_def)
  ultimately show ?thesis by (simp add: xlate_def Let_def ut0_walk not_le [symmetric] del: pte_at.simps One_nat_def)
qed

lemma px_page:
  assumes "va < MAXVA" and "PX 2 va = 0" and "PX 1 va = 0"
  shows "PGROUNDDOWN va = 4096 * PX 0 va"
proof -
  define q where "q = unat va div 4096"
  have "unat va < 2 ^ 38" using assms(1) by (simp add: word_less_nat_alt MAXVA_def)
  then have q: "q < 2 ^ 26" by (simp add: q_def less_mult_imp_div_less)
  have "q div 512 div 512 mod 512 = 0" "q div 512 mod 512 = 0" "unat (PX 0 va) = q mod 512"
    using assms(2,3) unfolding PX_eq unat_PX q_def by (simp_all add: div_mult2_eq [symmetric])
  moreover have "q div 512 div 512 < 512" using q by (simp add: div_mult2_eq [symmetric] less_mult_imp_div_less)
  ultimately have "q < 512" "unat (PX 0 va) = q" by (auto simp: div_eq_0_iff)
  then show ?thesis by (simp add: word_unat_eq_iff unat_PGROUNDDOWN q_def unat_word_ariths)
qed

lemma pt_sep_ut0: "pt_sep ut0 0x80001000"
  unfolding pt_sep_def
proof (intro conjI allI ballI impI)
  fix va va' a assume "a \<in> pte_reads 2 ut0 0x80001000 va'" "xlate ut0 0x80001000 va \<noteq> 0"
  then show "unat a + 8 \<le> unat (xlate ut0 0x80001000 va) \<or> unat (xlate ut0 0x80001000 va) + 4096 \<le> unat a"
    using pte_reads_ut0 [of a va'] by (simp add: xlate_ut0 split: if_splits)
next
  fix va va' assume "xlate ut0 0x80001000 (PGROUNDDOWN va) \<noteq> 0"
    "xlate ut0 0x80001000 (PGROUNDDOWN va) = xlate ut0 0x80001000 (PGROUNDDOWN va')"
  then have "PGROUNDDOWN (PGROUNDDOWN va) = PGROUNDDOWN (PGROUNDDOWN va')"
    by (auto simp: xlate_ut0 px_page split: if_splits)
  then show "PGROUNDDOWN va = PGROUNDDOWN va'" by (simp add: word_unat_eq_iff unat_PGROUNDDOWN)
qed

lemma four: "i < 4 \<longleftrightarrow> i = 0 \<or> i = 1 \<or> i = 2 \<or> i = (3 :: nat)"
  by linarith

lemma xlate_ut0_pages: "xlate ut0 0x80001000 0 = 0x80004000" "xlate ut0 0x80001000 0x1000 = 0x80006000"
  by (simp_all add: xlate_ut0 MAXVA_def PX_def)

lemma ut0_user: "0x80004000 \<le> a \<Longrightarrow> ut0 a = 0"
  by (simp add: ut0_def st_other)

lemma pages4: "PGROUNDDOWN 0xFFE = 0" "PGROUNDDOWN 0xFFF = 0" "PGROUNDDOWN 0x1000 = 0x1000" "PGROUNDDOWN 0x1001 = 0x1000"
  by (simp_all add: word_unat_eq_iff unat_PGROUNDDOWN)

lemma ubyte_ut0:
  assumes "i < 4"
  shows "ubyte ut0 0x80001000 (0xFFE + of_nat i) = Some 0"
  using assms unfolding four
  by (elim disjE) (simp_all add: ubyte_def pages4 xlate_ut0_pages ut0_user)

lemma urange_ut0: "urange ut0 0x80001000 0xFFE 4"
  by (simp add: urange_def ubyte_ut0)

theorem copyin_exact_witness:
  "\<exists>dst'. copyin 0x80001000 (\<lambda>_. 7) 0 0xFFE 4 umem0 = Ok (0, dst') umem0 \<and> dst' 0 = 0 \<and> dst' 3 = 0 \<and> dst' 4 = 7"
proof -
  have "mem umem0 = ut0" by (simp add: umem0_def)
  then obtain dst' where "copyin 0x80001000 (\<lambda>_. 7) 0 0xFFE 4 umem0 = Ok (0, dst') umem0"
    "\<forall>i<4. ubyte ut0 0x80001000 (0xFFE + of_nat i) = Some (dst' i)" "\<forall>x\<ge>4. dst' x = 7"
    using copyin_exact [of "0x80001000" "\<lambda>_. 7" 0 "0xFFE" 4 umem0] urange_ut0 by auto
  moreover have "dst' 0 = 0" "dst' 3 = 0" using calculation(2) [rule_format, of 0] calculation(2) [rule_format, of 3] ubyte_ut0 [of 0] ubyte_ut0 [of 3] by simp_all
  ultimately show ?thesis by auto
qed

theorem copyout_copyin_witness:
  "\<exists>m' dst'. copyout 0x80001000 0xFFE (\<lambda>x. of_nat x + 1) 0 4 umem0 = Ok 0 (umem0\<lparr>mem := m'\<rparr>) \<and>
     copyin 0x80001000 (\<lambda>_. 0) 8 0xFFE 4 (umem0\<lparr>mem := m'\<rparr>) = Ok (0, dst') (umem0\<lparr>mem := m'\<rparr>) \<and>
     dst' 8 = 1 \<and> dst' 11 = 4"
proof -
  have "mem umem0 = ut0" by (simp add: umem0_def)
  then obtain m' dst' where m: "copyout 0x80001000 0xFFE (\<lambda>x. of_nat x + 1) 0 4 umem0 = Ok 0 (umem0\<lparr>mem := m'\<rparr>)"
    "copyin 0x80001000 (\<lambda>_. 0) 8 0xFFE 4 (umem0\<lparr>mem := m'\<rparr>) = Ok (0, dst') (umem0\<lparr>mem := m'\<rparr>)"
    "\<forall>i<4. dst' (8 + i) = of_nat i + 1"
    using copyout_copyin [of umem0 "0x80001000" "0xFFE" "\<lambda>x. of_nat x + 1" 0 4 "\<lambda>_. 0" 8] urange_ut0 pt_sep_ut0 by auto
  moreover have "dst' 8 = 1" "dst' 11 = 4" using m(3) [rule_format, of 0] m(3) [rule_format, of 3] by simp_all
  ultimately show ?thesis by blast
qed

end
