(* ===== verification/Xv6_Example.thy ===== *)
theory Xv6_Example
  imports Xv6_File Xv6_Virtio_Proofs Xv6_Vm_Proofs
begin

text \<open>
  A concrete machine, on which the witnesses evaluate: process 0 runs with the two-page user
  address space of \<open>ut0\<close>, no lock is held, the file table, the inode table and the console are
  as at boot, and the pipe at every address is empty and open at both ends.
\<close>

definition proc1 :: proc where
  "proc1 = proc0\<lparr>pagetable := 0x80001000\<rparr>"

definition inode0 :: inode where
  "inode0 = \<lparr>idev = 0, inum = 0, iref = 0, ivalid = False, itype = 0, imajor = 0, iminor = 0, inlink = 0, isize = 0,
     addrs = (\<lambda>_. 0)\<rparr>"

definition file0 :: file_t where
  "file0 = \<lparr>ftype = FD_NONE, fref = 0, readable = False, writable = False, fpipe = 0, fip = None, foff = 0,
     fmajor = 0, fminor = 0\<rparr>"

definition pipe0 :: pipe where
  "pipe0 = \<lparr>pdata = (\<lambda>_. 0), nread = 0, nwrite = 0, readopen = True, writeopen = True\<rparr>"

definition log0 :: log where
  "log0 = \<lparr>lstart = 2, lsize = 30, outstanding = 0, committing = False, ldev = 0, lh_n = 0, lh_block = (\<lambda>_. 0)\<rparr>"

definition sb0 :: superblock where
  "sb0 = \<lparr>sb_magic = 0x10203040, sb_size = 1000, sb_nblocks = 954, sb_ninodes = 200, sb_nlog = 30, sb_logstart = 2,
     sb_inodestart = 32, sb_bmapstart = 45\<rparr>"

definition ftable0 :: ftable where
  "ftable0 = \<lparr>hw = hart0, proc = (\<lambda>_. proc1), nextpid = 1, initproc = None, ticks = 0,
     slk = (\<lambda>_. \<lparr>sl_locked = False, sl_name = [], sl_pid = 0\<rparr>),
     mem = ut0, freelist = 0, kend = 0x80000000,
     uart_out = [], uart_in = [], uart_thre = True, uart_reg = (\<lambda>_. 0), panicked = False, pr_locking = True,
     kernel_pagetable = 0, satp = 0, etext = 0, trampoline = 0, kstk = (\<lambda>_. 0),
     bufs = (\<lambda>_. buf0), vd = (\<lambda>_. disk0), vhdr = (\<lambda>_. \<lparr>oh_type = 0, oh_reserved = 0, oh_sector = 0\<rparr>),
     mmio = (\<lambda>_ _. 0), img = (\<lambda>_ _. 0), wtrace = [], log = (\<lambda>_. log0), sb = sb0, inode = (\<lambda>_. inode0),
     cons_buf = (\<lambda>_. 0), cons_r = 0, cons_w = 0, cons_e = 0, devsw_read = (\<lambda>_. None), devsw_write = (\<lambda>_. None),
     files = (\<lambda>_. file0), pipes = (\<lambda>_. pipe0)\<rparr>"

lemma ftable0_fields [simp]:
  "hw ftable0 = hart0" "proc ftable0 = (\<lambda>_. proc1)" "mem ftable0 = ut0" "pipes ftable0 = (\<lambda>_. pipe0)"
  "files ftable0 = (\<lambda>_. file0)" "inode ftable0 = (\<lambda>_. inode0)" "log ftable0 = (\<lambda>_. log0)"
  "cons_r ftable0 = 0" "cons_w ftable0 = 0" "cons_e ftable0 = 0" "uart_thre ftable0" "\<not> panicked ftable0"
  by (simp_all add: ftable0_def)

lemma proc1_pt [simp]: "pagetable proc1 = 0x80001000" "\<not> killed proc1" "pstate proc1 = RUNNING"
  by (simp_all add: proc1_def proc0_def)

lemma ftable0_running: "hw s = hart0 \<Longrightarrow> proc s 0 = proc1 \<Longrightarrow> running 0 s"
  by (simp add: running_def quiet_def NPROC_def) (simp add: hart0_def proc1_def proc0_def)

end
