(* ===== verification/Xv6_Pipe_Proofs.thy ===== *)
theory Xv6_Pipe_Proofs
  imports Xv6_Ring Xv6_Example
begin

text \<open>
  A pipe is a bounded queue of bytes (\<^verbatim>\<open>kernel/pipe.c\<close>): \<open>pipe_bytes\<close> is the queue a pipe stands for.
  \<^verbatim>\<open>pipewrite()\<close> appends the bytes of the writer's memory, \<^verbatim>\<open>piperead()\<close> takes bytes from the front to
  the reader's memory, and the cases in which they stop early are the ones of the code.
\<close>

interpretation pipe_ring: ring PIPESIZE
  by unfold_locales (simp_all add: PIPESIZE_def)

definition pipe_bytes :: "pipe \<Rightarrow> byte list" where
  "pipe_bytes x = ring_list PIPESIZE (pdata x) (nread x) (nwrite x)"

definition pipe_ok :: "pipe \<Rightarrow> bool" where
  "pipe_ok x \<longleftrightarrow> ring_ok PIPESIZE (nread x) (nwrite x)"

text \<open>The ends of the pipe are not changed by reading and writing.\<close>

definition same_ends :: "pipe \<Rightarrow> pipe \<Rightarrow> bool" where
  "same_ends x y \<longleftrightarrow> readopen y = readopen x \<and> writeopen y = writeopen x"

section \<open>One byte\<close>

lemma length_pipe_bytes: "pipe_ok x \<Longrightarrow> length (pipe_bytes x) \<le> PIPESIZE"
  by (simp add: pipe_bytes_def pipe_ok_def ring_ok_def)

lemma pipe_full: "pipe_ok x \<Longrightarrow> nwrite x = nread x + of_nat PIPESIZE \<longleftrightarrow> length (pipe_bytes x) = PIPESIZE"
  by (simp add: pipe_ok_def pipe_bytes_def pipe_ring.full_iff)

lemma pipe_empty: "nread x = nwrite x \<longleftrightarrow> pipe_bytes x = []"
  by (simp add: pipe_bytes_def unat_diff_0 length_0_conv [symmetric] del: length_0_conv)

lemma pipe_push:
  assumes "pipe_ok x" and "length (pipe_bytes x) < PIPESIZE"
    and y: "y = x\<lparr>pdata := (pdata x)(unat (nwrite x) mod PIPESIZE := c), nwrite := nwrite x + 1\<rparr>"
  shows "pipe_ok y" and "pipe_bytes y = pipe_bytes x @ [c]" and "same_ends x y"
  using assms pipe_ring.push_ok pipe_ring.push_list by (simp_all add: pipe_ok_def pipe_bytes_def same_ends_def)

lemma pipe_pop:
  assumes "pipe_ok x" and "pipe_bytes x = c # bs"
  shows "pipe_ok (x\<lparr>nread := nread x + 1\<rparr>)" and "pipe_bytes (x\<lparr>nread := nread x + 1\<rparr>) = bs"
    and "pdata x (unat (nread x) mod PIPESIZE) = c"
proof -
  have ne: "nread x \<noteq> nwrite x" using assms(2) pipe_empty [of x] by simp
  show "pipe_ok (x\<lparr>nread := nread x + 1\<rparr>)" using pipe_ring.pop_ok [OF ne] assms(1) by (simp add: pipe_ok_def)
  show "pipe_bytes (x\<lparr>nread := nread x + 1\<rparr>) = bs" "pdata x (unat (nread x) mod PIPESIZE) = c"
    using pipe_ring.pop_list [OF ne, of "pdata x"] assms(2) by (simp_all add: pipe_bytes_def)
qed

section \<open>Writing\<close>

lemma pipewrite_loop_room:
  assumes "pipe_ok (pipes s pi)" and "length (pipe_bytes (pipes s pi)) + k \<le> PIPESIZE"
  shows "\<exists>y. pipewrite_loop pi pt addr i k s = Ok True (s\<lparr>pipes := (pipes s)(pi := y)\<rparr>) \<and> pipe_ok y \<and>
    same_ends (pipes s pi) y \<and> pipe_bytes y = pipe_bytes (pipes s pi) @ ubytes (mem s) pt (addr + of_nat i) k"
  using assms
proof (induction k arbitrary: i s)
  case 0
  then show ?case by (intro exI [of _ "pipes s pi"]) (simp add: same_ends_def)
next
  case (Suc k)
  let ?x = "pipes s pi" and ?va = "addr + of_nat i"
  have room: "length (pipe_bytes ?x) < PIPESIZE" using Suc.prems(2) by simp
  then have nf: "nwrite ?x \<noteq> nread ?x + of_nat PIPESIZE" using pipe_full [OF Suc.prems(1)] by simp
  obtain d where d: "copyin pt (\<lambda>_. 0) 0 ?va 1 s = Ok (if ubyte (mem s) pt ?va = None then -1 else 0, d) s"
    "ubyte (mem s) pt ?va \<noteq> None \<Longrightarrow> ubyte (mem s) pt ?va = Some (d 0)"
    using copyin_byte [of pt "\<lambda>_. 0" ?va s] by blast
  show ?case
  proof (cases "ubyte (mem s) pt ?va")
    case None
    then show ?thesis using Suc.prems nf d(1)
      by (intro exI [of _ ?x]) (simp add: get_pipe_def same_ends_def)
  next
    case (Some b)
    define y where "y = ?x\<lparr>pdata := (pdata ?x)(unat (nwrite ?x) mod PIPESIZE := b), nwrite := nwrite ?x + 1\<rparr>"
    note push = pipe_push [OF Suc.prems(1) room y_def]
    let ?t = "s\<lparr>pipes := (pipes s)(pi := y)\<rparr>"
    have b: "d 0 = b" using d(2) Some by simp
    obtain z where z: "pipewrite_loop pi pt addr (Suc i) k ?t = Ok True (?t\<lparr>pipes := (pipes ?t)(pi := z)\<rparr>)"
      "pipe_ok z" "same_ends y z" "pipe_bytes z = pipe_bytes y @ ubytes (mem s) pt (addr + of_nat (Suc i)) k"
      using Suc.IH [of ?t "Suc i"] push Suc.prems(2) by (auto simp del: fun_upd_apply simp: fun_upd_same)
    have "pipewrite_loop pi pt addr i (Suc k) s = pipewrite_loop pi pt addr (Suc i) k ?t"
      using nf d(1) Some by (simp add: get_pipe_def set_pipe_def y_def b)
    moreover have "same_ends ?x z" using push(3) z(3) by (simp add: same_ends_def)
    moreover have "pipe_bytes z = pipe_bytes ?x @ ubytes (mem s) pt ?va (Suc k)"
      using z(4) push(2) Some by (simp add: algebra_simps)
    ultimately show ?thesis using z(1,2)
      by (intro exI [of _ z]) (simp del: pipewrite_loop.simps ubytes.simps fun_upd_apply)
  qed
qed

text \<open>Without room for all bytes, the pipe is filled up; the loop then stops at the full pipe.\<close>

lemma pipewrite_loop_fills:
  assumes "pipe_ok (pipes s pi)" and "length (pipe_bytes (pipes s pi)) + j = PIPESIZE" and "j < k"
    and "urange (mem s) pt (addr + of_nat i) j"
  shows "\<exists>y. pipewrite_loop pi pt addr i k s = pipewrite_loop pi pt addr (i + j) (k - j) (s\<lparr>pipes := (pipes s)(pi := y)\<rparr>) \<and>
    pipe_ok y \<and> same_ends (pipes s pi) y \<and> length (pipe_bytes y) = PIPESIZE \<and>
    pipe_bytes y = pipe_bytes (pipes s pi) @ ubytes (mem s) pt (addr + of_nat i) j"
  using assms
proof (induction j arbitrary: i k s)
  case 0
  then show ?case by (intro exI [of _ "pipes s pi"]) (simp add: same_ends_def)
next
  case (Suc j)
  let ?x = "pipes s pi" and ?va = "addr + of_nat i"
  obtain k' where k: "k = Suc k'" using Suc.prems(3) by (cases k) auto
  have room: "length (pipe_bytes ?x) < PIPESIZE" using Suc.prems(2) by simp
  then have nf: "nwrite ?x \<noteq> nread ?x + of_nat PIPESIZE" using pipe_full [OF Suc.prems(1)] by simp
  obtain b where b: "ubyte (mem s) pt ?va = Some b" and u: "urange (mem s) pt (addr + of_nat (Suc i)) j"
    using Suc.prems(4) by (auto simp: urange_Suc algebra_simps)
  obtain d where d: "copyin pt (\<lambda>_. 0) 0 ?va 1 s = Ok (0, d) s" "d 0 = b"
    using copyin_byte [of pt "\<lambda>_. 0" ?va s] b by auto
  define y where "y = ?x\<lparr>pdata := (pdata ?x)(unat (nwrite ?x) mod PIPESIZE := b), nwrite := nwrite ?x + 1\<rparr>"
  note push = pipe_push [OF Suc.prems(1) room y_def]
  let ?t = "s\<lparr>pipes := (pipes s)(pi := y)\<rparr>"
  obtain z where z: "pipewrite_loop pi pt addr (Suc i) k' ?t =
      pipewrite_loop pi pt addr (Suc i + j) (k' - j) (?t\<lparr>pipes := (pipes ?t)(pi := z)\<rparr>)"
    "pipe_ok z" "same_ends y z" "length (pipe_bytes z) = PIPESIZE"
    "pipe_bytes z = pipe_bytes y @ ubytes (mem s) pt (addr + of_nat (Suc i)) j"
    using Suc.IH [of ?t k' "Suc i"] push Suc.prems(2,3) u k by (auto simp del: fun_upd_apply simp: fun_upd_same)
  have "pipewrite_loop pi pt addr i k s = pipewrite_loop pi pt addr (Suc i) k' ?t"
    using nf d k by (simp add: get_pipe_def set_pipe_def y_def)
  moreover have "same_ends ?x z" using push(3) z(3) by (simp add: same_ends_def)
  moreover have "pipe_bytes z = pipe_bytes ?x @ ubytes (mem s) pt ?va (Suc j)"
    using z(5) push(2) b by (simp add: algebra_simps)
  ultimately show ?case using z(1,2,4) k
    by (intro exI [of _ z]) (simp del: pipewrite_loop.simps ubytes.simps fun_upd_apply)
qed

section \<open>Reading\<close>

lemma piperead_loop_run:
  assumes "pipe_ok (pipes s pi)" and "pt_sep (mem s) pt" and "k \<le> 2 ^ 31"
    and "bs = pipe_bytes (pipes s pi)" and "j = min k (min (length bs) (length (ubytes (mem s) pt (addr + of_nat i) k)))"
  shows "\<exists>y m'. piperead_loop pi pt addr i k s = Ok (i + j) (s\<lparr>pipes := (pipes s)(pi := y), mem := m'\<rparr>) \<and>
    pipe_ok y \<and> same_ends (pipes s pi) y \<and>
    pipe_bytes y = drop (if j < min k (length bs) then Suc j else j) bs \<and>
    put (mem s) pt (addr + of_nat i) j (\<lambda>n. bs ! n) 0 m'"
  using assms
proof (induction k arbitrary: i s bs j)
  case 0
  then show ?case by (intro exI [of _ "pipes s pi"] exI [of _ "mem s"]) (simp add: same_ends_def put_0)
next
  case (Suc k)
  let ?x = "pipes s pi" and ?va = "addr + of_nat i"
  show ?case
  proof (cases bs)
    case Nil
    then show ?thesis using Suc.prems pipe_empty [of ?x]
      by (intro exI [of _ ?x] exI [of _ "mem s"]) (simp add: get_pipe_def same_ends_def put_0)
  next
    case (Cons c cs)
    then have ne: "nread ?x \<noteq> nwrite ?x" using Suc.prems(4) pipe_empty [of ?x] by simp
    note pop = pipe_pop [OF Suc.prems(1), of c cs, unfolded Suc.prems(4) [symmetric], OF Cons]
    let ?y = "?x\<lparr>nread := nread ?x + 1\<rparr>"
    let ?s = "s\<lparr>pipes := (pipes s)(pi := ?y)\<rparr>"
    obtain m1 where m1: "copyout pt ?va (\<lambda>_. c) 0 1 ?s =
        Ok (if ubyte (mem s) pt ?va = None then -1 else 0) (?s\<lparr>mem := m1\<rparr>)"
      "put (mem s) pt ?va (if ubyte (mem s) pt ?va = None then 0 else 1) (\<lambda>_. c) 0 m1"
      using copyout_byte [of ?s pt ?va c] Suc.prems(2) by auto
    have step: "piperead_loop pi pt addr i (Suc k) s =
        (if ubyte (mem s) pt ?va = None then Ok i (?s\<lparr>mem := m1\<rparr>)
         else piperead_loop pi pt addr (Suc i) k (?s\<lparr>mem := m1\<rparr>))"
      using ne pop(3) m1(1) by (simp add: get_pipe_def set_pipe_def Let_def)
    show ?thesis
    proof (cases "ubyte (mem s) pt ?va = None")
      case True
      then have "j = 0" using Suc.prems(5) by simp
      have "pipe_bytes ?y = drop (if j < min (Suc k) (length bs) then Suc j else j) bs"
        using pop(2) Cons \<open>j = 0\<close> by simp
      moreover have "put (mem s) pt ?va j (\<lambda>n. bs ! n) 0 m1"
        using m1(2) True \<open>j = 0\<close> put_src_cong [of 0 "\<lambda>_. c" 0 "\<lambda>n. bs ! n" 0] by simp
      moreover have "same_ends ?x ?y" by (simp add: same_ends_def)
      ultimately show ?thesis
        using step True \<open>j = 0\<close> pop(1) by (intro exI [of _ ?y] exI [of _ m1]) (simp del: piperead_loop.simps fun_upd_apply)
    next
      case False
      let ?t = "?s\<lparr>mem := m1\<rparr>" and ?va1 = "addr + of_nat (Suc i)"
      define j' where "j' = min k (min (length cs) (length (ubytes m1 pt ?va1 k)))"
      have p1: "put (mem s) pt ?va 1 (\<lambda>n. bs ! n) 0 m1"
        using m1(2) False Cons put_src_cong [of 1 "\<lambda>_. c" 0 "\<lambda>n. bs ! n" 0] by simp
      then have sep: "pt_sep m1 pt" and x: "xlate m1 pt = xlate (mem s) pt" by (auto simp: put_def)
      have j: "j = Suc j'"
        using Suc.prems(5) False Cons ubytes_put [OF x, of ?va1 k] by (auto simp: j'_def algebra_simps)
      have ok': "pipe_ok (pipes ?t pi)" and cs': "cs = pipe_bytes (pipes ?t pi)" using pop by simp_all
      have sep': "pt_sep (mem ?t) pt" and k': "k \<le> 2 ^ 31" using sep Suc.prems(3) by simp_all
      have j': "j' = min k (min (length cs) (length (ubytes (mem ?t) pt ?va1 k)))" by (simp add: j'_def)
      obtain y m' where y: "piperead_loop pi pt addr (Suc i) k ?t =
          Ok (Suc i + j') (?t\<lparr>pipes := (pipes ?t)(pi := y), mem := m'\<rparr>)"
        "pipe_ok y" "same_ends ?y y" "pipe_bytes y = drop (if j' < min k (length cs) then Suc j' else j') cs"
        "put m1 pt ?va1 j' (\<lambda>n. cs ! n) 0 m'"
        using Suc.IH [OF ok' sep' k' cs' j'] by (auto simp del: fun_upd_apply simp: fun_upd_same)
      have "put m1 pt ?va1 (j - 1) (\<lambda>n. bs ! n) (0 + 1) m'"
        using y(5) Cons j put_src_cong [of j' "\<lambda>n. cs ! n" 0 "\<lambda>n. bs ! n" 1] by simp
      then have "put (mem s) pt ?va j (\<lambda>n. bs ! n) 0 m'"
        using j Suc.prems(3,5) by (intro put_trans [OF p1]) (auto simp: algebra_simps)
      moreover have "pipe_bytes y = drop (if j < min (Suc k) (length bs) then Suc j else j) bs"
        using y(4) Cons j by simp
      moreover have "same_ends ?x y" using y(3) by (simp add: same_ends_def)
      ultimately show ?thesis
        using step False y(1,2) j by (intro exI [of _ y] exI [of _ m']) (simp del: piperead_loop.simps fun_upd_apply)
    qed
  qed
qed

section \<open>The system calls\<close>

lemma pipewrite_run:
  assumes r: "running p s" and ok: "pipe_ok (pipes s pi)" and room: "length (pipe_bytes (pipes s pi)) + nat n \<le> PIPESIZE"
  shows "\<exists>h' y. pipewrite pi addr n s = Ok n (s\<lparr>hw := h', pipes := (pipes s)(pi := y),
      proc := wake_upto (ChPipeRead pi) NPROC (proc s)\<rparr>) \<and> same_hart (hw s) h' \<and> pipe_ok y \<and> same_ends (pipes s pi) y \<and>
    pipe_bytes y = pipe_bytes (pipes s pi) @ ubytes (mem s) (pagetable (proc s p)) addr (nat n)"
proof -
  let ?l = "PipeLk pi" and ?pt = "pagetable (proc s p)"
  note q = runningD(1) [OF r]
  obtain h1 where h1: "same_hart (hw s) h1" "pipewrite pi addr n s =
      bind (pipewrite_loop pi ?pt addr 0 (nat n)) (\<lambda>fin. if fin then seq (wakeup (ChPipeRead pi)) (seq (release ?l) (ret n))
        else ret (-1)) (s\<lparr>hw := enter ?l h1\<rparr>)"
    using curproc_lock_run [OF q, where l = ?l and k = "\<lambda>pr. bind (pipewrite_loop pi (pagetable pr) addr 0 (nat n))
      (\<lambda>fin. if fin then seq (wakeup (ChPipeRead pi)) (seq (release ?l) (ret n)) else ret (-1))"]
    unfolding pipewrite_def by blast
  let ?s = "s\<lparr>hw := enter ?l h1\<rparr>"
  obtain y where y: "pipewrite_loop pi ?pt addr 0 (nat n) ?s = Ok True (?s\<lparr>pipes := (pipes ?s)(pi := y)\<rparr>)" "pipe_ok y"
    "same_ends (pipes s pi) y" "pipe_bytes y = pipe_bytes (pipes s pi) @ ubytes (mem s) ?pt addr (nat n)"
    using pipewrite_loop_room [of ?s pi "nat n" ?pt addr 0] ok room by auto
  let ?t = "?s\<lparr>pipes := (pipes ?s)(pi := y)\<rparr>"
  have q1: "quiet p h1" using same_hart_quiet [OF h1(1)] q by simp
  obtain h2 where h2: "same_hart h1 h2" "seq (wakeup (ChPipeRead pi)) (seq (release ?l) (ret n)) ?t =
      Ok n (?t\<lparr>hw := h2, proc := wake_upto (ChPipeRead pi) NPROC (proc ?t)\<rparr>)"
    using wake_release_run [OF quiet_no_locks [OF q1], where l = ?l and s = ?t and ch = "ChPipeRead pi" and r = n] by auto
  have "pipewrite pi addr n s = Ok n (?t\<lparr>hw := h2, proc := wake_upto (ChPipeRead pi) NPROC (proc ?t)\<rparr>)"
    using h1(2) y(1) h2(2) by simp
  moreover have "same_hart (hw s) h2" using h1(1) h2(1) same_hart_trans by blast
  ultimately show ?thesis using y by (intro exI [of _ h2] exI [of _ y]) (simp del: fun_upd_apply)
qed

lemma piperead_run:
  assumes r: "running p s" and ok: "pipe_ok (pipes s pi)" and sep: "pt_sep (mem s) (pagetable (proc s p))"
    and ready: "pipe_bytes (pipes s pi) \<noteq> [] \<or> \<not> writeopen (pipes s pi)" and n: "n < 2 ^ 31"
    and bs: "bs = pipe_bytes (pipes s pi)"
    and j: "j = min (nat n) (min (length bs) (length (ubytes (mem s) (pagetable (proc s p)) addr (nat n))))"
  shows "\<exists>h' y m'. piperead pi addr n s = Ok (int j) (s\<lparr>hw := h', pipes := (pipes s)(pi := y), mem := m',
      proc := wake_upto (ChPipeWrite pi) NPROC (proc s)\<rparr>) \<and> same_hart (hw s) h' \<and> pipe_ok y \<and> same_ends (pipes s pi) y \<and>
    pipe_bytes y = drop (if j < min (nat n) (length bs) then Suc j else j) bs \<and>
    put (mem s) (pagetable (proc s p)) addr j (\<lambda>i. bs ! i) 0 m'"
proof -
  let ?l = "PipeLk pi" and ?pt = "pagetable (proc s p)"
  note q = runningD(1) [OF r]
  obtain h1 where h1: "same_hart (hw s) h1" "piperead pi addr n s = piperead_body pi ?pt addr n (s\<lparr>hw := enter ?l h1\<rparr>)"
    using curproc_lock_run [OF q, where l = ?l and k = "\<lambda>pr. piperead_body pi (pagetable pr) addr n"]
    unfolding piperead_def by blast
  let ?s = "s\<lparr>hw := enter ?l h1\<rparr>"
  have k: "nat n \<le> 2 ^ 31" using n by simp
  have ok': "pipe_ok (pipes ?s pi)" and sep': "pt_sep (mem ?s) ?pt" and bs': "bs = pipe_bytes (pipes ?s pi)"
    and j': "j = min (nat n) (min (length bs) (length (ubytes (mem ?s) ?pt (addr + of_nat 0) (nat n))))"
    using ok sep bs j by simp_all
  obtain y m' where y: "piperead_loop pi ?pt addr 0 (nat n) ?s = Ok j (?s\<lparr>pipes := (pipes ?s)(pi := y), mem := m'\<rparr>)" "pipe_ok y"
    "same_ends (pipes s pi) y" "pipe_bytes y = drop (if j < min (nat n) (length bs) then Suc j else j) bs"
    "put (mem s) ?pt addr j (\<lambda>i. bs ! i) 0 m'"
    using piperead_loop_run [OF ok' sep' k bs' j'] by auto
  let ?t = "?s\<lparr>pipes := (pipes ?s)(pi := y), mem := m'\<rparr>"
  have q1: "quiet p h1" using same_hart_quiet [OF h1(1)] q by simp
  obtain h2 where h2: "same_hart h1 h2" "seq (wakeup (ChPipeWrite pi)) (seq (release ?l) (ret (int j))) ?t =
      Ok (int j) (?t\<lparr>hw := h2, proc := wake_upto (ChPipeWrite pi) NPROC (proc ?t)\<rparr>)"
    using wake_release_run [OF quiet_no_locks [OF q1], where l = ?l and s = ?t and ch = "ChPipeWrite pi" and r = "int j"] by auto
  have "\<not> (nread (pipes s pi) = nwrite (pipes s pi) \<and> writeopen (pipes s pi))"
    using ready pipe_empty [of "pipes s pi"] by simp
  then have "piperead pi addr n s = Ok (int j) (?t\<lparr>hw := h2, proc := wake_upto (ChPipeWrite pi) NPROC (proc ?t)\<rparr>)"
    using h1(2) y(1) h2(2) by (simp add: piperead_body_def get_pipe_def) blast
  moreover have "same_hart (hw s) h2" using h1(1) h2(1) same_hart_trans by blast
  ultimately show ?thesis using y by (intro exI [of _ h2] exI [of _ y] exI [of _ m']) (simp del: fun_upd_apply)
qed

text \<open>What the writer does at a full pipe.\<close>

lemma pipewrite_stop:
  assumes q: "quiet p h" and n0: "noff (cpus h (tp h)) = 0" and same: "hw s = enter (PipeLk pi) h"
    and ok: "pipe_ok (pipes s pi)" and full: "length (pipe_bytes (pipes s pi)) = PIPESIZE" and k: "0 < k"
    and x: "x = pipes s pi" and P: "P = wake_upto (ChPipeRead pi) NPROC (proc s)"
  shows "\<exists>h'. (if \<not> readopen x \<or> killed (proc s p) then
      same_hart h h' \<and> pipewrite_loop pi pt addr i k s = Ok False (s\<lparr>hw := h'\<rparr>)
    else in_sched p h (intr_get_hw h) h' \<and> pipewrite_loop pi pt addr i k s = Swtch (s\<lparr>hw := h',
      proc := P(p := (P p)\<lparr>chan := Some (ChPipeWrite pi), pstate := SLEEPING\<rparr>)\<rparr>))"
proof -
  let ?l = "PipeLk pi"
  obtain k' where k': "k = Suc k'" using k by (cases k) auto
  have w: "nwrite x = nread x + of_nat PIPESIZE" using pipe_full [OF ok] full x by simp
  have c: "calm (hw s)" using quietD(1) [OF q] by (simp add: same enter_calmD)
  obtain h1 where h1: "same_hart (hw s) h1" "curproc s = Ok p (s\<lparr>hw := h1\<rparr>)"
    using curproc_run [OF c, of p] quietD(2) [OF q] by (auto simp: same)
  have step: "pipewrite_loop pi pt addr i k s = (if \<not> readopen x \<or> killed (proc s p) then seq (release ?l) (ret False)
      else seq (wakeup (ChPipeRead pi)) (sleep (ChPipeWrite pi) ?l)) (s\<lparr>hw := h1\<rparr>)"
    using w h1(2) x k' by (simp add: get_pipe_def proc_op_defs)
  have s1: "same_hart (enter ?l h) (hw (s\<lparr>hw := h1\<rparr>))" using h1(1) same by simp
  show ?thesis
  proof (cases "\<not> readopen x \<or> killed (proc s p)")
    case True
    have "same_hart h (leave ?l h1)" using leave_enter [of h ?l h1] quietD(1,3) [OF q] s1 by simp
    moreover have "release ?l (s\<lparr>hw := h1\<rparr>) = Ok () (s\<lparr>hw := leave ?l h1\<rparr>)"
      using release_after [OF quietD(1) [OF q] s1] by simp
    ultimately show ?thesis using True step by (intro exI [of _ "leave ?l h1"]) (simp del: pipewrite_loop.simps)
  next
    case False
    have "proc_locks_free h1" "calm h1"
      using proc_locks_free_enter [OF quiet_no_locks [OF q], of ?l] s1 q
      by (simp_all add: same_hart_proc_locks_free same_hart_calm [OF s1 [simplified]] enter_calmD quietD)
    then obtain h2 where h2: "same_hart h1 h2" "wakeup (ChPipeRead pi) (s\<lparr>hw := h1\<rparr>) = Ok () (s\<lparr>hw := h2, proc := P\<rparr>)"
      using wakeup_run [of "s\<lparr>hw := h1\<rparr>" "ChPipeRead pi"] P by auto
    let ?t = "s\<lparr>hw := h2, proc := P\<rparr>"
    have s2: "same_hart (enter ?l h) (hw ?t)" using s1 h2(1) same_hart_trans by auto
    have "intena (cpus h2 (tp h2)) = intr_get_hw h"
      using s2 n0 enter_intena [of ?l h] by (auto simp: same_hart_def)
    then obtain h3 where "in_sched p h (intr_get_hw h) h3" "(sleep (ChPipeWrite pi) ?l ?t :: (_, bool) outcome) =
        Swtch (?t\<lparr>hw := h3, proc := (proc ?t)(p := (proc ?t p)\<lparr>chan := Some (ChPipeWrite pi), pstate := SLEEPING\<rparr>)\<rparr>)"
      using sleep_run [OF q n0 s2, of "intr_get_hw h" "ChPipeWrite pi"] by auto
    then show ?thesis using False step h2(2) by (intro exI [of _ h3]) (simp del: pipewrite_loop.simps fun_upd_apply)
  qed
qed

lemma pipewrite_full_run:
  assumes r: "running p s" and ok: "pipe_ok (pipes s pi)" and room: "length (pipe_bytes (pipes s pi)) + j = PIPESIZE"
    and j: "j < nat n" and u: "urange (mem s) (pagetable (proc s p)) addr j"
    and P: "P = wake_upto (ChPipeRead pi) NPROC (proc s)"
  shows "\<exists>h' y. pipe_ok y \<and> same_ends (pipes s pi) y \<and>
    pipe_bytes y = pipe_bytes (pipes s pi) @ ubytes (mem s) (pagetable (proc s p)) addr j \<and>
    (if \<not> readopen (pipes s pi) \<or> killed (proc s p) then
       same_hart (hw s) h' \<and> pipewrite pi addr n s = Ok (-1) (s\<lparr>hw := h', pipes := (pipes s)(pi := y)\<rparr>)
     else (\<forall>l. l \<noteq> ProcLk p \<longrightarrow> \<not> locked (locks h' l)) \<and> pipewrite pi addr n s = Swtch (s\<lparr>hw := h', pipes := (pipes s)(pi := y),
       proc := P(p := (P p)\<lparr>chan := Some (ChPipeWrite pi), pstate := SLEEPING\<rparr>)\<rparr>))"
proof -
  let ?l = "PipeLk pi" and ?pt = "pagetable (proc s p)"
  note q = runningD(1) [OF r]
  obtain h1 where h1: "same_hart (hw s) h1" "pipewrite pi addr n s =
      bind (pipewrite_loop pi ?pt addr 0 (nat n)) (\<lambda>fin. if fin then seq (wakeup (ChPipeRead pi)) (seq (release ?l) (ret n))
        else ret (-1)) (s\<lparr>hw := enter ?l h1\<rparr>)"
    using curproc_lock_run [OF q, where l = ?l and k = "\<lambda>pr. bind (pipewrite_loop pi (pagetable pr) addr 0 (nat n))
      (\<lambda>fin. if fin then seq (wakeup (ChPipeRead pi)) (seq (release ?l) (ret n)) else ret (-1))"]
    unfolding pipewrite_def by blast
  let ?s = "s\<lparr>hw := enter ?l h1\<rparr>"
  obtain y where y: "pipewrite_loop pi ?pt addr 0 (nat n) ?s =
      pipewrite_loop pi ?pt addr j (nat n - j) (?s\<lparr>pipes := (pipes ?s)(pi := y)\<rparr>)" "pipe_ok y"
    "same_ends (pipes s pi) y" "length (pipe_bytes y) = PIPESIZE"
    "pipe_bytes y = pipe_bytes (pipes s pi) @ ubytes (mem s) ?pt addr j"
    using pipewrite_loop_fills [of ?s pi j "nat n" ?pt addr 0] ok room j u by auto
  let ?t = "?s\<lparr>pipes := (pipes ?s)(pi := y)\<rparr>"
  have q1: "quiet p h1" "noff (cpus h1 (tp h1)) = 0"
    using same_hart_quiet [OF h1(1)] q h1(1) runningD(5) [OF r] by (auto simp: same_hart_def)
  have ends: "readopen y = readopen (pipes s pi)" using y(3) by (simp add: same_ends_def)
  obtain h2 where h2: "if \<not> readopen y \<or> killed (proc s p) then
      same_hart h1 h2 \<and> pipewrite_loop pi ?pt addr j (nat n - j) ?t = Ok False (?t\<lparr>hw := h2\<rparr>)
    else in_sched p h1 (intr_get_hw h1) h2 \<and> pipewrite_loop pi ?pt addr j (nat n - j) ?t = Swtch (?t\<lparr>hw := h2,
      proc := P(p := (P p)\<lparr>chan := Some (ChPipeWrite pi), pstate := SLEEPING\<rparr>)\<rparr>)"
    using pipewrite_stop [OF q1, of ?t pi "nat n - j" y P ?pt addr j] y(2,4) j P by auto
  show ?thesis
  proof (cases "\<not> readopen y \<or> killed (proc s p)")
    case True
    then have "same_hart (hw s) h2" using h1(1) h2 same_hart_trans by auto
    moreover have "pipewrite pi addr n s = Ok (-1) (?t\<lparr>hw := h2\<rparr>)" using True h1(2) h2 y(1)
      by (simp add: bind_run(1) [where a = False and s' = "?t\<lparr>hw := h2\<rparr>"])
    ultimately show ?thesis using y True ends by (intro exI [of _ h2] exI [of _ y]) (simp del: fun_upd_apply)
  next
    case False
    then have "in_sched p h1 (intr_get_hw h1) h2" using h2 by simp
    moreover have "pipewrite pi addr n s = Swtch (?t\<lparr>hw := h2,
        proc := P(p := (P p)\<lparr>chan := Some (ChPipeWrite pi), pstate := SLEEPING\<rparr>)\<rparr>)"
      using False h1(2) h2 y(1) by simp
    ultimately show ?thesis using y False ends
      by (intro exI [of _ h2] exI [of _ y]) (simp del: fun_upd_apply add: in_sched_def)
  qed
qed

section \<open>Properties\<close>

text \<open>
  C12: \<^verbatim>\<open>pipewrite(pi, addr, n)\<close> with room for \<^verbatim>\<open>n\<close> bytes refines appending to a queue. It returns
  without sleeping and appends exactly the bytes of the caller's buffer, up to the first byte that
  is not mapped; the pipe stays within its 512 bytes, also when its 32-bit counters wrap around.
  Every process that slept on \<^verbatim>\<open>&pi->nread\<close> is made runnable, no lock stays held.
\<close>

theorem pipewrite_appends:
  assumes "running p s" and "pipe_ok (pipes s pi)" and "length (pipe_bytes (pipes s pi)) + nat n \<le> PIPESIZE"
  shows "\<exists>h' y. pipewrite pi addr n s = Ok n (s\<lparr>hw := h', pipes := (pipes s)(pi := y),
      proc := wake_upto (ChPipeRead pi) NPROC (proc s)\<rparr>) \<and> same_hart (hw s) h' \<and> pipe_ok y \<and> same_ends (pipes s pi) y \<and>
    pipe_bytes y = pipe_bytes (pipes s pi) @ ubytes (mem s) (pagetable (proc s p)) addr (nat n)"
  by (rule pipewrite_run [OF assms])

text \<open>
  C13: \<^verbatim>\<open>piperead(pi, addr, n)\<close> of a pipe that holds bytes, or has no writer left, refines taking from
  the front of the queue. It returns the number \<open>j\<close> of bytes delivered: as many as are wanted,
  present and have a mapped destination. Those bytes are the first of the queue, in order, at
  \<^verbatim>\<open>addr\<close>, and no other user byte changes. When a destination byte is not mapped, one byte more has
  left the pipe than was delivered. Every process that slept on \<^verbatim>\<open>&pi->nwrite\<close> is made runnable.
\<close>

theorem piperead_takes:
  assumes "running p s" and "pipe_ok (pipes s pi)" and "pt_sep (mem s) (pagetable (proc s p))"
    and "pipe_bytes (pipes s pi) \<noteq> [] \<or> \<not> writeopen (pipes s pi)" and "n < 2 ^ 31"
    and "bs = pipe_bytes (pipes s pi)"
    and "j = min (nat n) (min (length bs) (length (ubytes (mem s) (pagetable (proc s p)) addr (nat n))))"
  shows "\<exists>h' y m'. piperead pi addr n s = Ok (int j) (s\<lparr>hw := h', pipes := (pipes s)(pi := y), mem := m',
      proc := wake_upto (ChPipeWrite pi) NPROC (proc s)\<rparr>) \<and> same_hart (hw s) h' \<and> pipe_ok y \<and> same_ends (pipes s pi) y \<and>
    pipe_bytes y = drop (if j < min (nat n) (length bs) then Suc j else j) bs \<and>
    (\<forall>i<j. ubyte m' (pagetable (proc s p)) (addr + of_nat i) = Some (bs ! i)) \<and>
    (\<forall>a. (\<forall>i<j. a \<noteq> addr + of_nat i) \<longrightarrow> ubyte m' (pagetable (proc s p)) a = ubyte (mem s) (pagetable (proc s p)) a)"
  using piperead_run [OF assms] unfolding put_def add_0 by blast

text \<open>
  C25: a \<^verbatim>\<open>pipewrite()\<close> of more bytes than there is room for fills the pipe and then, with a reader
  left and the caller not killed, wakes every reader and puts the caller to sleep on
  \<^verbatim>\<open>&pi->nwrite\<close> with the pipe's lock released. Without a reader, or for a killed caller, it
  returns -1 with the lock released; the bytes that fitted stay in the pipe.
\<close>

theorem pipewrite_full:
  assumes "running p s" and "pipe_ok (pipes s pi)" and "length (pipe_bytes (pipes s pi)) + j = PIPESIZE"
    and "j < nat n" and "urange (mem s) (pagetable (proc s p)) addr j"
    and "P = wake_upto (ChPipeRead pi) NPROC (proc s)"
  shows "\<exists>h' y. pipe_ok y \<and> same_ends (pipes s pi) y \<and>
    pipe_bytes y = pipe_bytes (pipes s pi) @ ubytes (mem s) (pagetable (proc s p)) addr j \<and>
    (if \<not> readopen (pipes s pi) \<or> killed (proc s p) then
       same_hart (hw s) h' \<and> pipewrite pi addr n s = Ok (-1) (s\<lparr>hw := h', pipes := (pipes s)(pi := y)\<rparr>)
     else (\<forall>l. l \<noteq> ProcLk p \<longrightarrow> \<not> locked (locks h' l)) \<and> pipewrite pi addr n s = Swtch (s\<lparr>hw := h', pipes := (pipes s)(pi := y),
       proc := P(p := (P p)\<lparr>chan := Some (ChPipeWrite pi), pstate := SLEEPING\<rparr>)\<rparr>))"
  by (rule pipewrite_full_run [OF assms])

section \<open>Witnesses\<close>

lemma ubytes_ut0: "ubytes ut0 0x80001000 0xFFE 4 = [0, 0, 0, 0]" "ubytes ut0 0x80001000 0xFFE 1 = [0]"
  using ubyte_ut0 [of 0] ubyte_ut0 [of 1] ubyte_ut0 [of 2] ubyte_ut0 [of 3] by (simp_all add: eval_nat_numeral)

lemma pipe0_ok [simp]: "pipe_ok pipe0" "pipe_bytes pipe0 = []"
  by (simp_all add: pipe_ok_def ring_ok_def pipe0_def pipe_bytes_def ring_list_def)

theorem pipewrite_appends_witness:
  "\<exists>t. pipewrite 0x80005000 0xFFE 4 ftable0 = Ok 4 t \<and> pipe_bytes (pipes t 0x80005000) = [0, 0, 0, 0]"
  using pipewrite_appends [of 0 ftable0 "0x80005000" 4 "0xFFE"] ftable0_running [of ftable0]
  by (auto simp: PIPESIZE_def ubytes_ut0)

text \<open>Two bytes in a pipe whose counters are about to wrap around.\<close>

definition wrapped :: ftable where
  "wrapped = ftable0\<lparr>pipes := (\<lambda>_. pipe0\<lparr>pdata := (\<lambda>_. 7), nread := -1, nwrite := 1\<rparr>)\<rparr>"

theorem piperead_takes_witness:
  "\<exists>t. piperead 0x80005000 0xFFE 4 wrapped = Ok 2 t \<and> pipe_bytes (pipes t 0x80005000) = [] \<and>
     ubyte (mem t) 0x80001000 0xFFF = Some 7 \<and> ubyte (mem t) 0x80001000 0x1000 = Some 0"
proof -
  let ?x = "pipe0\<lparr>pdata := (\<lambda>_. 7), nread := -1, nwrite := 1\<rparr>"
  have x: "pipe_ok ?x" "pipe_bytes ?x = [7, 7]"
    by (simp_all add: pipe_ok_def ring_ok_def pipe_bytes_def ring_list_def PIPESIZE_def upt_rec)
  have w: "pipes wrapped = (\<lambda>_. ?x)" "mem wrapped = ut0" "hw wrapped = hart0" "proc wrapped = (\<lambda>_. proc1)"
    by (simp_all add: wrapped_def)
  let ?pi = "0x80005000" and ?pt = "pagetable (proc wrapped 0)"
  have run: "running 0 wrapped" by (rule ftable0_running) (simp_all add: w)
  have pre: "pipe_ok (pipes wrapped ?pi)" "pt_sep (mem wrapped) ?pt"
    "pipe_bytes (pipes wrapped ?pi) \<noteq> [] \<or> \<not> writeopen (pipes wrapped ?pi)" "(4 :: int) < 2 ^ 31"
    "[7, 7] = pipe_bytes (pipes wrapped ?pi)"
    "2 = min (nat 4) (min (length [7, 7 :: byte]) (length (ubytes (mem wrapped) ?pt 0xFFE (nat 4))))"
    using x pt_sep_ut0 by (simp_all add: w ubytes_ut0)
  obtain h' y m' where t: "piperead ?pi 0xFFE 4 wrapped = Ok (int 2) (wrapped\<lparr>hw := h',
      pipes := (pipes wrapped)(?pi := y), mem := m', proc := wake_upto (ChPipeWrite ?pi) NPROC (proc wrapped)\<rparr>)"
    and y: "pipe_bytes y = drop (if 2 < min (nat 4) (length [7, 7 :: byte]) then Suc 2 else 2) [7, 7]"
    and got: "\<forall>i<2. ubyte m' ?pt (0xFFE + of_nat i) = Some ([7, 7] ! i)"
    and kept: "\<forall>a. (\<forall>i<2. a \<noteq> 0xFFE + of_nat i) \<longrightarrow> ubyte m' ?pt a = ubyte (mem wrapped) ?pt a"
    using piperead_takes [OF run pre] by blast
  have "ubyte m' 0x80001000 0xFFF = Some 7" using got [rule_format, of 1] by (simp add: w)
  moreover have "\<forall>i<2. (0x1000 :: uint64) \<noteq> 0xFFE + of_nat i" by (auto simp: less_2_cases_iff)
  then have "ubyte m' 0x80001000 0x1000 = Some 0" using kept ubyte_ut0 [of 2] by (simp add: w)
  ultimately show ?thesis using t y by simp
qed

text \<open>A pipe with room for one byte.\<close>

definition nearly_full :: ftable where
  "nearly_full = ftable0\<lparr>pipes := (\<lambda>_. pipe0\<lparr>nwrite := 511\<rparr>)\<rparr>"

theorem pipewrite_full_witness:
  "\<exists>t. pipewrite 0x80005000 0xFFE 2 nearly_full = Swtch t \<and> length (pipe_bytes (pipes t 0x80005000)) = 512 \<and>
     pstate (proc t 0) = SLEEPING \<and> chan (proc t 0) = Some (ChPipeWrite 0x80005000)"
proof -
  let ?x = "pipe0\<lparr>nwrite := 511\<rparr>"
  have x: "pipe_ok ?x" "length (pipe_bytes ?x) = 511" "readopen ?x"
    by (simp_all add: pipe_ok_def ring_ok_def pipe_bytes_def PIPESIZE_def pipe0_def)
  have w: "pipes nearly_full = (\<lambda>_. ?x)" "mem nearly_full = ut0" "hw nearly_full = hart0" "proc nearly_full = (\<lambda>_. proc1)"
    by (simp_all add: nearly_full_def)
  have "running 0 nearly_full" by (rule ftable0_running) (simp_all add: w)
  moreover have "urange ut0 0x80001000 0xFFE 1" using ubyte_ut0 [of 0] by (simp add: urange_1)
  ultimately show ?thesis
    using pipewrite_full [of 0 nearly_full "0x80005000" 1 2 "0xFFE", OF _ _ _ _ _ refl] x ubytes_ut0(2)
    by (auto simp: w PIPESIZE_def)
qed

end
