(* ===== verification/Xv6_Printf_Proofs.thy ===== *)
theory Xv6_Printf_Proofs
  imports Xv6_Printf
begin

text \<open>
  What \<^verbatim>\<open>printint()\<close> and \<^verbatim>\<open>printptr()\<close> of \<^verbatim>\<open>kernel/printf.c\<close> print can be read back, and the
  16-byte buffer of \<^verbatim>\<open>printint()\<close> never overflows for the bases the kernel uses.
\<close>

section \<open>Reading numbers back\<close>

definition undigit :: "int \<Rightarrow> int" where
  "undigit c = (if 48 \<le> c \<and> c \<le> 57 then c - 48 else c - 87)"

text \<open>Least significant digit first, as in \<^verbatim>\<open>buf\<close>; and the printed order, with a sign.\<close>

primrec read_rev :: "int \<Rightarrow> int list \<Rightarrow> int" where
  "read_rev b [] = 0"
| "read_rev b (c # cs) = undigit c + b * read_rev b cs"

definition read_int :: "int \<Rightarrow> int list \<Rightarrow> int" where
  "read_int b cs = (case cs of
     [] \<Rightarrow> 0 | c # ds \<Rightarrow> if c = 45 then - read_rev b (rev ds) else read_rev b (rev cs))"

text \<open>
  Reading the bytes of a number in base \<open>b\<close>: an optional minus sign and at least one digit, each
  below the base; anything else is refused.
\<close>

definition is_digit :: "int \<Rightarrow> int \<Rightarrow> bool" where
  "is_digit b c \<longleftrightarrow> (48 \<le> c \<and> c \<le> 57 \<or> 97 \<le> c \<and> c \<le> 102) \<and> undigit c < b"

definition reads_as :: "int \<Rightarrow> byte list \<Rightarrow> int option" where
  "reads_as b bs =
     (let cs = map uint bs; ds = (if take 1 cs = [45] then drop 1 cs else cs)
      in if ds \<noteq> [] \<and> list_all (is_digit b) ds then Some (read_int b cs) else None)"

lemma is_digit_byte: "is_digit b c \<Longrightarrow> 48 \<le> c \<and> c < 256"
  by (auto simp: is_digit_def)

lemma byte_chars:
  assumes "\<forall>c\<in>set cs. 0 \<le> c \<and> c < 256"
  shows "map uint (map of_int cs :: byte list) = cs"
  using assms by (induction cs) (simp_all add: unsigned_of_int take_bit_int_eq_self)

lemma undigit_digits [simp]: "k < 36 \<Longrightarrow> undigit (digits k) = int k"
  by (simp add: undigit_def digits_def)

lemma digits_range:
  fixes base :: uint
  assumes "k < unat base" and "unat base \<le> 16"
  shows "is_digit (uint base) (digits k)"
proof -
  have "int k < uint base" using assms(1) by (simp only: uint_nat of_nat_less_iff)
  then show ?thesis using assms by (simp add: is_digit_def) (simp add: digits_def)
qed

lemma printint_loop_run:
  assumes "unat x < unat base ^ Suc n" and "2 \<le> unat base" and "unat base \<le> 16"
  shows "\<exists>ds. printint_loop (Suc n) x base buf = Some (buf @ ds) \<and> ds \<noteq> [] \<and> length ds \<le> Suc n \<and>
     read_rev (uint base) ds = uint x \<and> (\<forall>c\<in>set ds. is_digit (uint base) c)"
  using assms
proof (induction n arbitrary: x buf)
  case 0
  then have "unat x < unat base" by simp
  then have "x div base = 0" "x mod base = x"
    by (simp_all add: word_unat_eq_iff unat_div unat_mod)
  then show ?case using 0 digits_range [of "unat x" base] by (simp add: Let_def)
next
  case (Suc n)
  have m: "unat (x mod base) < unat base" using Suc.prems by (simp add: unat_mod)
  have eq: "uint (x mod base) + uint base * uint (x div base) = uint x"
    by (simp add: uint_mod uint_div)
  show ?case
  proof (cases "x div base = 0")
    case True
    then have "uint (x mod base) = uint x" using eq by simp
    then show ?thesis using True m Suc.prems digits_range [of "unat (x mod base)" base] by (simp add: Let_def)
  next
    case False
    have "unat (x div base) < unat base ^ Suc n"
      using Suc.prems(1,2) by (simp add: unat_div less_mult_imp_div_less mult.commute)
    from Suc.IH [OF this Suc.prems(2,3), of "buf @ [digits (unat (x mod base))]"]
    obtain ds where "printint_loop (Suc n) (x div base) base (buf @ [digits (unat (x mod base))]) =
        Some ((buf @ [digits (unat (x mod base))]) @ ds)" "length ds \<le> Suc n"
        "read_rev (uint base) ds = uint (x div base)" "\<forall>c\<in>set ds. is_digit (uint base) c"
      by blast
    then show ?thesis
      using False m eq Suc.prems digits_range [of "unat (x mod base)" base]
      by (intro exI [of _ "digits (unat (x mod base)) # ds"]) (simp add: Let_def del: printint_loop.simps(2) add: printint_loop.simps(2) [of "Suc n"])
  qed
qed

lemma printint_loop_mono:
  "printint_loop n x base buf = Some r \<Longrightarrow> printint_loop (n + m) x base buf = Some r"
  by (induction n arbitrary: x buf) (auto simp: Let_def split: if_splits)

lemma consputs_run:
  assumes "uart_thre s" and "\<not> panicked s" and "\<forall>c\<in>set cs. c < 256"
  shows "consputs cs s = Ok () (s\<lparr>uart_out := uart_out s @ map of_int cs\<rparr>)"
  using assms
proof (induction cs arbitrary: s)
  case (Cons c cs)
  then have "consputc c s = Ok () (s\<lparr>uart_out := uart_out s @ [of_int c]\<rparr>)"
    by (simp add: consputc_def uartputc_def BACKSPACE_def)
  with Cons show ?case by simp
qed simp

lemma read_rev_digit:
  "ds \<noteq> [] \<Longrightarrow> \<forall>c\<in>set ds. 48 \<le> c \<Longrightarrow> read_int b (rev ds) = read_rev b ds"
proof -
  assume a: "ds \<noteq> []" "\<forall>c\<in>set ds. 48 \<le> c"
  then obtain c cs where r: "rev ds = c # cs" by (cases "rev ds") auto
  then have "c \<in> set ds" by (metis list.set_intros(1) set_rev)
  then have "c \<noteq> 45" using a(2) by force
  then show ?thesis using r by (simp add: read_int_def)
qed

lemma printint_chars:
  assumes "- (2 ^ 31) \<le> xx" and "xx < 2 ^ 31" and "base = 10 \<or> base = 16"
    and "uart_thre s" and "\<not> panicked s"
  shows "\<exists>cs. printint xx base True s = Ok () (s\<lparr>uart_out := uart_out s @ map of_int cs\<rparr>) \<and>
     length cs \<le> 11 \<and> (\<exists>ds. cs = (if xx < 0 then [45] else []) @ rev ds \<and> ds \<noteq> [] \<and>
       (\<forall>c\<in>set ds. is_digit (uint base) c)) \<and> read_int (uint base) cs = xx"
proof -
  let ?x = "if xx < 0 then of_int (- xx) else of_int xx :: uint"
  have ux: "uint ?x = \<bar>xx\<bar>"
    using assms(1,2) by (simp add: unsigned_of_int take_bit_int_eq_self del: of_int_minus)
  have b: "2 \<le> unat base" "unat base \<le> 16" using assms(3) by auto
  have lt: "unat ?x < unat base ^ Suc 9"
  proof -
    have "unat ?x \<le> 2 ^ 31" using ux assms(1,2) by (simp add: unat_eq_nat_uint nat_le_iff abs_le_iff)
    also have "2 ^ 31 < (10 :: nat) ^ Suc 9" by simp
    also have "\<dots> \<le> unat base ^ Suc 9" using assms(3) by auto
    finally show ?thesis .
  qed
  obtain ds where ds: "printint_loop (Suc 9) ?x base [] = Some ds" "ds \<noteq> []" "length ds \<le> 10"
      "read_rev (uint base) ds = \<bar>xx\<bar>" "\<forall>c\<in>set ds. is_digit (uint base) c"
    using printint_loop_run [OF lt b, of "[]"] ux by auto
  have rng: "\<forall>c\<in>set ds. 48 \<le> c \<and> c < 256" using ds(5) is_digit_byte by blast
  have loop: "printint_loop 16 ?x base [] = Some ds" using printint_loop_mono [OF ds(1), of 6] by simp
  show ?thesis
  proof (cases "xx < 0")
    case True
    have "consputs (45 # rev ds) s = Ok () (s\<lparr>uart_out := uart_out s @ map of_int (45 # rev ds)\<rparr>)"
      using assms(4,5) rng by (intro consputs_run) auto
    moreover have "read_int (uint base) (45 # rev ds) = xx" using True ds(4) by (simp add: read_int_def)
    ultimately show ?thesis
      using True loop ds(2,3,5) by (intro exI [of _ "45 # rev ds"]) (simp add: printint_def printint_buf_def Let_def)
  next
    case False
    have "consputs (rev ds) s = Ok () (s\<lparr>uart_out := uart_out s @ map of_int (rev ds)\<rparr>)"
      using assms(4,5) rng by (intro consputs_run) auto
    moreover have "read_int (uint base) (rev ds) = xx" using False ds(2,4) rng read_rev_digit [of ds] by simp
    ultimately show ?thesis
      using False loop ds(2,3,5) by (intro exI [of _ "rev ds"]) (simp add: printint_def printint_buf_def Let_def)
  qed
qed

text \<open>
  C24: \<^verbatim>\<open>printint(xx, base, 1)\<close> for base 10 or 16 never stores past its 16-byte buffer and appends at
  most 11 bytes to what the UART has sent. Those bytes are an optional minus sign and digits of the
  base, and they read back as \<open>xx\<close>, for every 32-bit \<^verbatim>\<open>int\<close> including the most negative one.
\<close>

theorem printint_roundtrip:
  assumes "- (2 ^ 31) \<le> xx" and "xx < 2 ^ 31" and "base = 10 \<or> base = 16"
    and "uart_thre s" and "\<not> panicked s"
  shows "\<exists>bs. printint xx base True s = Ok () (s\<lparr>uart_out := uart_out s @ bs\<rparr>) \<and>
     length bs \<le> 11 \<and> reads_as (uint base) bs = Some xx"
proof -
  obtain cs ds where cs: "printint xx base True s = Ok () (s\<lparr>uart_out := uart_out s @ map of_int cs\<rparr>)"
      "length cs \<le> 11" "cs = (if xx < 0 then [45] else []) @ rev ds" "ds \<noteq> []"
      "\<forall>c\<in>set ds. is_digit (uint base) c" "read_int (uint base) cs = xx"
    using printint_chars [OF assms] by blast
  have rng: "\<forall>c\<in>set ds. 48 \<le> c \<and> c < 256" using cs(5) is_digit_byte by blast
  then have "\<forall>c\<in>set cs. 0 \<le> c \<and> c < 256" using cs(3) by force
  note bytes = byte_chars [OF this]
  have "take 1 (rev ds) \<noteq> [45]" using cs(4) rng by (cases ds rule: rev_cases) auto
  then have "reads_as (uint base) (map of_int cs) = Some xx"
    using cs(4-6) unfolding reads_as_def bytes by (cases "xx < 0") (simp_all add: cs(3) list_all_iff)
  then show ?thesis using cs(1,2) by (intro exI [of _ "map of_int cs"]) simp
qed

section \<open>Printing only appends output\<close>

definition printer :: "('z tty_scheme, unit) kM \<Rightarrow> bool" where
  "printer m \<longleftrightarrow> (\<forall>s. uart_thre s \<and> \<not> panicked s \<longrightarrow> (\<exists>bs. m s = Ok () (s\<lparr>uart_out := uart_out s @ bs\<rparr>)))"

lemma printerD: "printer m \<Longrightarrow> uart_thre s \<Longrightarrow> \<not> panicked s \<Longrightarrow> \<exists>bs. m s = Ok () (s\<lparr>uart_out := uart_out s @ bs\<rparr>)"
  by (simp add: printer_def)

lemma printer_skip [intro!]: "printer skip"
  by (auto simp: printer_def intro: exI [of _ "[]"])

lemma printer_seq [intro!]:
  assumes "printer m" and "printer k"
  shows "printer (seq m k)"
  unfolding printer_def
proof (intro allI impI)
  fix s :: "'a tty_scheme"
  assume s: "uart_thre s \<and> \<not> panicked s"
  then obtain bs where bs: "m s = Ok () (s\<lparr>uart_out := uart_out s @ bs\<rparr>)" using printerD [OF assms(1)] by blast
  obtain cs where "k (s\<lparr>uart_out := uart_out s @ bs\<rparr>) = Ok () (s\<lparr>uart_out := uart_out s @ bs @ cs\<rparr>)"
    using printerD [OF assms(2), of "s\<lparr>uart_out := uart_out s @ bs\<rparr>"] s by auto
  then show "\<exists>bs. seq m k s = Ok () (s\<lparr>uart_out := uart_out s @ bs\<rparr>)" using bs by auto
qed

lemma printer_consputs: "\<forall>c\<in>set cs. c < 256 \<Longrightarrow> printer (consputs cs)"
  using consputs_run by (auto simp: printer_def)

lemma printer_consputc: "c < 256 \<Longrightarrow> printer (consputc c)"
  using printer_consputs [of "[c]"] consputs_run [of _ "[c]"]
  by (auto simp: printer_def consputc_def uartputc_def BACKSPACE_def)

lemma printer_str: "printer (consputs (str_bytes t))"
proof (rule printer_consputs)
  have "(of_char c :: int) < 256" for c
    by (metis nat_of_char_less_256 of_nat_of_char of_nat_less_numeral_iff)
  then show "\<forall>c\<in>set (str_bytes t). c < 256" by (simp add: str_bytes_def)
qed

lemma printer_printint: "printer (printint xx 10 sign)"
proof -
  let ?x = "if sign \<and> xx < 0 then of_int (- xx) else of_int xx :: uint"
  have "unat ?x < 2 ^ LENGTH(32)" by (rule unsigned_less)
  also have "2 ^ LENGTH(32) < (10 :: nat) ^ Suc 9" by simp
  finally have "unat ?x < unat (10 :: uint) ^ Suc 9" by simp
  from printint_loop_run [OF this, of "[]"]
  obtain ds where ds: "printint_loop (Suc 9) ?x 10 [] = Some ds" "length ds \<le> 10" "\<forall>c\<in>set ds. is_digit 10 c"
    by auto
  have loop: "printint_loop 16 ?x 10 [] = Some ds" using printint_loop_mono [OF ds(1), of 6] by simp
  let ?cs = "if sign \<and> xx < 0 then ds @ [45] else ds"
  have "printint_buf xx 10 sign = Some ?cs"
    using ds(2) unfolding printint_buf_def Let_def loop by simp
  moreover have "\<forall>c\<in>set ?cs. c < 256" using ds(3) is_digit_byte [of 10] by auto
  ultimately show ?thesis using printer_consputs [of "rev ?cs"] by (simp add: printint_def)
qed

text \<open>\<^verbatim>\<open>printf\<close> prints under its lock.\<close>

lemma printf_run:
  assumes "printer (printf_loop f ap :: ('z tty_scheme, unit) kM)"
    and "calm (hw (s :: 'z tty_scheme))" and "\<not> locked (locks (hw s) PrLk)" and "uart_thre s" and "\<not> panicked s"
  shows "\<exists>h bs. same_hart (hw s) h \<and> printf (Some f) ap s = Ok () (s\<lparr>hw := h, uart_out := uart_out s @ bs\<rparr>)"
proof (cases "pr_locking s")
  case True
  let ?s = "s\<lparr>hw := enter PrLk (hw s)\<rparr>"
  obtain bs where bs: "printf_loop f ap ?s = Ok () (?s\<lparr>uart_out := uart_out s @ bs\<rparr>)"
    using printerD [OF assms(1), of ?s] assms(4,5) by auto
  have "release PrLk (?s\<lparr>uart_out := uart_out s @ bs\<rparr>) =
      Ok () (s\<lparr>hw := leave PrLk (enter PrLk (hw s)), uart_out := uart_out s @ bs\<rparr>)"
    using release_after [OF assms(2), of PrLk "?s\<lparr>uart_out := uart_out s @ bs\<rparr>"] by simp
  moreover have "same_hart (hw s) (leave PrLk (enter PrLk (hw s)))"
    using assms(2,3) by (intro leave_enter) auto
  ultimately show ?thesis
    using True bs acquire_free [OF assms(3)] by (intro exI [of _ "leave PrLk (enter PrLk (hw s))"] exI [of _ bs]) (simp add: printf_def)
next
  case False
  obtain bs where "printf_loop f ap s = Ok () (s\<lparr>uart_out := uart_out s @ bs\<rparr>)"
    using printerD [OF assms(1,4,5)] by auto
  then show ?thesis using False by (intro exI [of _ "hw s"] exI [of _ bs]) (simp add: printf_def)
qed

definition tty0 :: tty where
  "tty0 = kmem.extend kmem0 \<lparr>uart_out = [], uart_in = [], uart_thre = True, uart_reg = (\<lambda>_. 0),
     panicked = False, pr_locking = True\<rparr>"

theorem printint_roundtrip_witness:
  "\<exists>bs. printint (- (2 ^ 31)) 10 True tty0 = Ok () (tty0\<lparr>uart_out := uart_out tty0 @ bs\<rparr>) \<and>
     length bs \<le> 11 \<and> reads_as 10 bs = Some (- (2 ^ 31))"
  using printint_roundtrip [of "- (2 ^ 31)" 10 tty0] by (simp add: tty0_def kmem.extend_def kmem0_def)

end
