(* ===== verification/Xv6_Console_Proofs.thy ===== *)
theory Xv6_Console_Proofs
  imports Xv6_Ring Xv6_Example Xv6_Printf_Proofs
begin

text \<open>
  The console's input (\<^verbatim>\<open>kernel/console.c\<close>) is a line editor over one ring buffer: the part from
  \<^verbatim>\<open>cons.r\<close> to \<^verbatim>\<open>cons.w\<close> holds completed lines, the part from \<^verbatim>\<open>cons.w\<close> to \<^verbatim>\<open>cons.e\<close> the line being typed.
  \<open>line_edit\<close> is the editor on these two byte lists; \<^verbatim>\<open>consoleintr()\<close> implements it, and
  \<^verbatim>\<open>consoleread()\<close> takes from the completed lines.
\<close>

interpretation cons_ring: ring INPUT_BUF
  by unfold_locales (simp_all add: INPUT_BUF_def)

definition cons_lines :: "'z console_scheme \<Rightarrow> byte list" where
  "cons_lines s = ring_list INPUT_BUF (cons_buf s) (cons_r s) (cons_w s)"

definition cons_edit :: "'z console_scheme \<Rightarrow> byte list" where
  "cons_edit s = ring_list INPUT_BUF (cons_buf s) (cons_w s) (cons_e s)"

definition cons_inv :: "'z console_scheme \<Rightarrow> bool" where
  "cons_inv s \<longleftrightarrow> unat (cons_w s - cons_r s) + unat (cons_e s - cons_w s) \<le> INPUT_BUF \<and> 10 \<notin> set (cons_edit s)"

section \<open>The abstract editor\<close>

definition input_char :: "int \<Rightarrow> byte" where
  "input_char c = (if c = 13 then 10 else of_int c)"

definition line_edit :: "int \<Rightarrow> byte list \<times> byte list \<Rightarrow> byte list \<times> byte list" where
  "line_edit c = (\<lambda>(done_lines, line).
     if c = 21 then (done_lines, [])
     else if c = 8 \<or> c = 127 then (done_lines, butlast line)
     else if c = 0 \<or> length done_lines + length line \<ge> 128 then (done_lines, line)
     else let line' = line @ [input_char c]
       in if input_char c = 10 \<or> input_char c = 4 \<or> length done_lines + length line' = 128
          then (done_lines @ line', []) else (done_lines, line'))"

text \<open>What is echoed.\<close>

definition rubout :: "byte list" where
  "rubout = [8, 32, 8]"

definition line_echo :: "int \<Rightarrow> byte list \<times> byte list \<Rightarrow> byte list" where
  "line_echo c = (\<lambda>(done_lines, line).
     if c = 21 then concat (replicate (length line) rubout)
     else if c = 8 \<or> c = 127 then (if line = [] then [] else rubout)
     else if c = 0 \<or> length done_lines + length line \<ge> 128 then []
     else [input_char c])"

section \<open>Steps\<close>

lemma consputc_run:
  assumes "uart_thre s" and "\<not> panicked s" and "c < 256"
  shows "consputc c s = Ok () (s\<lparr>uart_out := uart_out s @ [of_int c]\<rparr>)"
  using assms by (simp add: consputc_def uartputc_def BACKSPACE_def)

lemma rubout_run:
  assumes "uart_thre s" and "\<not> panicked s"
  shows "consputc BACKSPACE s = Ok () (s\<lparr>uart_out := uart_out s @ rubout\<rparr>)"
  using assms by (simp add: consputc_def uartputc_def rubout_def)

lemma length_lines: "length (cons_lines s) = unat (cons_w s - cons_r s)" "length (cons_edit s) = unat (cons_e s - cons_w s)"
  by (simp_all add: cons_lines_def cons_edit_def)

lemma erase_one:
  assumes "cons_e s \<noteq> cons_w s"
  shows "cons_edit (s\<lparr>cons_e := cons_e s - 1\<rparr>) = butlast (cons_edit s)"
    and "last (cons_edit s) = cons_buf s (unat (cons_e s - 1) mod INPUT_BUF)"
    and "cons_lines (s\<lparr>cons_e := cons_e s - 1\<rparr>) = cons_lines s"
  using cons_ring.unpush_list [OF assms] by (simp_all add: cons_edit_def cons_lines_def)

lemma edit_empty: "cons_edit s = [] \<longleftrightarrow> cons_e s = cons_w s"
  unfolding length_0_conv [symmetric] length_lines unat_diff_0 by auto

lemma erase_inv:
  assumes "cons_inv s" and "cons_e s \<noteq> cons_w s"
  shows "cons_inv (s\<lparr>cons_e := cons_e s - 1\<rparr>)"
proof -
  have "10 \<notin> set (butlast (cons_edit s))" using assms(1) by (auto simp: cons_inv_def dest: in_set_butlastD)
  moreover have "unat (cons_e s - 1 - cons_w s) \<le> unat (cons_e s - cons_w s)"
    using unat_minus_one [of "cons_e s - cons_w s"] assms(2) by (simp add: algebra_simps)
  ultimately show ?thesis using assms erase_one(1) [OF assms(2)] by (auto simp: cons_inv_def)
qed

lemma kill_line_run:
  assumes "cons_inv s" and "uart_thre s" and "\<not> panicked s" and "k = unat (cons_e s - cons_w s)"
  shows "kill_line k s = Ok () (s\<lparr>cons_e := cons_w s, uart_out := uart_out s @ concat (replicate k rubout)\<rparr>)"
  using assms
proof (induction k arbitrary: s)
  case 0
  then have "cons_e s = cons_w s" using unat_diff_0 [of "cons_e s" "cons_w s"] by simp
  then show ?case by simp
next
  case (Suc k)
  have ne: "cons_e s \<noteq> cons_w s" using Suc.prems(4) by auto
  then have "last (cons_edit s) \<in> set (cons_edit s)" using edit_empty [of s] by simp
  then have nl: "cons_buf s (unat (cons_e s - 1) mod INPUT_BUF) \<noteq> 10"
    using erase_one(2) [OF ne] Suc.prems(1) by (auto simp: cons_inv_def)
  let ?t = "s\<lparr>cons_e := cons_e s - 1, uart_out := uart_out s @ rubout\<rparr>"
  have "cons_inv ?t" using erase_inv [OF Suc.prems(1) ne] by (simp add: cons_inv_def cons_edit_def)
  moreover have "k = unat (cons_e ?t - cons_w ?t)"
    using unat_minus_one [of "cons_e s - cons_w s"] ne Suc.prems(4) by (simp add: algebra_simps)
  ultimately have "kill_line k ?t = Ok () (?t\<lparr>cons_e := cons_w ?t, uart_out := uart_out ?t @ concat (replicate k rubout)\<rparr>)"
    using Suc.prems(2,3) by (intro Suc.IH) simp_all
  moreover have "consputc BACKSPACE (s\<lparr>cons_e := cons_e s - 1\<rparr>) = Ok () ?t"
    using rubout_run [of "s\<lparr>cons_e := cons_e s - 1\<rparr>"] Suc.prems(2,3) by simp
  ultimately show ?case using ne nl by simp
qed

text \<open>Storing a character, and completing the line.\<close>

definition stored :: "byte \<Rightarrow> 'z console_scheme \<Rightarrow> 'z console_scheme" where
  "stored b s = s\<lparr>cons_buf := (cons_buf s)(unat (cons_e s) mod INPUT_BUF := b), cons_e := cons_e s + 1\<rparr>"

lemma stored_simps [simp]:
  "cons_r (stored b s) = cons_r s" "cons_w (stored b s) = cons_w s" "cons_e (stored b s) = cons_e s + 1"
  "hw (stored b s) = hw s" "proc (stored b s) = proc s" "uart_out (stored b s) = uart_out s"
  by (simp_all add: stored_def)

lemma room_iff:
  assumes "cons_inv s"
  shows "unat (cons_e s - cons_r s) = length (cons_lines s) + length (cons_edit s)"
  using cons_ring.two_parts(1) [of "cons_w s" "cons_r s" "cons_e s"] assms by (simp add: cons_inv_def length_lines)

lemma stored_lists:
  assumes "cons_inv s" and "length (cons_lines s) + length (cons_edit s) < INPUT_BUF"
  shows "cons_lines (stored b s) = cons_lines s" and "cons_edit (stored b s) = cons_edit s @ [b]"
    and "cons_e (stored b s) = cons_r s + of_nat INPUT_BUF \<longleftrightarrow> length (cons_lines s) + length (cons_edit s @ [b]) = 128"
    and "cons_inv s \<Longrightarrow> b \<noteq> 10 \<Longrightarrow> cons_inv (stored b s)"
proof -
  have n: "unat (cons_w s - cons_r s) + unat (cons_e s - cons_w s) < INPUT_BUF" using assms(2) by (simp add: length_lines)
  note push = cons_ring.push_second [OF n]
  show l: "cons_lines (stored b s) = cons_lines s" and e: "cons_edit (stored b s) = cons_edit s @ [b]"
    using push(1,2) by (simp_all add: cons_lines_def cons_edit_def stored_def)
  have room: "unat (cons_e s - cons_r s) < INPUT_BUF" using room_iff [OF assms(1)] assms(2) by simp
  have "ring_ok INPUT_BUF (cons_r s) (cons_e s + 1)" by (rule cons_ring.push_ok [OF room])
  moreover have "unat (cons_e s + 1 - cons_r s) = Suc (unat (cons_e s - cons_r s))"
    using room by (rule unat_diff_plus) (simp add: INPUT_BUF_def)
  ultimately show "cons_e (stored b s) = cons_r s + of_nat INPUT_BUF \<longleftrightarrow> length (cons_lines s) + length (cons_edit s @ [b]) = 128"
    using cons_ring.full_iff [of "cons_r s" "cons_e s + 1"] room_iff [OF assms(1)] by (simp add: INPUT_BUF_def)
  show "cons_inv (stored b s)" if "cons_inv s" "b \<noteq> 10"
    using that e assms(2) push(3) by (auto simp: cons_inv_def length_lines)
qed

lemma commit_lists:
  assumes "cons_inv s" and "length (cons_lines s) + length (cons_edit s) < INPUT_BUF"
    and t: "t = (stored b s)\<lparr>cons_w := cons_e s + 1\<rparr>"
  shows "cons_lines t = cons_lines s @ cons_edit s @ [b]" and "cons_edit t = []" and "cons_inv t"
proof -
  note st = stored_lists [OF assms(1,2), of b]
  have n: "unat (cons_w s - cons_r s) + unat (cons_e s + 1 - cons_w s) \<le> INPUT_BUF"
    using arg_cong [OF st(2), of length] assms(2) by (simp add: length_lines)
  note parts = cons_ring.two_parts [OF n]
  show "cons_lines t = cons_lines s @ cons_edit s @ [b]"
    using parts(2) [of "cons_buf (stored b s)"] st(1,2) by (simp add: cons_lines_def cons_edit_def t)
  show e: "cons_edit t = []" by (simp add: cons_edit_def ring_list_def t)
  show "cons_inv t" using parts(1) n e by (simp add: cons_inv_def t)
qed

section \<open>The interrupt handler\<close>

lemma byte_of_int:
  assumes "0 \<le> c" and "c < 256"
  shows "(of_int c :: byte) = 10 \<longleftrightarrow> c = 10" and "(of_int c :: byte) = 4 \<longleftrightarrow> c = 4"
  using assms by (simp_all add: word_uint_eq_iff unsigned_of_int take_bit_int_eq_self)

text \<open>The state after an input character: only the console, its output and sleeping readers change.\<close>

definition cframe :: "'z console_scheme \<Rightarrow> 'z console_scheme \<Rightarrow> bool" where
  "cframe s t \<longleftrightarrow> t = s\<lparr>hw := hw t, proc := proc t, uart_out := uart_out t, cons_buf := cons_buf t, cons_w := cons_w t,
     cons_e := cons_e t\<rparr>"

definition edited :: "int \<Rightarrow> 'z console_scheme \<Rightarrow> 'z console_scheme \<Rightarrow> bool" where
  "edited c s t \<longleftrightarrow> (cons_lines t, cons_edit t) = line_edit c (cons_lines s, cons_edit s) \<and>
     uart_out t = uart_out s @ line_echo c (cons_lines s, cons_edit s) \<and> cons_inv t \<and>
     proc t = (if cons_lines t = cons_lines s then proc s else wake_upto ChConsR NPROC (proc s)) \<and>
     cframe s t"

lemma cons_views [simp]:
  "cons_lines (s\<lparr>hw := h\<rparr>) = cons_lines s" "cons_edit (s\<lparr>hw := h\<rparr>) = cons_edit s"
  "cons_lines (s\<lparr>uart_out := u\<rparr>) = cons_lines s" "cons_edit (s\<lparr>uart_out := u\<rparr>) = cons_edit s"
  "cons_lines (s\<lparr>proc := P\<rparr>) = cons_lines s" "cons_edit (s\<lparr>proc := P\<rparr>) = cons_edit s"
  by (simp_all add: cons_lines_def cons_edit_def)

lemma cons_views_2 [simp]:
  "cons_lines (s\<lparr>hw := h, proc := P\<rparr>) = cons_lines s" "cons_edit (s\<lparr>hw := h, proc := P\<rparr>) = cons_edit s"
  by (simp_all add: cons_lines_def cons_edit_def)

lemma cons_inv_views [simp]:
  "cons_inv (s\<lparr>hw := h\<rparr>) = cons_inv s" "cons_inv (s\<lparr>uart_out := u\<rparr>) = cons_inv s" "cons_inv (s\<lparr>proc := P\<rparr>) = cons_inv s"
  by (simp_all add: cons_inv_def)

lemma cframe_hw:
  assumes "cframe s t"
  shows "cframe s (t\<lparr>hw := h\<rparr>)"
  using arg_cong [OF assms [unfolded cframe_def], of "hw_update (\<lambda>_. h)"] by (simp add: cframe_def)


lemma edited_hw: "edited c s t \<Longrightarrow> edited c s (t\<lparr>hw := h\<rparr>)"
  using cframe_hw [of s t h] by (simp add: edited_def)

definition completes :: "byte \<Rightarrow> 'z console_scheme \<Rightarrow> bool" where
  "completes b s \<longleftrightarrow> b = 10 \<or> b = 4 \<or> length (cons_lines s) + length (cons_edit s @ [b]) = 128"

definition plain_char :: "int \<Rightarrow> bool" where
  "plain_char c \<longleftrightarrow> 0 < c \<and> c < 256 \<and> c \<notin> {8, 16, 21, 127}"

lemma consoleintr_store:
  assumes n: "no_locks (hw s)" and inv: "cons_inv s" and u: "uart_thre s" "\<not> panicked s" and c: "plain_char c"
    and len: "length (cons_lines s) + length (cons_edit s) < INPUT_BUF"
    and t: "t = s\<lparr>hw := enter ConsLk (hw s), uart_out := uart_out s @ [input_char c]\<rparr>"
  shows "consoleintr c s = seq (whenM (completes (input_char c) s)
      (seq (upd (\<lambda>s. s\<lparr>cons_w := cons_e s\<rparr>)) (wakeup ChConsR))) (release ConsLk) (stored (input_char c) t)"
proof -
  let ?s = "s\<lparr>hw := enter ConsLk (hw s)\<rparr>" and ?c = "if c = 13 then 10 else c" and ?b = "input_char c"
  have acq: "acquire ConsLk s = Ok () ?s" using no_locksD(2) [OF n] by (rule acquire_free)
  have echo: "consputc ?c ?s = Ok () t"
    using consputc_run [of ?s ?c] u c by (simp add: input_char_def plain_char_def t)
  have len': "length (cons_lines t) + length (cons_edit t) < INPUT_BUF" and inv': "cons_inv t"
    using len inv by (simp_all add: t)
  have done': "(?c = 10 \<or> ?c = 4 \<or> cons_e (stored ?b t) = cons_r (stored ?b t) + of_nat INPUT_BUF) = completes ?b s"
    using stored_lists(3) [OF inv' len', of ?b] byte_of_int [of c] c
    by (auto simp: completes_def input_char_def plain_char_def t)
  have room: "unat (cons_e s - cons_r s) < INPUT_BUF" using room_iff [OF inv] len by simp
  have b: "of_int ?c = ?b" by (simp add: input_char_def)
  have "consoleintr c s = seq (seq (consputc ?c) (seq (upd (stored (of_int ?c)))
      (bind (gets (\<lambda>s. cons_e s = cons_r s + of_nat INPUT_BUF)) (\<lambda>full. whenM (?c = 10 \<or> ?c = 4 \<or> full)
        (seq (upd (\<lambda>s. s\<lparr>cons_w := cons_e s\<rparr>)) (wakeup ChConsR)))))) (release ConsLk) ?s"
    using acq c room
    by (simp add: consoleintr_def if_run Let_def stored_def [abs_def] plain_char_def del: if_split)
  also have "\<dots> = seq (whenM (?c = 10 \<or> ?c = 4 \<or> cons_e (stored ?b t) = cons_r (stored ?b t) + of_nat INPUT_BUF)
      (seq (upd (\<lambda>s. s\<lparr>cons_w := cons_e s\<rparr>)) (wakeup ChConsR))) (release ConsLk) (stored ?b t)"
    unfolding b using echo by simp
  finally show ?thesis unfolding done' .
qed

lemma edited_commit:
  assumes inv: "cons_inv s" and c: "plain_char c" and len: "length (cons_lines s) + length (cons_edit s) < INPUT_BUF"
    and fin: "completes (input_char c) s"
    and v: "v = ((stored (input_char c) (s\<lparr>hw := h, uart_out := uart_out s @ [input_char c]\<rparr>))\<lparr>cons_w := cons_e s + 1\<rparr>)\<lparr>hw := h1,
      proc := wake_upto ChConsR NPROC (proc s)\<rparr>"
  shows "edited c s v"
proof -
  let ?b = "input_char c" and ?u = "s\<lparr>hw := h, uart_out := uart_out s @ [input_char c]\<rparr>"
  let ?t = "(stored ?b ?u)\<lparr>cons_w := cons_e s + 1\<rparr>"
  have len': "length (cons_lines ?u) + length (cons_edit ?u) < INPUT_BUF" and inv': "cons_inv ?u"
    using len inv by simp_all
  have "?t = (stored ?b ?u)\<lparr>cons_w := cons_e ?u + 1\<rparr>" by simp
  note cm = commit_lists [OF inv' len' this]
  have "cons_lines v = cons_lines s @ cons_edit s @ [?b]" "cons_edit v = []" "cons_inv v"
    using cm by (simp_all add: cons_inv_def v)
  moreover have "cframe s v" by (simp add: cframe_def stored_def v)
  moreover have "uart_out v = uart_out s @ [?b]" "proc v = wake_upto ChConsR NPROC (proc s)" by (simp_all add: v)
  ultimately show ?thesis
    using c len fin unfolding edited_def completes_def
    by (simp add: line_edit_def line_echo_def Let_def plain_char_def INPUT_BUF_def)
qed

lemma edited_store:
  assumes inv: "cons_inv s" and c: "plain_char c" and len: "length (cons_lines s) + length (cons_edit s) < INPUT_BUF"
    and fin: "\<not> completes (input_char c) s"
  shows "edited c s (stored (input_char c) (s\<lparr>hw := h, uart_out := uart_out s @ [input_char c]\<rparr>))"
proof -
  let ?b = "input_char c" and ?u = "s\<lparr>hw := h, uart_out := uart_out s @ [input_char c]\<rparr>"
  have len': "length (cons_lines ?u) + length (cons_edit ?u) < INPUT_BUF" and inv': "cons_inv ?u"
    using len inv by simp_all
  show ?thesis
    using c len fin inv' stored_lists [OF inv' len', of ?b] unfolding edited_def completes_def
    by (simp add: line_edit_def line_echo_def Let_def plain_char_def INPUT_BUF_def) (simp add: cframe_def stored_def)
qed

lemma consoleintr_plain:
  assumes n: "no_locks (hw s)" and inv: "cons_inv s" and u: "uart_thre s" "\<not> panicked s" and c: "plain_char c"
    and len: "length (cons_lines s) + length (cons_edit s) < INPUT_BUF"
  shows "\<exists>t1. consoleintr c s = release ConsLk t1 \<and> same_hart (enter ConsLk (hw s)) (hw t1) \<and> edited c s t1"
proof -
  let ?h = "enter ConsLk (hw s)" and ?b = "input_char c"
  let ?u = "s\<lparr>hw := ?h, uart_out := uart_out s @ [?b]\<rparr>"
  note run = consoleintr_store [OF n inv u c len refl]
  show ?thesis
  proof (cases "completes ?b s")
    case True
    let ?t = "(stored ?b ?u)\<lparr>cons_w := cons_e s + 1\<rparr>"
    obtain h1 where h1: "same_hart ?h h1" "wakeup ChConsR ?t = Ok () (?t\<lparr>hw := h1, proc := wake_upto ChConsR NPROC (proc s)\<rparr>)"
      using wake_run [OF n, of ConsLk ?t ChConsR] by auto
    let ?v = "?t\<lparr>hw := h1, proc := wake_upto ChConsR NPROC (proc s)\<rparr>"
    have "consoleintr c s = release ConsLk ?v" using run True h1(2) by simp
    moreover have "edited c s ?v" by (rule edited_commit [OF inv c len True refl])
    ultimately show ?thesis using h1(1) by (intro exI [of _ ?v]) simp
  next
    case False
    have "consoleintr c s = release ConsLk (stored ?b ?u)" using run False by simp
    then show ?thesis using edited_store [OF inv c len False, of ?h] by (intro exI [of _ "stored ?b ?u"]) simp
  qed
qed

lemma consoleintr_run:
  assumes n: "no_locks (hw s)" and inv: "cons_inv s" and u: "uart_thre s" "\<not> panicked s"
    and c: "0 \<le> c" "c < 256" "c \<noteq> 16"
  shows "\<exists>t. consoleintr c s = Ok () t \<and> same_hart (hw s) (hw t) \<and> edited c s t"
proof -
  let ?s = "s\<lparr>hw := enter ConsLk (hw s)\<rparr>"
  have acq: "acquire ConsLk s = Ok () ?s" using no_locksD(2) [OF n] by (rule acquire_free)
  have fin: "\<exists>t. release ConsLk t1 = Ok () t \<and> same_hart (hw s) (hw t) \<and> edited c s t"
    if "same_hart (enter ConsLk (hw s)) (hw t1)" "edited c s t1" for t1
    using leave_run [OF n that(1)] edited_hw [OF that(2)] by auto
  consider "c = 21" | "c = 8 \<or> c = 127" | "c \<noteq> 21" "c \<noteq> 8" "c \<noteq> 127" "c = 0 \<or> length (cons_lines s) + length (cons_edit s) \<ge> 128"
    | "c \<noteq> 21" "c \<noteq> 8" "c \<noteq> 127" "c \<noteq> 0" "length (cons_lines s) + length (cons_edit s) < 128" by linarith
  then show ?thesis
  proof cases
    case 1
    let ?t = "?s\<lparr>cons_e := cons_w s, uart_out := uart_out s @ concat (replicate (unat (cons_e s - cons_w s)) rubout)\<rparr>"
    have "kill_line (unat (cons_e s - cons_w s)) ?s = Ok () ?t"
      using kill_line_run [of ?s] inv u by simp
    then have "consoleintr c s = release ConsLk ?t" using 1 acq by (simp add: consoleintr_def)
    moreover have "edited c s ?t" using inv
      by (simp add: edited_def line_edit_def line_echo_def 1 length_lines cframe_def) (simp add: cons_lines_def cons_edit_def cons_inv_def ring_list_def)
    ultimately show ?thesis using fin [of ?t] by simp
  next
    case 2
    show ?thesis
    proof (cases "cons_e s = cons_w s")
      case True
      then have "consoleintr c s = release ConsLk ?s" using 2 acq by (auto simp: consoleintr_def)
      moreover have "edited c s ?s" using 2 inv edit_empty [of s] True
        by (auto simp: edited_def line_edit_def line_echo_def cframe_def)
      ultimately show ?thesis using fin [of ?s] by simp
    next
      case False
      let ?t = "?s\<lparr>cons_e := cons_e s - 1, uart_out := uart_out s @ rubout\<rparr>"
      have "consputc BACKSPACE (?s\<lparr>cons_e := cons_e s - 1\<rparr>) = Ok () ?t"
        using rubout_run [of "?s\<lparr>cons_e := cons_e s - 1\<rparr>"] u by simp
      then have "consoleintr c s = release ConsLk ?t" using 2 acq False by (auto simp: consoleintr_def)
      moreover have "edited c s ?t"
        using 2 erase_one [OF False] erase_inv [OF inv False] edit_empty [of s] False
        by (auto simp: edited_def line_edit_def line_echo_def cframe_def cons_lines_def cons_edit_def cons_inv_def)
      ultimately show ?thesis using fin [of ?t] by simp
    qed
  next
    case 3
    have "consoleintr c s = release ConsLk ?s"
      using 3 acq c room_iff [OF inv] by (auto simp: consoleintr_def INPUT_BUF_def)
    moreover have "edited c s ?s" using 3 inv by (auto simp: edited_def line_edit_def line_echo_def cframe_def)
    ultimately show ?thesis using fin [of ?s] by simp
  next
    case 4
    have "plain_char c" using 4 c by (simp add: plain_char_def)
    moreover have "length (cons_lines s) + length (cons_edit s) < INPUT_BUF" using 4(5) by (simp add: INPUT_BUF_def)
    ultimately obtain t1 where "consoleintr c s = release ConsLk t1" "same_hart (enter ConsLk (hw s)) (hw t1)" "edited c s t1"
      using consoleintr_plain [OF n inv u] by blast
    then show ?thesis using fin by simp
  qed
qed

text \<open>\<^verbatim>\<open>^P\<close> lists the processes and leaves the lines alone.\<close>

definition listed :: "'z console_scheme \<Rightarrow> 'z console_scheme \<Rightarrow> bool" where
  "listed s t \<longleftrightarrow> (\<exists>h bs. same_hart (hw s) h \<and> t = s\<lparr>hw := h, uart_out := uart_out s @ bs\<rparr>)"

lemma listed_refl: "listed s s"
  unfolding listed_def by (intro exI [of _ "hw s"] exI [of _ "[]"]) simp












section \<open>Reading\<close>

text \<open>
  What \<^verbatim>\<open>consoleread()\<close> takes from the completed lines: up to \<open>n\<close> bytes, to the end of a line, or to a
  \<^verbatim>\<open>^D\<close>, which is left in place unless it comes first. \<open>None\<close> if it has to wait for more input.
\<close>

fun take_line :: "nat \<Rightarrow> bool \<Rightarrow> byte list \<Rightarrow> (byte list \<times> byte list) option" where
  "take_line 0 start q = Some ([], q)"
| "take_line (Suc n) start [] = None"
| "take_line (Suc n) start (c # q) =
     (if c = 4 then Some ([], if start then q else c # q)
      else if c = 10 then Some ([c], q)
      else map_option (\<lambda>(xs, r). (c # xs, r)) (take_line n False q))"

lemma take_line_length: "take_line n b q = Some (xs, r) \<Longrightarrow> length xs \<le> n"
  by (induction n b q arbitrary: xs r rule: take_line.induct) (fastforce split: if_splits)+

lemma either_copyout_byte:
  assumes c: "calm (hw s)" and p: "cproc (cpus (hw s) (tp (hw s))) = Some p" and sep: "pt_sep (mem s) (pagetable (proc s p))"
    and u: "ubyte (mem s) (pagetable (proc s p)) va \<noteq> None"
  shows "\<exists>h' m'. same_hart (hw s) h' \<and> either_copyout (UserVA va) (\<lambda>_. c) 0 1 s = Ok 0 (s\<lparr>hw := h', mem := m'\<rparr>) \<and>
    put (mem s) (pagetable (proc s p)) va 1 (\<lambda>_. c) 0 m'"
proof -
  obtain h1 where h1: "same_hart (hw s) h1" "myproc s = Ok (Some p) (s\<lparr>hw := h1\<rparr>)"
    using myproc_run [OF c] p by auto
  obtain m' where "copyout (pagetable (proc s p)) va (\<lambda>_. c) 0 1 (s\<lparr>hw := h1\<rparr>) = Ok 0 (s\<lparr>hw := h1, mem := m'\<rparr>)"
    "put (mem s) (pagetable (proc s p)) va 1 (\<lambda>_. c) 0 m'"
    using copyout_byte [of "s\<lparr>hw := h1\<rparr>" "pagetable (proc s p)" va c] sep u by auto
  then show ?thesis using h1 by (intro exI [of _ h1] exI [of _ m']) (simp add: either_copyout_def proc_op_defs)
qed

lemma lines_pop:
  assumes "cons_inv s" and "cons_lines s = c # q"
  shows "cons_r s \<noteq> cons_w s" and "cons_buf s (unat (cons_r s) mod INPUT_BUF) = c"
    and "cons_lines (s\<lparr>cons_r := cons_r s + 1\<rparr>) = q" and "cons_inv (s\<lparr>cons_r := cons_r s + 1\<rparr>)"
proof -
  show ne: "cons_r s \<noteq> cons_w s" using arg_cong [OF assms(2), of length] by (auto simp: length_lines)
  show "cons_buf s (unat (cons_r s) mod INPUT_BUF) = c" "cons_lines (s\<lparr>cons_r := cons_r s + 1\<rparr>) = q"
    using cons_ring.pop_list [OF ne, of "cons_buf s"] assms(2) by (simp_all add: cons_lines_def)
  show "cons_inv (s\<lparr>cons_r := cons_r s + 1\<rparr>)"
    using assms(1) unat_diff_Suc [OF ne [symmetric]] by (auto simp: cons_inv_def cons_edit_def)
qed

lemma consoleread_step:
  assumes "cons_inv s" and "cons_lines s = c # q"
  shows "consoleread_loop target dst (Suc n) s =
      (if c = 4 then seq (whenM (of_nat (Suc n) < target) (upd (\<lambda>s. s\<lparr>cons_r := cons_r s - 1\<rparr>))) (ret (Some (Suc n)))
       else bind (either_copyout dst (\<lambda>_. c) 0 1) (\<lambda>r. if r = -1 then ret (Some (Suc n))
         else if c = 10 then ret (Some n) else consoleread_loop target (eaddr_plus dst 1) n)) (s\<lparr>cons_r := cons_r s + 1\<rparr>)"
  using lines_pop [OF assms] by simp

lemma consoleread_eof:
  assumes inv: "cons_inv s" and q: "cons_lines s = 4 # q" and n: "Suc n \<le> unat target"
  shows "\<exists>r. consoleread_loop target dst (Suc n) s = Ok (Some (Suc n)) (s\<lparr>cons_r := r\<rparr>) \<and>
    cons_lines (s\<lparr>cons_r := r\<rparr>) = (if Suc n = unat target then q else 4 # q) \<and> cons_inv (s\<lparr>cons_r := r\<rparr>)"
proof -
  have "Suc n < 2 ^ 32" using n unat_bounds(3) [of target] by simp
  then have "unat (of_nat (Suc n) :: uint) = Suc n" by (simp add: unsigned_of_nat take_bit_nat_eq_self del: of_nat_Suc)
  then have lt: "of_nat (Suc n) < target \<longleftrightarrow> Suc n \<noteq> unat target"
    using n by (auto simp: word_less_nat_alt simp del: of_nat_Suc)
  let ?r = "if Suc n = unat target then cons_r s + 1 else cons_r s"
  have "consoleread_loop target dst (Suc n) s = Ok (Some (Suc n)) (s\<lparr>cons_r := ?r\<rparr>)"
    unfolding consoleread_step [OF inv q] using lt by (simp del: of_nat_Suc)
  then show ?thesis using lines_pop [OF inv q] q inv
    by (intro exI [of _ ?r]) (simp del: consoleread_loop.simps)
qed

text \<open>The outcome of the loop when the completed lines suffice.\<close>

definition delivers :: "nat \<Rightarrow> hart \<Rightarrow> uint \<Rightarrow> uint64 \<Rightarrow> nat \<Rightarrow> byte list \<Rightarrow> byte list \<Rightarrow> 'z console_scheme \<Rightarrow> bool" where
  "delivers p h target va n xs q s \<longleftrightarrow> (\<exists>h' m' r. same_hart h h' \<and> consoleread_loop target (UserVA va) n s =
      Ok (Some (n - length xs)) (s\<lparr>hw := h', mem := m', cons_r := r\<rparr>) \<and>
    put (mem s) (pagetable (proc s p)) va (length xs) (\<lambda>i. xs ! i) 0 m' \<and>
    cons_lines (s\<lparr>cons_r := r\<rparr>) = q \<and> cons_inv (s\<lparr>cons_r := r\<rparr>))"

lemma consoleread_char:
  assumes h: "same_hart h (hw s)" and c: "calm h" and p: "cproc (cpus h (tp h)) = Some p" and sep: "pt_sep (mem s) (pagetable (proc s p))"
    and u: "ubyte (mem s) (pagetable (proc s p)) va \<noteq> None" and inv: "cons_inv s" and q: "cons_lines s = b # q" and b: "b \<noteq> 4"
  shows "\<exists>h1 m1. same_hart h h1 \<and> put (mem s) (pagetable (proc s p)) va 1 (\<lambda>_. b) 0 m1 \<and>
    consoleread_loop target (UserVA va) (Suc n) s = (if b = 10 then ret (Some n) else consoleread_loop target (UserVA (va + 1)) n)
      (s\<lparr>cons_r := cons_r s + 1, hw := h1, mem := m1\<rparr>)"
proof -
  let ?s = "s\<lparr>cons_r := cons_r s + 1\<rparr>"
  obtain h1 m1 where h1: "same_hart (hw s) h1" "either_copyout (UserVA va) (\<lambda>_. b) 0 1 ?s = Ok 0 (?s\<lparr>hw := h1, mem := m1\<rparr>)"
    "put (mem s) (pagetable (proc s p)) va 1 (\<lambda>_. b) 0 m1"
    using either_copyout_byte [of ?s p va b] h c p sep u by (auto simp: same_hart_calm same_hart_simps)
  then have "consoleread_loop target (UserVA va) (Suc n) s = (if b = 10 then ret (Some n) else consoleread_loop target (UserVA (va + 1)) n)
      (s\<lparr>cons_r := cons_r s + 1, hw := h1, mem := m1\<rparr>)"
    unfolding consoleread_step [OF inv q] using b by simp
  then show ?thesis using h1 h same_hart_trans by blast
qed

lemma put_Cons:
  assumes "put m pt va 1 (\<lambda>i. (b # ys) ! i) 0 m1" and "put m1 pt (va + 1) (length ys) (\<lambda>i. ys ! i) 0 m2"
    and "Suc (length ys) \<le> 2 ^ 64"
  shows "put m pt va (Suc (length ys)) (\<lambda>i. (b # ys) ! i) 0 m2"
proof (rule put_trans [OF assms(1)])
  show "put m1 pt (va + 1) (Suc (length ys) - 1) (\<lambda>i. (b # ys) ! i) (0 + 1) m2"
    using assms(2) put_src_cong [of "length ys" "\<lambda>i. ys ! i" 0 "\<lambda>i. (b # ys) ! i" 1] by simp
qed (use assms in simp_all)

lemma consoleread_loop_run:
  assumes h: "same_hart h (hw s)" and c: "calm h" and p: "cproc (cpus h (tp h)) = Some p" and sep: "pt_sep (mem s) (pagetable (proc s p))"
    and u: "urange (mem s) (pagetable (proc s p)) va (length xs)" and inv: "cons_inv s" and n: "n \<le> unat target"
    and line: "take_line n (n = unat target) (cons_lines s) = Some (xs, q)"
  shows "delivers p h target va n xs q s"
  using assms
proof (induction n arbitrary: s va xs)
  case 0
  then show ?case unfolding delivers_def
    by (intro exI [of _ "hw s"] exI [of _ "mem s"] exI [of _ "cons_r s"]) (simp add: put_0)
next
  case (Suc n)
  obtain b cs where cs: "cons_lines s = b # cs" using Suc.prems(8) by (cases "cons_lines s") auto
  let ?pt = "pagetable (proc s p)"
  show ?case
  proof (cases "b = 4")
    case True
    then have xs: "xs = []" "q = (if Suc n = unat target then cs else 4 # cs)" using Suc.prems(8) cs by auto
    obtain r where "consoleread_loop target (UserVA va) (Suc n) s = Ok (Some (Suc n)) (s\<lparr>cons_r := r\<rparr>)"
      "cons_lines (s\<lparr>cons_r := r\<rparr>) = q" "cons_inv (s\<lparr>cons_r := r\<rparr>)"
      using consoleread_eof [of s cs n target "UserVA va"] Suc.prems(6,7) cs xs True by auto
    then show ?thesis using xs Suc.prems(1) put_0 [OF Suc.prems(4)] unfolding delivers_def
      by (intro exI [of _ "hw s"] exI [of _ "mem s"] exI [of _ r]) (simp del: consoleread_loop.simps)
  next
    case False
    then obtain ys where ys: "xs = b # ys" and tl: "b \<noteq> 10 \<Longrightarrow> take_line n False cs = Some (ys, q)" and nl: "b = 10 \<Longrightarrow> ys = [] \<and> q = cs"
      using Suc.prems(8) cs by (auto split: if_splits)
    have ub: "ubyte (mem s) ?pt va \<noteq> None" and ur: "urange (mem s) ?pt (va + 1) (length ys)"
      using Suc.prems(5) ys by (auto simp: urange_Suc)
    obtain h1 m1 where h1: "same_hart h h1" "put (mem s) ?pt va 1 (\<lambda>_. b) 0 m1" "consoleread_loop target (UserVA va) (Suc n) s =
        (if b = 10 then ret (Some n) else consoleread_loop target (UserVA (va + 1)) n) (s\<lparr>cons_r := cons_r s + 1, hw := h1, mem := m1\<rparr>)"
      using consoleread_char [OF Suc.prems(1-4) ub Suc.prems(6) cs False] by blast
    have p1: "put (mem s) ?pt va 1 (\<lambda>i. xs ! i) 0 m1"
      using h1(2) ys put_src_cong [of 1 "\<lambda>_. b" 0 "\<lambda>i. xs ! i" 0] by simp
    let ?t = "s\<lparr>cons_r := cons_r s + 1, hw := h1, mem := m1\<rparr>"
    note pop = lines_pop [OF Suc.prems(6) cs]
    show ?thesis
    proof (cases "b = 10")
      case True
      then show ?thesis using h1(1,3) p1 pop nl [OF True] ys unfolding delivers_def
        by (intro exI [of _ h1] exI [of _ m1] exI [of _ "cons_r s + 1"]) (simp del: consoleread_loop.simps)
    next
      case nlF: False
      have sep1: "pt_sep m1 ?pt" using p1 by (auto simp: put_def)
      have inv1: "cons_inv ?t" "cons_lines ?t = cs" using pop(3,4) by (simp_all add: cons_inv_def cons_edit_def cons_lines_def)
      have "delivers p h target (va + 1) n ys q ?t"
        using h1(1) Suc.prems(2,3,7) sep1 inv1 tl [OF nlF] ur put_urange [OF p1] by (intro Suc.IH) auto
      then obtain h2 m2 r where r: "same_hart h h2" "consoleread_loop target (UserVA (va + 1)) n ?t =
          Ok (Some (n - length ys)) (?t\<lparr>hw := h2, mem := m2, cons_r := r\<rparr>)"
        "put m1 ?pt (va + 1) (length ys) (\<lambda>i. ys ! i) 0 m2"
        "cons_lines (s\<lparr>cons_r := r\<rparr>) = q" "cons_inv (s\<lparr>cons_r := r\<rparr>)"
        unfolding delivers_def by (auto simp: cons_lines_def cons_inv_def cons_edit_def)
      have "length xs \<le> 2 ^ 64"
        using take_line_length [OF Suc.prems(8)] Suc.prems(7) unat_bounds(3) [of target] by simp
      then have "put (mem s) ?pt va (length xs) (\<lambda>i. xs ! i) 0 m2"
        using put_Cons [OF p1 [unfolded ys]] r(3) ys by simp
      then show ?thesis using r h1(3) nlF ys unfolding delivers_def
        by (intro exI [of _ h2] exI [of _ m2] exI [of _ r]) (simp del: consoleread_loop.simps)
    qed
  qed
qed

section \<open>Properties\<close>

text \<open>
  C8: \<^verbatim>\<open>consoleintr(c)\<close> refines the line editor. For every input byte but \<^verbatim>\<open>^P\<close> it returns with the
  lock free; completed lines and current line become what \<open>line_edit\<close> makes of them, the echo is
  \<open>line_echo\<close>, sleeping readers are woken exactly when a line is completed, and nothing else of the
  machine changes. The ring never holds more than 128 bytes.
\<close>

theorem consoleintr_edits:
  assumes "no_locks (hw s)" and "cons_inv s" and "uart_thre s" and "\<not> panicked s" and "0 \<le> c" and "c < 256" and "c \<noteq> 16"
  shows "\<exists>t. consoleintr c s = Ok () t \<and> same_hart (hw s) (hw t) \<and> edited c s t"
  using assms by (rule consoleintr_run)


text \<open>
  C27: \<^verbatim>\<open>consoleread()\<close> delivers a line. If the completed lines suffice (\<open>take_line\<close>), a read of \<open>n\<close>
  bytes returns without sleeping the length of the part taken, has that part in the caller's
  buffer and nothing else changed there, leaves the rest of the lines and the line being typed as
  they were, and holds no lock.
\<close>

theorem consoleread_line:
  assumes r: "running p s" and sep: "pt_sep (mem s) (pagetable (proc s p))" and inv: "cons_inv s"
    and n: "0 < n" "n < 2 ^ 31" and line: "take_line (nat n) True (cons_lines s) = Some (xs, q)"
    and u: "urange (mem s) (pagetable (proc s p)) va (length xs)"
  shows "\<exists>t. consoleread (UserVA va) n s = Ok (int (length xs)) t \<and> same_hart (hw s) (hw t) \<and> cons_lines t = q \<and>
    cons_edit t = cons_edit s \<and> cons_inv t \<and> put (mem s) (pagetable (proc s p)) va (length xs) (\<lambda>i. xs ! i) 0 (mem t)"
proof -
  note q = runningD(1) [OF r]
  let ?s = "s\<lparr>hw := enter ConsLk (hw s)\<rparr>"
  have tgt: "nat n = unat (of_int n :: uint)"
    using n by (simp add: unat_eq_nat_uint unsigned_of_int take_bit_int_eq_self)
  have "delivers p (enter ConsLk (hw s)) (of_int n) va (nat n) xs q ?s"
    using q sep inv u line tgt by (intro consoleread_loop_run) (simp_all add: enter_calmD quietD)
  then obtain h1 m1 rr where l: "same_hart (enter ConsLk (hw s)) h1" "consoleread_loop (of_int n) (UserVA va) (nat n) ?s =
      Ok (Some (nat n - length xs)) (?s\<lparr>hw := h1, mem := m1, cons_r := rr\<rparr>)"
    "put (mem s) (pagetable (proc s p)) va (length xs) (\<lambda>i. xs ! i) 0 m1"
    "cons_lines (s\<lparr>cons_r := rr\<rparr>) = q" "cons_inv (s\<lparr>cons_r := rr\<rparr>)"
    unfolding delivers_def by (auto simp: cons_lines_def cons_inv_def cons_edit_def)
  let ?t = "?s\<lparr>hw := h1, mem := m1, cons_r := rr\<rparr>"
  obtain h2 where h2: "same_hart (hw s) h2" "release ConsLk ?t = Ok () (?t\<lparr>hw := h2\<rparr>)"
    using leave_run [OF quiet_no_locks [OF q], of ConsLk ?t] l(1) by auto
  have "consoleread (UserVA va) n s = Ok (n - int (nat n - length xs)) (?t\<lparr>hw := h2\<rparr>)"
    using acquire_free [of s ConsLk] quietD(3) [OF q] l(2) h2(2) n by (simp add: consoleread_def)
  moreover have "n - int (nat n - length xs) = int (length xs)" using take_line_length [OF line] n by linarith
  moreover have "cons_lines (?t\<lparr>hw := h2\<rparr>) = q" "cons_edit (?t\<lparr>hw := h2\<rparr>) = cons_edit s" "cons_inv (?t\<lparr>hw := h2\<rparr>)"
    using l(4,5) by (simp_all add: cons_lines_def cons_edit_def cons_inv_def)
  ultimately show ?thesis using h2(1) l(3) by (intro exI [of _ "?t\<lparr>hw := h2\<rparr>"]) simp
qed

section \<open>Witnesses\<close>

lemma ftable0_cons: "cons_lines ftable0 = []" "cons_edit ftable0 = []" "cons_inv ftable0" "no_locks (hw ftable0)"
  by (simp_all add: cons_lines_def cons_edit_def cons_inv_def ring_list_def no_locks_def)

theorem consoleintr_edits_witness:
  "\<exists>t. consoleintr 13 ftable0 = Ok () t \<and> cons_lines t = [10] \<and> cons_edit t = [] \<and> uart_out t = [10]"
  using consoleintr_edits [of ftable0 13] ftable0_cons
  by (auto simp: edited_def line_edit_def line_echo_def input_char_def Let_def ftable0_def)



definition one_line :: ftable where
  "one_line = ftable0\<lparr>cons_buf := (\<lambda>i. if i = 1 then 10 else 120), cons_w := 3, cons_e := 3\<rparr>"

theorem consoleread_line_witness:
  "\<exists>t. consoleread (UserVA 0xFFE) 4 one_line = Ok 2 t \<and> cons_lines t = [120] \<and>
     ubyte (mem t) 0x80001000 0xFFE = Some 120 \<and> ubyte (mem t) 0x80001000 0xFFF = Some 10"
proof -
  have f: "cons_lines one_line = [120, 10, 120]" "cons_inv one_line" "mem one_line = ut0" "proc one_line = (\<lambda>_. proc1)"
    "hw one_line = hart0"
    by (simp_all add: one_line_def cons_lines_def cons_inv_def cons_edit_def ring_list_def INPUT_BUF_def upt_rec ftable0_def)
  have run: "running 0 one_line" by (rule ftable0_running) (simp_all add: f)
  have "take_line 4 True [120, 10, 120] = Some ([120, 10], [120 :: byte])"
  proof -
    have 4: "(4 :: nat) = Suc (Suc (Suc (Suc 0)))" by simp
    show ?thesis unfolding 4 by simp
  qed
  moreover have "urange ut0 0x80001000 0xFFE 2" using urange_ut0 by (simp add: urange_def)
  ultimately obtain t where t: "consoleread (UserVA 0xFFE) 4 one_line = Ok (int 2) t" "cons_lines t = [120]"
    "put ut0 0x80001000 0xFFE 2 (\<lambda>i. [120, 10] ! i) 0 (mem t)"
    using consoleread_line [OF run, of 4 "[120, 10]" "[120]" "0xFFE"] pt_sep_ut0
    by (auto simp: f numeral_2_eq_2 [symmetric])
  then have "\<forall>i<2. ubyte (mem t) 0x80001000 (0xFFE + of_nat i) = Some ([120, 10] ! i)" by (simp add: put_def)
  from this [rule_format, of 0] this [rule_format, of 1] t show ?thesis by simp
qed

end
