(* ===== verification/Xv6_List.thy ===== *)
theory Xv6_List
  imports Xv6_Dlist Xv6_Printf
begin

text \<open>
  The doubly linked circular lists of \<^verbatim>\<open>kernel/list.c\<close>. A \<^verbatim>\<open>struct list\<close> is two pointers in memory,
  \<^verbatim>\<open>next\<close> at offset 0 and \<^verbatim>\<open>prev\<close> at offset 8; a list is the address of its head node. The locale of
  \<open>Xv6_Dlist\<close> is interpreted on these loads and stores, and the operations are shown to be the
  ones on lists.
\<close>

section \<open>The operations\<close>

definition lnext :: "bytes \<Rightarrow> uint64 \<Rightarrow> uint64" where
  "lnext m e = ld64 m (unat e)"

definition lprev :: "bytes \<Rightarrow> uint64 \<Rightarrow> uint64" where
  "lprev m e = ld64 m (unat (e + 8))"

definition set_lnext :: "uint64 \<Rightarrow> uint64 \<Rightarrow> bytes \<Rightarrow> bytes" where
  "set_lnext e v m = st64 (unat e) v m"

definition set_lprev :: "uint64 \<Rightarrow> uint64 \<Rightarrow> bytes \<Rightarrow> bytes" where
  "set_lprev e v m = st64 (unat (e + 8)) v m"

definition upd_mem :: "(bytes \<Rightarrow> bytes) \<Rightarrow> ('z kmem_scheme, unit) kM" where
  "upd_mem f = upd (\<lambda>s. s\<lparr>mem := f (mem s)\<rparr>)"

definition lst_init :: "uint64 \<Rightarrow> ('z kmem_scheme, unit) kM" where
  "lst_init lst = seq (upd_mem (set_lnext lst lst)) (upd_mem (set_lprev lst lst))"

definition lst_empty :: "uint64 \<Rightarrow> ('z kmem_scheme, bool) kM" where
  "lst_empty lst = gets (\<lambda>s. lnext (mem s) lst = lst)"

definition lst_remove :: "uint64 \<Rightarrow> ('z kmem_scheme, unit) kM" where
  "lst_remove e =
     seq (upd_mem (\<lambda>m. set_lnext (lprev m e) (lnext m e) m))
         (upd_mem (\<lambda>m. set_lprev (lnext m e) (lprev m e) m))"

definition lst_pop :: "uint64 \<Rightarrow> ('z kmem_scheme, uint64) kM" where
  "lst_pop lst =
     bind (gets (\<lambda>s. lnext (mem s) lst)) (\<lambda>p.
     seq (whenM (p = lst) (panic ''lst_pop''))
    (seq (lst_remove p)
         (ret p)))"

definition lst_push :: "uint64 \<Rightarrow> uint64 \<Rightarrow> ('z kmem_scheme, unit) kM" where
  "lst_push lst e =
     seq (upd_mem (\<lambda>m. set_lnext e (lnext m lst) m))
    (seq (upd_mem (set_lprev e lst))
    (seq (upd_mem (\<lambda>m. set_lprev (lnext m lst) e m))
         (upd_mem (set_lnext lst e))))"

text \<open>
  \<^verbatim>\<open>lst_print\<close> follows \<^verbatim>\<open>next\<close> until it is back at the head. Printing does not change the links, so a
  walk that has not come back after \<open>2^64\<close> steps has entered a cycle and never does.
\<close>

primrec lst_print_loop :: "nat \<Rightarrow> uint64 \<Rightarrow> uint64 \<Rightarrow> ('z tty_scheme, unit) kM" where
  "lst_print_loop 0 lst p = (if p \<noteq> lst then hang else skip)"
| "lst_print_loop (Suc k) lst p =
     (if p \<noteq> lst then
        seq (printf (Some '' %p'') [VPtr p])
            (bind (gets (\<lambda>s. lnext (mem s) p)) (lst_print_loop k lst))
      else skip)"

definition lst_print :: "uint64 \<Rightarrow> ('z tty_scheme, unit) kM" where
  "lst_print lst =
     bind (gets (\<lambda>s. lnext (mem s) lst)) (\<lambda>p.
     seq (lst_print_loop (2 ^ 64) lst p)
         (printf (Some ''\<newline>'') []))"

section \<open>Nodes\<close>

text \<open>Nodes are 16-byte aligned, as the buddy allocator's blocks and \<^verbatim>\<open>sz_info\<close> entries are.\<close>

definition lnode :: "uint64 \<Rightarrow> bool" where
  "lnode e \<longleftrightarrow> unat e mod 16 = 0"

lemma lnode_prev: "lnode e \<Longrightarrow> unat (e + 8) = unat e + 8"
proof -
  assume "lnode e"
  then obtain k where k: "unat e = 16 * k" by (auto simp: lnode_def mod_eq_0_iff_dvd elim: dvdE)
  then have "16 * k < 18446744073709551616" using unat_bounds(4) [of e] by simp
  then have "16 * k + 8 < 18446744073709551616" by presburger
  then show ?thesis using k by (simp add: unat_word_ariths)
qed

lemma lnode_apart: "lnode a \<Longrightarrow> lnode b \<Longrightarrow> a \<noteq> b \<Longrightarrow> unat a + 16 \<le> unat b \<or> unat b + 16 \<le> unat a"
proof -
  assume a: "lnode a" "lnode b" "a \<noteq> b"
  then obtain i j where "unat a = 16 * i" "unat b = 16 * j" by (auto simp: lnode_def mod_eq_0_iff_dvd elim!: dvdE)
  moreover have "unat a \<noteq> unat b" using a(3) by (simp add: word_unat_eq_iff)
  ultimately show ?thesis by (cases "i < j") auto
qed

interpretation lst: dll_store lnext lprev set_lnext set_lprev lnode
proof
  fix a b v :: uint64 and s :: bytes
  assume n: "lnode a" "lnode b"
  note p = lnode_prev [OF n(1)] lnode_prev [OF n(2)]
  show "lnext (set_lnext a v s) b = (if b = a then v else lnext s b)"
    using lnode_apart [OF n] p by (auto simp: lnext_def set_lnext_def ld_st_disj)
  show "lnext (set_lprev a v s) b = lnext s b"
    using lnode_apart [OF n] p by (cases "a = b") (auto simp: lnext_def set_lprev_def ld_st_disj)
  show "lprev (set_lprev a v s) b = (if b = a then v else lprev s b)"
    using lnode_apart [OF n] p by (auto simp: lprev_def set_lprev_def ld_st_disj)
  show "lprev (set_lnext a v s) b = lprev s b"
    using lnode_apart [OF n] p by (cases "a = b") (auto simp: lprev_def set_lnext_def ld_st_disj)
qed

section \<open>Refinement\<close>

definition lst_holds :: "bytes \<Rightarrow> uint64 \<Rightarrow> uint64 list \<Rightarrow> bool" where
  "lst_holds m lst xs \<longleftrightarrow> dlist (lnext m) (lprev m) lst xs \<and> (\<forall>x\<in>set (lst # xs). lnode x)"

lemma lst_holds_links:
  assumes "lst_holds m lst (xs @ e # ys)"
  shows "lnode e" and "lnode (lnext m e)" and "lnode (lprev m e)" and "lnext m e \<noteq> e" and "lprev m e \<noteq> e"
  using assms dlist_links [of "lnext m" "lprev m" lst xs e ys] hd_in_set [of "ys @ [lst]"] last_in_set [of "lst # xs"]
  by (auto simp: lst_holds_def dlist_def)

lemma lst_init_run:
  assumes "lnode lst"
  shows "\<exists>m. lst_init lst s = Ok () (s\<lparr>mem := m\<rparr>) \<and> lst_holds m lst []"
  using assms by (intro exI [of _ "set_lprev lst lst (set_lnext lst lst (mem s))"])
    (simp add: lst_init_def upd_mem_def lst_holds_def dlist_def lst.link_simps)

lemma lst_remove_run:
  assumes "lst_holds (mem s) lst (xs @ e # ys)"
  shows "\<exists>m. lst_remove e s = Ok () (s\<lparr>mem := m\<rparr>) \<and> lst_holds m lst (xs @ ys)"
proof -
  let ?m = "mem s"
  note l = lst_holds_links [OF assms]
  let ?u = "set_lnext (lprev ?m e) (lnext ?m e) ?m"
  let ?t = "set_lprev (lnext ?u e) (lprev ?u e) ?u"
  have e: "lnext ?u e = lnext ?m e" "lprev ?u e = lprev ?m e" using l by (simp_all add: lst.link_simps)
  have "dlist (lnext ?t) (lprev ?t) lst (xs @ ys)"
  proof (rule lst.unlink_dlist)
    show "dlist (lnext ?m) (lprev ?m) lst (xs @ e # ys)" "\<forall>x\<in>set (lst # xs @ e # ys). lnode x"
      using assms by (simp_all add: lst_holds_def)
    show "lnext ?t x = (if x = lprev ?m e then lnext ?m e else lnext ?m x)"
      "lprev ?t x = (if x = lnext ?m e then lprev ?m e else lprev ?m x)" if "lnode x" for x
      unfolding e using l that by (simp_all add: lst.link_simps)
  qed
  then show ?thesis using assms
    by (intro exI [of _ ?t]) (simp add: lst_remove_def upd_mem_def lst_holds_def)
qed

lemma lst_empty_run:
  assumes "lst_holds (mem s) lst xs"
  shows "lst_empty lst s = Ok (xs = []) s" and "lnext (mem s) lst = hd (xs @ [lst])"
proof -
  show n: "lnext (mem s) lst = hd (xs @ [lst])" 
    using seg_hd [of "lnext (mem s)" lst xs lst] assms by (simp add: lst_holds_def dlist_def)
  then show "lst_empty lst s = Ok (xs = []) s" using assms by (cases xs) (auto simp: lst_empty_def lst_holds_def dlist_def)
qed

lemma lst_pop_run:
  assumes "lst_holds (mem s) lst (x # xs)"
  shows "\<exists>m. lst_pop lst s = Ok x (s\<lparr>mem := m\<rparr>) \<and> lst_holds m lst xs"
proof -
  have "lnext (mem s) lst = x" "x \<noteq> lst" using lst_empty_run(2) [OF assms] assms by (auto simp: lst_holds_def dlist_def)
  then show ?thesis using lst_remove_run [of s lst "[]" x xs] assms by (auto simp: lst_pop_def)
qed

lemma lst_push_run:
  assumes "lst_holds (mem s) lst xs" and "lnode e" and "e \<notin> set (lst # xs)"
  shows "\<exists>m. lst_push lst e s = Ok () (s\<lparr>mem := m\<rparr>) \<and> lst_holds m lst (e # xs)"
proof -
  let ?m = "mem s"
  have n: "lnode lst" "lnode e" "lst \<noteq> e" using assms by (auto simp: lst_holds_def)
  let ?t = "set_lnext lst e (set_lprev (lnext ?m lst) e (set_lprev e lst (set_lnext e (lnext ?m lst) ?m)))"
  have "dlist (lnext ?t) (lprev ?t) lst (e # xs)"
    using assms by (intro lst.push_dlist [of ?m]) (auto simp: lst_holds_def)
  moreover have "lst_push lst e s = Ok () (s\<lparr>mem := ?t\<rparr>)"
    using n by (simp add: lst_push_def upd_mem_def lst.link_simps)
  ultimately show ?thesis using assms by (intro exI [of _ ?t]) (auto simp: lst_holds_def)
qed

text \<open>
  C16: The operations of \<^verbatim>\<open>list.c\<close> refine those on lists. \<^verbatim>\<open>lst_init(e)\<close> of any node, whatever its
  links were, makes it the head of an empty list. On a well-formed circular list with contents \<open>xs\<close>: \<^verbatim>\<open>lst_push(e)\<close> of a new node gives \<open>e # xs\<close>, \<^verbatim>\<open>lst_remove(e)\<close> removes just \<open>e\<close>, \<^verbatim>\<open>lst_empty()\<close>
  tells whether \<open>xs\<close> is empty, \<^verbatim>\<open>lst_pop()\<close> returns the head and leaves the tail, and panics on the
  empty list. Each leaves both link directions well formed.
\<close>

theorem lst_refines:
  assumes "lst_holds (mem s) lst xs" and "lnode e"
  shows "(\<exists>m. lst_init e s = Ok () (s\<lparr>mem := m\<rparr>) \<and> lst_holds m e []) \<and>
    (e \<notin> set (lst # xs) \<longrightarrow> (\<exists>m. lst_push lst e s = Ok () (s\<lparr>mem := m\<rparr>) \<and> lst_holds m lst (e # xs))) \<and>
    (e \<in> set xs \<longrightarrow> (\<exists>m. lst_remove e s = Ok () (s\<lparr>mem := m\<rparr>) \<and> lst_holds m lst (remove1 e xs))) \<and>
    lst_empty lst s = Ok (xs = []) s \<and>
    (if xs = [] then lst_pop lst s = Panic ''lst_pop''
     else \<exists>m. lst_pop lst s = Ok (hd xs) (s\<lparr>mem := m\<rparr>) \<and> lst_holds m lst (tl xs))"
proof (intro conjI impI)
  show "\<exists>m. lst_init e s = Ok () (s\<lparr>mem := m\<rparr>) \<and> lst_holds m e []" using assms(2) by (rule lst_init_run)
next
  assume "e \<notin> set (lst # xs)"
  with assms show "\<exists>m. lst_push lst e s = Ok () (s\<lparr>mem := m\<rparr>) \<and> lst_holds m lst (e # xs)" by (rule lst_push_run)
next
  assume "e \<in> set xs"
  then obtain ys zs where xs: "xs = ys @ e # zs" and "e \<notin> set ys" by (metis split_list_first)
  then have "remove1 e xs = ys @ zs" by (simp add: remove1_append)
  then show "\<exists>m. lst_remove e s = Ok () (s\<lparr>mem := m\<rparr>) \<and> lst_holds m lst (remove1 e xs)"
    using lst_remove_run [of s lst ys e zs] assms xs by simp
next
  show "lst_empty lst s = Ok (xs = []) s" by (rule lst_empty_run [OF assms(1)])
  show "if xs = [] then lst_pop lst s = Panic ''lst_pop''
      else \<exists>m. lst_pop lst s = Ok (hd xs) (s\<lparr>mem := m\<rparr>) \<and> lst_holds m lst (tl xs)"
    using lst_pop_run [of s lst] lst_empty_run(2) [OF assms(1)] assms(1) by (cases xs) (auto simp: lst_pop_def)
qed

text \<open>The list at \<^verbatim>\<open>0x1000\<close> with the one node \<^verbatim>\<open>0x1010\<close>.\<close>

definition lmem0 :: bytes where
  "lmem0 = st64 0x1000 0x1010 (st64 0x1008 0x1010 (st64 0x1010 0x1000 (st64 0x1018 0x1000 (\<lambda>_. 0))))"

theorem lst_refines_witness:
  "(\<exists>m. lst_init 0x1020 (kmem0\<lparr>mem := lmem0\<rparr>) = Ok () (kmem0\<lparr>mem := m\<rparr>) \<and> lst_holds m 0x1020 []) \<and>
   (\<exists>m. lst_push 0x1000 0x1020 (kmem0\<lparr>mem := lmem0\<rparr>) = Ok () (kmem0\<lparr>mem := m\<rparr>) \<and> lst_holds m 0x1000 [0x1020, 0x1010]) \<and>
   (\<exists>m. lst_pop 0x1000 (kmem0\<lparr>mem := lmem0\<rparr>) = Ok 0x1010 (kmem0\<lparr>mem := m\<rparr>) \<and> lst_holds m 0x1000 [])"
proof -
  have "lst_holds (mem (kmem0\<lparr>mem := lmem0\<rparr>)) 0x1000 [0x1010]"
    by (simp add: lst_holds_def dlist_def lnext_def lprev_def lmem0_def ld_st_disj lnode_def)
  from lst_refines [OF this, of "0x1020"] show ?thesis by (auto simp: lnode_def)
qed

end
