(* ===== verification/Xv6_Buddy.thy ===== *)
theory Xv6_Buddy
  imports Xv6_List Xv6_Sleeplock
begin

text \<open>
  The buddy allocator (\<^verbatim>\<open>kernel/buddy.c\<close>), on the lists of \<open>Xv6_List\<close>. Its data structures live in the
  memory it manages: entry \<open>k\<close> of \<^verbatim>\<open>bd_sizes\<close> is a 32-byte \<^verbatim>\<open>struct sz_info\<close> (the head of the free
  list, then the two bit-vector pointers). A C \<^verbatim>\<open>int\<close> is an \<open>int\<close>, cut to 32 bits by \<open>i32\<close> where the
  code converts to it; block sizes and addresses are 64-bit words. An index that would make C shift
  by a negative amount or a loop that never ends is \<open>Hang\<close>.
\<close>

record buddy = tty +
  nsizes :: int
  bd_sizes :: uint64
  bd_base :: uint64

definition i32 :: "int \<Rightarrow> int" where
  "i32 x = sint (of_int x :: uint)"

text \<open>Division of signed integers in C rounds towards zero.\<close>

definition cdiv :: "int \<Rightarrow> int \<Rightarrow> int" where
  "cdiv a b = sgn a * sgn b * (\<bar>a\<bar> div \<bar>b\<bar>)"

definition LEAF_SIZE :: uint64 where "LEAF_SIZE = 16"

definition BLK_SIZE :: "nat \<Rightarrow> uint64" where
  "BLK_SIZE k = push_bit k 1 * LEAF_SIZE"

definition MAXSIZE :: "'z buddy_scheme \<Rightarrow> int" where
  "MAXSIZE s = nsizes s - 1"

definition NBLK :: "nat \<Rightarrow> 'z buddy_scheme \<Rightarrow> int" where
  "NBLK k s = sint (push_bit (nat (MAXSIZE s - int k)) 1 :: uint)"

definition ROUNDUP64 :: "uint64 \<Rightarrow> uint64" where
  "ROUNDUP64 n = ((n - 1) div LEAF_SIZE + 1) * LEAF_SIZE"

definition ROUNDUP :: "int \<Rightarrow> int \<Rightarrow> int" where
  "ROUNDUP n d = (cdiv (n - 1) d + 1) * d"

section \<open>Bit vectors\<close>

definition bit_isset :: "uint64 \<Rightarrow> int \<Rightarrow> ('z kmem_scheme, bool) kM" where
  "bit_isset array index =
     (if index < 0 then hang
      else gets (\<lambda>s.
        let b = mem s (unat (array + of_int (index div 8)));
            m = push_bit (nat (index mod 8)) 1
        in b AND m = m))"

definition bit_set :: "uint64 \<Rightarrow> int \<Rightarrow> ('z kmem_scheme, unit) kM" where
  "bit_set array index =
     (if index < 0 then hang
      else upd_mem (\<lambda>mm.
        let a = unat (array + of_int (index div 8));
            b = mm a;
            m = push_bit (nat (index mod 8)) 1
        in mm(a := b OR m)))"

definition bit_clear :: "uint64 \<Rightarrow> int \<Rightarrow> ('z kmem_scheme, unit) kM" where
  "bit_clear array index =
     (if index < 0 then hang
      else upd_mem (\<lambda>mm.
        let a = unat (array + of_int (index div 8));
            b = mm a;
            m = push_bit (nat (index mod 8)) 1
        in mm(a := b AND NOT m)))"

text \<open>The fields of \<^verbatim>\<open>bd_sizes[k]\<close>.\<close>

definition sz_free :: "nat \<Rightarrow> 'z buddy_scheme \<Rightarrow> uint64" where
  "sz_free k s = bd_sizes s + 32 * of_nat k"

definition sz_alloc :: "nat \<Rightarrow> 'z buddy_scheme \<Rightarrow> uint64" where
  "sz_alloc k s = ld64 (mem s) (unat (sz_free k s + 16))"

definition sz_split :: "nat \<Rightarrow> 'z buddy_scheme \<Rightarrow> uint64" where
  "sz_split k s = ld64 (mem s) (unat (sz_free k s + 24))"

section \<open>Sizes and block numbers\<close>

text \<open>
  \<^verbatim>\<open>firstk\<close> doubles \<^verbatim>\<open>size\<close> until it reaches \<^verbatim>\<open>n\<close>. After 60 doublings the 64-bit \<^verbatim>\<open>size\<close> is 0, and stays
  0: a loop that has not ended by then never ends, which is the result \<open>None\<close>.
\<close>

primrec firstk_loop :: "nat \<Rightarrow> uint64 \<Rightarrow> uint64 \<Rightarrow> nat \<Rightarrow> nat option" where
  "firstk_loop 0 bs n k = (if bs < n then None else Some k)"
| "firstk_loop (Suc f) bs n k = (if bs < n then firstk_loop f (bs * 2) n (Suc k) else Some k)"

definition firstk :: "uint64 \<Rightarrow> nat option" where
  "firstk n = firstk_loop 60 LEAF_SIZE n 0"

text \<open>\<^verbatim>\<open>log2\<close> halves a 64-bit number, so 64 turns are enough.\<close>

primrec log2_loop :: "nat \<Rightarrow> uint64 \<Rightarrow> nat \<Rightarrow> nat" where
  "log2_loop 0 n k = k"
| "log2_loop (Suc f) n k = (if n > 1 then log2_loop f (drop_bit 1 n) (Suc k) else k)"

definition log2 :: "uint64 \<Rightarrow> nat" where
  "log2 n = log2_loop 64 n 0"

definition blk_index :: "nat \<Rightarrow> uint64 \<Rightarrow> 'z buddy_scheme \<Rightarrow> int" where
  "blk_index k p s = i32 (cdiv (sint (ucast (p - bd_base s) :: uint)) (sint (BLK_SIZE k)))"

definition addr :: "nat \<Rightarrow> int \<Rightarrow> 'z buddy_scheme \<Rightarrow> uint64" where
  "addr k bi s = bd_base s + of_int (i32 (bi * sint (BLK_SIZE k)))"

definition blk_index_next :: "nat \<Rightarrow> uint64 \<Rightarrow> 'z buddy_scheme \<Rightarrow> int" where
  "blk_index_next k p s =
     (let d = sint (p - bd_base s); bs = sint (BLK_SIZE k);
          n = i32 (cdiv d bs)
      in if d - cdiv d bs * bs \<noteq> 0 then n + 1 else n)"

definition buddy_of :: "int \<Rightarrow> int" where
  "buddy_of bi = (if bi mod 2 = 0 then bi + 1 else bi - 1)"

section \<open>Allocation\<close>

text \<open>The first non-empty free list from \<open>k\<close> on, among the \<open>n\<close> that follow.\<close>

primrec bd_find :: "nat \<Rightarrow> nat \<Rightarrow> ('z buddy_scheme, nat option) kM" where
  "bd_find k 0 = ret None"
| "bd_find k (Suc n) =
     bind (gets (sz_free k)) (\<lambda>l.
     bind (lst_empty l) (\<lambda>e.
     if \<not> e then ret (Some k) else bd_find (Suc k) n))"

primrec bd_split :: "nat \<Rightarrow> nat \<Rightarrow> uint64 \<Rightarrow> ('z buddy_scheme, unit) kM" where
  "bd_split 0 fk p = skip"
| "bd_split (Suc n) fk p =
     (let k = fk + Suc n; q = p + BLK_SIZE (k - 1)
      in seq (bind (gets (\<lambda>s. (sz_split k s, blk_index k p s))) (\<lambda>(v, i). bit_set v i))
        (seq (bind (gets (\<lambda>s. (sz_alloc (k - 1) s, blk_index (k - 1) p s))) (\<lambda>(v, i). bit_set v i))
        (seq (bind (gets (sz_free (k - 1))) (\<lambda>l. lst_push l q))
             (bd_split n fk p))))"

definition bd_malloc :: "uint64 \<Rightarrow> ('z buddy_scheme, uint64) kM" where
  "bd_malloc nbytes =
     seq (acquire BuddyLk)
    (case firstk nbytes of
       None \<Rightarrow> hang
     | Some fk \<Rightarrow>
         bind (gets (\<lambda>s. nat (nsizes s - int fk))) (\<lambda>n.
         bind (bd_find fk n) (\<lambda>r. case r of
           None \<Rightarrow> seq (release BuddyLk) (ret 0)
         | Some k \<Rightarrow>
             bind (gets (sz_free k)) (\<lambda>l.
             bind (lst_pop l) (\<lambda>p.
             seq (bind (gets (\<lambda>s. (sz_alloc k s, blk_index k p s))) (\<lambda>(v, i). bit_set v i))
            (seq (bd_split (k - fk) fk p)
            (seq (release BuddyLk)
                 (ret p))))))))"

section \<open>Freeing\<close>

primrec size_loop :: "nat \<Rightarrow> nat \<Rightarrow> uint64 \<Rightarrow> ('z buddy_scheme, nat) kM" where
  "size_loop k 0 p = ret 0"
| "size_loop k (Suc n) p =
     bind (gets (\<lambda>s. (sz_split (k + 1) s, blk_index (k + 1) p s))) (\<lambda>(v, i).
     bind (bit_isset v i) (\<lambda>b. if b then ret k else size_loop (Suc k) n p))"

definition bd_size :: "uint64 \<Rightarrow> ('z buddy_scheme, nat) kM" where
  "bd_size p = bind (gets (\<lambda>s. nat (nsizes s))) (\<lambda>n. size_loop 0 n p)"

text \<open>The merging loop; its result is the size and the block to put on that size's free list.\<close>

primrec bd_merge :: "nat \<Rightarrow> nat \<Rightarrow> uint64 \<Rightarrow> ('z buddy_scheme, nat \<times> uint64) kM" where
  "bd_merge 0 k p = ret (k, p)"
| "bd_merge (Suc n) k p =
     bind (gets (blk_index k p)) (\<lambda>bi.
     let b = buddy_of bi
     in seq (bind (gets (sz_alloc k)) (\<lambda>v. bit_clear v bi))
       (bind (bind (gets (sz_alloc k)) (\<lambda>v. bit_isset v b)) (\<lambda>busy.
        if busy then ret (k, p)
        else
          bind (gets (addr k b)) (\<lambda>q.
          seq (lst_remove q)
         (let p' = (if b mod 2 = 0 then q else p)
          in seq (bind (gets (\<lambda>s. (sz_split (k + 1) s, blk_index (k + 1) p' s))) (\<lambda>(v, i). bit_clear v i))
                 (bd_merge n (Suc k) p'))))))"

definition bd_free :: "uint64 \<Rightarrow> ('z buddy_scheme, unit) kM" where
  "bd_free p =
     seq (acquire BuddyLk)
    (bind (bd_size p) (\<lambda>k.
     bind (gets (\<lambda>s. nat (MAXSIZE s - int k))) (\<lambda>n.
     bind (bd_merge n k p) (\<lambda>(k', p').
     seq (bind (gets (sz_free k')) (\<lambda>l. lst_push l p'))
         (release BuddyLk)))))"

section \<open>Set-up\<close>

definition bd_mark_block :: "nat \<Rightarrow> int \<Rightarrow> ('z buddy_scheme, unit) kM" where
  "bd_mark_block k bi =
     seq (whenM (k > 0) (bind (gets (sz_split k)) (\<lambda>v. bit_set v bi)))
         (bind (gets (sz_alloc k)) (\<lambda>v. bit_set v bi))"

definition bd_mark :: "uint64 \<Rightarrow> uint64 \<Rightarrow> ('z buddy_scheme, unit) kM" where
  "bd_mark start stop =
     seq (whenM (start mod LEAF_SIZE \<noteq> 0 \<or> stop mod LEAF_SIZE \<noteq> 0) (panic ''bd_mark''))
    (bind (gets (\<lambda>s. nat (nsizes s))) (\<lambda>n.
     for_upto 0 n (\<lambda>k.
       bind (gets (blk_index k start)) (\<lambda>bi.
       bind (gets (blk_index_next k stop)) (\<lambda>bj.
       for_upto 0 (nat (bj - bi)) (\<lambda>i. bd_mark_block k (bi + int i)))))))"

definition bd_initfree_pair :: "nat \<Rightarrow> int \<Rightarrow> ('z buddy_scheme, int) kM" where
  "bd_initfree_pair k bi =
     (let b = buddy_of bi
      in bind (gets (sz_alloc k)) (\<lambda>v.
         bind (bit_isset v bi) (\<lambda>x.
         bind (bit_isset v b) (\<lambda>y.
         if x \<noteq> y then
           seq (bind (gets (\<lambda>s. (sz_free k s, addr k (if x then b else bi) s))) (\<lambda>(l, q). lst_push l q))
               (ret (i32 (sint (BLK_SIZE k))))
         else ret 0))))"

primrec bd_initfree_loop :: "nat \<Rightarrow> nat \<Rightarrow> uint64 \<Rightarrow> uint64 \<Rightarrow> int \<Rightarrow> ('z buddy_scheme, int) kM" where
  "bd_initfree_loop k 0 bd_left bd_right acc = ret acc"
| "bd_initfree_loop k (Suc n) bd_left bd_right acc =
     bind (gets (\<lambda>s. (blk_index_next k bd_left s, blk_index k bd_right s))) (\<lambda>(left, right).
     bind (bd_initfree_pair k left) (\<lambda>f.
     let acc1 = i32 (acc + f)
     in if right \<le> left then bd_initfree_loop (Suc k) n bd_left bd_right acc1
        else bind (bd_initfree_pair k right) (\<lambda>g.
             bd_initfree_loop (Suc k) n bd_left bd_right (i32 (acc1 + g)))))"

definition bd_initfree :: "uint64 \<Rightarrow> uint64 \<Rightarrow> ('z buddy_scheme, int) kM" where
  "bd_initfree bd_left bd_right =
     bind (gets (\<lambda>s. nat (MAXSIZE s))) (\<lambda>n. bd_initfree_loop 0 n bd_left bd_right 0)"

definition heap_size :: "'z buddy_scheme \<Rightarrow> uint64" where
  "heap_size s = BLK_SIZE (nat (MAXSIZE s))"

definition bd_mark_data_structures :: "uint64 \<Rightarrow> ('z buddy_scheme, int) kM" where
  "bd_mark_data_structures p =
     bind (gets (\<lambda>s. i32 (sint (p - bd_base s)))) (\<lambda>meta.
     bind (gets (\<lambda>s. i32 (sint (heap_size s)))) (\<lambda>hs.
     seq (printf (Some ''bd: %d meta bytes for managing %d bytes of memory\<newline>'') [VInt meta, VInt hs])
    (bind (gets bd_base) (\<lambda>base.
     seq (bd_mark base p)
         (ret meta)))))"

definition bd_mark_unavailable :: "uint64 \<Rightarrow> ('z buddy_scheme, int) kM" where
  "bd_mark_unavailable bend =
     bind (gets (\<lambda>s. i32 (sint (heap_size s - (bend - bd_base s))))) (\<lambda>u0.
     let u = (if u0 > 0 then ROUNDUP u0 16 else u0)
     in seq (printf (Some ''bd: 0x%x bytes unavailable\<newline>'') [VInt u])
       (bind (gets (\<lambda>s. bd_base s + heap_size s)) (\<lambda>top.
        seq (bd_mark (top - of_int u) top)
            (ret u))))"

text \<open>The two loops of \<^verbatim>\<open>bd_init\<close> that lay out the bit vectors; the result is the pointer \<^verbatim>\<open>p\<close>.\<close>

definition bd_vector :: "nat \<Rightarrow> nat \<Rightarrow> uint64 \<Rightarrow> ('z buddy_scheme, uint64) kM" where
  "bd_vector k field p =
     bind (gets (\<lambda>s. of_int (cdiv (ROUNDUP (NBLK k s) 8) 8))) (\<lambda>len.
     seq (upd (\<lambda>s. s\<lparr>mem := st64 (unat (sz_free k s + of_nat field)) p (mem s)\<rparr>))
    (seq (upd_mem (memset (unat p) 0 (unat len)))
         (ret (p + len))))"

primrec bd_allocs :: "nat \<Rightarrow> nat \<Rightarrow> uint64 \<Rightarrow> ('z buddy_scheme, uint64) kM" where
  "bd_allocs k 0 p = ret p"
| "bd_allocs k (Suc n) p =
     seq (bind (gets (sz_free k)) lst_init)
         (bind (bd_vector k 16 p) (bd_allocs (Suc k) n))"

primrec bd_splits :: "nat \<Rightarrow> nat \<Rightarrow> uint64 \<Rightarrow> ('z buddy_scheme, uint64) kM" where
  "bd_splits k 0 p = ret p"
| "bd_splits k (Suc n) p = bind (bd_vector k 24 p) (bd_splits (Suc k) n)"

definition bd_init :: "uint64 \<Rightarrow> uint64 \<Rightarrow> ('z buddy_scheme, unit) kM" where
  "bd_init base bend =
     (let p = ROUNDUP64 base; n0 = int (log2 (of_int (cdiv (sint (bend - p)) 16))) + 1
      in seq (initlock BuddyLk ''buddy'')
        (seq (upd (\<lambda>s. s\<lparr>bd_base := p\<rparr>))
        (seq (upd (\<lambda>s. s\<lparr>nsizes := n0\<rparr>))
        (seq (whenM (sint (bend - p) > sint (BLK_SIZE (nat (n0 - 1)))) (upd (\<lambda>s. s\<lparr>nsizes := nsizes s + 1\<rparr>)))
        (bind (gets nsizes) (\<lambda>n.
         seq (printf (Some ''bd: memory sz is %d bytes; allocate an size array of length %d\<newline>'')
                [VInt (i32 (sint (bend - p))), VInt n])
        (seq (upd (\<lambda>s. s\<lparr>bd_sizes := p\<rparr>))
        (seq (upd_mem (memset (unat p) 0 (32 * nat n)))
        (bind (bd_allocs 0 (nat n) (p + 32 * of_int n)) (\<lambda>p1.
         bind (bd_splits 1 (nat (n - 1)) p1) (\<lambda>p2.
         let p3 = ROUNDUP64 p2
         in bind (bd_mark_data_structures p3) (\<lambda>meta.
            bind (bd_mark_unavailable bend) (\<lambda>unavailable.
            bind (gets (\<lambda>s. bd_base s + heap_size s - of_int unavailable)) (\<lambda>bd_end.
            bind (bd_initfree p3 bd_end) (\<lambda>free.
            bind (gets (\<lambda>s. sint (heap_size s) - meta - unavailable)) (\<lambda>expected.
            whenM (free \<noteq> expected)
              (seq (printf (Some ''free %d %d\<newline>'') [VInt free, VInt (i32 expected)])
                   (panic ''bd_init: free mem''))))))))))))))))))"

section \<open>Printing\<close>

primrec bd_print_vector_loop :: "uint64 \<Rightarrow> int \<Rightarrow> nat \<Rightarrow> bool \<Rightarrow> int \<Rightarrow> ('z tty_scheme, bool \<times> int) kM" where
  "bd_print_vector_loop v b 0 lst lb = ret (lst, lb)"
| "bd_print_vector_loop v b (Suc n) lst lb =
     bind (bit_isset v b) (\<lambda>x.
     if lst = x then bd_print_vector_loop v (b + 1) n lst lb
     else seq (whenM lst (printf (Some '' [%d, %d)'') [VInt lb, VInt b]))
              (bd_print_vector_loop v (b + 1) n x b))"

definition bd_print_vector :: "uint64 \<Rightarrow> int \<Rightarrow> ('z tty_scheme, unit) kM" where
  "bd_print_vector v len =
     bind (bd_print_vector_loop v 0 (nat len) True 0) (\<lambda>(lst, lb).
     seq (whenM (lb = 0 \<or> lst) (printf (Some '' [%d, %d)'') [VInt lb, VInt len]))
         (printf (Some ''\<newline>'') []))"

definition bd_print :: "('z buddy_scheme, unit) kM" where
  "bd_print =
     bind (gets (\<lambda>s. nat (nsizes s))) (\<lambda>n.
     for_upto 0 n (\<lambda>k.
       bind (gets (NBLK k)) (\<lambda>nb.
       seq (printf (Some ''size %d (blksz %d nblk %d): free list: '')
              [VInt (int k), VInt (i32 (sint (BLK_SIZE k))), VInt nb])
      (seq (bind (gets (sz_free k)) lst_print)
      (seq (printf (Some ''  alloc:'') [])
      (seq (bind (gets (sz_alloc k)) (\<lambda>v. bd_print_vector v nb))
           (whenM (k > 0)
             (seq (printf (Some ''  split:'') [])
                  (bind (gets (sz_split k)) (\<lambda>v. bd_print_vector v nb))))))))))"

end
