(* ===== verification/Xv6_Buddy_Proofs.thy ===== *)
theory Xv6_Buddy_Proofs
  imports Xv6_Buddy
begin

text \<open>
  Properties of the arithmetic and the bit vectors of \<^verbatim>\<open>kernel/buddy.c\<close>: \<^verbatim>\<open>firstk\<close> finds the least
  fitting size class, and runs forever for requests above \<open>2^63\<close> bytes; \<^verbatim>\<open>log2\<close> is the binary
  logarithm; the bit operations are those of a set of indices.
\<close>

section \<open>Size classes\<close>

lemma firstk_loop_fits:
  assumes "k + f = 60" and "unat bs = 16 * 2 ^ k" and "k \<le> 59" and "unat n \<le> 2 ^ 63"
    and "\<forall>j<k. 16 * 2 ^ j < unat n"
  shows "\<exists>r. firstk_loop f bs n k = Some r \<and> unat n \<le> 16 * 2 ^ r \<and> (\<forall>j<r. 16 * 2 ^ j < unat n)"
  using assms
proof (induction f arbitrary: bs k)
  case 0
  then show ?case by simp
next
  case (Suc f)
  show ?case
  proof (cases "bs < n")
    case True
    then have lt: "16 * 2 ^ k < unat n" using Suc.prems(2) by (simp add: word_less_nat_alt)
    then have "16 * 2 ^ k < (2 :: nat) ^ 63" using Suc.prems(4) by linarith
    then have "(2 :: nat) ^ (k + 4) < 2 ^ 63" by (simp add: power_add)
    then have k: "k < 59" by (subst (asm) power_strict_increasing_iff) simp_all
    have "16 * 2 ^ Suc k < (2 :: nat) ^ 64" using \<open>16 * 2 ^ k < (2 :: nat) ^ 63\<close> by simp
    then have "unat (bs * 2) = 16 * 2 ^ Suc k" using Suc.prems(2) by (simp add: unat_word_ariths)
    then have "\<exists>r. firstk_loop f (bs * 2) n (Suc k) = Some r \<and> unat n \<le> 16 * 2 ^ r \<and> (\<forall>j<r. 16 * 2 ^ j < unat n)"
      using Suc.prems lt k by (intro Suc.IH) (auto simp: less_Suc_eq)
    then show ?thesis using True by simp
  next
    case False
    then show ?thesis using Suc.prems by (simp add: word_less_nat_alt)
  qed
qed

lemma power_wrap: "unat (of_nat (16 * 2 ^ k) :: uint64) \<le> 2 ^ 63"
proof (cases "k \<le> 59")
  case True
  then have "(2 :: nat) ^ (k + 4) \<le> 2 ^ 63" by (intro power_increasing) simp_all
  then have "16 * 2 ^ k \<le> (2 :: nat) ^ 63" by (simp add: power_add)
  moreover have "unat (of_nat (16 * 2 ^ k) :: uint64) \<le> 16 * 2 ^ k" by (simp only: unsigned_of_nat of_nat_id take_bit_nat_less_eq_self)
  ultimately show ?thesis by linarith
next
  case False
  then obtain j where "k = 60 + j" using le_Suc_ex [of 60 k] by auto
  then have "16 * 2 ^ k = 2 ^ 64 * (2 :: nat) ^ j" by (simp add: power_add)
  then have "unat (of_nat (16 * 2 ^ k) :: uint64) = 0"
    by (simp only: unsigned_of_nat take_bit_eq_mod) simp
  then show ?thesis by simp
qed

lemma firstk_loop_never:
  assumes "2 ^ 63 < unat n"
  shows "firstk_loop f (of_nat (16 * 2 ^ k)) n i = None"
proof (induction f arbitrary: k i)
  case 0
  then show ?case using power_wrap [of k] assms by (simp add: word_less_nat_alt)
next
  case (Suc f)
  have "(of_nat (16 * 2 ^ k) :: uint64) * 2 = of_nat (16 * 2 ^ Suc k)" by simp
  then show ?case using Suc [of "Suc k" "Suc i"] power_wrap [of k] assms by (simp add: word_less_nat_alt del: of_nat_mult of_nat_power)
qed

text \<open>
  C28: \<^verbatim>\<open>firstk(n)\<close> returns for every \<open>n \<le> 2^63\<close>, and its result is the least size class whose blocks
  hold \<open>n\<close> bytes. For a larger \<open>n\<close> it does not terminate, whatever the number of turns: \<^verbatim>\<open>size\<close> wraps
  around to 0, so \<^verbatim>\<open>bd_malloc\<close> spins with its lock held.
\<close>

theorem firstk_least:
  "if unat n \<le> 2 ^ 63 then \<exists>k. firstk n = Some k \<and> unat n \<le> unat LEAF_SIZE * 2 ^ k \<and> (\<forall>j<k. unat LEAF_SIZE * 2 ^ j < unat n)
   else \<forall>turns. firstk_loop turns LEAF_SIZE n 0 = None"
proof (cases "unat n \<le> 2 ^ 63")
  case True
  then show ?thesis using firstk_loop_fits [of 0 60 LEAF_SIZE n] by (simp add: firstk_def LEAF_SIZE_def)
next
  case False
  then show ?thesis using firstk_loop_never [of n _ 0] by (simp add: LEAF_SIZE_def)
qed

theorem firstk_least_witness:
  "(\<exists>k. firstk 100 = Some k \<and> (100 :: nat) \<le> 16 * 2 ^ k) \<and> firstk_loop 1000 LEAF_SIZE 0x8000000000000001 0 = None"
  using firstk_least [of 100] firstk_least [of "0x8000000000000001"] by (auto simp: LEAF_SIZE_def)

lemma log2_loop_run:
  assumes "unat n < 2 ^ f" and "0 < unat n"
  shows "\<exists>j. log2_loop f n k = k + j \<and> 2 ^ j \<le> unat n \<and> unat n < 2 ^ Suc j"
  using assms
proof (induction f arbitrary: n k)
  case (Suc f)
  show ?case
  proof (cases "n > 1")
    case True
    have h: "unat (drop_bit 1 n) = unat n div 2" by (simp add: drop_bit_eq_div unat_div)
    moreover have "1 < unat n" using True by (simp add: word_less_nat_alt)
    ultimately obtain j where "log2_loop f (drop_bit 1 n) (Suc k) = Suc k + j" "2 ^ j \<le> unat n div 2" "unat n div 2 < 2 ^ Suc j"
      using Suc.IH [of "drop_bit 1 n" "Suc k"] Suc.prems(1) less_mult_imp_div_less [of "unat n" "2 ^ f" 2] by (auto simp: mult.commute)
    then show ?thesis using True by (intro exI [of _ "Suc j"]) auto
  next
    case False
    then have "unat n = 1" using Suc.prems(2) by (simp add: word_less_nat_alt)
    then show ?thesis using False by (intro exI [of _ 0]) simp
  qed
qed simp

text \<open>\<^verbatim>\<open>log2(n)\<close> terminates and is the binary logarithm, rounded down; \<^verbatim>\<open>log2(0)\<close> is 0.\<close>

lemma log2_floor:
  "if n = 0 then log2 n = 0 else 2 ^ log2 n \<le> unat n \<and> unat n < 2 ^ Suc (log2 n)"
proof (cases "n = 0")
  case True
  then show ?thesis by (simp add: log2_def numeral_eq_Suc)
next
  case False
  then have "0 < unat n" by (simp add: unat_gt_0)
  moreover have "unat n < 2 ^ 64" using unat_bounds(4) [of n] by simp
  ultimately show ?thesis using log2_loop_run [of n 64 0] False by (auto simp: log2_def)
qed

section \<open>Bit vectors\<close>

lemma byte_exp_bit: "i < 8 \<Longrightarrow> bit (2 ^ i :: byte) j \<longleftrightarrow> i = j"
  by (auto simp: bit_exp_iff)

lemma and_mask_bit:
  assumes "i < 8"
  shows "(b :: byte) AND 2 ^ i = 2 ^ i \<longleftrightarrow> bit b i"
proof
  assume "b AND 2 ^ i = 2 ^ i"
  then have "bit (b AND 2 ^ i) i = bit (2 ^ i :: byte) i" by simp
  then show "bit b i" using assms by (simp add: bit_and_iff byte_exp_bit)
next
  assume "bit b i"
  then show "b AND 2 ^ i = 2 ^ i"
    using assms by (intro bit_word_eqI) (auto simp: bit_and_iff byte_exp_bit)
qed

text \<open>Index \<open>i\<close> of a vector, as the bit of its byte.\<close>

definition vbit :: "bytes \<Rightarrow> uint64 \<Rightarrow> int \<Rightarrow> bool" where
  "vbit m v i = bit (m (unat (v + of_int (i div 8)))) (nat (i mod 8))"

lemma bit_isset_run: "0 \<le> i \<Longrightarrow> bit_isset v i s = Ok (vbit (mem s) v i) s"
  using and_mask_bit [of "nat (i mod 8)"] by (simp add: bit_isset_def vbit_def Let_def nat_less_iff)

lemma byte_addr_eq:
  assumes "0 \<le> i" "i < 2 ^ 31" "0 \<le> j" "j < 2 ^ 31"
  shows "unat (v + of_int (i div 8) :: uint64) = unat (v + of_int (j div 8)) \<longleftrightarrow> i div 8 = j div 8"
proof -
  have "uint (of_int (i div 8) :: uint64) = i div 8" "uint (of_int (j div 8) :: uint64) = j div 8"
    using assms by (simp_all add: unsigned_of_int take_bit_int_eq_self)
  then have "(of_int (i div 8) :: uint64) = of_int (j div 8) \<longleftrightarrow> i div 8 = j div 8" by (metis word_uint_eq_iff)
  then show ?thesis by (simp add: word_unat_eq_iff [symmetric])
qed

lemma same_index: "0 \<le> i \<Longrightarrow> 0 \<le> j \<Longrightarrow> i div 8 = j div 8 \<Longrightarrow> nat (i mod 8) = nat (j mod 8) \<longleftrightarrow> i = (j :: int)"
proof -
  assume a: "0 \<le> i" "0 \<le> j" "i div 8 = j div 8"
  have "nat (i mod 8) = nat (j mod 8) \<longleftrightarrow> i mod 8 = j mod 8" by (subst eq_nat_nat_iff) simp_all
  also have "\<dots> \<longleftrightarrow> i = j" using a(3) by (metis mult_div_mod_eq)
  finally show ?thesis .
qed

text \<open>
  The bit vectors are sets of indices: after \<^verbatim>\<open>bit_set(v, i)\<close> the index \<open>i\<close> is set and after
  \<^verbatim>\<open>bit_clear(v, i)\<close> it is not, and \<^verbatim>\<open>bit_isset\<close> answers as before for every other index.
\<close>

lemma bit_vector_ops:
  assumes "0 \<le> i" and "i < 2 ^ 31" and "0 \<le> j" and "j < 2 ^ 31"
  shows "(\<exists>t. bit_set v i s = Ok () t \<and> bit_isset v j t = Ok (j = i \<or> vbit (mem s) v j) t) \<and>
    (\<exists>t. bit_clear v i s = Ok () t \<and> bit_isset v j t = Ok (j \<noteq> i \<and> vbit (mem s) v j) t) \<and>
    bit_isset v j s = Ok (vbit (mem s) v j) s"
proof -
  have b: "bit (2 ^ nat (i mod 8) :: byte) (nat (j mod 8)) \<longleftrightarrow> nat (i mod 8) = nat (j mod 8)"
    by (rule byte_exp_bit) (simp add: nat_less_iff)
  have lt: "nat (j mod 8) < 8" by (simp add: nat_less_iff)
  note eq = byte_addr_eq [OF assms, of v] same_index [OF assms(1,3)]
  show ?thesis
    using assms b lt eq
    by (auto simp: bit_set_def bit_clear_def upd_mem_def bit_isset_run vbit_def Let_def bit_or_iff bit_and_iff bit_not_iff)
qed

definition bd_vec :: kmem where
  "bd_vec = kmem0\<lparr>mem := (\<lambda>_. 0)(0x2001 := 8)\<rparr>"

lemma bit_vector_ops_witness:
  "(\<exists>t. bit_set 0x2000 5 bd_vec = Ok () t \<and> bit_isset 0x2000 11 t = Ok True t) \<and>
   (\<exists>t. bit_clear 0x2000 11 bd_vec = Ok () t \<and> bit_isset 0x2000 11 t = Ok False t)"
proof -
  have "vbit (mem bd_vec) 0x2000 11" by (simp add: vbit_def bd_vec_def bit_numeral_rec)
  then show ?thesis using bit_vector_ops [of 5 11 "0x2000" bd_vec] bit_vector_ops [of 11 11 "0x2000" bd_vec] by simp
qed

end
