(* ===== verification/Xv6_Asm.thy ===== *)
theory Xv6_Asm
  imports Xv6_Vm
begin

text \<open>
  The assembly of the kernel (\<^verbatim>\<open>kernel/trampoline.S\<close>, \<^verbatim>\<open>kernel/kernelvec.S\<close>, \<^verbatim>\<open>kernel/swtch.S\<close>,
  \<^verbatim>\<open>kernel/entry.S\<close>) and the machine-mode start-up (\<^verbatim>\<open>kernel/start.c\<close> with the CSR accessors of
  \<^verbatim>\<open>kernel/riscv.h\<close>), on the registers of one hart. Address translation is the hardware's: the
  parameter \<open>tr\<close> gives the physical address of a virtual one under a value of \<^verbatim>\<open>satp\<close>. The code of
  a routine is the list of its instructions; the C function that \<^verbatim>\<open>kernelvec\<close> calls is a parameter
  of the semantics.
\<close>

section \<open>The hart\<close>

datatype reg = RA | SP | GP | TP | T0 | T1 | T2 | S0 | S1 | A0 | A1 | A2 | A3 | A4 | A5 | A6 | A7
  | S2 | S3 | S4 | S5 | S6 | S7 | S8 | S9 | S10 | S11 | T3 | T4 | T5 | T6

datatype csr = SATP | SSCRATCH | SIP | SIE | SSTATUS | SEPC | STVEC | SCAUSE | STVAL | TIME
  | MHARTID | MSTATUS | MEPC | MTVEC | MSCRATCH | MIE | MEDELEG | MIDELEG | MCOUNTEREN

datatype mode = UMode | SMode | MMode

record rv =
  rg :: "reg \<Rightarrow> uint64"
  cs :: "csr \<Rightarrow> uint64"
  ram :: bytes
  pc :: uint64
  mode :: mode

type_synonym trans = "uint64 \<Rightarrow> uint64 \<Rightarrow> uint64"

text \<open>Machine mode uses physical addresses.\<close>

definition pa_of :: "trans \<Rightarrow> rv \<Rightarrow> uint64 \<Rightarrow> nat" where
  "pa_of tr h va = unat (if mode h = MMode then va else tr (cs h SATP) va)"

datatype instr =
    Sd reg uint64 reg
  | Ld reg uint64 reg
  | Addi reg reg uint64
  | Add reg reg reg
  | Mul reg reg reg
  | Li reg uint64
  | Csrrw reg csr reg
  | Csrr reg csr
  | Csrw csr reg
  | Sfence
  | Call

primrec istep :: "(rv \<Rightarrow> rv) \<Rightarrow> trans \<Rightarrow> instr \<Rightarrow> rv \<Rightarrow> rv" where
  "istep callee tr (Sd r off b) h = h\<lparr>ram := st64 (pa_of tr h (rg h b + off)) (rg h r) (ram h)\<rparr>"
| "istep callee tr (Ld r off b) h = h\<lparr>rg := (rg h)(r := ld64 (ram h) (pa_of tr h (rg h b + off)))\<rparr>"
| "istep callee tr (Addi r a i) h = h\<lparr>rg := (rg h)(r := rg h a + i)\<rparr>"
| "istep callee tr (Add r a b) h = h\<lparr>rg := (rg h)(r := rg h a + rg h b)\<rparr>"
| "istep callee tr (Mul r a b) h = h\<lparr>rg := (rg h)(r := rg h a * rg h b)\<rparr>"
| "istep callee tr (Li r i) h = h\<lparr>rg := (rg h)(r := i)\<rparr>"
| "istep callee tr (Csrrw r c a) h = h\<lparr>rg := (rg h)(r := cs h c), cs := (cs h)(c := rg h a)\<rparr>"
| "istep callee tr (Csrr r c) h = h\<lparr>rg := (rg h)(r := cs h c)\<rparr>"
| "istep callee tr (Csrw c a) h = h\<lparr>cs := (cs h)(c := rg h a)\<rparr>"
| "istep callee tr Sfence h = h"
| "istep callee tr Call h = callee h"

primrec irun :: "(rv \<Rightarrow> rv) \<Rightarrow> trans \<Rightarrow> instr list \<Rightarrow> rv \<Rightarrow> rv" where
  "irun callee tr [] h = h"
| "irun callee tr (i # is) h = irun callee tr is (istep callee tr i h)"

definition jr :: "reg \<Rightarrow> rv \<Rightarrow> rv" where
  "jr r h = h\<lparr>pc := rg h r\<rparr>"

text \<open>Return from a trap: the previous mode and interrupt enable come back from the status register.\<close>

definition sret :: "rv \<Rightarrow> rv" where
  "sret h =
     (let x = cs h SSTATUS
      in h\<lparr>pc := cs h SEPC, mode := (if bit x 8 then SMode else UMode),
           cs := (cs h)(SSTATUS := set_bit 5 (unset_bit 8 (if bit x 5 then set_bit 1 x else unset_bit 1 x)))\<rparr>)"

definition mret :: "rv \<Rightarrow> rv" where
  "mret h =
     (let x = cs h MSTATUS; mpp = drop_bit 11 x AND 3
      in h\<lparr>pc := cs h MEPC, mode := (if mpp = 3 then MMode else if mpp = 1 then SMode else UMode),
           cs := (cs h)(MSTATUS := set_bit 7 ((if bit x 7 then set_bit 3 x else unset_bit 3 x) AND NOT (push_bit 11 3)))\<rparr>)"

text \<open>A routine without a \<open>Call\<close> needs no callee.\<close>

definition no_callee :: "rv \<Rightarrow> rv" where
  "no_callee h = h"

section \<open>The routines\<close>

text \<open>Register tables: where each register is saved.\<close>

definition tf_regs :: "(reg \<times> uint64) list" where
  "tf_regs = [(RA, 40), (SP, 48), (GP, 56), (TP, 64), (T0, 72), (T1, 80), (T2, 88), (S0, 96), (S1, 104), (A1, 120),
     (A2, 128), (A3, 136), (A4, 144), (A5, 152), (A6, 160), (A7, 168), (S2, 176), (S3, 184), (S4, 192), (S5, 200),
     (S6, 208), (S7, 216), (S8, 224), (S9, 232), (S10, 240), (S11, 248), (T3, 256), (T4, 264), (T5, 272), (T6, 280)]"

definition context_regs :: "(reg \<times> uint64) list" where
  "context_regs = [(RA, 0), (SP, 8), (S0, 16), (S1, 24), (S2, 32), (S3, 40), (S4, 48), (S5, 56), (S6, 64), (S7, 72),
     (S8, 80), (S9, 88), (S10, 96), (S11, 104)]"

definition kstack_regs :: "(reg \<times> uint64) list" where
  "kstack_regs = [(RA, 0), (SP, 8), (GP, 16), (TP, 24), (T0, 32), (T1, 40), (T2, 48), (S0, 56), (S1, 64), (A0, 72),
     (A1, 80), (A2, 88), (A3, 96), (A4, 104), (A5, 112), (A6, 120), (A7, 128), (S2, 136), (S3, 144), (S4, 152), (S5, 160),
     (S6, 168), (S7, 176), (S8, 184), (S9, 192), (S10, 200), (S11, 208), (T3, 216), (T4, 224), (T5, 232), (T6, 240)]"

definition saves :: "reg \<Rightarrow> (reg \<times> uint64) list \<Rightarrow> instr list" where
  "saves b rs = map (\<lambda>(r, off). Sd r off b) rs"

definition loads :: "reg \<Rightarrow> (reg \<times> uint64) list \<Rightarrow> instr list" where
  "loads b rs = map (\<lambda>(r, off). Ld r off b) rs"

definition uservec :: "trans \<Rightarrow> rv \<Rightarrow> rv" where
  "uservec tr h = jr T0 (irun no_callee tr
     ([Csrrw A0 SSCRATCH A0] @ saves A0 tf_regs @
      [Csrr T0 SSCRATCH, Sd T0 112 A0, Ld SP 8 A0, Ld TP 32 A0, Ld T0 16 A0, Ld T1 0 A0, Csrw SATP T1, Sfence]) h)"

definition userret :: "trans \<Rightarrow> rv \<Rightarrow> rv" where
  "userret tr h = sret (irun no_callee tr
     ([Csrw SATP A1, Sfence, Ld T0 112 A0, Csrw SSCRATCH T0] @ loads A0 tf_regs @ [Csrrw A0 SSCRATCH A0]) h)"

definition swtch_S :: "trans \<Rightarrow> rv \<Rightarrow> rv" where
  "swtch_S tr h = jr RA (irun no_callee tr (saves A0 context_regs @ loads A1 context_regs) h)"

definition kernelvec :: "(rv \<Rightarrow> rv) \<Rightarrow> trans \<Rightarrow> rv \<Rightarrow> rv" where
  "kernelvec kerneltrap tr h = sret (irun kerneltrap tr
     ([Addi SP SP (-256)] @ saves SP kstack_regs @ [Call] @
      loads SP (filter (\<lambda>(r, off). r \<noteq> TP) kstack_regs) @ [Addi SP SP 256]) h)"

definition timervec :: "trans \<Rightarrow> rv \<Rightarrow> rv" where
  "timervec tr h = mret (irun no_callee tr
     [Csrrw A0 MSCRATCH A0, Sd A1 0 A0, Sd A2 8 A0, Sd A3 16 A0,
      Ld A1 32 A0, Ld A2 40 A0, Ld A3 0 A1, Add A3 A3 A2, Sd A3 0 A1,
      Li A1 2, Csrw SIP A1,
      Ld A3 16 A0, Ld A2 8 A0, Ld A1 0 A0, Csrrw A0 MSCRATCH A0] h)"

definition entry_S :: "uint64 \<Rightarrow> trans \<Rightarrow> rv \<Rightarrow> rv" where
  "entry_S stack0 tr h = irun no_callee tr
     [Li SP stack0, Li A0 (1024 * 4), Csrr A1 MHARTID, Addi A1 A1 1, Mul A0 A0 A1, Add SP SP A0] h"

section \<open>The accessors of riscv.h\<close>

definition MSTATUS_MPP_MASK :: uint64 where "MSTATUS_MPP_MASK = push_bit 11 3"
definition MSTATUS_MPP_S :: uint64 where "MSTATUS_MPP_S = push_bit 11 1"
definition MSTATUS_MIE :: uint64 where "MSTATUS_MIE = push_bit 3 1"
definition SIE_SEIE :: uint64 where "SIE_SEIE = push_bit 9 1"
definition SIE_STIE :: uint64 where "SIE_STIE = push_bit 5 1"
definition SIE_SSIE :: uint64 where "SIE_SSIE = push_bit 1 1"
definition MIE_MTIE :: uint64 where "MIE_MTIE = push_bit 7 1"

definition w_csr :: "csr \<Rightarrow> uint64 \<Rightarrow> rv \<Rightarrow> rv" where
  "w_csr c x h = h\<lparr>cs := (cs h)(c := x)\<rparr>"

definition r_mhartid :: "rv \<Rightarrow> uint64" where "r_mhartid h = cs h MHARTID"
definition r_mstatus :: "rv \<Rightarrow> uint64" where "r_mstatus h = cs h MSTATUS"
definition w_mstatus :: "uint64 \<Rightarrow> rv \<Rightarrow> rv" where "w_mstatus x = w_csr MSTATUS x"
definition w_mepc :: "uint64 \<Rightarrow> rv \<Rightarrow> rv" where "w_mepc x = w_csr MEPC x"
definition r_sip :: "rv \<Rightarrow> uint64" where "r_sip h = cs h SIP"
definition w_sip :: "uint64 \<Rightarrow> rv \<Rightarrow> rv" where "w_sip x = w_csr SIP x"
definition r_sie :: "rv \<Rightarrow> uint64" where "r_sie h = cs h SIE"
definition w_sie :: "uint64 \<Rightarrow> rv \<Rightarrow> rv" where "w_sie x = w_csr SIE x"
definition r_mie :: "rv \<Rightarrow> uint64" where "r_mie h = cs h MIE"
definition w_mie :: "uint64 \<Rightarrow> rv \<Rightarrow> rv" where "w_mie x = w_csr MIE x"
definition w_sepc :: "uint64 \<Rightarrow> rv \<Rightarrow> rv" where "w_sepc x = w_csr SEPC x"
definition r_sepc :: "rv \<Rightarrow> uint64" where "r_sepc h = cs h SEPC"
definition r_medeleg :: "rv \<Rightarrow> uint64" where "r_medeleg h = cs h MEDELEG"
definition w_medeleg :: "uint64 \<Rightarrow> rv \<Rightarrow> rv" where "w_medeleg x = w_csr MEDELEG x"
definition r_mideleg :: "rv \<Rightarrow> uint64" where "r_mideleg h = cs h MIDELEG"
definition w_mideleg :: "uint64 \<Rightarrow> rv \<Rightarrow> rv" where "w_mideleg x = w_csr MIDELEG x"
definition w_stvec :: "uint64 \<Rightarrow> rv \<Rightarrow> rv" where "w_stvec x = w_csr STVEC x"
definition r_stvec :: "rv \<Rightarrow> uint64" where "r_stvec h = cs h STVEC"
definition w_mtvec :: "uint64 \<Rightarrow> rv \<Rightarrow> rv" where "w_mtvec x = w_csr MTVEC x"
definition w_satp :: "uint64 \<Rightarrow> rv \<Rightarrow> rv" where "w_satp x = w_csr SATP x"
definition r_satp :: "rv \<Rightarrow> uint64" where "r_satp h = cs h SATP"
definition w_sscratch :: "uint64 \<Rightarrow> rv \<Rightarrow> rv" where "w_sscratch x = w_csr SSCRATCH x"
definition w_mscratch :: "uint64 \<Rightarrow> rv \<Rightarrow> rv" where "w_mscratch x = w_csr MSCRATCH x"
definition r_scause :: "rv \<Rightarrow> uint64" where "r_scause h = cs h SCAUSE"
definition r_stval :: "rv \<Rightarrow> uint64" where "r_stval h = cs h STVAL"
definition w_mcounteren :: "uint64 \<Rightarrow> rv \<Rightarrow> rv" where "w_mcounteren x = w_csr MCOUNTEREN x"
definition r_mcounteren :: "rv \<Rightarrow> uint64" where "r_mcounteren h = cs h MCOUNTEREN"
definition r_time :: "rv \<Rightarrow> uint64" where "r_time h = cs h TIME"
definition r_sp :: "rv \<Rightarrow> uint64" where "r_sp h = rg h SP"
definition r_tp :: "rv \<Rightarrow> uint64" where "r_tp h = rg h TP"
definition r_ra :: "rv \<Rightarrow> uint64" where "r_ra h = rg h RA"
definition w_tp :: "uint64 \<Rightarrow> rv \<Rightarrow> rv" where "w_tp x h = h\<lparr>rg := (rg h)(TP := x)\<rparr>"

lemmas accessor_defs = w_csr_def r_mhartid_def r_mstatus_def w_mstatus_def w_mepc_def r_sie_def w_sie_def r_mie_def
  w_mie_def w_medeleg_def w_mideleg_def w_mtvec_def w_satp_def w_mscratch_def w_tp_def

section \<open>Machine-mode start-up\<close>

definition CLINT_MTIMECMP :: "int \<Rightarrow> uint64" where
  "CLINT_MTIMECMP hartid = CLINT + 0x4000 + of_int (8 * hartid)"

definition CLINT_MTIME :: uint64 where "CLINT_MTIME = CLINT + 0xBFF8"

definition hart_id :: "rv \<Rightarrow> int" where
  "hart_id h = sint (ucast (r_mhartid h) :: uint)"

text \<open>The arguments are the addresses the linker gives to \<^verbatim>\<open>mscratch0\<close>, \<^verbatim>\<open>timervec\<close> and \<^verbatim>\<open>main\<close>.\<close>

definition timerinit :: "uint64 \<Rightarrow> uint64 \<Rightarrow> rv \<Rightarrow> rv" where
  "timerinit mscratch0 timervec_addr h0 =
     (let id = hart_id h0;
          interval = 1000000;
          h1 = h0\<lparr>ram := st64 (unat (CLINT_MTIMECMP id)) (ld64 (ram h0) (unat CLINT_MTIME) + interval) (ram h0)\<rparr>;
          scratch = mscratch0 + of_int (8 * (32 * id));
          h2 = h1\<lparr>ram := st64 (unat (scratch + 32)) (CLINT_MTIMECMP id) (ram h1)\<rparr>;
          h3 = h2\<lparr>ram := st64 (unat (scratch + 40)) interval (ram h2)\<rparr>;
          h4 = w_mscratch scratch h3;
          h5 = w_mtvec timervec_addr h4;
          h6 = w_mstatus (r_mstatus h5 OR MSTATUS_MIE) h5
      in w_mie (r_mie h6 OR MIE_MTIE) h6)"

definition start :: "uint64 \<Rightarrow> uint64 \<Rightarrow> uint64 \<Rightarrow> rv \<Rightarrow> rv" where
  "start mscratch0 timervec_addr main_addr h0 =
     (let x = (r_mstatus h0 AND NOT MSTATUS_MPP_MASK) OR MSTATUS_MPP_S;
          h1 = w_mstatus x h0;
          h2 = w_mepc main_addr h1;
          h3 = w_satp 0 h2;
          h4 = w_medeleg 0xffff h3;
          h5 = w_mideleg 0xffff h4;
          h6 = w_sie (((r_sie h5 OR SIE_SEIE) OR SIE_STIE) OR SIE_SSIE) h5;
          h7 = timerinit mscratch0 timervec_addr h6;
          id = hart_id h7;
          h8 = w_tp (of_int id) h7
      in mret h8)"

end
