(* ===== verification/Xv6_Asm_Proofs.thy ===== *)
theory Xv6_Asm_Proofs
  imports Xv6_Asm
begin

text \<open>
  The assembly routines keep the registers of the code they interrupt or switch away from:
  a save followed by a restore from the same block of memory is the identity, whatever happens in
  between, as long as that block is left alone.
\<close>

section \<open>Blocks of saved registers\<close>

lemma ld64_block:
  assumes "\<And>i. i < 8 \<Longrightarrow> m' (a + i) = m (a + i)"
  shows "ld64 m' a = ld64 m a"
  by (rule ld_cong) (metis assms le_Suc_ex nat_add_left_cancel_less)

text \<open>The virtual addresses \<open>va\<close>, \<dots>, \<open>va + n - 1\<close> lie in one physical block at \<open>pa\<close>.\<close>

definition flat :: "trans \<Rightarrow> rv \<Rightarrow> uint64 \<Rightarrow> nat \<Rightarrow> nat \<Rightarrow> bool" where
  "flat tr h va pa n \<longleftrightarrow> (\<forall>i<n. pa_of tr h (va + of_nat i) = pa + i)"

lemma flatD: "flat tr h va pa n \<Longrightarrow> unat off < n \<Longrightarrow> pa_of tr h (va + off) = pa + unat off"
  by (auto simp: flat_def dest: spec [of _ "unat off"])

lemma flat_cong: "cs h' SATP = cs h SATP \<Longrightarrow> mode h' = mode h \<Longrightarrow> flat tr h' va pa n = flat tr h va pa n"
  by (simp add: flat_def pa_of_def)

lemma flat_at:
  "flat tr h va pa n \<Longrightarrow> unat off < n \<Longrightarrow> cs h' SATP = cs h SATP \<Longrightarrow> mode h' = mode h \<Longrightarrow> pa_of tr h' (va + off) = pa + unat off"
  using flatD [of tr h va pa n off] by (simp add: pa_of_def split: if_splits)

definition table_ok :: "(reg \<times> uint64) list \<Rightarrow> nat \<Rightarrow> bool" where
  "table_ok rs n \<longleftrightarrow> distinct (map fst rs) \<and> distinct (map (\<lambda>x. unat (snd x) div 8) rs) \<and>
     (\<forall>x\<in>set rs. unat (snd x) mod 8 = 0 \<and> unat (snd x) + 8 \<le> n)"

lemma table_ok_Cons:
  "table_ok (x # rs) n \<longleftrightarrow> table_ok rs n \<and> fst x \<notin> fst ` set rs \<and> unat (snd x) mod 8 = 0 \<and> unat (snd x) + 8 \<le> n \<and>
     unat (snd x) div 8 \<notin> (\<lambda>x. unat (snd x) div 8) ` set rs"
  by (auto simp: table_ok_def)

lemma table_ok_offset: "table_ok rs n \<Longrightarrow> map_of rs r = Some off \<Longrightarrow> unat off + 8 \<le> n"
  by (force simp: table_ok_def dest: map_of_SomeD)

definition store_table :: "nat \<Rightarrow> (reg \<Rightarrow> uint64) \<Rightarrow> (reg \<times> uint64) list \<Rightarrow> bytes \<Rightarrow> bytes" where
  "store_table pa f rs m = fold (\<lambda>(r, off). st64 (pa + unat off) (f r)) rs m"

definition load_table :: "nat \<Rightarrow> bytes \<Rightarrow> (reg \<times> uint64) list \<Rightarrow> (reg \<Rightarrow> uint64) \<Rightarrow> reg \<Rightarrow> uint64" where
  "load_table pa m rs f = (\<lambda>r. case map_of rs r of Some off \<Rightarrow> ld64 m (pa + unat off) | None \<Rightarrow> f r)"

lemma store_table_Cons [simp]:
  "store_table pa f [] m = m"
  "store_table pa f ((r, off) # rs) m = store_table pa f rs (st64 (pa + unat off) (f r) m)"
  by (simp_all add: store_table_def)

lemma store_table_other:
  assumes "table_ok rs n" and "x < pa \<or> pa + n \<le> x"
  shows "store_table pa f rs m x = m x"
  using assms by (induction rs arbitrary: m) (auto simp: table_ok_Cons st_other)

lemma mod8_apart: "(a::nat) mod 8 = 0 \<Longrightarrow> a div 8 \<noteq> b div 8 \<Longrightarrow> b mod 8 = 0 \<Longrightarrow> a + 8 \<le> b \<or> b + 8 \<le> a"
  using div_mult_mod_eq [of a 8] div_mult_mod_eq [of b 8] by (cases "a div 8 < b div 8") linarith+

lemma store_table_skip:
  assumes "table_ok rs n" and "unat off mod 8 = 0" and "unat off div 8 \<notin> (\<lambda>x. unat (snd x) div 8) ` set rs"
  shows "ld64 (store_table pa f rs m) (pa + unat off) = ld64 m (pa + unat off)"
  using assms
proof (induction rs arbitrary: m)
  case (Cons x rs)
  obtain r o2 where x: "x = (r, o2)" by (cases x)
  have "unat o2 mod 8 = 0" "unat o2 div 8 \<noteq> unat off div 8" using Cons.prems x by (auto simp: table_ok_Cons)
  then have "unat o2 + 8 \<le> unat off \<or> unat off + 8 \<le> unat o2" using Cons.prems(2) by (rule mod8_apart)
  then have "ld64 (st64 (pa + unat o2) (f r) m) (pa + unat off) = ld64 m (pa + unat off)" by (intro ld_st_disj) linarith
  moreover have "ld64 (store_table pa f rs m') (pa + unat off) = ld64 m' (pa + unat off)" for m'
    by (rule Cons.IH) (use Cons.prems in \<open>simp_all add: table_ok_Cons\<close>)
  ultimately show ?case by (simp add: x)
qed simp

lemma store_table_get:
  assumes "table_ok rs n" and "map_of rs r = Some off"
  shows "ld64 (store_table pa f rs m) (pa + unat off) = f r"
  using assms
proof (induction rs arbitrary: m)
  case (Cons x rs)
  obtain r2 o2 where x: "x = (r2, o2)" by (cases x)
  show ?case
  proof (cases "r2 = r")
    case True
    then show ?thesis using Cons.prems x store_table_skip [of rs n off pa f] by (auto simp: table_ok_Cons)
  next
    case False
    then show ?thesis using Cons x by (auto simp: table_ok_Cons)
  qed
qed simp

lemma irun_append [simp]: "irun k tr (a @ b) h = irun k tr b (irun k tr a h)"
  by (induction a arbitrary: h) simp_all

lemma saves_run:
  assumes "table_ok rs n" and "flat tr h (rg h b) pa n"
  shows "irun k tr (saves b rs) h = h\<lparr>ram := store_table pa (rg h) rs (ram h)\<rparr>"
  using assms
proof (induction rs arbitrary: h)
  case (Cons x rs)
  obtain r off where x: "x = (r, off)" by (cases x)
  let ?h = "h\<lparr>ram := st64 (pa + unat off) (rg h r) (ram h)\<rparr>"
  have "pa_of tr h (rg h b + off) = pa + unat off" using Cons.prems x flatD by (auto simp: table_ok_Cons)
  moreover have "flat tr ?h (rg ?h b) pa n" using Cons.prems(2) flat_cong [of ?h h] by simp
  ultimately show ?case using Cons.IH [of ?h] Cons.prems(1) x by (simp add: saves_def table_ok_Cons)
qed (simp add: saves_def)

lemma loads_run:
  assumes "table_ok rs n" and "flat tr h (rg h b) pa n"
    and "\<And>off. map_of rs b = Some off \<Longrightarrow> ld64 (ram h) (pa + unat off) = rg h b"
  shows "irun k tr (loads b rs) h = h\<lparr>rg := load_table pa (ram h) rs (rg h)\<rparr>"
  using assms
proof (induction rs arbitrary: h)
  case (Cons x rs)
  obtain r off where x: "x = (r, off)" by (cases x)
  let ?v = "ld64 (ram h) (pa + unat off)"
  let ?h = "h\<lparr>rg := (rg h)(r := ?v)\<rparr>"
  have pa: "pa_of tr h (rg h b + off) = pa + unat off" using Cons.prems x flatD by (auto simp: table_ok_Cons)
  have b: "rg ?h b = rg h b" using Cons.prems(3) x by simp
  have fl: "flat tr ?h (rg ?h b) pa n" using Cons.prems(2) flat_cong [of ?h h] b by simp
  have nr: "map_of rs r = None" using Cons.prems(1) x by (simp add: table_ok_Cons map_of_eq_None_iff)
  have "irun k tr (loads b rs) ?h = ?h\<lparr>rg := load_table pa (ram ?h) rs (rg ?h)\<rparr>"
  proof (rule Cons.IH)
    show "ld64 (ram ?h) (pa + unat o2) = rg ?h b" if "map_of rs b = Some o2" for o2
      using Cons.prems(3) that x nr b by (cases "b = r") simp_all
  qed (use Cons.prems(1) fl x in \<open>simp_all add: table_ok_Cons\<close>)
  moreover have "load_table pa (ram h) rs (rg ?h) = load_table pa (ram h) (x # rs) (rg h)"
    using nr x by (auto simp: load_table_def fun_eq_iff split: option.split)
  ultimately show ?case using pa x by (simp add: loads_def)
qed (simp add: loads_def load_table_def)


lemma loads_get:
  assumes "table_ok rs n" and "map_of rs r = Some off"
  shows "load_table pa (store_table pa f rs m) rs g r = f r"
  using store_table_get [OF assms] assms(2) by (simp add: load_table_def)

section \<open>The tables\<close>

lemma table_oks [simp]: "table_ok tf_regs 288" "table_ok context_regs 112" "table_ok kstack_regs 256"
  by (simp_all add: table_ok_def tf_regs_def context_regs_def kstack_regs_def)

lemma tf_dom: "map_of tf_regs r = None \<longleftrightarrow> r = A0"
  by (cases r) (simp_all add: tf_regs_def)

lemma tf_A0 [simp]: "map_of tf_regs A0 = None"
  by (simp add: tf_dom)

lemma context_A1 [simp]: "map_of context_regs A1 = None"
  by (simp add: context_regs_def)

lemma kstack_dom: "map_of kstack_regs r \<noteq> None"
  by (cases r) (simp_all add: kstack_regs_def)


lemma store_table_cong: "(\<And>r. r \<in> fst ` set rs \<Longrightarrow> f r = g r) \<Longrightarrow> store_table pa f rs m = store_table pa g rs m"
  by (induction rs arbitrary: m) force+

section \<open>The trampoline\<close>

definition tf_all :: "(reg \<times> uint64) list" where
  "tf_all = tf_regs @ [(A0, 112)]"

lemma tf_all_ok [simp]: "table_ok tf_all 288"
  by (simp add: table_ok_def tf_all_def tf_regs_def)

lemma tf_all_dom: "map_of tf_all r \<noteq> None"
  by (cases r) (simp_all add: tf_all_def tf_regs_def)

lemma tf_all_low: "unat off < 40 \<Longrightarrow> unat off div 8 \<notin> (\<lambda>x. unat (snd x) div 8) ` set tf_all"
  by (auto simp: tf_all_def tf_regs_def)

lemma tf_all_store:
  "st64 (pa + 112) (f A0) (store_table pa (f(A0 := x)) tf_regs m) = store_table pa f tf_all m"
proof -
  have "store_table pa (f(A0 := x)) tf_regs m = store_table pa f tf_regs m"
    by (rule store_table_cong) (auto simp: tf_regs_def)
  then show ?thesis by (simp add: tf_all_def store_table_def)
qed

lemma tf_all_head:
  fixes off :: uint64
  assumes "unat off mod 8 = 0" and "unat off < 40"
  shows "ld64 (store_table pa f tf_all m) (pa + unat off) = ld64 m (pa + unat off)"
  using assms by (intro store_table_skip [OF tf_all_ok] tf_all_low) simp_all

lemmas tf_head = tf_all_head [where off = 0, simplified] tf_all_head [where off = 8, simplified] tf_all_head [where off = 16, simplified]
  tf_all_head [where off = 32, simplified]

lemma uservec_run:
  assumes "flat tr h TF pa 288" and "cs h SSCRATCH = TF"
  shows "uservec tr h = h\<lparr>rg := (rg h)(A0 := TF, SP := ld64 (ram h) (pa + 8), TP := ld64 (ram h) (pa + 32),
      T0 := ld64 (ram h) (pa + 16), T1 := ld64 (ram h) pa),
    cs := (cs h)(SSCRATCH := rg h A0, SATP := ld64 (ram h) pa), ram := store_table pa (rg h) tf_all (ram h),
    pc := ld64 (ram h) (pa + 16)\<rparr>"
proof -
  let ?h = "h\<lparr>rg := (rg h)(A0 := TF), cs := (cs h)(SSCRATCH := rg h A0)\<rparr>"
  let ?m = "store_table pa (rg h) tf_all (ram h)"
  have fl: "flat tr ?h TF pa 288" using assms(1) flat_cong [of ?h h] by simp
  have sv: "irun no_callee tr (saves A0 tf_regs) ?h = ?h\<lparr>ram := store_table pa ((rg h)(A0 := TF)) tf_regs (ram h)\<rparr>"
    using saves_run [of tf_regs 288 tr ?h A0 pa no_callee] fl by simp
  note at = flat_at [OF fl, of 0, simplified] flat_at [OF fl, of 8, simplified] flat_at [OF fl, of 16, simplified]
    flat_at [OF fl, of 32, simplified] flat_at [OF fl, of 112, simplified]
  show ?thesis
    using assms(2) by (simp add: uservec_def sv jr_def at tf_all_store tf_head fun_upd_twist)
qed


lemma userret_run:
  fixes h :: rv
  defines "h1 \<equiv> h\<lparr>cs := (cs h)(SATP := rg h A1)\<rparr>"
  assumes "flat tr h1 (rg h A0) pa 288"
  shows "userret tr h = sret (h\<lparr>rg := load_table pa (ram h) tf_all (rg h),
    cs := (cs h)(SATP := rg h A1, SSCRATCH := rg h A0)\<rparr>)"
proof -
  let ?h = "h1\<lparr>rg := (rg h)(T0 := ld64 (ram h) (pa + 112)), cs := (cs h1)(SSCRATCH := ld64 (ram h) (pa + 112))\<rparr>"
  have fl: "flat tr ?h (rg ?h A0) pa 288" using assms flat_cong [of ?h h1] by simp
  have at: "pa_of tr h1 (rg h A0 + 112) = pa + 112" using flat_at [OF assms(2), of 112 h1] by simp
  have ld: "irun no_callee tr (loads A0 tf_regs) ?h = ?h\<lparr>rg := load_table pa (ram ?h) tf_regs (rg ?h)\<rparr>"
    using fl by (intro loads_run) simp_all
  have tab: "(load_table pa (ram h) tf_regs f)(A0 := ld64 (ram h) (pa + 112)) = load_table pa (ram h) tf_all (rg h)" for f
    using tf_dom by (auto simp: load_table_def tf_all_def map_add_def fun_eq_iff split: option.split)
  have a0: "load_table pa (ram h) tf_regs f A0 = f A0" for f
    by (simp add: load_table_def)
  show ?thesis
    using at ld tab a0 by (simp add: userret_def h1_def fun_upd_twist)
qed


lemma tf_block:
  assumes "\<And>i. 40 \<le> i \<Longrightarrow> i < 288 \<Longrightarrow> i < 112 \<or> 120 \<le> i \<Longrightarrow> m' (pa + i) = m (pa + i)" and "r \<noteq> A0"
  shows "load_table pa m' tf_all f r = load_table pa m tf_all g r"
proof -
  obtain off where off: "map_of tf_all r = Some off" using tf_all_dom by blast
  then have "(r, off) \<in> set tf_all" by (rule map_of_SomeD)
  then have "40 \<le> unat off \<and> unat off + 8 \<le> 288 \<and> (unat off + 8 \<le> 112 \<or> 120 \<le> unat off)"
    using assms(2) by (auto simp: tf_all_def tf_regs_def)
  then have "m' (pa + (unat off + i)) = m (pa + (unat off + i))" if "i < 8" for i
    using that by (intro assms(1)) linarith+
  then have "ld64 m' (pa + unat off) = ld64 m (pa + unat off)" by (intro ld64_block) (simp add: add.assoc)
  then show ?thesis by (simp add: load_table_def off)
qed

text \<open>
  C10: A trap does not disturb the registers of the interrupted program. \<^verbatim>\<open>uservec\<close> saves all 31 of
  them in the trapframe and goes to the kernel's trap handler with the kernel's stack, hart id and
  page table from the trapframe. Whatever the kernel does then, if it calls \<^verbatim>\<open>userret\<close> with the
  trapframe and that user page table and has left the saved registers alone, every register but
  \<^verbatim>\<open>a0\<close> is as it was; \<^verbatim>\<open>a0\<close> is what the kernel stored as the system call's result, \<^verbatim>\<open>sscratch\<close> points to
  the trapframe again, and execution goes on at \<^verbatim>\<open>sepc\<close>.
\<close>

theorem trap_roundtrip:
  assumes "flat tr h TF pa 288" and "cs h SSCRATCH = TF"
    and "h1 = uservec tr h"
    and "rg h2 A0 = TF" and "rg h2 A1 = cs h SATP" and "mode h2 = mode h"
    and "\<And>i. 40 \<le> i \<Longrightarrow> i < 288 \<Longrightarrow> i < 112 \<or> 120 \<le> i \<Longrightarrow> ram h2 (pa + i) = ram h1 (pa + i)"
    and "h3 = userret tr h2"
  shows "rg h3 = (rg h)(A0 := ld64 (ram h2) (pa + 112)) \<and> ld64 (ram h1) (pa + 112) = rg h A0 \<and>
    cs h3 SATP = cs h SATP \<and> cs h3 SSCRATCH = TF \<and> ram h3 = ram h2 \<and>
    pc h3 = cs h2 SEPC \<and> mode h3 = (if bit (cs h2 SSTATUS) 8 then SMode else UMode) \<and>
    rg h1 SP = ld64 (ram h) (pa + 8) \<and> rg h1 TP = ld64 (ram h) (pa + 32) \<and> pc h1 = ld64 (ram h) (pa + 16) \<and>
    cs h1 SATP = ld64 (ram h) pa \<and> (\<forall>x. x < pa \<or> pa + 288 \<le> x \<longrightarrow> ram h1 x = ram h x)"
proof -
  note u = uservec_run [OF assms(1,2)]
  let ?h = "h2\<lparr>cs := (cs h2)(SATP := rg h2 A1)\<rparr>"
  have "flat tr ?h (rg h2 A0) pa 288" using assms(1,4-6) flat_cong [of ?h h] by simp
  note r = userret_run [OF this]
  have get: "load_table pa (ram h1) tf_all f r = rg h r" for f r
    using tf_all_dom [of r] loads_get [OF tf_all_ok] by (auto simp: assms(3) u)
  have "load_table pa (ram h2) tf_all f r = rg h r" if "r \<noteq> A0" for f r
    using tf_block [where pa = pa and m' = "ram h2" and m = "ram h1" and f = f and g = f, OF assms(7) that] get by simp
  moreover have a0: "load_table pa m tf_all f A0 = ld64 m (pa + 112)" for m f
    by (simp add: load_table_def tf_all_def map_add_def)
  ultimately have "load_table pa (ram h2) tf_all f = (rg h)(A0 := ld64 (ram h2) (pa + 112))" for f
    by (simp add: fun_eq_iff)
  moreover have "ld64 (ram h1) (pa + 112) = rg h A0" using a0 [of "ram h1"] get by simp
  moreover have "ram h1 x = ram h x" if "x < pa \<or> pa + 288 \<le> x" for x
    using store_table_other [OF tf_all_ok that] by (simp add: assms(3) u)
  ultimately show ?thesis using assms(4,5) by (simp add: assms(3,8) u r sret_def Let_def)
qed


section \<open>Context switch\<close>

lemma swtch_run:
  assumes "flat tr h (rg h A0) old 112" and "flat tr h (rg h A1) new 112"
  shows "swtch_S tr h = jr RA (h\<lparr>ram := store_table old (rg h) context_regs (ram h),
    rg := load_table new (store_table old (rg h) context_regs (ram h)) context_regs (rg h)\<rparr>)"
proof -
  let ?h = "h\<lparr>ram := store_table old (rg h) context_regs (ram h)\<rparr>"
  have "flat tr ?h (rg ?h A1) new 112" using assms(2) flat_cong [of ?h h] by simp
  then have "irun no_callee tr (loads A1 context_regs) ?h = ?h\<lparr>rg := load_table new (ram ?h) context_regs (rg ?h)\<rparr>"
    by (intro loads_run) simp_all
  then show ?thesis using saves_run [OF table_oks(2) assms(1)] by (simp add: swtch_S_def)
qed

lemma load_table_cong:
  assumes "table_ok rs n" and "\<And>i. i < n \<Longrightarrow> m' (pa + i) = m (pa + i)"
  shows "load_table pa m' rs f = load_table pa m rs f"
proof
  fix r
  have "ld64 m' (pa + unat off) = ld64 m (pa + unat off)" if "map_of rs r = Some off" for off
    using assms(2) [of "unat off + i" for i] table_ok_offset [OF assms(1) that] by (intro ld64_block) (simp add: add.assoc)
  then show "load_table pa m' rs f r = load_table pa m rs f r" by (auto simp: load_table_def split: option.split)
qed

text \<open>
  C18: \<^verbatim>\<open>swtch(old, new)\<close> continues where the context \<^verbatim>\<open>new\<close> says, with the callee-saved registers
  saved there, and writes only \<^verbatim>\<open>old\<close>. A later \<^verbatim>\<open>swtch(.., old)\<close> on any hart, with the context
  \<^verbatim>\<open>old\<close> untouched since, returns to the first caller with every callee-saved register as it was.
\<close>

theorem swtch_roundtrip:
  assumes "flat tr h (rg h A0) old 112" and "flat tr h (rg h A1) new 112" and "old + 112 \<le> new \<or> new + 112 \<le> old"
    and "h1 = swtch_S tr h"
    and "flat tr' h2 (rg h2 A1) old 112" and "flat tr' h2 (rg h2 A0) other 112" and "old + 112 \<le> other \<or> other + 112 \<le> old"
    and "\<And>i. i < 112 \<Longrightarrow> ram h2 (old + i) = ram h1 (old + i)" and "h3 = swtch_S tr' h2"
  shows "(\<forall>(r, off)\<in>set context_regs. rg h1 r = ld64 (ram h) (new + unat off) \<and> rg h3 r = rg h r) \<and>
    pc h1 = ld64 (ram h) new \<and> pc h3 = rg h RA \<and>
    (\<forall>x. x < old \<or> old + 112 \<le> x \<longrightarrow> ram h1 x = ram h x)"
proof -
  let ?m = "store_table old (rg h) context_regs (ram h)"
  let ?n = "store_table other (rg h2) context_regs (ram h2)"
  note run = swtch_run [OF assms(1,2)] and run2 = swtch_run [OF assms(6,5)]
  have "load_table new ?m context_regs f = load_table new (ram h) context_regs f" for f
    by (rule load_table_cong [OF table_oks(2)], rule store_table_other [OF table_oks(2)]) (use assms(3) in auto)
  then have l1: "rg h1 = load_table new (ram h) context_regs (rg h)" by (simp add: assms(4) run jr_def)
  have "load_table old ?n context_regs f = load_table old (ram h2) context_regs f" for f
    by (rule load_table_cong [OF table_oks(2)], rule store_table_other [OF table_oks(2)]) (use assms(7) in auto)
  moreover have "load_table old (ram h2) context_regs f = load_table old ?m context_regs f" for f
    by (rule load_table_cong [OF table_oks(2)]) (simp add: assms(4,8) run jr_def)
  ultimately have l3: "rg h3 = load_table old ?m context_regs (rg h2)" by (simp add: assms(9) run2 jr_def)
  have d: "map_of context_regs r = Some off" if "(r, off) \<in> set context_regs" for r off
    using that table_oks(2) by (simp add: table_ok_def)
  have g: "rg h1 r = ld64 (ram h) (new + unat off) \<and> rg h3 r = rg h r" if "(r, off) \<in> set context_regs" for r off
    using d [OF that] loads_get [OF table_oks(2) d [OF that]] by (simp add: l1 l3, simp add: load_table_def)
  moreover have "pc h1 = rg h1 RA" "pc h3 = rg h3 RA" by (simp_all add: assms(4,9) run run2 jr_def)
  moreover have "(RA, 0) \<in> set context_regs" by (simp add: context_regs_def)
  moreover have "ram h1 x = ram h x" if "x < old \<or> old + 112 \<le> x" for x
    using store_table_other [OF table_oks(2) that] by (simp add: assms(4) run jr_def)
  ultimately show ?thesis using g [of RA 0] by auto
qed


section \<open>Timer interrupts\<close>

lemma pa_of_M [simp]: "mode h = MMode \<Longrightarrow> pa_of tr h va = unat va"
  by (simp add: pa_of_def)

text \<open>
  C29: \<^verbatim>\<open>timervec\<close> is transparent to the code it interrupts: it changes no register and gives
  \<^verbatim>\<open>mscratch\<close> back, moves this hart's \<^verbatim>\<open>mtimecmp\<close> forward by the interval, makes a supervisor software
  interrupt pending, writes no other memory than the register save area, and resumes at \<^verbatim>\<open>mepc\<close> in
  the previous mode.
\<close>

theorem timervec_transparent:
  assumes "mode h = MMode" and "unat (cs h MSCRATCH) = a" and "a + 48 \<le> 2 ^ 64"
    and "c = unat (ld64 (ram h) (a + 32))" and "c + 8 \<le> a \<or> a + 48 \<le> c"
    and "h' = timervec tr h"
  shows "rg h' = rg h \<and> cs h' MSCRATCH = cs h MSCRATCH \<and> cs h' SIP = 2 \<and>
    ld64 (ram h') c = ld64 (ram h) c + ld64 (ram h) (a + 40) \<and>
    (\<forall>x. (x < a \<or> a + 24 \<le> x) \<and> (x < c \<or> c + 8 \<le> x) \<longrightarrow> ram h' x = ram h x) \<and>
    pc h' = cs h MEPC \<and> mode h' = (if drop_bit 11 (cs h MSTATUS) AND 3 = 3 then MMode
      else if drop_bit 11 (cs h MSTATUS) AND 3 = 1 then SMode else UMode)"
proof -
  have off: "unat (cs h MSCRATCH + o1) = a + unat o1" if "unat o1 < 48" for o1 :: uint64
    using that assms(2,3) by (simp add: unat_add_lem [THEN iffD1])
  note offs = off [of 8, simplified] off [of 16, simplified] off [of 32, simplified] off [of 40, simplified]
  let ?m = "st64 c (ld64 (ram h) c + ld64 (ram h) (a + 40))
     (st64 (a + 16) (rg h A3) (st64 (a + 8) (rg h A2) (st64 a (rg h A1) (ram h))))"
  have d: "ld64 (st64 c v m) (a + i) = ld64 m (a + i)" "ld64 (st64 c v m) a = ld64 m a"
    "ld64 (st64 (a + i) v m) c = ld64 m c" "ld64 (st64 a v m) c = ld64 m c" if "i \<le> 40" for i v m
    using assms(5) that by (auto intro!: ld_st_disj)
  have run: "timervec tr h = mret (h\<lparr>ram := ?m, cs := (cs h)(SIP := 2)\<rparr>)"
    using assms(1,2) by (simp add: timervec_def offs assms(4) [symmetric] d d [of 0, simplified] ld_st_disj fun_upd_twist fun_upd_idem)
  have "?m x = ram h x" if "x < a \<or> a + 24 \<le> x" "x < c \<or> c + 8 \<le> x" for x
    using that by (elim disjE) (simp_all add: st_other)
  then show ?thesis by (simp add: assms(6) run mret_def Let_def del: fun_upd_apply, simp)
qed


section \<open>Kernel traps\<close>

text \<open>
  \<^verbatim>\<open>kernelvec\<close> calls \<^verbatim>\<open>kerneltrap()\<close> as the compiler translated it; that machine code is no file of the
  repository, so it is a parameter (the C function is modelled with the traps). The calling
  convention is what the code relies on: called with the stack pointer at \<open>sp\<close>, under the page table
  and in the mode of the trapped state \<open>h0\<close>, the function comes back with the same stack pointer,
  page table and mode, and it has not written the 256 bytes of its caller's frame, which begin at
  \<open>sp\<close> and lie at \<open>pa\<close>. Below \<open>sp\<close>, on its own part of the stack, and in all other memory it may
  write.
\<close>

definition keeps_frame :: "(rv \<Rightarrow> rv) \<Rightarrow> rv \<Rightarrow> uint64 \<Rightarrow> nat \<Rightarrow> bool" where
  "keeps_frame k h0 sp pa \<longleftrightarrow> (\<forall>h. rg h SP = sp \<and> cs h SATP = cs h0 SATP \<and> mode h = mode h0 \<longrightarrow>
     rg (k h) SP = sp \<and> cs (k h) SATP = cs h SATP \<and> mode (k h) = mode h \<and>
     (\<forall>i<256. ram (k h) (pa + i) = ram h (pa + i)))"

definition kload_regs :: "(reg \<times> uint64) list" where
  "kload_regs = filter (\<lambda>(r, off). r \<noteq> TP) kstack_regs"

lemma kload_ok: "table_ok kload_regs 256"
  by (simp add: table_ok_def kload_regs_def kstack_regs_def)

lemma kload_get: "map_of kload_regs r = (if r = TP then None else map_of kstack_regs r)"
  by (cases r) (simp_all add: kload_regs_def kstack_regs_def)

text \<open>
  C30: \<^verbatim>\<open>kernelvec\<close> is transparent to the kernel code it interrupts. It calls \<^verbatim>\<open>kerneltrap()\<close> with all
  registers but \<^verbatim>\<open>sp\<close>, and all memory but the 256 bytes below the stack pointer, as the trap left
  them. If the compiled \<^verbatim>\<open>kerneltrap()\<close> follows the calling convention at that call, all registers
  come back as they were, but \<^verbatim>\<open>tp\<close>, which stays what it is on the hart the thread runs on
  afterwards; execution resumes at the \<^verbatim>\<open>sepc\<close> that \<^verbatim>\<open>kerneltrap()\<close> left.
\<close>

theorem kernelvec_transparent:
  assumes "flat tr h (rg h SP - 256) pa 256" and "keeps_frame kerneltrap h (rg h SP - 256) pa"
    and "h' = kernelvec kerneltrap tr h"
  shows "\<exists>h1. rg h1 = (rg h)(SP := rg h SP - 256) \<and> cs h1 = cs h \<and> mode h1 = mode h \<and> rg h' = (rg h)(TP := rg (kerneltrap h1) TP) \<and> ram h' = ram (kerneltrap h1) \<and>
    pc h' = cs (kerneltrap h1) SEPC \<and> (\<forall>x. x < pa \<or> pa + 256 \<le> x \<longrightarrow> ram h1 x = ram h x)"
proof -
  let ?f = "(rg h)(SP := rg h SP - 256)"
  let ?h = "h\<lparr>rg := ?f\<rparr>"
  let ?h1 = "?h\<lparr>ram := store_table pa ?f kstack_regs (ram h)\<rparr>"
  let ?h2 = "kerneltrap ?h1"
  have fl: "flat tr ?h (rg ?h SP) pa 256" using assms(1) flat_cong [of ?h h] by simp
  note sv = saves_run [OF table_oks(3) fl, of kerneltrap]
  have k: "rg ?h2 SP = rg h SP - 256" "cs ?h2 SATP = cs h SATP" "mode ?h2 = mode h"
    "\<And>i. i < 256 \<Longrightarrow> ram ?h2 (pa + i) = store_table pa ?f kstack_regs (ram h) (pa + i)"
    using assms(2) by (simp_all add: keeps_frame_def)
  have tab: "load_table pa (ram ?h2) kload_regs g r = ?f r" if "r \<noteq> TP" for g r
  proof -
    obtain off where off: "map_of kstack_regs r = Some off" using kstack_dom by blast
    have "load_table pa (ram ?h2) kload_regs g r = load_table pa (ram ?h2) kstack_regs g r"
      using that by (simp add: load_table_def kload_get)
    also have "\<dots> = load_table pa (store_table pa ?f kstack_regs (ram h)) kstack_regs g r"
      by (simp only: load_table_cong [OF table_oks(3), where m' = "ram ?h2" and pa = pa
          and m = "store_table pa ?f kstack_regs (ram h)", OF k(4)])
    finally show ?thesis using loads_get [OF table_oks(3) off] by simp
  qed
  have "flat tr ?h2 (rg ?h2 SP) pa 256" using assms(1) k(1-3) flat_cong [of ?h2 h] by simp
  then have ld: "irun kerneltrap tr (loads SP kload_regs) ?h2 = ?h2\<lparr>rg := load_table pa (ram ?h2) kload_regs (rg ?h2)\<rparr>"
    by (rule loads_run [OF kload_ok]) (use tab [of SP] k(1) in \<open>simp add: load_table_def\<close>)
  have "load_table pa (ram ?h2) kload_regs (rg ?h2) = ?f(TP := rg ?h2 TP)"
    using tab by (auto simp: fun_eq_iff load_table_def kload_get)
  then have "h' = sret (?h2\<lparr>rg := (rg h)(TP := rg ?h2 TP)\<rparr>)"
    using sv ld by (simp add: assms(3) kernelvec_def kload_regs_def [symmetric] fun_upd_twist)
  then show ?thesis using store_table_other [OF table_oks(3)] by (intro exI [of _ ?h1]) (simp add: sret_def Let_def)
qed

section \<open>Machine-mode start-up\<close>

lemma mpp_S: "drop_bit 11 (((x AND NOT MSTATUS_MPP_MASK) OR MSTATUS_MPP_S) OR MSTATUS_MIE) AND 3 = 1"
proof (rule bit_word_eqI)
  fix n :: nat
  assume "n < LENGTH(64)"
  have "bit (3 :: uint64) n \<longleftrightarrow> n = 0 \<or> n = 1" by (cases n; cases "n - 1") (auto simp: bit_Suc bit_0)
  then show "bit (drop_bit 11 (((x AND NOT MSTATUS_MPP_MASK) OR MSTATUS_MPP_S) OR MSTATUS_MIE) AND 3) n = bit (1 :: uint64) n"
    by (auto simp: bit_simps MSTATUS_MPP_MASK_def MSTATUS_MPP_S_def MSTATUS_MIE_def bit_1_iff)
qed

lemma bit_push1: "k < 64 \<Longrightarrow> bit (push_bit k 1 :: uint64) n \<longleftrightarrow> n = k"
  by (auto simp: push_bit_eq_mult bit_exp_iff)

lemma start_sie_bits:
  "bit (((x OR SIE_SEIE) OR SIE_STIE) OR SIE_SSIE) n \<longleftrightarrow> bit x n \<or> n \<in> {1, 5, 9}"
  "bit (x OR MIE_MTIE) n \<longleftrightarrow> bit x n \<or> n = 7"
  unfolding bit_or_iff SIE_SEIE_def SIE_STIE_def SIE_SSIE_def MIE_MTIE_def
  using bit_push1 [of 9 n] bit_push1 [of 5 n] bit_push1 [of 1 n] bit_push1 [of 7 n] by auto

lemma timerinit_run:
  assumes "hart_id h = int k" and "k < 8" and "0x80000000 \<le> unat ms" and "unat ms + 2048 \<le> 2 ^ 64"
    and "a = unat ms + 256 * k" and "c = 0x2004000 + 8 * k"
  shows "timerinit ms tv h = h\<lparr>ram := st64 (a + 40) 1000000 (st64 (a + 32) (of_nat c)
      (st64 c (ld64 (ram h) 0x200BFF8 + 1000000) (ram h))),
    cs := (cs h)(MSCRATCH := of_nat a, MTVEC := tv, MSTATUS := cs h MSTATUS OR MSTATUS_MIE, MIE := cs h MIE OR MIE_MTIE)\<rparr>"
proof -
  have c: "CLINT_MTIMECMP (int k) = of_nat c" "unat CLINT_MTIME = 0x200BFF8"
    using assms(6) by (simp_all add: CLINT_MTIMECMP_def CLINT_MTIME_def CLINT_def)
  have "c < 2 ^ 64" using assms(2,6) by simp
  then have uc: "unat (of_nat c :: uint64) = c" by (simp add: unsigned_of_nat take_bit_nat_eq_self)
  have a: "ms + 256 * of_nat k = of_nat a" using assms(5) by simp
  have "a < 2 ^ 64" using assms(2,4,5) by simp
  then have ua: "unat (of_nat a :: uint64) = a" by (simp add: unsigned_of_nat take_bit_nat_eq_self)
  have off: "unat (of_nat a + o1 :: uint64) = a + unat o1" if "unat o1 < 256" for o1
    using that assms(2,4,5) ua by (subst unat_add_lem [THEN iffD1]) simp_all
  show ?thesis using off [of 32] off [of 40]
    by (simp add: timerinit_def Let_def assms(1) a c uc accessor_defs)
qed

text \<open>
  C31: \<^verbatim>\<open>start()\<close> on hart \<open>k\<close> enters \<^verbatim>\<open>main\<close> in supervisor mode, with paging off, all traps delegated,
  supervisor interrupts enabled in \<^verbatim>\<open>sie\<close>, and the hart id in \<^verbatim>\<open>tp\<close>. The timer is armed one interval
  ahead, machine-mode timer interrupts are enabled and go to \<^verbatim>\<open>timervec\<close>, and \<^verbatim>\<open>mscratch\<close> points to this
  hart's own scratch area, which holds what \<^verbatim>\<open>timervec\<close> reads: the address of this hart's
  \<^verbatim>\<open>mtimecmp\<close> and the interval.
\<close>

theorem start_enters_main:
  assumes "hart_id h = int k" and "k < 8" and "0x80000000 \<le> unat ms" and "unat ms + 2048 \<le> 2 ^ 64"
    and "a = unat ms + 256 * k" and "c = 0x2004000 + 8 * k"
    and "h' = start ms tv main_addr h"
  shows "mode h' = SMode \<and> pc h' = main_addr \<and> cs h' SATP = 0 \<and> cs h' MEDELEG = 0xffff \<and> cs h' MIDELEG = 0xffff \<and>
    (\<forall>n. bit (cs h' SIE) n = (bit (cs h SIE) n \<or> n \<in> {1, 5, 9})) \<and> rg h' = (rg h)(TP := of_nat k) \<and>
    ld64 (ram h') c = ld64 (ram h) 0x200BFF8 + 1000000 \<and> bit (cs h' MIE) 7 \<and> cs h' MTVEC = tv \<and>
    unat (cs h' MSCRATCH) = a \<and> unat (ld64 (ram h') (a + 32)) = c \<and> ld64 (ram h') (a + 40) = 1000000"
proof -
  let ?x = "(cs h MSTATUS AND NOT MSTATUS_MPP_MASK) OR MSTATUS_MPP_S"
  let ?h = "h\<lparr>cs := (cs h)(MSTATUS := ?x, MEPC := main_addr, SATP := 0, MEDELEG := 0xffff, MIDELEG := 0xffff,
    SIE := ((cs h SIE OR SIE_SEIE) OR SIE_STIE) OR SIE_SSIE)\<rparr>"
  note hart = assms(1) [unfolded hart_id_def r_mhartid_def]
  have "hart_id ?h = int k" using hart by (simp add: hart_id_def r_mhartid_def)
  note run = timerinit_run [OF this assms(2-6), of tv]
  have "a < 2 ^ 64" "c < 2 ^ 64" "c + 8 \<le> a" using assms(2-6) by simp_all
  then have u: "unat (of_nat a :: uint64) = a" "unat (of_nat c :: uint64) = c" "c + 8 \<le> a + 32" "c + 8 \<le> a + 40"
    by (simp_all add: unsigned_of_nat take_bit_nat_eq_self)
  have tp: "(scast (ucast (cs h MHARTID) :: uint) :: uint64) = of_nat k" unfolding scast_eq hart by simp
  have "h' = mret (w_tp (of_nat k) (timerinit ms tv ?h))"
    using run tp by (simp add: assms(7) start_def Let_def accessor_defs hart_id_def)
  then show ?thesis using u run mpp_S [of "cs h MSTATUS"] start_sie_bits
    by (simp add: mret_def Let_def accessor_defs ld_st_disj)
qed

section \<open>Witnesses\<close>

text \<open>Every virtual address is mapped 2 GB higher.\<close>

definition tr0 :: trans where
  "tr0 sp va = va + 0x80000000"

lemma flat_tr0:
  assumes "mode h = SMode" and "unat (va + 0x80000000) = pa" and "pa + n \<le> 2 ^ 64"
  shows "flat tr0 h va pa n"
  unfolding flat_def
proof (intro allI impI)
  fix i
  assume "i < n"
  then have "unat (of_nat i :: uint64) = i" using assms(3) by (simp add: unsigned_of_nat take_bit_nat_eq_self)
  then have "unat ((va + 0x80000000) + of_nat i) = pa + i"
    using assms(2,3) \<open>i < n\<close> by (subst unat_add_lem [THEN iffD1]) simp_all
  then show "pa_of tr0 h (va + of_nat i) = pa + i" using assms(1) by (simp add: pa_of_def tr0_def ac_simps)
qed

definition asm_h :: rv where
  "asm_h = \<lparr>rg = (\<lambda>_. 7)(A0 := 0x3000, A1 := 0x4000, SP := 0x5000), cs = (\<lambda>_. 0)(SSCRATCH := 0x1000, SEPC := 0x10),
     ram = (\<lambda>_. 0), pc = 0, mode = SMode\<rparr>"

lemma asm_h_fields [simp]: "mode asm_h = SMode" "cs asm_h SSCRATCH = 0x1000" "cs asm_h SATP = 0" "rg asm_h A0 = 0x3000"
  "rg asm_h A1 = 0x4000" "rg asm_h SP = 0x5000" "rg asm_h RA = 7"
  by (simp_all add: asm_h_def)

definition asm_k :: rv where
  "asm_k = (uservec tr0 asm_h)\<lparr>rg := (\<lambda>_. 0)(A0 := 0x1000, A1 := 0), ram := st64 0x80001070 42 (ram (uservec tr0 asm_h)), mode := SMode\<rparr>"

theorem trap_roundtrip_witness: "rg (userret tr0 asm_k) = (rg asm_h)(A0 := 42)"
proof -
  have "ram asm_k (0x80001000 + i) = ram (uservec tr0 asm_h) (0x80001000 + i)" if "i < 112 \<or> 120 \<le> i" for i
    using that by (auto simp: asm_k_def st_other)
  then show ?thesis
    using trap_roundtrip [of tr0 asm_h "0x1000" "0x80001000" "uservec tr0 asm_h" asm_k "userret tr0 asm_k"]
    by (simp add: flat_tr0 asm_k_def)
qed

definition asm_back :: rv where
  "asm_back = (swtch_S tr0 asm_h)\<lparr>rg := (\<lambda>_. 9)(A0 := 0x4000, A1 := 0x3000), mode := SMode\<rparr>"

theorem swtch_roundtrip_witness: "rg (swtch_S tr0 asm_back) S3 = 7 \<and> pc (swtch_S tr0 asm_back) = 7"
  using swtch_roundtrip [of tr0 asm_h "0x80003000" "0x80004000" "swtch_S tr0 asm_h" tr0 asm_back "0x80004000" "swtch_S tr0 asm_back"]
  by (simp add: flat_tr0 asm_back_def context_regs_def, simp add: asm_h_def)

definition asm_m :: rv where
  "asm_m = asm_h\<lparr>mode := MMode, cs := (cs asm_h)(MSCRATCH := 0x80006000, MEPC := 0x20),
     ram := st64 0x80006020 0x2004000 (st64 0x80006028 1000000 (st64 0x2004000 5 (\<lambda>_. 0)))\<rparr>"

lemma asm_m_ram [simp]: "ld64 (ram asm_m) 0x80006020 = 0x2004000" "ld64 (ram asm_m) 0x80006028 = 1000000"
  "ld64 (ram asm_m) 0x2004000 = 5"
  by (simp_all add: asm_m_def ld_st_disj)

theorem timervec_transparent_witness:
  "rg (timervec tr0 asm_m) = rg asm_m \<and> ld64 (ram (timervec tr0 asm_m)) 0x2004000 = 1000005"
proof -
  have "mode asm_m = MMode" "unat (cs asm_m MSCRATCH) = 0x80006000" by (simp_all add: asm_m_def)
  moreover have "0x2004000 = unat (ld64 (ram asm_m) (0x80006000 + 32))" by simp
  ultimately have t: "rg (timervec tr0 asm_m) = rg asm_m"
    "ld64 (ram (timervec tr0 asm_m)) 0x2004000 = ld64 (ram asm_m) 0x2004000 + ld64 (ram asm_m) (0x80006000 + 40)"
    using timervec_transparent [of asm_m "0x80006000" "0x2004000" "timervec tr0 asm_m" tr0] by simp_all
  then show ?thesis by simp
qed

text \<open>
  Code in the shape a compiler gives \<^verbatim>\<open>kerneltrap()\<close>: a frame of 48 bytes below the caller's holds the
  return address, the saved registers and the local \<^verbatim>\<open>sstatus\<close>; argument and temporary registers
  are overwritten; \<^verbatim>\<open>sepc\<close> and \<^verbatim>\<open>sstatus\<close> are restored at the end.
\<close>

definition asm_trap :: "rv \<Rightarrow> rv" where
  "asm_trap = irun no_callee tr0
     [Addi SP SP (-48), Sd RA 40 SP, Sd S0 32 SP, Sd S1 24 SP, Addi S0 SP 48,
      Csrr S1 SEPC, Csrr A4 SSTATUS, Sd A4 8 SP, Li A0 1, Li T0 2, Li RA 0x80002000,
      Csrw SEPC S1, Ld A4 8 SP, Csrw SSTATUS A4,
      Ld RA 40 SP, Ld S0 32 SP, Ld S1 24 SP, Addi SP SP 48]"

lemma asm_trap_run:
  assumes "rg h SP = 0x4F00" and "cs h SATP = 0" and "mode h = SMode"
  shows "rg (asm_trap h) SP = 0x4F00" "cs (asm_trap h) SATP = 0" "mode (asm_trap h) = SMode"
    "rg (asm_trap h) TP = rg h TP" "0x80004F00 \<le> x \<Longrightarrow> ram (asm_trap h) x = ram h x"
  using assms by (simp_all add: asm_trap_def pa_of_def tr0_def st_other)

theorem kernelvec_transparent_witness: "rg (kernelvec asm_trap tr0 asm_h) = rg asm_h"
proof -
  have "flat tr0 asm_h (rg asm_h SP - 256) 0x80004F00 256" by (simp add: flat_tr0)
  moreover have "keeps_frame asm_trap asm_h (rg asm_h SP - 256) 0x80004F00"
    by (simp add: keeps_frame_def asm_trap_run)
  ultimately obtain h1 where "rg h1 = (rg asm_h)(SP := rg asm_h SP - 256)" "cs h1 = cs asm_h" "mode h1 = mode asm_h"
      "rg (kernelvec asm_trap tr0 asm_h) = (rg asm_h)(TP := rg (asm_trap h1) TP)"
    using kernelvec_transparent [of tr0 asm_h "0x80004F00" asm_trap "kernelvec asm_trap tr0 asm_h"] by blast
  then show ?thesis using asm_trap_run(4) [of h1] by simp
qed

theorem start_enters_main_witness:
  "mode (start 0x80010000 0x80001000 0x80002000 (asm_m\<lparr>cs := (\<lambda>_. 3)\<rparr>)) = SMode \<and>
   rg (start 0x80010000 0x80001000 0x80002000 (asm_m\<lparr>cs := (\<lambda>_. 3)\<rparr>)) TP = 3"
  using start_enters_main [of "asm_m\<lparr>cs := (\<lambda>_. 3)\<rparr>" 3 "0x80010000" "0x80010300" "0x2004018"
      "start 0x80010000 0x80001000 0x80002000 (asm_m\<lparr>cs := (\<lambda>_. 3)\<rparr>)" "0x80001000" "0x80002000"]
  by (simp add: hart_id_def r_mhartid_def)

end
