(* ===== verification/Xv6_User.thy ===== *)
theory Xv6_User
  imports Xv6_Printf Xv6_Fs
begin

text \<open>
  What user programs share: the system calls (the declarations of \<^verbatim>\<open>user/user.h\<close>), the library
  \<^verbatim>\<open>user/ulib.c\<close> and the formatted output of \<^verbatim>\<open>user/printf.c\<close>. A program is a computation over the
  state \<open>'os\<close> of the system as one process sees it; the system calls are a parameter, the record
  \<open>sys\<close>. A result is \<open>Inl\<close> when the program has ended, \<open>Inr a\<close> for a return, and \<open>None\<close> for a loop that
  never ends. A C string is the list of its characters before the NUL.
\<close>

section \<open>System calls\<close>

text \<open>
  \<^verbatim>\<open>read()\<close> yields its result and the characters it stored. \<^verbatim>\<open>exec()\<close> returns only on failure:
  \<open>None\<close> stands for success, after which the program is another one.
\<close>

record 'os sys =
  os_fork :: "'os \<Rightarrow> int \<times> 'os"
  os_wait :: "'os \<Rightarrow> int \<times> 'os"
  os_pipe :: "'os \<Rightarrow> (int \<times> int \<times> int) \<times> 'os"
  os_write :: "int \<Rightarrow> string \<Rightarrow> 'os \<Rightarrow> int \<times> 'os"
  os_read :: "int \<Rightarrow> nat \<Rightarrow> 'os \<Rightarrow> (int \<times> string) \<times> 'os"
  os_close :: "int \<Rightarrow> 'os \<Rightarrow> int \<times> 'os"
  os_kill :: "int \<Rightarrow> 'os \<Rightarrow> int \<times> 'os"
  os_exec :: "string \<Rightarrow> string list \<Rightarrow> 'os \<Rightarrow> int option \<times> 'os"
  os_open :: "string \<Rightarrow> int \<Rightarrow> 'os \<Rightarrow> int \<times> 'os"
  os_mknod :: "string \<Rightarrow> int \<Rightarrow> int \<Rightarrow> 'os \<Rightarrow> int \<times> 'os"
  os_unlink :: "string \<Rightarrow> 'os \<Rightarrow> int \<times> 'os"
  os_fstat :: "int \<Rightarrow> 'os \<Rightarrow> (int \<times> stat) \<times> 'os"
  os_link :: "string \<Rightarrow> string \<Rightarrow> 'os \<Rightarrow> int \<times> 'os"
  os_mkdir :: "string \<Rightarrow> 'os \<Rightarrow> int \<times> 'os"
  os_chdir :: "string \<Rightarrow> 'os \<Rightarrow> int \<times> 'os"
  os_dup :: "int \<Rightarrow> 'os \<Rightarrow> int \<times> 'os"
  os_getpid :: "'os \<Rightarrow> int \<times> 'os"
  os_sbrk :: "int \<Rightarrow> 'os \<Rightarrow> uint64 \<times> 'os"
  os_sleep :: "int \<Rightarrow> 'os \<Rightarrow> int \<times> 'os"

section \<open>Computations of a process\<close>

text \<open>A program ends by \<^verbatim>\<open>exit(n)\<close> or by a successful \<^verbatim>\<open>exec()\<close>.\<close>

datatype uend = Exited int | Replaced

type_synonym ('os, 'a) uM = "'os \<Rightarrow> ((uend + 'a) \<times> 'os) option"

definition uret :: "'a \<Rightarrow> ('os, 'a) uM" where
  "uret a = (\<lambda>s. Some (Inr a, s))"

definition uexit :: "int \<Rightarrow> ('os, 'a) uM" where
  "uexit n = (\<lambda>s. Some (Inl (Exited n), s))"

definition ubind :: "('os, 'a) uM \<Rightarrow> ('a \<Rightarrow> ('os, 'b) uM) \<Rightarrow> ('os, 'b) uM" where
  "ubind m f = (\<lambda>s. Option.bind (m s) (\<lambda>(r, s'). case r of Inl e \<Rightarrow> Some (Inl e, s') | Inr a \<Rightarrow> f a s'))"

definition useq :: "('os, 'a) uM \<Rightarrow> ('os, 'b) uM \<Rightarrow> ('os, 'b) uM" where
  "useq m k = ubind m (\<lambda>_. k)"

definition ureplaced :: "('os, 'a) uM" where
  "ureplaced = (\<lambda>s. Some (Inl Replaced, s))"

definition usys :: "('os \<Rightarrow> 'a \<times> 'os) \<Rightarrow> ('os, 'a) uM" where
  "usys f = (\<lambda>s. case f s of (a, s') \<Rightarrow> Some (Inr a, s'))"

definition uwhen :: "bool \<Rightarrow> ('os, unit) uM \<Rightarrow> ('os, unit) uM" where
  "uwhen b m = (if b then m else uret ())"

lemma urun [simp]:
  "uret a s = Some (Inr a, s)" "uexit n s = Some (Inl (Exited n), s)" "f s = (a, s') \<Longrightarrow> usys f s = Some (Inr a, s')"
  by (simp_all add: uret_def uexit_def usys_def)

lemma ubind_run [simp]:
  "m s = Some (Inr a, s') \<Longrightarrow> ubind m f s = f a s'"
  "m s = Some (Inl e, s') \<Longrightarrow> ubind m f s = Some (Inl e, s')"
  "m s = Some (Inr a, s') \<Longrightarrow> useq m k s = k s'"
  "m s = Some (Inl e, s') \<Longrightarrow> useq m k s = Some (Inl e, s')"
  by (simp_all add: ubind_def useq_def)

lemma ubind_mono [partial_function_mono]:
  fixes m :: "_ \<Rightarrow> ('s, 'a) uM"
  assumes "\<And>s. mono_option (\<lambda>x. m x s)" and "\<And>a s. mono_option (\<lambda>x. f x a s)"
  shows "mono_option (\<lambda>x. ubind (m x) (f x) s)"
  unfolding ubind_def
proof (rule bind_mono [OF assms(1)])
  fix y :: "(uend + 'a) \<times> 's"
  show "mono_option (\<lambda>x. case y of (r, s') \<Rightarrow> case r of Inl e \<Rightarrow> Some (Inl e, s') | Inr a \<Rightarrow> f x a s')"
    using assms(2) by (cases y; cases "fst y") (auto simp: option.const_mono)
qed

lemma useq_mono [partial_function_mono]:
  assumes "\<And>s. mono_option (\<lambda>x. m x s)" and "\<And>s. mono_option (\<lambda>x. k x s)"
  shows "mono_option (\<lambda>x. useq (m x) (k x) s)"
  unfolding useq_def using assms by (rule ubind_mono)

lemma uif_mono [partial_function_mono]:
  assumes "mono_option (\<lambda>x. m x s)" and "mono_option (\<lambda>x. k x s)"
  shows "mono_option (\<lambda>x. (if b then m x else k x) s)"
  using assms by (cases b) simp_all

text \<open>
  What a filter program relies on: \<^verbatim>\<open>read(fd, ..)\<close> delivers the file piece by piece, at least one
  character as long as there is room and something is left, and \<^verbatim>\<open>write(1, ..)\<close> takes everything. \<open>inp\<close> is
  what is still to be read and \<open>out\<close> what has been written.
\<close>

definition filter_io :: "'os sys \<Rightarrow> int \<Rightarrow> ('os \<Rightarrow> string) \<Rightarrow> ('os \<Rightarrow> string) \<Rightarrow> bool" where
  "filter_io sys fd inp out \<longleftrightarrow>
     (\<forall>k s. \<exists>cs s'. os_read sys fd k s = ((int (length cs), cs), s') \<and> length cs \<le> k \<and> inp s = cs @ inp s' \<and>
        out s' = out s \<and> (cs = [] \<longrightarrow> k = 0 \<or> inp s = [])) \<and>
     (\<forall>cs s. \<exists>s'. os_write sys 1 cs s = (int (length cs), s') \<and> inp s' = inp s \<and> out s' = out s @ cs)"

lemma filter_readE:
  assumes "filter_io sys fd inp out"
  obtains cs s' where "usys (os_read sys fd k) s = Some (Inr (int (length cs), cs), s')" "length cs \<le> k" "inp s = cs @ inp s'"
    "out s' = out s" "cs = [] \<Longrightarrow> k = 0 \<or> inp s = []"
  using assms unfolding filter_io_def by (metis urun(3))

lemma filter_writeE:
  assumes "filter_io sys fd inp out"
  obtains s' where "usys (os_write sys 1 cs) s = Some (Inr (int (length cs)), s')" "inp s' = inp s" "out s' = out s @ cs"
  using assms unfolding filter_io_def by (metis urun(3))

text \<open>Behaviour that C leaves undefined has no result.\<close>

definition uundef :: "('os, 'a) uM" where
  "uundef = (\<lambda>s. None)"

section \<open>The library ulib.c\<close>

text \<open>Functions that write through pointers work on the memory, the others on the strings.\<close>

partial_function (option) u_strcpy :: "nat \<Rightarrow> nat \<Rightarrow> bytes \<Rightarrow> bytes option" where
  "u_strcpy s t m =
     (let m' = m(s := m t) in if m' s \<noteq> 0 then u_strcpy (Suc s) (Suc t) m' else Some m')"

definition chr0 :: "string \<Rightarrow> int" where
  "chr0 s = (case s of [] \<Rightarrow> 0 | c # cs \<Rightarrow> of_char c)"

fun u_strcmp :: "string \<Rightarrow> string \<Rightarrow> int" where
  "u_strcmp (a # p) (b # q) = (if a = b then u_strcmp p q else of_char a - of_char b)"
| "u_strcmp p q = chr0 p - chr0 q"

primrec u_strlen :: "string \<Rightarrow> nat" where
  "u_strlen [] = 0"
| "u_strlen (c # s) = Suc (u_strlen s)"

primrec u_memset :: "nat \<Rightarrow> byte \<Rightarrow> nat \<Rightarrow> bytes \<Rightarrow> bytes" where
  "u_memset dst c 0 m = m"
| "u_memset dst c (Suc n) m = u_memset (Suc dst) c n (m(dst := c))"

text \<open>The offset of the first \<open>c\<close>; \<open>None\<close> is the null pointer.\<close>

primrec u_strchr :: "string \<Rightarrow> char \<Rightarrow> nat option" where
  "u_strchr [] c = None"
| "u_strchr (a # s) c = (if a = c then Some 0 else map_option Suc (u_strchr s c))"

primrec u_gets_loop :: "'os sys \<Rightarrow> nat \<Rightarrow> string \<Rightarrow> ('os, string) uM" where
  "u_gets_loop sys 0 buf = uret buf"
| "u_gets_loop sys (Suc n) buf =
     ubind (usys (os_read sys 0 1)) (\<lambda>(cc, cs).
     if cc < 1 then uret buf
     else if hd cs = CHR 0x0A \<or> hd cs = CHR 0x0D then uret (buf @ [hd cs])
     else u_gets_loop sys n (buf @ [hd cs]))"

definition u_gets :: "'os sys \<Rightarrow> int \<Rightarrow> ('os, string) uM" where
  "u_gets sys n = u_gets_loop sys (nat (n - 1)) []"

definition u_stat :: "'os sys \<Rightarrow> string \<Rightarrow> ('os, int \<times> stat option) uM" where
  "u_stat sys n =
     ubind (usys (os_open sys n 0)) (\<lambda>fd.
     if fd < 0 then uret (-1, None)
     else ubind (usys (os_fstat sys fd)) (\<lambda>(r, st).
       useq (usys (os_close sys fd)) (uret (r, Some st))))"

definition u_isdigit :: "char \<Rightarrow> bool" where
  "u_isdigit c \<longleftrightarrow> 48 \<le> (of_char c :: int) \<and> (of_char c :: int) \<le> 57"

primrec u_atoi_loop :: "string \<Rightarrow> uint \<Rightarrow> uint" where
  "u_atoi_loop [] n = n"
| "u_atoi_loop (c # s) n =
     (if u_isdigit c then u_atoi_loop s (n * 10 + of_int (of_char c) - 48) else n)"

definition u_atoi :: "string \<Rightarrow> int" where
  "u_atoi s = sint (u_atoi_loop s 0)"

primrec u_copy_up :: "nat \<Rightarrow> nat \<Rightarrow> nat \<Rightarrow> bytes \<Rightarrow> bytes" where
  "u_copy_up d s 0 m = m"
| "u_copy_up d s (Suc n) m = u_copy_up (Suc d) (Suc s) n (m(d := m s))"

primrec u_copy_down :: "nat \<Rightarrow> nat \<Rightarrow> nat \<Rightarrow> bytes \<Rightarrow> bytes" where
  "u_copy_down d s 0 m = m"
| "u_copy_down d s (Suc n) m = u_copy_down d s n (m(d + n := m (s + n)))"

definition u_memmove :: "nat \<Rightarrow> nat \<Rightarrow> int \<Rightarrow> bytes \<Rightarrow> bytes" where
  "u_memmove d s n m = (if s > d then u_copy_up d s (nat n) m else u_copy_down d s (nat n) m)"

primrec u_memcmp :: "bytes \<Rightarrow> bytes \<Rightarrow> nat \<Rightarrow> nat \<Rightarrow> int" where
  "u_memcmp s1 s2 i 0 = 0"
| "u_memcmp s1 s2 i (Suc n) = (if s1 i \<noteq> s2 i then uint (s1 i) - uint (s2 i) else u_memcmp s1 s2 (Suc i) n)"

definition u_memcpy :: "nat \<Rightarrow> nat \<Rightarrow> uint \<Rightarrow> bytes \<Rightarrow> bytes" where
  "u_memcpy d s n m = u_memmove d s (sint n) m"

section \<open>Formatted output\<close>

definition u_digits :: string where
  "u_digits = ''0123456789ABCDEF''"

definition u_putc :: "'os sys \<Rightarrow> int \<Rightarrow> char \<Rightarrow> ('os, unit) uM" where
  "u_putc sys fd c = useq (usys (os_write sys fd [c])) (uret ())"

primrec u_puts :: "'os sys \<Rightarrow> int \<Rightarrow> string \<Rightarrow> ('os, unit) uM" where
  "u_puts sys fd [] = uret ()"
| "u_puts sys fd (c # cs) = useq (u_putc sys fd c) (u_puts sys fd cs)"

text \<open>The loop that fills \<^verbatim>\<open>char buf[16]\<close>; \<open>None\<close> is a store past its end.\<close>

primrec u_printint_loop :: "nat \<Rightarrow> uint \<Rightarrow> uint \<Rightarrow> string \<Rightarrow> string option" where
  "u_printint_loop 0 x base buf = None"
| "u_printint_loop (Suc n) x base buf =
     (let buf' = buf @ [u_digits ! unat (x mod base)]; x' = x div base
      in if x' \<noteq> 0 then u_printint_loop n x' base buf' else Some buf')"

definition u_printint_buf :: "int \<Rightarrow> uint \<Rightarrow> bool \<Rightarrow> string option" where
  "u_printint_buf xx base sg =
     (let neg = (sg \<and> xx < 0);
          x = (if neg then of_int (- xx) else of_int xx)
      in case u_printint_loop 16 x base [] of
           None \<Rightarrow> None
         | Some buf \<Rightarrow> if neg then (if length buf < 16 then Some (buf @ ''-'') else None) else Some buf)"

definition u_printint :: "'os sys \<Rightarrow> int \<Rightarrow> int \<Rightarrow> uint \<Rightarrow> bool \<Rightarrow> ('os, unit) uM" where
  "u_printint sys fd xx base sg = (case u_printint_buf xx base sg of
       None \<Rightarrow> uundef
     | Some buf \<Rightarrow> u_puts sys fd (rev buf))"

primrec u_printptr_loop :: "nat \<Rightarrow> uint64 \<Rightarrow> string" where
  "u_printptr_loop 0 x = []"
| "u_printptr_loop (Suc n) x = u_digits ! unat (drop_bit 60 x) # u_printptr_loop n (push_bit 4 x)"

definition u_printptr :: "'os sys \<Rightarrow> int \<Rightarrow> uint64 \<Rightarrow> ('os, unit) uM" where
  "u_printptr sys fd x = u_puts sys fd (''0x'' @ u_printptr_loop 16 x)"

text \<open>One directive: the computation that prints it and the arguments left.\<close>

definition u_directive :: "'os sys \<Rightarrow> int \<Rightarrow> char \<Rightarrow> vararg list \<Rightarrow> ('os, unit) uM \<times> vararg list" where
  "u_directive sys fd c ap =
     (if c = CHR ''d'' then (case ap of VInt n # ap' \<Rightarrow> (u_printint sys fd n 10 True, ap') | _ \<Rightarrow> (uundef, []))
      else if c = CHR ''l'' then
        (case ap of VPtr n # ap' \<Rightarrow> (u_printint sys fd (sint (ucast n :: uint)) 10 False, ap') | _ \<Rightarrow> (uundef, []))
      else if c = CHR ''x'' then (case ap of VInt n # ap' \<Rightarrow> (u_printint sys fd n 16 False, ap') | _ \<Rightarrow> (uundef, []))
      else if c = CHR ''p'' then (case ap of VPtr n # ap' \<Rightarrow> (u_printptr sys fd n, ap') | _ \<Rightarrow> (uundef, []))
      else if c = CHR ''s'' then
        (case ap of VStr t # ap' \<Rightarrow> (u_puts sys fd (case t of None \<Rightarrow> ''(null)'' | Some t \<Rightarrow> t), ap') | _ \<Rightarrow> (uundef, []))
      else if c = CHR ''c'' then (case ap of VInt n # ap' \<Rightarrow> (u_putc sys fd (char_of n), ap') | _ \<Rightarrow> (uundef, []))
      else if c = CHR ''%'' then (u_putc sys fd c, ap)
      else (useq (u_putc sys fd (CHR ''%'')) (u_putc sys fd c), ap))"

text \<open>\<open>pct\<close> says that the \<^verbatim>\<open>state\<close> is a percent sign.\<close>

primrec u_vprintf_loop :: "'os sys \<Rightarrow> int \<Rightarrow> string \<Rightarrow> bool \<Rightarrow> vararg list \<Rightarrow> ('os, unit) uM" where
  "u_vprintf_loop sys fd [] pct ap = uret ()"
| "u_vprintf_loop sys fd (c # cs) pct ap =
     (if \<not> pct then
        if c = CHR ''%'' then u_vprintf_loop sys fd cs True ap
        else useq (u_putc sys fd c) (u_vprintf_loop sys fd cs False ap)
      else case u_directive sys fd c ap of (m, ap') \<Rightarrow> useq m (u_vprintf_loop sys fd cs False ap'))"

definition u_vprintf :: "'os sys \<Rightarrow> int \<Rightarrow> string \<Rightarrow> vararg list \<Rightarrow> ('os, unit) uM" where
  "u_vprintf sys fd fmt ap = u_vprintf_loop sys fd fmt False ap"

definition u_fprintf :: "'os sys \<Rightarrow> int \<Rightarrow> string \<Rightarrow> vararg list \<Rightarrow> ('os, unit) uM" where
  "u_fprintf sys fd fmt ap = u_vprintf sys fd fmt ap"

definition u_printf :: "'os sys \<Rightarrow> string \<Rightarrow> vararg list \<Rightarrow> ('os, unit) uM" where
  "u_printf sys fmt ap = u_vprintf sys 1 fmt ap"

end
