(* ===== verification/Xv6_User_Proofs.thy ===== *)
theory Xv6_User_Proofs
  imports Xv6_User
begin

text \<open>
  The library functions of user programs: \<^verbatim>\<open>memmove()\<close> agrees with the kernel's and copies whatever
  the overlap, and \<^verbatim>\<open>atoi()\<close> reads back what \<^verbatim>\<open>printf()\<close> prints.
\<close>

section \<open>memmove\<close>

lemma u_copy_up_eq: "u_copy_up d s n m = memmove_up d s n m"
  by (induction n arbitrary: d s m) simp_all

lemma u_copy_down_eq: "u_copy_down d s n m = memmove_down d s n m"
  by (induction n arbitrary: m) simp_all

lemma memmove_down_blit: "s \<le> d \<Longrightarrow> memmove_down d s n m = blit d m s n m"
proof
  fix x
  assume "s \<le> d"
  then show "memmove_down d s n m x = blit d m s n m x"
    using memmove_down_copy [of s d "x - d" n m] by (auto simp: blit_def memmove_down_other)
qed

text \<open>
  C32: The \<^verbatim>\<open>memmove()\<close> of user programs and that of the kernel are equivalent, although they choose
  the direction of the copy differently (by the order of the pointers alone, and by the overlap):
  both move the \<open>n\<close> source bytes, as they were before the call, to the destination and change
  nothing else.
\<close>

theorem memmove_equiv:
  "u_memmove d s (int n) m = memmove d s n m \<and> memmove d s n m = (\<lambda>x. if d \<le> x \<and> x < d + n then m (s + (x - d)) else m x)"
proof -
  have "u_memmove d s (int n) m = blit d m s n m"
  proof (cases "s > d")
    case True
    then show ?thesis using memmove_blit [of d s n m] by (simp add: u_memmove_def u_copy_up_eq memmove_def)
  next
    case False
    then show ?thesis by (simp add: u_memmove_def u_copy_down_eq memmove_down_blit)
  qed
  then show ?thesis by (simp add: memmove_blit) (simp add: blit_def)
qed

section \<open>Printing and reading numbers\<close>

lemma u_digit: "k < 10 \<Longrightarrow> u_isdigit (u_digits ! k) \<and> of_char (u_digits ! k) = 48 + int k"
proof -
  assume "k < 10"
  then have "k \<in> {0, 1, 2, 3, 4, 5, 6, 7, 8, 9}" by auto
  then show ?thesis by (auto simp: u_digits_def u_isdigit_def)
qed

lemma u_printint_loop_atoi:
  assumes "unat x < 10 ^ Suc n"
  shows "\<exists>ds. u_printint_loop (Suc n) x 10 buf = Some (buf @ ds) \<and> length ds \<le> Suc n \<and> ds \<noteq> [] \<and>
    (\<forall>a rest. u_atoi_loop (rev ds @ rest) a = u_atoi_loop rest (a * 10 ^ length ds + x))"
  using assms
proof (induction n arbitrary: x buf)
  case 0
  then have x: "x div 10 = 0" "x mod 10 = x" "unat x < 10" by (simp_all add: word_unat_eq_iff unat_div unat_mod)
  have "(of_int (of_char (u_digits ! unat x)) :: uint) = 48 + x" using u_digit [OF x(3)] by simp
  then show ?case using x u_digit [OF x(3)] by simp
next
  case (Suc n)
  let ?d = "u_digits ! unat (x mod 10)"
  have m: "unat (x mod 10) < 10" by (simp add: unat_mod)
  have d: "u_isdigit ?d" "(of_int (of_char ?d) :: uint) = 48 + x mod 10" using u_digit [OF m] by simp_all
  have eq: "x div 10 * 10 + x mod 10 = x" by (rule div_mult_mod_eq)
  show ?case
  proof (cases "x div 10 = 0")
    case True
    then have "x mod 10 = x" using eq by simp
    then show ?thesis using True d by simp
  next
    case False
    have "unat (x div 10) < 10 ^ Suc n" using Suc.prems by (simp add: unat_div less_mult_imp_div_less)
    from Suc.IH [OF this, of "buf @ [?d]"] obtain ds where
      ds: "u_printint_loop (Suc n) (x div 10) 10 (buf @ [?d]) = Some ((buf @ [?d]) @ ds)" "length ds \<le> Suc n"
        "\<And>a rest. u_atoi_loop (rev ds @ rest) a = u_atoi_loop rest (a * 10 ^ length ds + x div 10)"
      by blast
    have "u_atoi_loop (rev (?d # ds) @ rest) a = u_atoi_loop rest (a * 10 ^ length (?d # ds) + x)" for a rest
    proof -
      have "(a * 10 ^ length ds + x div 10) * 10 + x mod 10 = a * 10 ^ length (?d # ds) + x"
        using eq by (simp add: distrib_right mult.assoc add.assoc mult.commute)
      moreover have "u_atoi_loop (?d # rest) b = u_atoi_loop rest (b * 10 + x mod 10)" for b using d by simp
      ultimately show ?thesis
        by (simp only: rev.simps append_assoc append_Cons append_Nil ds(3) [of "?d # rest" a])
    qed
    then show ?thesis using False ds(1,2)
      by (intro exI [of _ "?d # ds"]) (simp add: Let_def del: u_printint_loop.simps(2) add: u_printint_loop.simps(2) [of "Suc n"])
  qed
qed

lemma u_printint_loop_mono:
  "u_printint_loop n x base buf = Some r \<Longrightarrow> u_printint_loop (n + m) x base buf = Some r"
  by (induction n arbitrary: x buf) (auto simp: Let_def split: if_splits)

text \<open>
  C33: What a user program prints with \<^verbatim>\<open>%d\<close> another one can read: for every non-negative \<^verbatim>\<open>int\<close> the
  library writes at most ten characters, and \<^verbatim>\<open>atoi()\<close> of these, whatever non-digit follows them,
  is the number again.
\<close>

theorem printint_atoi:
  assumes "0 \<le> k" and "k < 2 ^ 31" and "rest = [] \<or> \<not> u_isdigit (hd rest)"
  shows "\<exists>txt. u_printint sys fd k 10 True = u_puts sys fd txt \<and> length txt \<le> 10 \<and> u_atoi (txt @ rest) = k"
proof -
  let ?x = "of_int k :: uint"
  have u: "uint ?x = k" using assms(1,2) by (simp add: unsigned_of_int take_bit_int_eq_self)
  then have "unat ?x < 10 ^ Suc 9" using assms(1,2) by (simp add: unat_eq_nat_uint nat_less_iff)
  from u_printint_loop_atoi [OF this, of "[]"] obtain ds where
    ds: "u_printint_loop (Suc 9) ?x 10 [] = Some ds" "length ds \<le> 10"
      "\<And>a r. u_atoi_loop (rev ds @ r) a = u_atoi_loop r (a * 10 ^ length ds + ?x)"
    by auto
  have "u_printint_loop 16 ?x 10 [] = Some ds" using u_printint_loop_mono [OF ds(1), of 6] by simp
  moreover have "u_atoi_loop rest ?x = ?x" using assms(3) by (cases rest) simp_all
  moreover have "sint ?x = k"
  proof -
    have "k < 2 ^ 31" "0 \<le> k" using assms by simp_all
    then show ?thesis by (simp add: signed_of_int signed_take_bit_int_eq_self)
  qed
  ultimately show ?thesis
    using assms(1) ds(2,3) by (intro exI [of _ "rev ds"]) (simp add: u_printint_def u_printint_buf_def Let_def u_atoi_def)
qed


section \<open>Witnesses\<close>

text \<open>A system whose \<^verbatim>\<open>write()\<close> takes everything and whose files are empty.\<close>

definition sys0 :: "string sys" where
  "sys0 = \<lparr>os_fork = Pair (-1), os_wait = Pair (-1), os_pipe = Pair (-1, 0, 0),
     os_write = (\<lambda>fd cs s. (int (length cs), s @ cs)), os_read = (\<lambda>fd n. Pair (0, [])), os_close = (\<lambda>fd. Pair 0),
     os_kill = (\<lambda>pid. Pair (-1)), os_exec = (\<lambda>p a. Pair (Some (-1))), os_open = (\<lambda>p m. Pair (-1)),
     os_mknod = (\<lambda>p a b. Pair (-1)), os_unlink = (\<lambda>p. Pair (-1)),
     os_fstat = (\<lambda>fd. Pair (-1, \<lparr>st_dev = 0, st_ino = 0, st_type = 0, st_nlink = 0, st_size = 0\<rparr>)),
     os_link = (\<lambda>a b. Pair (-1)), os_mkdir = (\<lambda>p. Pair (-1)), os_chdir = (\<lambda>p. Pair (-1)), os_dup = (\<lambda>fd. Pair (-1)),
     os_getpid = Pair 1, os_sbrk = (\<lambda>n. Pair (-1)), os_sleep = (\<lambda>n. Pair 0)\<rparr>"

theorem printint_atoi_witness:
  "\<exists>txt. u_printint sys0 1 2026 10 True = u_puts sys0 1 txt \<and> length txt \<le> 10 \<and> u_atoi (txt @ ''x'') = 2026"
  by (rule printint_atoi) (simp_all add: u_isdigit_def)

end
