(* ===== verification/Xv6_Grep.thy ===== *)
theory Xv6_Grep
  imports Xv6_User
begin

text \<open>
  \<^verbatim>\<open>user/grep.c\<close>: the regular-expression matcher of Kernighan and Pike, which \<^verbatim>\<open>user/find.c\<close> has too,
  and the loop that reads a file through a 1024-byte buffer and prints the lines that match.
\<close>

section \<open>The matcher\<close>

abbreviation NL :: char where "NL \<equiv> CHR 0x0A"

text \<open>The first argument tells \<^verbatim>\<open>matchstar(c, re, text)\<close> from \<^verbatim>\<open>matchhere(re, text)\<close>.\<close>

function matcher :: "char option \<Rightarrow> string \<Rightarrow> string \<Rightarrow> bool" where
  "matcher (Some c) re text =
     (if matcher None re text then True
      else if text \<noteq> [] \<and> (hd text = c \<or> c = CHR ''.'') then matcher (Some c) re (tl text)
      else False)"
| "matcher None re text =
     (if re = [] then True
      else if tl re \<noteq> [] \<and> hd (tl re) = CHR ''*'' then matcher (Some (hd re)) (tl (tl re)) text
      else if hd re = CHR ''$'' \<and> tl re = [] then text = []
      else if text \<noteq> [] \<and> (hd re = CHR ''.'' \<or> hd re = hd text) then matcher None (tl re) (tl text)
      else False)"
  by pat_completeness auto
termination
  by (relation "inv_image (less_than <*lex*> less_than <*lex*> less_than)
        (\<lambda>(c, re, text). (length re, length text, if c = None then 0 else Suc 0))")
     (auto simp: neq_Nil_conv)

declare matcher.simps [simp del]

definition matchhere :: "string \<Rightarrow> string \<Rightarrow> bool" where
  "matchhere re text = matcher None re text"

definition matchstar :: "char \<Rightarrow> string \<Rightarrow> string \<Rightarrow> bool" where
  "matchstar c re text = matcher (Some c) re text"

primrec match_loop :: "string \<Rightarrow> string \<Rightarrow> bool" where
  "match_loop re [] = matchhere re []"
| "match_loop re (c # text) = (if matchhere re (c # text) then True else match_loop re text)"

definition match :: "string \<Rightarrow> string \<Rightarrow> bool" where
  "match re text =
     (if re \<noteq> [] \<and> hd re = CHR ''^'' then matchhere (tl re) text else match_loop re text)"

section \<open>The loop over the buffer\<close>

text \<open>What the string functions see of a buffer: the characters before the first NUL.\<close>

definition cstr :: "string \<Rightarrow> string" where
  "cstr xs = takeWhile (\<lambda>c. c \<noteq> CHR 0x00) xs"

lemma u_strchr_Some: "u_strchr xs c = Some q \<Longrightarrow> q < length xs \<and> xs ! q = c \<and> c \<notin> set (take q xs)"
proof (induction xs arbitrary: q)
  case (Cons a xs)
  then show ?case by (cases q) (auto split: if_splits)
qed simp

lemma u_strchr_None: "u_strchr xs c = None \<longleftrightarrow> c \<notin> set xs"
  by (induction xs) auto

lemma u_strchr_cstr: "u_strchr (cstr p) c = Some q \<Longrightarrow> q < length p"
  using length_takeWhile_le [of "\<lambda>c. c \<noteq> CHR 0x00" p] by (force simp: cstr_def dest: u_strchr_Some)

text \<open>
  The inner loop, on the part of the buffer from \<^verbatim>\<open>p\<close> on; its result is the part that is left when
  there is no further newline.
\<close>

function grep_lines :: "'os sys \<Rightarrow> string \<Rightarrow> string \<Rightarrow> ('os, string) uM" where
  "grep_lines sys re p =
     (case u_strchr (cstr p) NL of
        None \<Rightarrow> uret p
      | Some q \<Rightarrow>
          useq (uwhen (match re (take q p)) (useq (usys (os_write sys 1 (take (Suc q) p))) (uret ())))
               (grep_lines sys re (drop (Suc q) p)))"
  by pat_completeness auto
termination by (relation "measure (\<lambda>(sys, re, p). length p)") (auto dest!: u_strchr_cstr)

declare grep_lines.simps [simp del]

text \<open>\<open>b\<close> is the unfinished line at the start of the buffer, \<^verbatim>\<open>m\<close> its length.\<close>

partial_function (option) grep :: "'os sys \<Rightarrow> string \<Rightarrow> int \<Rightarrow> string \<Rightarrow> 'os \<Rightarrow> ((uend + unit) \<times> 'os) option" where
  "grep sys re fd b s =
     ubind (usys (os_read sys fd (1024 - length b - 1))) (\<lambda>(n, cs).
     if n > 0 then ubind (grep_lines sys re (b @ cs)) (grep sys re fd)
     else uret ()) s"

primrec grep_files :: "'os sys \<Rightarrow> string \<Rightarrow> string list \<Rightarrow> ('os, unit) uM" where
  "grep_files sys re [] = uret ()"
| "grep_files sys re (f # fs) =
     ubind (usys (os_open sys f 0)) (\<lambda>fd.
     if fd < 0 then useq (u_printf sys ''grep: cannot open %s\<newline>'' [VStr (Some f)]) (uexit 1)
     else useq (grep sys re fd []) (useq (usys (os_close sys fd)) (grep_files sys re fs)))"

definition grep_main :: "'os sys \<Rightarrow> string list \<Rightarrow> ('os, unit) uM" where
  "grep_main sys argv =
     (if length argv \<le> 1 then useq (u_fprintf sys 2 ''usage: grep pattern [file ...]\<newline>'' []) (uexit 1)
      else if length argv \<le> 2 then useq (grep sys (argv ! 1) 0 []) (uexit 0)
      else useq (grep_files sys (argv ! 1) (drop 2 argv)) (uexit 0))"

section \<open>What the matcher matches\<close>

text \<open>
  The language of the patterns, without search: \<open>matches re w r\<close> says that \<open>re\<close> matches the text \<open>w\<close>
  when \<open>r\<close> follows it.
\<close>

definition ok_char :: "char \<Rightarrow> char \<Rightarrow> bool" where
  "ok_char c x \<longleftrightarrow> c = CHR ''.'' \<or> c = x"

definition starred :: "string \<Rightarrow> bool" where
  "starred re \<longleftrightarrow> re \<noteq> [] \<and> hd re = CHR ''*''"

inductive matches :: "string \<Rightarrow> string \<Rightarrow> string \<Rightarrow> bool" where
  empty: "matches [] [] r"
| star0: "matches re w r \<Longrightarrow> matches (c # CHR ''*'' # re) w r"
| star1: "ok_char c x \<Longrightarrow> matches (c # CHR ''*'' # re) w r \<Longrightarrow> matches (c # CHR ''*'' # re) (x # w) r"
| final: "matches [CHR ''$''] [] []"
| single: "ok_char c x \<Longrightarrow> \<not> starred re \<Longrightarrow> \<not> (c = CHR ''$'' \<and> re = []) \<Longrightarrow> matches re w r \<Longrightarrow> matches (c # re) (x # w) r"

inductive_cases matches_NilE: "matches [] w r"
inductive_cases matches_starE: "matches (c # CHR ''*'' # re) w r"
inductive_cases matches_ConsE: "matches (c # re) w r"


lemma starred_simps [simp]: "starred (CHR ''*'' # re)" "\<not> starred []"
  by (simp_all add: starred_def)

lemma matches_star_iff:
  "matches (c # CHR ''*'' # re) w r \<longleftrightarrow> matches re w r \<or> (\<exists>x v. w = x # v \<and> ok_char c x \<and> matches (c # CHR ''*'' # re) v r)"
  by (auto elim: matches_starE intro: matches.intros)

lemma matches_single_iff:
  "\<not> starred re \<Longrightarrow> \<not> (c = CHR ''$'' \<and> re = []) \<Longrightarrow>
    matches (c # re) w r \<longleftrightarrow> (\<exists>x v. w = x # v \<and> ok_char c x \<and> matches re v r)"
  by (auto elim: matches_ConsE intro: matches.intros)

lemma matches_final_iff: "matches [CHR ''$''] w r \<longleftrightarrow> w = [] \<and> r = []"
  by (auto elim: matches_ConsE intro: matches.intros)

definition lang :: "string \<Rightarrow> string \<Rightarrow> bool" where
  "lang re text \<longleftrightarrow> (\<exists>w r. text = w @ r \<and> matches re w r)"

lemma lang_Nil [simp]: "lang [] text"
  by (auto simp: lang_def intro: matches.empty)

lemma ex_head:
  "(\<exists>w r. t = w @ r \<and> (\<exists>x v. w = x # v \<and> P x \<and> Q v r)) \<longleftrightarrow> t \<noteq> [] \<and> P (hd t) \<and> (\<exists>v r. tl t = v @ r \<and> Q v r)"
proof (cases t)
  case (Cons a u)
  have "(\<exists>w r. a # u = w @ r \<and> (\<exists>x v. w = x # v \<and> P x \<and> Q v r)) \<longleftrightarrow> P a \<and> (\<exists>v r. u = v @ r \<and> Q v r)"
    by (simp add: Cons_eq_append_conv) blast
  then show ?thesis using Cons by simp
qed simp

lemma lang_star: "lang (c # CHR ''*'' # re) t \<longleftrightarrow>
    lang re t \<or> (t \<noteq> [] \<and> ok_char c (hd t) \<and> lang (c # CHR ''*'' # re) (tl t))"
proof -
  have "lang (c # CHR ''*'' # re) t \<longleftrightarrow>
      lang re t \<or> (\<exists>w r. t = w @ r \<and> (\<exists>x v. w = x # v \<and> ok_char c x \<and> matches (c # CHR ''*'' # re) v r))"
    unfolding lang_def by (subst matches_star_iff) blast
  then show ?thesis unfolding ex_head by (simp add: lang_def)
qed

lemma lang_single:
  assumes "\<not> starred re" and "\<not> (c = CHR ''$'' \<and> re = [])"
  shows "lang (c # re) t \<longleftrightarrow> t \<noteq> [] \<and> ok_char c (hd t) \<and> lang re (tl t)"
  unfolding lang_def matches_single_iff [OF assms] ex_head by simp

lemma lang_final: "lang [CHR ''$''] text \<longleftrightarrow> text = []"
  by (simp add: lang_def matches_final_iff)

lemma matcher_lang: "matcher oc re text = (case oc of None \<Rightarrow> lang re text | Some c \<Rightarrow> lang (c # CHR ''*'' # re) text)"
proof (induction oc re "text" rule: matcher.induct)
  case (1 c re t)
  then show ?case
    by (subst matcher.simps, subst lang_star) (auto simp: ok_char_def)
next
  case (2 re t)
  show ?case
  proof (cases re)
    case Nil
    then show ?thesis by (simp add: matcher.simps)
  next
    case (Cons c re1)
    consider "starred re1" | "\<not> starred re1" "c = CHR ''$''" "re1 = []" | "\<not> starred re1" "\<not> (c = CHR ''$'' \<and> re1 = [])"
      by blast
    then show ?thesis
    proof cases
      case 1
      then obtain re2 where "re1 = CHR ''*'' # re2" by (auto simp: starred_def neq_Nil_conv)
      then show ?thesis using 2(1) Cons by (subst matcher.simps) simp
    next
      case 2
      then show ?thesis using Cons by (subst matcher.simps) (simp add: lang_final)
    next
      case 3
      then show ?thesis using 2(2) Cons lang_single [OF 3]
        by (subst matcher.simps) (auto simp: ok_char_def starred_def)
    qed
  qed
qed

lemma match_loop_lang: "match_loop re text \<longleftrightarrow> (\<exists>u v. text = u @ v \<and> lang re v)"
proof (induction "text")
  case (Cons c t)
  have "(\<exists>u v. c # t = u @ v \<and> lang re v) \<longleftrightarrow> lang re (c # t) \<or> (\<exists>u v. t = u @ v \<and> lang re v)"
    by (auto simp: Cons_eq_append_conv)
  then show ?case using Cons by (simp add: matchhere_def matcher_lang)
qed (simp add: matchhere_def matcher_lang)

text \<open>
  C9: \<^verbatim>\<open>match(re, text)\<close> terminates and is equivalent to the declarative meaning of the patterns: it
  answers yes exactly when \<open>re\<close> matches some part of the text, or a prefix of it if \<open>re\<close> starts with
  \<^verbatim>\<open>^\<close>. The backtracking over how much a star takes loses no match and invents none.
\<close>

theorem match_correct:
  "match re text \<longleftrightarrow>
     (if re \<noteq> [] \<and> hd re = CHR ''^'' then \<exists>w r. text = w @ r \<and> matches (tl re) w r
      else \<exists>u w r. text = u @ w @ r \<and> matches re w r)"
  by (simp add: match_def match_loop_lang matchhere_def matcher_lang lang_def) blast


section \<open>The lines that are printed\<close>

text \<open>The complete lines of a text that starts in the middle of the line \<open>cur\<close>, and what follows them.\<close>

primrec full_lines :: "string \<Rightarrow> string \<Rightarrow> string list" where
  "full_lines cur [] = []"
| "full_lines cur (c # cs) = (if c = NL then cur # full_lines [] cs else full_lines (cur @ [c]) cs)"

primrec last_part :: "string \<Rightarrow> string \<Rightarrow> string" where
  "last_part cur [] = cur"
| "last_part cur (c # cs) = (if c = NL then last_part [] cs else last_part (cur @ [c]) cs)"

definition show_lines :: "string \<Rightarrow> string list \<Rightarrow> string" where
  "show_lines re ls = concat (map (\<lambda>l. l @ [NL]) (filter (match re) ls))"

lemma full_lines_append: "full_lines cur (xs @ ys) = full_lines cur xs @ full_lines (last_part cur xs) ys"
  by (induction xs arbitrary: cur) simp_all

lemma last_part_append: "last_part cur (xs @ ys) = last_part (last_part cur xs) ys"
  by (induction xs arbitrary: cur) simp_all

lemma show_lines_simps [simp]:
  "show_lines re [] = []" "show_lines re (l # ls) = (if match re l then l @ [NL] else []) @ show_lines re ls"
  "show_lines re (ls @ ls') = show_lines re ls @ show_lines re ls'"
  by (simp_all add: show_lines_def)

lemma no_NL: "NL \<notin> set xs \<Longrightarrow> full_lines cur xs = [] \<and> last_part cur xs = cur @ xs"
  by (induction xs arbitrary: cur) auto

lemma last_part_no_NL: "NL \<notin> set cur \<Longrightarrow> NL \<notin> set (last_part cur xs)"
  by (induction xs arbitrary: cur) auto

lemma last_part_set: "set (last_part cur xs) \<subseteq> set (cur @ xs)"
proof (induction xs arbitrary: cur)
  case (Cons c xs)
  show ?case using Cons [of "[]"] Cons [of "cur @ [c]"] by auto
qed simp

lemma cstr_id [simp]: "CHR 0x00 \<notin> set p \<Longrightarrow> cstr p = p"
  by (auto simp: cstr_def takeWhile_eq_all_conv)

lemma grep_lines_run:
  assumes "filter_io sys fd inp out" and "CHR 0x00 \<notin> set p"
  shows "\<exists>s'. grep_lines sys re p s = Some (Inr (last_part [] p), s') \<and> inp s' = inp s \<and>
    out s' = out s @ show_lines re (full_lines [] p)"
  using assms
proof (induction sys re p arbitrary: s rule: grep_lines.induct)
  case (1 sys re p)
  note cs = cstr_id [OF 1(3)]
  show ?case
  proof (cases "u_strchr p NL")
    case None
    then show ?thesis using no_NL [of p "[]"] by (subst grep_lines.simps) (simp add: cs, simp add: u_strchr_None)
  next
    case (Some q)
    note q = u_strchr_Some [OF Some]
    then have p: "p = take q p @ NL # drop (Suc q) p" by (metis id_take_nth_drop)
    have f: "full_lines [] p = take q p # full_lines [] (drop (Suc q) p)" "last_part [] p = last_part [] (drop (Suc q) p)"
      using q by (subst p, simp add: full_lines_append last_part_append no_NL)+
    have line: "take (Suc q) p = take q p @ [NL]" using q by (simp add: take_Suc_conv_app_nth)
    have "CHR 0x00 \<notin> set (drop (Suc q) p)" using 1(3) by (meson in_set_dropD)
    note IH = 1(1) [of q, unfolded cs, OF Some 1(2) this]
    show ?thesis
    proof (cases "match re (take q p)")
      case True
      obtain s1 where "usys (os_write sys 1 (take (Suc q) p)) s = Some (Inr (int (length (take (Suc q) p))), s1)"
          "inp s1 = inp s" "out s1 = out s @ take q p @ [NL]"
        using filter_writeE [OF 1(2), of "take (Suc q) p" s] line by metis
      then show ?thesis using IH [of s1] True Some by (subst grep_lines.simps) (auto simp: cs f uwhen_def)
    next
      case False
      then show ?thesis using IH [of s] Some by (subst grep_lines.simps) (auto simp: cs f uwhen_def)
    qed
  qed
qed

text \<open>
  C34: \<^verbatim>\<open>grep()\<close> of a file whose lines are shorter than the buffer (at most 1022 characters, no NUL)
  returns, has read all of it, and has written exactly the matching complete lines in order, however
  \<^verbatim>\<open>read()\<close> cuts the file into pieces. A last line without newline is never printed, not even if it
  matches.
\<close>

theorem grep_prints:
  assumes "filter_io sys fd inp out" and "CHR 0x00 \<notin> set (b @ inp s)" and "NL \<notin> set b"
    and "\<forall>l\<in>set (full_lines b (inp s)). length l \<le> 1022" and "length (last_part b (inp s)) \<le> 1022"
  shows "\<exists>s'. grep sys re fd b s = Some (Inr (), s') \<and> inp s' = [] \<and>
    out s' = out s @ show_lines re (full_lines b (inp s))"
  using assms(2-)
proof (induction "length (inp s)" arbitrary: b s rule: less_induct)
  case less
  have "length b \<le> 1022"
  proof (cases "NL \<in> set (inp s)")
    case True
    then obtain u v where "inp s = u @ NL # v" "NL \<notin> set u" by (meson split_list_first)
    then have "b @ u \<in> set (full_lines b (inp s))" by (simp add: full_lines_append no_NL)
    then show ?thesis using less.prems(3) by fastforce
  next
    case False
    then show ?thesis using less.prems(4) no_NL [of "inp s" b] by simp
  qed
  obtain cs s1 where r: "usys (os_read sys fd (1024 - length b - 1)) s = Some (Inr (int (length cs), cs), s1)"
      "inp s = cs @ inp s1" "out s1 = out s" "cs = [] \<Longrightarrow> 1024 - length b - 1 = 0 \<or> inp s = []"
    using filter_readE [OF assms(1), of "1024 - length b - 1" s] by metis
  show ?case
  proof (cases "cs = []")
    case True
    then have "inp s = []" "inp s1 = []" using r(2,4) \<open>length b \<le> 1022\<close> by auto
    then show ?thesis using True r by (subst grep.simps) simp
  next
    case False
    have "CHR 0x00 \<notin> set (b @ cs)" using less.prems(1) r(2) by auto
    from grep_lines_run [OF assms(1) this, of re s1] obtain s2 where
      s2: "grep_lines sys re (b @ cs) s1 = Some (Inr (last_part [] (b @ cs)), s2)" "inp s2 = inp s1"
        "out s2 = out s @ show_lines re (full_lines [] (b @ cs))"
      using r(3) by auto
    have b: "full_lines [] (b @ xs) = full_lines b xs" "last_part [] (b @ xs) = last_part b xs" for xs
      using no_NL [OF less.prems(2), of "[]"] by (simp_all add: full_lines_append last_part_append)
    have all: "full_lines b (inp s) = full_lines b cs @ full_lines (last_part b cs) (inp s1)"
      "last_part b (inp s) = last_part (last_part b cs) (inp s1)"
      using r(2) by (simp_all add: full_lines_append last_part_append)
    have "CHR 0x00 \<notin> set (last_part b cs @ inp s2)" using last_part_set [of b cs] less.prems(1) r(2) s2(2) by auto
    then have "\<exists>s'. grep sys re fd (last_part b cs) s2 = Some (Inr (), s') \<and> inp s' = [] \<and>
        out s' = out s2 @ show_lines re (full_lines (last_part b cs) (inp s2))"
      using less.prems r(2) False all s2(2) last_part_no_NL [OF less.prems(2)] by (intro less.hyps) auto
    then show ?thesis using False r(1) s2 all b by (subst grep.simps) auto
  qed
qed


section \<open>Witness\<close>

text \<open>A system with one input and one output, whose \<^verbatim>\<open>read()\<close> returns at most three characters at a time.\<close>

definition sys1 :: "(string \<times> string) sys" where
  "sys1 = \<lparr>os_fork = Pair (-1), os_wait = Pair (-1), os_pipe = Pair (-1, 0, 0),
     os_write = (\<lambda>fd cs (i, u). (int (length cs), (i, u @ cs))),
     os_read = (\<lambda>fd k (i, u). ((int (length (take (min k 3) i)), take (min k 3) i), (drop (min k 3) i, u))),
     os_close = (\<lambda>fd. Pair 0), os_kill = (\<lambda>pid. Pair (-1)), os_exec = (\<lambda>p a. Pair (Some (-1))), os_open = (\<lambda>p m. Pair 3),
     os_mknod = (\<lambda>p a b. Pair (-1)), os_unlink = (\<lambda>p. Pair (-1)),
     os_fstat = (\<lambda>fd. Pair (-1, \<lparr>st_dev = 0, st_ino = 0, st_type = 0, st_nlink = 0, st_size = 0\<rparr>)),
     os_link = (\<lambda>a b. Pair (-1)), os_mkdir = (\<lambda>p. Pair (-1)), os_chdir = (\<lambda>p. Pair (-1)), os_dup = (\<lambda>fd. Pair (-1)),
     os_getpid = Pair 1, os_sbrk = (\<lambda>n. Pair (-1)), os_sleep = (\<lambda>n. Pair 0)\<rparr>"

lemma sys1_filter: "filter_io sys1 fd fst snd"
  by (auto simp: filter_io_def sys1_def split: prod.split)

theorem grep_prints_witness:
  "\<exists>s'. grep sys1 ''b*c$'' 0 [] (''abc'' @ [NL] @ ''bcd'' @ [NL] @ ''c'', []) = Some (Inr (), s') \<and> snd s' = ''abc'' @ [NL]"
  using grep_prints [OF sys1_filter, of "[]" "(''abc'' @ [NL] @ ''bcd'' @ [NL] @ ''c'', [])" "''b*c$''" 0]
  by (auto simp: show_lines_def match_def matchhere_def matcher.simps)

end
