(* ===== verification/Xv6_Sh.thy ===== *)
theory Xv6_Sh
  imports Xv6_Grep
begin

text \<open>
  The shell, \<^verbatim>\<open>user/sh.c\<close>: the tokenizer, the recursive-descent parser, \<^verbatim>\<open>nulterminate()\<close>, and
  \<^verbatim>\<open>runcmd()\<close> and \<^verbatim>\<open>main()\<close> over the system calls. The command line is a list of characters without
  NUL, \<^verbatim>\<open>es\<close> is its length, and pointers into it are positions; reading at \<^verbatim>\<open>es\<close> gives the terminating
  NUL. Parser results are \<open>Inl msg\<close> for a call of \<^verbatim>\<open>panic(msg)\<close>; \<open>None\<close> is the recursion having run out
  of its fuel.
\<close>

section \<open>Commands\<close>

type_synonym word_pos = "nat \<times> nat"

datatype cmd =
    Exec "word_pos list"
  | Redir cmd word_pos int int
  | Pipe cmd cmd
  | Lst cmd cmd
  | Backgr cmd

definition MAXARGS :: nat where "MAXARGS = 10"

definition execcmd :: "word_pos list \<Rightarrow> cmd" where
  "execcmd argv = Exec argv"

definition redircmd :: "cmd \<Rightarrow> nat \<Rightarrow> nat \<Rightarrow> int \<Rightarrow> int \<Rightarrow> cmd" where
  "redircmd subcmd file efile mode fd = Redir subcmd (file, efile) mode fd"

definition pipecmd :: "cmd \<Rightarrow> cmd \<Rightarrow> cmd" where
  "pipecmd left right = Pipe left right"

definition listcmd :: "cmd \<Rightarrow> cmd \<Rightarrow> cmd" where
  "listcmd left right = Lst left right"

definition backcmd :: "cmd \<Rightarrow> cmd" where
  "backcmd subcmd = Backgr subcmd"

lemmas cmd_defs = execcmd_def redircmd_def pipecmd_def listcmd_def backcmd_def

section \<open>Tokens\<close>

abbreviation NUL :: char where "NUL \<equiv> CHR 0x00"

definition whitespace :: string where
  "whitespace = [CHR 0x20, CHR 0x09, CHR 0x0D, CHR 0x0A, CHR 0x0B]"

definition symbols :: string where
  "symbols = ''<|>&;()''"

definition strat :: "string \<Rightarrow> nat \<Rightarrow> char" where
  "strat s i = (if i < length s then s ! i else NUL)"

function skip_ws :: "string \<Rightarrow> nat \<Rightarrow> nat" where
  "skip_ws s i = (if i < length s \<and> u_strchr whitespace (strat s i) \<noteq> None then skip_ws s (Suc i) else i)"
  by pat_completeness auto
termination by (relation "measure (\<lambda>(s, i). length s - i)") auto

function skip_word :: "string \<Rightarrow> nat \<Rightarrow> nat" where
  "skip_word s i =
     (if i < length s \<and> u_strchr whitespace (strat s i) = None \<and> u_strchr symbols (strat s i) = None
      then skip_word s (Suc i) else i)"
  by pat_completeness auto
termination by (relation "measure (\<lambda>(s, i). length s - i)") auto

declare skip_ws.simps [simp del] skip_word.simps [simp del]

text \<open>The result: the token, its start and end, and the new position.\<close>

definition gettoken :: "string \<Rightarrow> nat \<Rightarrow> char \<times> nat \<times> nat \<times> nat" where
  "gettoken s i =
     (let q = skip_ws s i; c = strat s q;
          (tok, e) =
            (if c = NUL then (c, q)
             else if c \<in> set ''|();&<'' then (c, Suc q)
             else if c = CHR ''>'' then (if strat s (Suc q) = CHR ''>'' then (CHR ''+'', Suc (Suc q)) else (c, Suc q))
             else (CHR ''a'', skip_word s q))
      in (tok, q, e, skip_ws s e))"

definition peek :: "string \<Rightarrow> nat \<Rightarrow> string \<Rightarrow> bool \<times> nat" where
  "peek s i toks =
     (let j = skip_ws s i in (strat s j \<noteq> NUL \<and> u_strchr toks (strat s j) \<noteq> None, j))"

lemma skip_ws_ge: "i \<le> skip_ws s i"
  by (induction s i rule: skip_ws.induct) (subst skip_ws.simps, auto)

lemma skip_ws_le: "i \<le> length s \<Longrightarrow> skip_ws s i \<le> length s"
  by (induction s i rule: skip_ws.induct) (subst skip_ws.simps, auto)

lemma skip_word_ge: "i \<le> skip_word s i"
  by (induction s i rule: skip_word.induct) (subst skip_word.simps, auto)

lemma skip_word_le: "i \<le> length s \<Longrightarrow> skip_word s i \<le> length s"
  by (induction s i rule: skip_word.induct) (subst skip_word.simps, auto)

lemma strat_nz: "strat s i \<noteq> NUL \<Longrightarrow> i < length s"
  by (auto simp: strat_def split: if_splits)

lemma gettoken_adv: "gettoken s i = (tok, q, e, j) \<Longrightarrow> i \<le> q \<and> q \<le> e \<and> e \<le> j"
  using skip_ws_ge [of i s] skip_ws_ge [of e s] skip_word_ge [of "skip_ws s i" s]
  by (auto simp: gettoken_def Let_def split: if_splits)

lemma skip_ws_char: "skip_ws s i < length s \<Longrightarrow> strat s (skip_ws s i) \<notin> set whitespace"
  by (induction s i rule: skip_ws.induct) (subst (asm) skip_ws.simps, subst skip_ws.simps, auto simp: u_strchr_None split: if_splits)

lemma gettoken_progress: "gettoken s i = (tok, q, e, j) \<Longrightarrow> tok \<noteq> NUL \<Longrightarrow> q < e \<and> q < length s"
proof -
  assume a: "gettoken s i = (tok, q, e, j)" "tok \<noteq> NUL"
  have q: "q = skip_ws s i" using a(1) by (simp add: gettoken_def Let_def split: prod.splits if_splits)
  then have nz: "strat s q \<noteq> NUL" using a by (auto simp: gettoken_def Let_def split: prod.splits if_splits)
  then have len: "q < length s" by (rule strat_nz)
  then have "strat s q \<notin> set whitespace" using skip_ws_char q by simp
  moreover have "q < skip_word s q" if "strat s q \<notin> set symbols"
    using that len calculation skip_word_ge [of "Suc q" s] by (subst skip_word.simps) (simp add: u_strchr_None)
  ultimately show ?thesis using a nz q len
    by (auto simp: gettoken_def Let_def symbols_def split: prod.splits if_splits)
qed


lemma peek_pos: "peek s i toks = (b, j) \<Longrightarrow> i \<le> j \<and> (b \<longrightarrow> j < length s)"
  using skip_ws_ge [of i s] by (auto simp: peek_def Let_def dest: strat_nz)

lemma gettoken_stop: "gettoken s i = (tok, q, e, j) \<Longrightarrow> strat s i \<noteq> NUL \<Longrightarrow> strat s i \<notin> set whitespace \<Longrightarrow> i < j"
proof -
  assume a: "gettoken s i = (tok, q, e, j)" "strat s i \<noteq> NUL" "strat s i \<notin> set whitespace"
  have q: "skip_ws s i = i" using a(3) by (subst skip_ws.simps) (simp add: u_strchr_None)
  then have "tok \<noteq> NUL" using a(1,2) by (auto simp: gettoken_def Let_def split: prod.splits if_splits)
  then show ?thesis using gettoken_progress [OF a(1)] gettoken_adv [OF a(1)] by linarith
qed

lemma peek_at: "peek s i toks = (True, j) \<Longrightarrow> strat s j \<noteq> NUL \<and> strat s j \<notin> set whitespace"
  using skip_ws_char [of s i] by (auto simp: peek_def Let_def dest: strat_nz)

lemma loop_step:
  assumes "(True, i1) = peek s i toks" and "(t, q, e, i2) = gettoken s i1"
  shows "length s - i2 < length s - i"
proof -
  have "i1 < length s" "i \<le> i1" "i1 < i2"
    using peek_pos [OF assms(1) [symmetric]] peek_at [OF assms(1) [symmetric]] gettoken_stop [OF assms(2) [symmetric]] by simp_all
  then show ?thesis by simp
qed

lemma gettoken_le: "(t, q, e, j) = gettoken s i \<Longrightarrow> length s - j \<le> length s - i"
  using gettoken_adv [of s i t q e j] by auto

lemma redir_step:
  "(True, i1) = peek s i toks \<Longrightarrow> (t, q, e, i2) = gettoken s i1 \<Longrightarrow> (t', q', e', i3) = gettoken s i2 \<Longrightarrow>
    length s - i3 < length s - i"
  using loop_step [of i1 s i toks t q e i2] gettoken_le [of t' q' e' i3 s i2] by linarith

section \<open>The parser\<close>

text \<open>
  A redirection is the file name's position, the mode and the descriptor. \<^verbatim>\<open>parseredirs()\<close> wraps the
  command once per redirection; \<^verbatim>\<open>parseexec()\<close> goes on filling the \<^verbatim>\<open>execcmd\<close> inside, so the
  redirections are collected here and wrapped at the end.
\<close>

type_synonym redir = "nat \<times> nat \<times> int \<times> int"

definition wrap :: "redir list \<Rightarrow> cmd \<Rightarrow> cmd" where
  "wrap rs c = foldl (\<lambda>c (q, e, mode, fd). redircmd c q e mode fd) c rs"

definition O_RDONLY :: int where "O_RDONLY = 0x000"
definition O_WRONLY_CREATE :: int where "O_WRONLY_CREATE = 0x201"

function parseredirs :: "string \<Rightarrow> nat \<Rightarrow> redir list \<Rightarrow> string + nat \<times> redir list" where
  "parseredirs s i rs =
     (case peek s i ''<>'' of (b, i1) \<Rightarrow>
      if \<not> b then Inr (i1, rs)
      else case gettoken s i1 of (tok, _, _, i2) \<Rightarrow>
        case gettoken s i2 of (tok2, q, eq, i3) \<Rightarrow>
          if tok2 \<noteq> CHR ''a'' then Inl ''missing file for redirection''
          else parseredirs s i3
            (rs @ [if tok = CHR ''<'' then (q, eq, O_RDONLY, 0) else (q, eq, O_WRONLY_CREATE, 1)]))"
  by pat_completeness auto
termination
  by (relation "measure (\<lambda>(s, i, rs). length s - i)")
     (auto dest: redir_step)

declare parseredirs.simps [simp del]

text \<open>The loop of \<^verbatim>\<open>parseexec()\<close> over the arguments.\<close>

function parseargs :: "string \<Rightarrow> nat \<Rightarrow> word_pos list \<Rightarrow> redir list \<Rightarrow> string + nat \<times> word_pos list \<times> redir list" where
  "parseargs s i args rs =
     (case peek s i ''|)&;'' of (b, i1) \<Rightarrow>
      if b then Inr (i1, args, rs)
      else case gettoken s i1 of (tok, q, eq, i2) \<Rightarrow>
        if tok = NUL then Inr (i2, args, rs)
        else if tok \<noteq> CHR ''a'' then Inl ''syntax''
        else if Suc (length args) \<ge> MAXARGS then Inl ''too many args''
        else case parseredirs s i2 rs of
          Inl msg \<Rightarrow> Inl msg
        | Inr (i3, rs') \<Rightarrow> parseargs s i3 (args @ [(q, eq)]) rs')"
  by pat_completeness auto
termination
  by (relation "measure (\<lambda>(s, i, args, rs). 10 - length args)") (auto simp: MAXARGS_def)

declare parseargs.simps [simp del]

text \<open>The loop of \<^verbatim>\<open>parseline()\<close> over the ampersands.\<close>

function parseback :: "string \<Rightarrow> nat \<Rightarrow> cmd \<Rightarrow> nat \<times> cmd" where
  "parseback s i c =
     (case peek s i ''&'' of (b, i1) \<Rightarrow>
      if b then (case gettoken s i1 of (_, _, _, i2) \<Rightarrow> parseback s i2 (backcmd c))
      else (i1, c))"
  by pat_completeness auto
termination
  by (relation "measure (\<lambda>(s, i, c). length s - i)") (auto dest: loop_step)

declare parseback.simps [simp del]

type_synonym parsed = "(string + nat \<times> cmd) option"

definition pbind :: "parsed \<Rightarrow> (nat \<Rightarrow> cmd \<Rightarrow> parsed) \<Rightarrow> parsed" where
  "pbind r f = (case r of
       None \<Rightarrow> None
     | Some (Inl msg) \<Rightarrow> Some (Inl msg)
     | Some (Inr (i, c)) \<Rightarrow> f i c)"

definition token_end :: "string \<Rightarrow> nat \<Rightarrow> nat" where
  "token_end s i = (case gettoken s i of (_, _, _, j) \<Rightarrow> j)"

fun parseline :: "nat \<Rightarrow> string \<Rightarrow> nat \<Rightarrow> parsed" and parsepipe :: "nat \<Rightarrow> string \<Rightarrow> nat \<Rightarrow> parsed"
  and parseblock :: "nat \<Rightarrow> string \<Rightarrow> nat \<Rightarrow> parsed" and parseexec :: "nat \<Rightarrow> string \<Rightarrow> nat \<Rightarrow> parsed" where
  "parseline 0 s i = None"
| "parseline (Suc n) s i =
     pbind (parsepipe n s i) (\<lambda>i1 c.
       let (i2, c2) = parseback s i1 c; (b, i3) = peek s i2 '';''
       in if b then pbind (parseline n s (token_end s i3)) (\<lambda>i5 c3. Some (Inr (i5, listcmd c2 c3)))
          else Some (Inr (i3, c2)))"
| "parsepipe 0 s i = None"
| "parsepipe (Suc n) s i =
     pbind (parseexec n s i) (\<lambda>i1 c.
       let (b, i2) = peek s i1 ''|''
       in if b then pbind (parsepipe n s (token_end s i2)) (\<lambda>i4 c2. Some (Inr (i4, pipecmd c c2)))
          else Some (Inr (i2, c)))"
| "parseblock 0 s i = None"
| "parseblock (Suc n) s i =
     (let (b, i1) = peek s i ''(''
      in if \<not> b then Some (Inl ''parseblock'')
         else pbind (parseline n s (token_end s i1)) (\<lambda>i3 c.
           let (b2, i4) = peek s i3 '')''
           in if \<not> b2 then Some (Inl ''syntax - missing )'')
              else case parseredirs s (token_end s i4) [] of
                Inl msg \<Rightarrow> Some (Inl msg)
              | Inr (i6, rs) \<Rightarrow> Some (Inr (i6, wrap rs c))))"
| "parseexec 0 s i = None"
| "parseexec (Suc n) s i =
     (let (b, i1) = peek s i ''(''
      in if b then parseblock n s i1
         else case parseredirs s i1 [] of
           Inl msg \<Rightarrow> Some (Inl msg)
         | Inr (i2, rs) \<Rightarrow>
             (case parseargs s i2 [] rs of
                Inl msg \<Rightarrow> Some (Inl msg)
              | Inr (i3, args, rs') \<Rightarrow> Some (Inr (i3, wrap rs' (execcmd args)))))"

text \<open>
  Every call of the four functions but those that start a block or follow an operator descends to
  the next of them at the same position, and these consume a character: four calls per character,
  and four more, are enough.
\<close>

definition parse_fuel :: "string \<Rightarrow> nat" where
  "parse_fuel s = 4 * length s + 4"

primrec nulterminate :: "cmd \<Rightarrow> string \<Rightarrow> string" where
  "nulterminate (Exec argv) s = fold (\<lambda>(q, e) s. s[e := NUL]) argv s"
| "nulterminate (Redir c f mode fd) s = (nulterminate c s)[snd f := NUL]"
| "nulterminate (Pipe l r) s = nulterminate r (nulterminate l s)"
| "nulterminate (Lst l r) s = nulterminate r (nulterminate l s)"
| "nulterminate (Backgr c) s = nulterminate c s"

text \<open>The parsed command and the buffer with its words terminated.\<close>

definition parsecmd :: "string \<Rightarrow> (string + cmd \<times> string) option" where
  "parsecmd s =
     (case parseline (parse_fuel s) s 0 of
        Some (Inr (i, c)) \<Rightarrow>
          (case peek s i [] of (_, j) \<Rightarrow>
           if j \<noteq> length s then Some (Inl ''syntax'') else Some (Inr (c, nulterminate c s)))
      | Some (Inl msg) \<Rightarrow> Some (Inl msg)
      | None \<Rightarrow> None)"


section \<open>Running commands\<close>

definition sh_panic :: "'os sys \<Rightarrow> string \<Rightarrow> ('os, 'a) uM" where
  "sh_panic sys msg = useq (u_fprintf sys 2 ''%s\<newline>'' [VStr (Some msg)]) (uexit 1)"

definition fork1 :: "'os sys \<Rightarrow> ('os, int) uM" where
  "fork1 sys =
     ubind (usys (os_fork sys)) (\<lambda>pid.
     if pid = -1 then sh_panic sys ''fork'' else uret pid)"

definition word_at :: "string \<Rightarrow> word_pos \<Rightarrow> string" where
  "word_at buf w = cstr (drop (fst w) buf)"

definition uclose :: "'os sys \<Rightarrow> int \<Rightarrow> ('os, unit) uM" where
  "uclose sys fd = useq (usys (os_close sys fd)) (uret ())"

text \<open>
  Both sides of a \<^verbatim>\<open>fork()\<close> run this code; the one described is the process in which \<^verbatim>\<open>fork()\<close> returned
  what \<open>os_fork\<close> says. \<^verbatim>\<open>runcmd()\<close> never returns.
\<close>

primrec runcmd :: "'os sys \<Rightarrow> string \<Rightarrow> cmd \<Rightarrow> ('os, unit) uM" where
  "runcmd sys buf (Exec argv) =
     (if argv = [] then uexit 1
      else ubind (usys (os_exec sys (word_at buf (hd argv)) (map (word_at buf) argv))) (\<lambda>r. case r of
        None \<Rightarrow> ureplaced
      | Some _ \<Rightarrow> useq (u_fprintf sys 2 ''exec %s failed\<newline>'' [VStr (Some (word_at buf (hd argv)))]) (uexit 0)))"
| "runcmd sys buf (Redir c f mode fd) =
     useq (uclose sys fd)
    (ubind (usys (os_open sys (word_at buf f) mode)) (\<lambda>r.
     if r < 0 then useq (u_fprintf sys 2 ''open %s failed\<newline>'' [VStr (Some (word_at buf f))]) (uexit 1)
     else runcmd sys buf c))"
| "runcmd sys buf (Lst l r) =
     ubind (fork1 sys) (\<lambda>pid.
     if pid = 0 then runcmd sys buf l
     else useq (usys (os_wait sys)) (runcmd sys buf r))"
| "runcmd sys buf (Pipe l r) =
     ubind (usys (os_pipe sys)) (\<lambda>(res, p0, p1).
     if res < 0 then sh_panic sys ''pipe''
     else ubind (fork1 sys) (\<lambda>pid.
       if pid = 0 then
         useq (uclose sys 1) (useq (usys (os_dup sys p1)) (useq (uclose sys p0) (useq (uclose sys p1) (runcmd sys buf l))))
       else ubind (fork1 sys) (\<lambda>pid2.
         if pid2 = 0 then
           useq (uclose sys 0) (useq (usys (os_dup sys p0)) (useq (uclose sys p0) (useq (uclose sys p1) (runcmd sys buf r))))
         else
           useq (uclose sys p0) (useq (uclose sys p1) (useq (usys (os_wait sys)) (useq (usys (os_wait sys)) (uexit 0)))))))"
| "runcmd sys buf (Backgr c) =
     ubind (fork1 sys) (\<lambda>pid. if pid = 0 then runcmd sys buf c else uexit 0)"

text \<open>\<open>None\<close> is the result -1 of \<^verbatim>\<open>getcmd()\<close> at the end of the input.\<close>

definition getcmd :: "'os sys \<Rightarrow> int \<Rightarrow> ('os, string option) uM" where
  "getcmd sys nbuf =
     useq (u_fprintf sys 2 ''$ '' [])
    (ubind (u_gets sys nbuf) (\<lambda>buf. uret (if cstr buf = [] then None else Some (cstr buf))))"

partial_function (option) open_console :: "'os sys \<Rightarrow> 'os \<Rightarrow> ((uend + unit) \<times> 'os) option" where
  "open_console sys s =
     ubind (usys (os_open sys ''console'' 2)) (\<lambda>fd.
     if fd < 0 then uret ()
     else if fd \<ge> 3 then uclose sys fd
     else open_console sys) s"

definition run_line :: "'os sys \<Rightarrow> string \<Rightarrow> ('os, unit) uM" where
  "run_line sys buf =
     ubind (fork1 sys) (\<lambda>pid.
     if pid = 0 then
       (case parsecmd buf of
          None \<Rightarrow> uundef
        | Some (Inl msg) \<Rightarrow> sh_panic sys msg
        | Some (Inr (c, buf')) \<Rightarrow> runcmd sys buf' c)
     else useq (usys (os_wait sys)) (uret ()))"

definition sh_cd :: "'os sys \<Rightarrow> string \<Rightarrow> ('os, unit) uM" where
  "sh_cd sys dir =
     ubind (usys (os_chdir sys dir)) (\<lambda>e.
     uwhen (e < 0) (u_fprintf sys 2 ''cannot cd %s\<newline>'' [VStr (Some dir)]))"

definition sh_line :: "'os sys \<Rightarrow> string \<Rightarrow> ('os, unit) uM" where
  "sh_line sys buf =
     (if take 3 buf = ''cd '' then sh_cd sys (drop 3 (take (length buf - 1) buf)) else run_line sys buf)"

partial_function (option) sh_loop :: "'os sys \<Rightarrow> 'os \<Rightarrow> ((uend + unit) \<times> 'os) option" where
  "sh_loop sys s =
     ubind (getcmd sys 100) (\<lambda>r.
     if r = None then uexit 0
     else useq (sh_line sys (the r)) (sh_loop sys)) s"

definition sh_main :: "'os sys \<Rightarrow> ('os, unit) uM" where
  "sh_main sys = useq (open_console sys) (sh_loop sys)"

end
