(* ===== verification/Xv6_Sh_Proofs.thy ===== *)
theory Xv6_Sh_Proofs
  imports Xv6_Sh
begin

text \<open>
  The shell's parser reads what the grammar generates: a syntax tree, printed, parses to the command
  it denotes. And \<^verbatim>\<open>runcmd()\<close> never comes back to its caller.
\<close>

section \<open>Syntax trees\<close>

text \<open>
  One constructor per production of the recursive-descent parser. A line is a pipeline, a number of
  ampersands and, after a semicolon, perhaps another line.
\<close>

datatype rkind = RIn | ROut | RApp

datatype sline = Line spipe nat | Seqn spipe nat sline
  and spipe = Single sexec | Piped sexec spipe
  and sexec = Simple "string list" "(rkind \<times> string) list" | Block sline "(rkind \<times> string) list"

primrec rkind_text :: "rkind \<Rightarrow> string" where
  "rkind_text RIn = ''<''"
| "rkind_text ROut = ''>''"
| "rkind_text RApp = ''>>''"

definition words_text :: "string list \<Rightarrow> string" where
  "words_text ws = concat (map (\<lambda>w. w @ '' '') ws)"

definition redirs_text :: "(rkind \<times> string) list \<Rightarrow> string" where
  "redirs_text rs = concat (map (\<lambda>(k, f). rkind_text k @ f @ '' '') rs)"

primrec line_text :: "sline \<Rightarrow> string" and pipe_text :: "spipe \<Rightarrow> string" and exec_text :: "sexec \<Rightarrow> string" where
  "line_text (Line p n) = pipe_text p @ replicate n CHR ''&''"
| "line_text (Seqn p n l) = pipe_text p @ replicate n CHR ''&'' @ '';'' @ line_text l"
| "pipe_text (Single e) = exec_text e"
| "pipe_text (Piped e p) = exec_text e @ ''|'' @ pipe_text p"
| "exec_text (Simple ws rs) = words_text ws @ redirs_text rs"
| "exec_text (Block l rs) = ''('' @ line_text l @ '')'' @ redirs_text rs"

text \<open>The commands, with their words as text.\<close>

datatype acmd = AExec "string list" | ARedir acmd string int int | APipe acmd acmd | ALst acmd acmd | ABack acmd

definition awrap :: "(rkind \<times> string) list \<Rightarrow> acmd \<Rightarrow> acmd" where
  "awrap rs c = foldl (\<lambda>c (k, f). if k = RIn then ARedir c f O_RDONLY 0 else ARedir c f O_WRONLY_CREATE 1) c rs"

primrec line_cmd :: "sline \<Rightarrow> acmd" and pipe_cmd :: "spipe \<Rightarrow> acmd" and exec_cmd :: "sexec \<Rightarrow> acmd" where
  "line_cmd (Line p n) = (ABack ^^ n) (pipe_cmd p)"
| "line_cmd (Seqn p n l) = ALst ((ABack ^^ n) (pipe_cmd p)) (line_cmd l)"
| "pipe_cmd (Single e) = exec_cmd e"
| "pipe_cmd (Piped e p) = APipe (exec_cmd e) (pipe_cmd p)"
| "exec_cmd (Simple ws rs) = awrap rs (AExec ws)"
| "exec_cmd (Block l rs) = awrap rs (line_cmd l)"

primrec resolve :: "(word_pos \<Rightarrow> string) \<Rightarrow> cmd \<Rightarrow> acmd" where
  "resolve g (Exec argv) = AExec (map g argv)"
| "resolve g (Redir c f mode fd) = ARedir (resolve g c) (g f) mode fd"
| "resolve g (Pipe l r) = APipe (resolve g l) (resolve g r)"
| "resolve g (Lst l r) = ALst (resolve g l) (resolve g r)"
| "resolve g (Backgr c) = ABack (resolve g c)"

text \<open>Words are not empty and contain neither whitespace nor symbols; a command has less than ten.\<close>

definition delim :: "char \<Rightarrow> bool" where
  "delim c \<longleftrightarrow> c \<in> set whitespace \<or> c \<in> set symbols \<or> c = NUL"

definition word_ok :: "string \<Rightarrow> bool" where
  "word_ok w \<longleftrightarrow> w \<noteq> [] \<and> (\<forall>c\<in>set w. \<not> delim c)"

primrec sline_ok :: "sline \<Rightarrow> bool" and spipe_ok :: "spipe \<Rightarrow> bool" and sexec_ok :: "sexec \<Rightarrow> bool" where
  "sline_ok (Line p n) = spipe_ok p"
| "sline_ok (Seqn p n l) = (spipe_ok p \<and> sline_ok l)"
| "spipe_ok (Single e) = sexec_ok e"
| "spipe_ok (Piped e p) = (sexec_ok e \<and> spipe_ok p)"
| "sexec_ok (Simple ws rs) = (list_all word_ok ws \<and> list_all (\<lambda>(k, f). word_ok f) rs \<and> length ws < 10)"
| "sexec_ok (Block l rs) = (sline_ok l \<and> list_all (\<lambda>(k, f). word_ok f) rs)"

section \<open>Tokens of a printed text\<close>

text \<open>A text with no whitespace in front.\<close>

definition tight :: "string \<Rightarrow> bool" where
  "tight r \<longleftrightarrow> r = [] \<or> hd r \<notin> set whitespace \<and> hd r \<noteq> NUL"

lemma strat_drop: "drop i s = r \<Longrightarrow> strat s i = (if r = [] then NUL else hd r)"
  by (auto simp: strat_def hd_drop_conv_nth)

lemma drop_len: "drop i s = r \<Longrightarrow> r \<noteq> [] \<Longrightarrow> i < length s"
  by (metis drop_all not_le)

lemma drop_more: "drop i s = a @ r \<Longrightarrow> drop (i + length a) s = r"
  by (metis add.commute append_eq_conv_conj drop_drop)

lemma skip_ws_tight: "drop i s = r \<Longrightarrow> tight r \<Longrightarrow> skip_ws s i = i"
  by (subst skip_ws.simps) (auto simp: strat_drop tight_def u_strchr_None drop_len)

lemma skip_ws_space: "drop i s = CHR '' '' # r \<Longrightarrow> tight r \<Longrightarrow> skip_ws s i = Suc i"
  using drop_more [of i s "'' ''" r] skip_ws_tight [of "Suc i" s r] drop_len [of i s "CHR '' '' # r"]
  by (subst skip_ws.simps) (simp add: strat_drop u_strchr_None whitespace_def)

lemma skip_word_run:
  "drop i s = w @ CHR '' '' # r \<Longrightarrow> \<forall>c\<in>set w. \<not> delim c \<Longrightarrow> skip_word s i = i + length w"
proof (induction w arbitrary: i)
  case Nil
  then show ?case by (subst skip_word.simps) (simp add: strat_drop u_strchr_None whitespace_def)
next
  case (Cons c w)
  have "drop (Suc i) s = w @ CHR '' '' # r" using drop_more [of i s "[c]" "w @ CHR '' '' # r"] Cons.prems(1) by simp
  then have "skip_word s (Suc i) = Suc i + length w" using Cons by simp
  then show ?case using Cons.prems drop_len [OF Cons.prems(1)]
    by (subst skip_word.simps) (simp add: strat_drop u_strchr_None delim_def)
qed

lemma word_head: "word_ok w \<Longrightarrow> w \<noteq> [] \<and> \<not> delim (hd w)"
  by (simp add: word_ok_def)

lemma tight_word: "word_ok w \<Longrightarrow> tight (w @ r)"
  using word_head [of w] by (simp add: tight_def delim_def hd_append)

lemma token_word:
  assumes "drop i s = w @ CHR '' '' # r" and "word_ok w" and "tight r"
  shows "gettoken s i = (CHR ''a'', i, i + length w, Suc (i + length w))"
proof -
  have "skip_ws s i = i" using skip_ws_tight [OF assms(1)] tight_word [OF assms(2)] by simp
  moreover have "strat s i = hd w" using assms(1) word_head [OF assms(2)] by (simp add: strat_drop)
  moreover have "skip_word s i = i + length w" using assms(1,2) by (intro skip_word_run) (simp_all add: word_ok_def)
  moreover have "skip_ws s (i + length w) = Suc (i + length w)"
    using drop_more [OF assms(1)] assms(3) by (rule skip_ws_space)
  ultimately show ?thesis using word_head [OF assms(2)] by (auto simp: gettoken_def Let_def delim_def symbols_def)
qed

lemma token_symbol:
  assumes "drop i s = c # r" and "c \<in> set ''|();&<''" and "tight r"
  shows "gettoken s i = (c, i, Suc i, Suc i)"
proof -
  have "skip_ws s i = i" using assms(1,2) by (intro skip_ws_tight [OF assms(1)]) (auto simp: tight_def whitespace_def)
  moreover have "skip_ws s (Suc i) = Suc i" using drop_more [of i s "[c]" r] assms(1,3) by (intro skip_ws_tight) auto
  ultimately show ?thesis using assms(1,2) by (auto simp: gettoken_def Let_def strat_drop)
qed

lemma peek_tight: "drop i s = r \<Longrightarrow> tight r \<Longrightarrow> peek s i toks = (r \<noteq> [] \<and> hd r \<in> set toks, i)"
  by (auto simp: peek_def Let_def skip_ws_tight strat_drop u_strchr_None tight_def)


lemma token_redir:
  assumes "drop i s = rkind_text k @ w @ r" and "word_ok w"
  shows "gettoken s i = (if k = RIn then CHR ''<'' else if k = ROut then CHR ''>'' else CHR ''+'', i,
    i + length (rkind_text k), i + length (rkind_text k))"
proof -
  have "tight (w @ r)" using assms(2) by (rule tight_word)
  then have e: "skip_ws s (i + length (rkind_text k)) = i + length (rkind_text k)"
    using drop_more [OF assms(1)] by (intro skip_ws_tight) auto
  have h: "w \<noteq> []" "hd w \<noteq> CHR ''>''" using word_head [OF assms(2)] by (auto simp: delim_def symbols_def)
  have q: "skip_ws s i = i"
    using skip_ws_tight [OF assms(1)] by (cases k) (simp_all add: tight_def whitespace_def)
  have n: "strat s (Suc i) = (if k = RApp then CHR ''>'' else hd w)"
  proof (cases k)
    case RApp
    then show ?thesis using strat_drop [of "Suc i" s "''>'' @ w @ r"] drop_more [of i s "''>''" "''>'' @ w @ r"] assms(1) by simp
  qed (use strat_drop [of "Suc i" s "w @ r"] drop_more [OF assms(1)] h in simp_all)
  show ?thesis using e q n h strat_drop [OF assms(1)] by (cases k) (simp_all add: gettoken_def Let_def)
qed

lemma tight_redirs: "tight r \<Longrightarrow> tight (redirs_text rs @ r)"
proof (cases rs)
  case (Cons a rs')
  obtain k f where "a = (k, f)" by (cases a)
  then show ?thesis using Cons by (cases k) (simp_all add: redirs_text_def tight_def whitespace_def)
qed (simp add: redirs_text_def)

definition wslice :: "string \<Rightarrow> word_pos \<Rightarrow> string" where
  "wslice s w = take (snd w - fst w) (drop (fst w) s)"

text \<open>A position that a token was read at, with the delimiter behind it.\<close>

definition token_at :: "string \<Rightarrow> word_pos \<Rightarrow> bool" where
  "token_at s w \<longleftrightarrow> (\<exists>r. drop (fst w) s = wslice s w @ CHR '' '' # r) \<and> word_ok (wslice s w) \<and> fst w + length (wslice s w) = snd w"

lemma token_atI: "drop i s = w @ CHR '' '' # r \<Longrightarrow> word_ok w \<Longrightarrow> wslice s (i, i + length w) = w \<and> token_at s (i, i + length w)"
  by (simp add: wslice_def token_at_def)

text \<open>Parsed redirections stand for the printed ones.\<close>

definition redirs_rep :: "string \<Rightarrow> redir list \<Rightarrow> (rkind \<times> string) list \<Rightarrow> bool" where
  "redirs_rep s = list_all2 (\<lambda>(q, e, mode, fd) (k, f). wslice s (q, e) = f \<and> token_at s (q, e) \<and>
     mode = (if k = RIn then O_RDONLY else O_WRONLY_CREATE) \<and> fd = (if k = RIn then 0 else 1))"

lemma parseredirs_run:
  assumes "drop i s = redirs_text rs @ r" and "list_all (\<lambda>(k, f). word_ok f) rs" and "tight r"
    and "r = [] \<or> hd r \<notin> set ''<>''"
  shows "\<exists>ps. parseredirs s i acc = Inr (i + length (redirs_text rs), acc @ ps) \<and> redirs_rep s ps rs"
  using assms
proof (induction rs arbitrary: i acc)
  case Nil
  then have "peek s i ''<>'' = (False, i)" by (subst peek_tight [of i s r]) (auto simp: redirs_text_def)
  then show ?case by (subst parseredirs.simps) (simp add: redirs_rep_def redirs_text_def)
next
  case (Cons a rs)
  obtain k f where a: "a = (k, f)" by (cases a)
  let ?t = "redirs_text rs @ r"
  have t: "tight ?t" and f: "word_ok f" using Cons.prems a tight_redirs by simp_all
  have d: "drop i s = rkind_text k @ f @ CHR '' '' # ?t" using Cons.prems(1) a by (simp add: redirs_text_def)
  have p: "peek s i ''<>'' = (True, i)" using d by (subst peek_tight [OF d]) (cases k; simp add: tight_def whitespace_def)+
  let ?i = "i + length (rkind_text k)"
  note g = token_redir [OF d f]
  have d2: "drop ?i s = f @ CHR '' '' # ?t" using drop_more [OF d] .
  note w = token_word [OF d2 f t] and ta = token_atI [OF d2 f]
  have d3: "drop (Suc (?i + length f)) s = ?t" using drop_more [of ?i s "f @ '' ''" ?t] d2 by simp
  obtain ps where "parseredirs s (Suc (?i + length f)) (acc @ [(?i, ?i + length f, if k = RIn then O_RDONLY else O_WRONLY_CREATE, if k = RIn then 0 else 1)]) =
      Inr (Suc (?i + length f) + length (redirs_text rs), (acc @ [(?i, ?i + length f, if k = RIn then O_RDONLY else O_WRONLY_CREATE, if k = RIn then 0 else 1)]) @ ps)"
      "redirs_rep s ps rs"
    using Cons.IH [OF d3] Cons.prems(2-4) a by fastforce
  then show ?case using p g w ta a
    by (subst parseredirs.simps) (cases k; simp add: redirs_rep_def redirs_text_def)
qed


lemma tight_words: "list_all word_ok ws \<Longrightarrow> tight r \<Longrightarrow> tight (words_text ws @ r)"
  by (cases ws) (simp_all add: words_text_def tight_word)

lemma words_head: "list_all word_ok (w # ws) \<Longrightarrow> words_text (w # ws) \<noteq> [] \<and> \<not> delim (hd (words_text (w # ws)))"
  using word_head [of w] by (simp add: words_text_def hd_append)

lemma gettoken_end: "drop i s = [] \<Longrightarrow> gettoken s i = (NUL, i, i, i)"
  by (simp add: gettoken_def Let_def skip_ws_tight [of i s "[]"] tight_def strat_drop)

lemma parseargs_run:
  assumes "drop i s = words_text ws @ redirs_text rs @ r" and "list_all word_ok ws" and "list_all (\<lambda>(k, f). word_ok f) rs"
    and "tight r" and "r = [] \<or> hd r \<in> set ''|)&;''" and "length args + length ws < 10" and "ws = [] \<Longrightarrow> rs = []"
  shows "\<exists>as ps. parseargs s i args acc = Inr (i + length (words_text ws @ redirs_text rs), args @ as, acc @ ps) \<and>
    map (wslice s) as = ws \<and> list_all (token_at s) as \<and> redirs_rep s ps rs"
  using assms
proof (induction ws arbitrary: i args acc rs)
  case Nil
  then have d: "drop i s = r" and "rs = []" by (simp_all add: words_text_def redirs_text_def)
  then show ?case
  proof (cases "r = []")
    case True
    then have "peek s i ''|)&;'' = (False, i)" "gettoken s i = (NUL, i, i, i)"
      using peek_tight [OF d] gettoken_end d Nil.prems(4) by simp_all
    then show ?thesis using \<open>rs = []\<close>
      by (subst parseargs.simps) (simp add: redirs_rep_def redirs_text_def words_text_def)
  next
    case False
    then have "peek s i ''|)&;'' = (True, i)" using peek_tight [OF d] Nil.prems(4,5) by auto
    then show ?thesis using \<open>rs = []\<close>
      by (subst parseargs.simps) (simp add: redirs_rep_def redirs_text_def words_text_def)
  qed
next
  case (Cons w ws)
  let ?t = "words_text ws @ redirs_text rs @ r"
  have w: "word_ok w" and t: "tight ?t" using Cons.prems tight_words tight_redirs by simp_all
  have d: "drop i s = w @ CHR '' '' # ?t" using Cons.prems(1) by (simp add: words_text_def)
  have p: "peek s i ''|)&;'' = (False, i)"
    using peek_tight [OF d tight_word [OF w]] word_head [OF w] by (auto simp: delim_def symbols_def)
  note g = token_word [OF d w t] and ta = token_atI [OF d w]
  let ?j = "Suc (i + length w)"
  have d2: "drop ?j s = ?t" using drop_more [of i s "w @ '' ''" ?t] d by simp
  define rs1 where "rs1 = (if ws = [] then rs else [])"
  define rs2 where "rs2 = (if ws = [] then [] else rs)"
  have d3: "drop ?j s = redirs_text rs1 @ words_text ws @ redirs_text rs2 @ r"
    using d2 by (simp add: rs1_def rs2_def words_text_def redirs_text_def)
  have h: "words_text ws @ redirs_text rs2 @ r = [] \<or> hd (words_text ws @ redirs_text rs2 @ r) \<notin> set ''<>''"
  proof (cases ws)
    case Nil
    then show ?thesis using Cons.prems(5) by (auto simp: rs2_def words_text_def redirs_text_def)
  next
    case (Cons v vs)
    then show ?thesis using words_head [of v vs] Cons.prems(2) by (auto simp: delim_def symbols_def)
  qed
  have rok: "list_all (\<lambda>(k, f). word_ok f) rs1" "list_all (\<lambda>(k, f). word_ok f) rs2"
    using Cons.prems(3) by (simp_all add: rs1_def rs2_def)
  have tt: "tight (words_text ws @ redirs_text rs2 @ r)" using Cons.prems(2,4) tight_words tight_redirs by simp
  obtain ps1 where r1: "parseredirs s ?j acc = Inr (?j + length (redirs_text rs1), acc @ ps1)" "redirs_rep s ps1 rs1"
    using parseredirs_run [OF d3 rok(1) tt h] by blast
  have "drop (?j + length (redirs_text rs1)) s = words_text ws @ redirs_text rs2 @ r" using drop_more [OF d3] .
  from Cons.IH [OF this _ rok(2) Cons.prems(4,5), of "args @ [(i, i + length w)]" "acc @ ps1"] Cons.prems(2,6)
  obtain as ps2 where r2: "parseargs s (?j + length (redirs_text rs1)) (args @ [(i, i + length w)]) (acc @ ps1) =
      Inr (?j + length (redirs_text rs1) + length (words_text ws @ redirs_text rs2), (args @ [(i, i + length w)]) @ as, (acc @ ps1) @ ps2)"
      "map (wslice s) as = ws" "list_all (token_at s) as" "redirs_rep s ps2 rs2"
    by (auto simp: rs2_def)
  have "redirs_rep s (ps1 @ ps2) rs"
    using r1(2) r2(4) by (auto simp: redirs_rep_def rs1_def rs2_def split: if_splits)
  moreover have "parseargs s i args acc = Inr (i + length (words_text (w # ws) @ redirs_text rs), args @ (i, i + length w) # as, acc @ ps1 @ ps2)"
    using p g r1(1) r2(1) Cons.prems(6)
    by (subst parseargs.simps) (simp add: MAXARGS_def words_text_def redirs_text_def rs1_def rs2_def)
  ultimately show ?case using r2(2,3) ta by (intro exI [of _ "(i, i + length w) # as"] exI [of _ "ps1 @ ps2"]) simp
qed

section \<open>Parsing a printed tree\<close>

primrec cmd_words :: "cmd \<Rightarrow> word_pos list" where
  "cmd_words (Exec argv) = argv"
| "cmd_words (Redir c f mode fd) = cmd_words c @ [f]"
| "cmd_words (Pipe l r) = cmd_words l @ cmd_words r"
| "cmd_words (Lst l r) = cmd_words l @ cmd_words r"
| "cmd_words (Backgr c) = cmd_words c"

text \<open>The parsed command stands for the abstract one.\<close>

definition rep :: "string \<Rightarrow> cmd \<Rightarrow> acmd \<Rightarrow> bool" where
  "rep s c a \<longleftrightarrow> resolve (wslice s) c = a \<and> list_all (token_at s) (cmd_words c)"

lemma rep_wrap: "redirs_rep s ps rs \<Longrightarrow> rep s c a \<Longrightarrow> rep s (wrap ps c) (awrap rs a)"
  unfolding redirs_rep_def
proof (induction arbitrary: c a rule: list_all2_induct)
  case (Cons p ps x xs)
  obtain q e m fd where p: "p = (q, e, m, fd)" by (cases p)
  obtain k f where x: "x = (k, f)" by (cases x)
  have "rep s (redircmd c q e m fd) (if k = RIn then ARedir a f O_RDONLY 0 else ARedir a f O_WRONLY_CREATE 1)"
    using Cons.hyps(1) Cons.prems p x by (auto simp: rep_def redircmd_def)
  from Cons.IH [OF this] show ?case by (simp add: wrap_def awrap_def p x)
qed (simp add: wrap_def awrap_def)

lemma parseback_run:
  assumes "drop i s = replicate n CHR ''&'' @ r" and "tight r" and "r = [] \<or> hd r \<noteq> CHR ''&''" and "rep s c a"
  shows "\<exists>c'. parseback s i c = (i + n, c') \<and> rep s c' ((ABack ^^ n) a)"
  using assms
proof (induction n arbitrary: i c a)
  case 0
  then have "peek s i ''&'' = (False, i)" by (subst peek_tight [of i s r]) auto
  then show ?case using 0 by (subst parseback.simps) simp
next
  case (Suc n)
  let ?r = "replicate n CHR ''&'' @ r"
  have t: "tight ?r" using Suc.prems(2) by (cases n) (simp_all add: tight_def whitespace_def)
  have d: "drop i s = CHR ''&'' # ?r" using Suc.prems(1) by simp
  have p: "peek s i ''&'' = (True, i)" by (subst peek_tight [OF d]) (simp_all add: tight_def whitespace_def)
  have "gettoken s i = (CHR ''&'', i, Suc i, Suc i)" by (rule token_symbol [OF d _ t]) simp
  moreover have "drop (Suc i) s = ?r" using drop_more [of i s "''&''" ?r] d by simp
  moreover have "rep s (backcmd c) (ABack a)" using Suc.prems(4) by (simp add: rep_def backcmd_def)
  ultimately obtain c' where "parseback s (Suc i) (backcmd c) = (Suc i + n, c')" "rep s c' ((ABack ^^ n) (ABack a))"
    using Suc.IH [of "Suc i" "backcmd c" "ABack a"] Suc.prems(2,3) by blast
  then show ?case using p \<open>gettoken s i = _\<close> by (subst parseback.simps) (simp add: funpow_swap1)
qed


lemma tight_sym [simp]: "c \<in> set symbols \<Longrightarrow> tight (c # r)"
  by (auto simp: tight_def symbols_def whitespace_def)

lemma tight_amps: "tight r \<Longrightarrow> tight (replicate n CHR ''&'' @ r)"
  by (cases n) (simp_all add: symbols_def)

lemma tight_tree:
  "sline_ok l \<Longrightarrow> tight r \<Longrightarrow> tight (line_text l @ r)"
  "spipe_ok p \<Longrightarrow> tight r \<Longrightarrow> tight (pipe_text p @ r)"
  "sexec_ok e \<Longrightarrow> tight r \<Longrightarrow> tight (exec_text e @ r)"
  by (induction l and p and e arbitrary: r and r and r)
     (simp_all add: tight_amps tight_words tight_redirs symbols_def)

lemma token_end_sym: "drop i s = c # r \<Longrightarrow> c \<in> set ''|();&<'' \<Longrightarrow> tight r \<Longrightarrow> token_end s i = Suc i"
  by (simp add: token_end_def token_symbol)

lemma pbind_run [simp]: "r = Some (Inr (i, c)) \<Longrightarrow> pbind r f = f i c"
  by (simp add: pbind_def)

lemma fuel_Suc: "4 * k + m \<le> n \<Longrightarrow> 0 < m \<Longrightarrow> \<exists>n'. n = Suc n' \<and> 4 * k + (m - 1) \<le> n'"
  by (cases n) auto

lemma redirs_head: "redirs_text rs = [] \<or> hd (redirs_text rs) \<in> {CHR ''<'', CHR ''>''}"
proof (cases rs)
  case (Cons a rs')
  obtain k f where "a = (k, f)" by (cases a)
  then show ?thesis using Cons by (cases k) (simp_all add: redirs_text_def)
qed (simp add: redirs_text_def)

lemma parse_simple:
  assumes "drop i s = exec_text (Simple ws rs) @ r" and "sexec_ok (Simple ws rs)" and "tight r"
    and "r = [] \<or> hd r \<in> set ''|)&;''"
  shows "\<exists>c. parseexec (Suc n) s i = Some (Inr (i + length (exec_text (Simple ws rs)), c)) \<and> rep s c (exec_cmd (Simple ws rs))"
proof -
  have ok: "list_all word_ok ws" "list_all (\<lambda>(k, f). word_ok f) rs" "length ws < 10" using assms(2) by simp_all
  define rs1 where "rs1 = (if ws = [] then rs else [])"
  define rs2 where "rs2 = (if ws = [] then [] else rs)"
  have d: "drop i s = redirs_text rs1 @ words_text ws @ redirs_text rs2 @ r"
    using assms(1) by (simp add: rs1_def rs2_def words_text_def redirs_text_def)
  have rok: "list_all (\<lambda>(k, f). word_ok f) rs1" "list_all (\<lambda>(k, f). word_ok f) rs2" using ok(2) by (simp_all add: rs1_def rs2_def)
  have t: "tight (words_text ws @ redirs_text rs2 @ r)" using ok assms(3) tight_words tight_redirs by simp
  have h: "words_text ws @ redirs_text rs2 @ r = [] \<or> hd (words_text ws @ redirs_text rs2 @ r) \<notin> set ''<>(''"
  proof (cases ws)
    case Nil
    then show ?thesis using assms(4) by (auto simp: rs2_def words_text_def redirs_text_def)
  next
    case (Cons v vs)
    then show ?thesis using words_head [of v vs] ok(1) by (auto simp: delim_def symbols_def)
  qed
  obtain ps1 where r1: "parseredirs s i [] = Inr (i + length (redirs_text rs1), ps1)" "redirs_rep s ps1 rs1"
    using parseredirs_run [OF d rok(1) t, of "[]"] h by auto
  have "drop (i + length (redirs_text rs1)) s = words_text ws @ redirs_text rs2 @ r" using drop_more [OF d] .
  from parseargs_run [OF this ok(1) rok(2) assms(3,4), of "[]" ps1]
  obtain as ps2 where r2: "parseargs s (i + length (redirs_text rs1)) [] ps1 =
      Inr (i + length (redirs_text rs1) + length (words_text ws @ redirs_text rs2), as, ps1 @ ps2)"
      "map (wslice s) as = ws" "list_all (token_at s) as" "redirs_rep s ps2 rs2"
    using ok(3) by (auto simp: rs2_def)
  have "redirs_rep s (ps1 @ ps2) rs"
    using r1(2) r2(4) by (auto simp: redirs_rep_def rs1_def rs2_def split: if_splits)
  moreover have "rep s (execcmd as) (AExec ws)" using r2(2,3) by (simp add: rep_def execcmd_def)
  ultimately have "rep s (wrap (ps1 @ ps2) (execcmd as)) (awrap rs (AExec ws))" by (rule rep_wrap)
  moreover have "peek s i ''('' = (False, i)"
  proof -
    show ?thesis using peek_tight [OF d tight_redirs [OF t]] h redirs_head [of rs1] by (auto simp: hd_append)
  qed
  ultimately show ?thesis using r1(1) r2(1)
    by (auto simp: rs1_def rs2_def words_text_def redirs_text_def)
qed


lemma parse_single:
  assumes e: "parseexec n s i = Some (Inr (j, c))" and d: "drop j s = r" and t: "tight r" and r: "r = [] \<or> hd r \<noteq> CHR ''|''"
  shows "parsepipe (Suc n) s i = Some (Inr (j, c))"
  using e peek_tight [OF d t, of "''|''"] r by auto

lemma parse_piped:
  assumes e: "parseexec n s i = Some (Inr (j, c))" and d: "drop j s = CHR ''|'' # r" and t: "tight r"
    and p: "parsepipe n s (Suc j) = Some (Inr (k, c2))"
  shows "parsepipe (Suc n) s i = Some (Inr (k, Pipe c c2))"
  using e p token_end_sym [OF d _ t] peek_tight [OF d, of "''|''"] by (simp add: pipecmd_def symbols_def)

lemma parse_line_end:
  assumes p: "parsepipe n s i = Some (Inr (j, c))" and d: "drop j s = replicate m CHR ''&'' @ r" and t: "tight r"
    and r: "r = [] \<or> hd r \<notin> set ''&;''" and c: "rep s c a"
  shows "\<exists>c'. parseline (Suc n) s i = Some (Inr (j + m, c')) \<and> rep s c' ((ABack ^^ m) a)"
proof -
  obtain c' where b: "parseback s j c = (j + m, c')" "rep s c' ((ABack ^^ m) a)" using parseback_run [OF d t _ c] r by auto
  have "drop (j + m) s = r" using drop_more [OF d] by simp
  then have "peek s (j + m) '';'' = (False, j + m)" using peek_tight [OF _ t] r by auto
  then show ?thesis using p b by simp
qed

lemma parse_line_seq:
  assumes p: "parsepipe n s i = Some (Inr (j, c))" and d: "drop j s = replicate m CHR ''&'' @ CHR '';'' # r" and t: "tight r"
    and c: "rep s c a" and l: "parseline n s (Suc (j + m)) = Some (Inr (k, c2))" and c2: "rep s c2 a2"
  shows "\<exists>c'. parseline (Suc n) s i = Some (Inr (k, c')) \<and> rep s c' (ALst ((ABack ^^ m) a) a2)"
proof -
  have t2: "tight (CHR '';'' # r)" by (simp add: symbols_def)
  obtain c' where b: "parseback s j c = (j + m, c')" "rep s c' ((ABack ^^ m) a)" using parseback_run [OF d t2 _ c] by auto
  have d2: "drop (j + m) s = CHR '';'' # r" using drop_more [OF d] by simp
  then have "peek s (j + m) '';'' = (True, j + m)" using peek_tight [OF d2 t2] by simp
  moreover have "token_end s (j + m) = Suc (j + m)" using token_end_sym [OF d2 _ t] by simp
  ultimately show ?thesis using p b l c2 by (simp add: rep_def listcmd_def)
qed

lemma parse_block:
  assumes d: "drop i s = CHR ''('' # line @ CHR '')'' # redirs_text rs @ r" and tl: "tight (line @ CHR '')'' # redirs_text rs @ r)"
    and l: "parseline n s (Suc i) = Some (Inr (Suc i + length line, c))" and c: "rep s c a"
    and rs: "list_all (\<lambda>(k, f). word_ok f) rs" and t: "tight r" and r: "r = [] \<or> hd r \<in> set ''|)&;''"
  shows "\<exists>c'. parseexec (Suc (Suc n)) s i = Some (Inr (i + length (CHR ''('' # line @ CHR '')'' # redirs_text rs), c')) \<and>
    rep s c' (awrap rs a)"
proof -
  let ?j = "Suc i + length line"
  have p: "peek s i ''('' = (True, i)" using peek_tight [OF d] by (simp add: symbols_def)
  have e: "token_end s i = Suc i" using token_end_sym [OF d _ tl] by simp
  have d2: "drop ?j s = CHR '')'' # redirs_text rs @ r"
    using drop_more [of i s "CHR ''('' # line" "CHR '')'' # redirs_text rs @ r"] d by simp
  have p2: "peek s ?j '')'' = (True, ?j)" using peek_tight [OF d2] by (simp add: symbols_def)
  have e2: "token_end s ?j = Suc ?j" using token_end_sym [OF d2 _ tight_redirs [OF t]] by simp
  have d3: "drop (Suc ?j) s = redirs_text rs @ r" using drop_more [of ?j s "'')''"] d2 by simp
  obtain ps where "parseredirs s (Suc ?j) [] = Inr (Suc ?j + length (redirs_text rs), ps)" "redirs_rep s ps rs"
    using parseredirs_run [OF d3 rs t, of "[]"] r by auto
  then show ?thesis using p e p2 e2 l rep_wrap [OF _ c] by auto
qed

lemma parse_tree:
  "sline_ok l \<Longrightarrow> drop i s = line_text l @ r \<Longrightarrow> tight r \<Longrightarrow> r = [] \<or> hd r = CHR '')'' \<Longrightarrow> 4 * length (line_text l @ r) + 4 \<le> n \<Longrightarrow>
    \<exists>c. parseline n s i = Some (Inr (i + length (line_text l), c)) \<and> rep s c (line_cmd l)"
  "spipe_ok p \<Longrightarrow> drop i s = pipe_text p @ r \<Longrightarrow> tight r \<Longrightarrow> r = [] \<or> hd r \<in> set '')&;'' \<Longrightarrow> 4 * length (pipe_text p @ r) + 3 \<le> n \<Longrightarrow>
    \<exists>c. parsepipe n s i = Some (Inr (i + length (pipe_text p), c)) \<and> rep s c (pipe_cmd p)"
  "sexec_ok e \<Longrightarrow> drop i s = exec_text e @ r \<Longrightarrow> tight r \<Longrightarrow> r = [] \<or> hd r \<in> set ''|)&;'' \<Longrightarrow> 4 * length (exec_text e @ r) + 2 \<le> n \<Longrightarrow>
    \<exists>c. parseexec n s i = Some (Inr (i + length (exec_text e), c)) \<and> rep s c (exec_cmd e)"
proof (induction l and p and e arbitrary: i r n and i r n and i r n)
  case (Line p m)
  obtain k where k: "n = Suc k" "4 * length (pipe_text p @ replicate m CHR ''&'' @ r) + 3 \<le> k" using Line.prems(5) by (cases n) simp_all
  have d: "drop i s = pipe_text p @ replicate m CHR ''&'' @ r" using Line.prems(2) by simp
  have "replicate m CHR ''&'' @ r = [] \<or> hd (replicate m CHR ''&'' @ r) \<in> set '')&;''" using Line.prems(4) by (cases m) auto
  with Line.IH [OF _ d tight_amps [OF Line.prems(3)] _ k(2)] Line.prems(1)
  obtain c where "parsepipe k s i = Some (Inr (i + length (pipe_text p), c))" "rep s c (pipe_cmd p)" by auto
  from parse_line_end [OF this(1) drop_more [OF d] Line.prems(3) _ this(2)] Line.prems(4) show ?case
    by (auto simp: k(1) add.assoc)
next
  case (Seqn p m l)
  let ?r = "line_text l @ r"
  obtain k where k: "n = Suc k" "4 * length (pipe_text p @ replicate m CHR ''&'' @ CHR '';'' # ?r) + 3 \<le> k"
    using Seqn.prems(5) by (cases n) simp_all
  have d: "drop i s = pipe_text p @ replicate m CHR ''&'' @ CHR '';'' # ?r" using Seqn.prems(2) by simp
  have t: "tight ?r" using tight_tree(1) Seqn.prems(1,3) by simp
  have t2: "tight (replicate m CHR ''&'' @ CHR '';'' # ?r)" by (rule tight_amps) (simp add: symbols_def)
  have "hd (replicate m CHR ''&'' @ CHR '';'' # ?r) \<in> set '')&;''" by (cases m) auto
  with Seqn.IH(1) [OF _ d t2 _ k(2)] Seqn.prems(1)
  obtain c where c: "parsepipe k s i = Some (Inr (i + length (pipe_text p), c))" "rep s c (pipe_cmd p)" by auto
  let ?j = "i + length (pipe_text p)"
  have "drop (Suc (?j + m)) s = ?r" using drop_more [of ?j s "replicate m CHR ''&'' @ '';''" ?r] drop_more [OF d] by simp
  from Seqn.IH(2) [OF _ this Seqn.prems(3,4), of k] Seqn.prems(1) k(2)
  obtain c2 where c2: "parseline k s (Suc (?j + m)) = Some (Inr (Suc (?j + m) + length (line_text l), c2))" "rep s c2 (line_cmd l)" by auto
  from parse_line_seq [OF c(1) drop_more [OF d] t c(2) c2] show ?case by (auto simp: k(1) ac_simps)
next
  case (Single e)
  obtain k where k: "n = Suc k" "4 * length (exec_text e @ r) + 2 \<le> k" using Single.prems(5) by (cases n) simp_all
  have d: "drop i s = exec_text e @ r" using Single.prems(2) by simp
  obtain c where c: "parseexec k s i = Some (Inr (i + length (exec_text e), c))" "rep s c (exec_cmd e)"
    using Single.IH [OF _ d Single.prems(3) _ k(2)] Single.prems(1,4) by auto
  have "parsepipe n s i = Some (Inr (i + length (exec_text e), c))"
    unfolding k(1) by (rule parse_single [OF c(1) drop_more [OF d] Single.prems(3)]) (use Single.prems(4) in auto)
  then show ?case using c(2) by simp
next
  case (Piped e p)
  let ?r = "pipe_text p @ r"
  obtain k where k: "n = Suc k" "4 * length (exec_text e @ CHR ''|'' # ?r) + 2 \<le> k" using Piped.prems(5) by (cases n) simp_all
  have d: "drop i s = exec_text e @ CHR ''|'' # ?r" using Piped.prems(2) by simp
  have t: "tight ?r" using tight_tree(2) Piped.prems(1,3) by simp
  have t2: "tight (CHR ''|'' # ?r)" by (simp add: symbols_def)
  obtain c where c: "parseexec k s i = Some (Inr (i + length (exec_text e), c))" "rep s c (exec_cmd e)"
    using Piped.IH(1) [OF _ d t2 _ k(2)] Piped.prems(1) by auto
  let ?j = "i + length (exec_text e)"
  have "drop (Suc ?j) s = ?r" using drop_more [of ?j s "''|''" ?r] drop_more [OF d] by simp
  from Piped.IH(2) [OF _ this Piped.prems(3,4), of k] Piped.prems(1) k(2)
  obtain c2 where c2: "parsepipe k s (Suc ?j) = Some (Inr (Suc ?j + length (pipe_text p), c2))" "rep s c2 (pipe_cmd p)" by auto
  have "parsepipe n s i = Some (Inr (Suc ?j + length (pipe_text p), Pipe c c2))"
    unfolding k(1) by (rule parse_piped [OF c(1) drop_more [OF d] t c2(1)])
  then show ?case using c(2) c2(2) by (auto simp: rep_def)
next
  case (Simple ws rs)
  then obtain k where "n = Suc k" by (cases n) simp_all
  then show ?case using parse_simple [of i s ws rs r k] Simple.prems by simp
next
  case (Block l rs)
  let ?t = "CHR '')'' # redirs_text rs @ r"
  have t: "tight ?t" by (simp add: symbols_def)
  have d: "drop i s = CHR ''('' # line_text l @ ?t" using Block.prems(2) by simp
  obtain k where k: "n = Suc (Suc k)" "4 * length (line_text l @ ?t) + 4 \<le> k"
    using Block.prems(5) by (cases n; cases "n - 1") simp_all
  have "drop (Suc i) s = line_text l @ ?t" using drop_more [of i s "''(''"] d by simp
  from Block.IH [OF _ this t _ k(2)] Block.prems(1)
  obtain c where c: "parseline k s (Suc i) = Some (Inr (Suc i + length (line_text l), c))" "rep s c (line_cmd l)" by auto
  from parse_block [OF d tight_tree(1) [OF _ t] c _ Block.prems(3,4)] Block.prems(1) show ?case
    by (auto simp: k(1))
qed


section \<open>Terminating the words\<close>

lemma update_nth: "k < length xs \<Longrightarrow> xs[b := v] ! k = (if k = b then v else xs ! k)"
  by (cases "k = b") simp_all

lemma fold_nul:
  "length (fold (\<lambda>(q, e) s. s[e := NUL]) ws s) = length s"
  "k < length s \<Longrightarrow> fold (\<lambda>(q, e) s. s[e := NUL]) ws s ! k = (if k \<in> snd ` set ws then NUL else s ! k)"
proof (induction ws arbitrary: s)
  case (Cons w ws)
  { case 1 show ?case using Cons(1) by (cases w) simp }
  { case 2 then show ?case using Cons(2) by (cases w) (auto simp: update_nth) }
qed simp_all

lemma nulterminate_run:
  "length (nulterminate c s) = length s \<and> (\<forall>k<length s. nulterminate c s ! k = (if k \<in> snd ` set (cmd_words c) then NUL else s ! k))"
  by (induction c arbitrary: s) (auto simp: fold_nul update_nth)

lemma token_atD:
  assumes "token_at s (q, e)"
  shows "q + length (wslice s (q, e)) = e" "e < length s" "s ! e = CHR '' ''"
    "\<And>k. q \<le> k \<Longrightarrow> k < e \<Longrightarrow> s ! k = wslice s (q, e) ! (k - q) \<and> \<not> delim (s ! k)"
proof -
  let ?w = "wslice s (q, e)"
  obtain r where d: "drop q s = ?w @ CHR '' '' # r" and w: "word_ok ?w" and e: "q + length ?w = e"
    using assms by (auto simp: token_at_def)
  have q: "q < length s" using d by (intro drop_len [OF d]) simp
  then have n: "s ! (q + j) = (?w @ CHR '' '' # r) ! j" for j using d by (metis less_imp_le nth_drop)
  show "q + length ?w = e" "s ! e = CHR '' ''" using e n [of "length ?w"] by simp_all
  have "length (drop q s) = length ?w + Suc (length r)" using d by simp
  then show "e < length s" using e by simp
  show "s ! k = ?w ! (k - q) \<and> \<not> delim (s ! k)" if "q \<le> k" "k < e" for k
  proof -
    have "k - q < length ?w" using that e by simp
    then show ?thesis using n [of "k - q"] that w by (auto simp: nth_append word_ok_def)
  qed
qed

lemma drop_segment:
  assumes "q + length v = e" and "e < length b" and "b ! e = x" and "\<And>k. q \<le> k \<Longrightarrow> k < e \<Longrightarrow> b ! k = v ! (k - q)"
  shows "drop q b = v @ x # drop (Suc e) b"
proof -
  have "take (length v) (drop q b) = v" using assms by (intro nth_equalityI) auto
  moreover have "drop (length v) (drop q b) = x # drop (Suc e) b"
    using assms(1,3) Cons_nth_drop_Suc [OF assms(2)] by (simp add: add.commute)
  ultimately show ?thesis by (metis append_take_drop_id)
qed

lemma word_terminated:
  assumes "list_all (token_at s) (cmd_words c)" and "w \<in> set (cmd_words c)"
  shows "word_at (nulterminate c s) w = wslice s w"
proof -
  obtain q e where w: "w = (q, e)" by (cases w)
  let ?b = "nulterminate c s" and ?v = "wslice s w"
  note b = nulterminate_run [of c s]
  have ta: "token_at s (x, y)" if "(x, y) \<in> set (cmd_words c)" for x y using assms(1) that by (auto simp: list_all_iff)
  have tw: "token_at s (q, e)" using ta assms(2) w by simp
  note t = token_atD [OF tw, folded w]
  have keep: "?b ! k = ?v ! (k - q) \<and> \<not> delim (?v ! (k - q))" if "q \<le> k" "k < e" for k
  proof -
    have "k \<notin> snd ` set (cmd_words c)"
    proof
      assume "k \<in> snd ` set (cmd_words c)"
      then obtain x where "(x, k) \<in> set (cmd_words c)" by force
      then have "s ! k = CHR '' ''" using token_atD(3) ta by blast
      then show False using t(4) [OF that] by (auto simp: delim_def whitespace_def)
    qed
    then show ?thesis using b t(2) t(4) [OF that] that by auto
  qed
  have "?b ! e = NUL" using b t(2) assms(2) w by force
  then have "drop q ?b = ?v @ NUL # drop (Suc e) ?b"
    using keep t(1,2) b by (intro drop_segment) simp_all
  moreover have "NUL \<notin> set ?v"
    using keep [of "q + j" for j] t(1) by (auto simp: in_set_conv_nth delim_def)
  ultimately show ?thesis by (simp add: word_at_def w cstr_def) (subst takeWhile_append2, auto)
qed

lemma resolve_cong: "(\<And>w. w \<in> set (cmd_words c) \<Longrightarrow> f w = g w) \<Longrightarrow> resolve f c = resolve g c"
  by (induction c) auto

text \<open>
  C14: The parser inverts printing. For every syntax tree of the shell's grammar (with well-formed words
  and less than ten arguments per command) \<^verbatim>\<open>parsecmd()\<close> of its text succeeds, and in the buffer that
  \<^verbatim>\<open>nulterminate()\<close> leaves, the words of the resulting command are the strings of the tree: pipes nest to
  the right, \<^verbatim>\<open>&\<close> binds a pipeline, \<^verbatim>\<open>;\<close> binds weakest, parentheses group, and redirections wrap in order.
\<close>

theorem parsecmd_roundtrip:
  assumes "sline_ok l"
  shows "\<exists>c buf. parsecmd (line_text l) = Some (Inr (c, buf)) \<and> resolve (word_at buf) c = line_cmd l"
proof -
  let ?s = "line_text l"
  obtain c where c: "parseline (parse_fuel ?s) ?s 0 = Some (Inr (length ?s, c))" "rep ?s c (line_cmd l)"
    using parse_tree(1) [OF assms, of 0 ?s "[]" "parse_fuel ?s"] by (auto simp: tight_def parse_fuel_def)
  have "peek ?s (length ?s) [] = (False, length ?s)" by (subst peek_tight [of _ _ "[]"]) (simp_all add: tight_def)
  then have "parsecmd ?s = Some (Inr (c, nulterminate c ?s))" using c(1) by (simp add: parsecmd_def)
  moreover have "resolve (word_at (nulterminate c ?s)) c = resolve (wslice ?s) c"
    using c(2) by (intro resolve_cong word_terminated) (simp_all add: rep_def)
  ultimately show ?thesis using c(2) by (simp add: rep_def)
qed

theorem parsecmd_roundtrip_witness:
  "\<exists>c buf. parsecmd ''ls -l |wc >out &;(cd d &)>>log '' = Some (Inr (c, buf)) \<and>
    resolve (word_at buf) c = ALst (ABack (APipe (AExec [''ls'', ''-l'']) (ARedir (AExec [''wc'']) ''out'' O_WRONLY_CREATE 1)))
      (ARedir (ABack (AExec [''cd'', ''d''])) ''log'' O_WRONLY_CREATE 1)"
  using parsecmd_roundtrip [of "Seqn (Piped (Simple [''ls'', ''-l''] []) (Single (Simple [''wc''] [(ROut, ''out'')]))) 1
      (Line (Single (Block (Line (Single (Simple [''cd'', ''d''] [])) 1) [(RApp, ''log'')])) 0)"]
  by (simp add: words_text_def redirs_text_def word_ok_def delim_def whitespace_def symbols_def awrap_def)


section \<open>Termination\<close>

lemma pbind_Inr: "pbind r f = Some (Inr x) \<longleftrightarrow> (\<exists>i c. r = Some (Inr (i, c)) \<and> f i c = Some (Inr x))"
  by (auto simp: pbind_def split: option.split sum.split)

lemma pbind_None: "pbind r f = None \<longleftrightarrow> r = None \<or> (\<exists>i c. r = Some (Inr (i, c)) \<and> f i c = None)"
  by (auto simp: pbind_def split: option.split sum.split)

lemma peek_ge: "peek s i t = (b, j) \<Longrightarrow> i \<le> j"
  by (simp add: peek_pos)

lemma token_end_ge: "i \<le> token_end s i"
  by (auto simp: token_end_def dest: gettoken_adv split: prod.split)

lemma token_end_gt: "peek s i t = (True, j) \<Longrightarrow> j < token_end s j \<and> j < length s"
  using peek_pos [of s i t True j] peek_at [of s i t j] gettoken_stop [of s j]
  by (auto simp: token_end_def split: prod.split)

lemma parseredirs_ge: "parseredirs s i rs = Inr (j, ps) \<Longrightarrow> i \<le> j"
proof (induction s i rs rule: parseredirs.induct)
  case (1 s i rs)
  obtain b i1 where p: "peek s i ''<>'' = (b, i1)" by fastforce
  obtain t q e i2 where g: "gettoken s i1 = (t, q, e, i2)" by (cases "gettoken s i1")
  obtain t2 q2 e2 i3 where g2: "gettoken s i2 = (t2, q2, e2, i3)" by (cases "gettoken s i2")
  show ?case
  proof (cases "b \<and> t2 = CHR ''a''")
    case True
    then have "parseredirs s i3 (rs @ [if t = CHR ''<'' then (q2, e2, O_RDONLY, 0) else (q2, e2, O_WRONLY_CREATE, 1)]) = Inr (j, ps)"
      using "1.prems" p g g2 by (subst (asm) parseredirs.simps) simp
    then have "i3 \<le> j" using 1(1) [OF p [symmetric] _ g [symmetric] refl refl g2 [symmetric] refl refl] True by simp
    then show ?thesis using peek_ge [OF p] gettoken_adv [OF g] gettoken_adv [OF g2] by linarith
  next
    case False
    then show ?thesis using "1.prems" p g g2 peek_ge [OF p] by (subst (asm) parseredirs.simps) (auto split: if_splits)
  qed
qed

lemma parseargs_ge: "parseargs s i as rs = Inr (j, x) \<Longrightarrow> i \<le> j"
proof (induction s i as rs rule: parseargs.induct)
  case (1 s i as rs)
  obtain b i1 where p: "peek s i ''|)&;'' = (b, i1)" by fastforce
  obtain t q e i2 where g: "gettoken s i1 = (t, q, e, i2)" by (cases "gettoken s i1")
  note le = peek_ge [OF p] gettoken_adv [OF g]
  show ?case
  proof (cases "b \<or> t = NUL")
    case True
    then show ?thesis using "1.prems" p g le by (subst (asm) parseargs.simps) (auto split: if_splits)
  next
    case False
    then obtain i3 rs' where r: "t = CHR ''a''" "\<not> Suc (length as) \<ge> MAXARGS" "parseredirs s i2 rs = Inr (i3, rs')"
      "parseargs s i3 (as @ [(q, e)]) rs' = Inr (j, x)"
      using "1.prems" p g by (subst (asm) parseargs.simps) (auto split: if_splits sum.splits)
    have "i3 \<le> j" using "1.IH" [OF p [symmetric]] False g r by simp
    then show ?thesis using le parseredirs_ge [OF r(3)] by linarith
  qed
qed

lemma parseback_ge: "parseback s i c = (j, c') \<Longrightarrow> i \<le> j"
proof (induction s i c rule: parseback.induct)
  case (1 s i c)
  obtain b i1 where p: "peek s i ''&'' = (b, i1)" by fastforce
  obtain t q e i2 where g: "gettoken s i1 = (t, q, e, i2)" by (cases "gettoken s i1")
  show ?case
  proof (cases b)
    case True
    have "parseback s i2 (backcmd c) = (j, c')" using "1.prems" p g True by (subst (asm) parseback.simps) simp
    then have "i2 \<le> j" using 1(1) [OF p [symmetric] True g [symmetric] refl refl] by simp
    then show ?thesis using peek_ge [OF p] gettoken_adv [OF g] by linarith
  next
    case False
    then show ?thesis using "1.prems" p peek_ge [OF p] by (subst (asm) parseback.simps) simp
  qed
qed

lemmas parse_ge = parseredirs_ge parseargs_ge parseback_ge peek_ge token_end_ge

text \<open>A result that lies at or behind the position \<open>i\<close>, and the same with a result for sure.\<close>

definition adv :: "nat \<Rightarrow> parsed \<Rightarrow> bool" where
  "adv i r \<longleftrightarrow> (\<forall>j c. r = Some (Inr (j, c)) \<longrightarrow> i \<le> j)"

lemma adv_simps [simp]: "adv i None" "adv i (Some (Inl m))" "adv i (Some (Inr (j, c))) \<longleftrightarrow> i \<le> j"
  by (simp_all add: adv_def)

lemma adv_mono: "adv j r \<Longrightarrow> i \<le> j \<Longrightarrow> adv i r"
  by (auto simp: adv_def)

lemma adv_pbind: "adv i r \<Longrightarrow> (\<And>j c. i \<le> j \<Longrightarrow> adv i (f j c)) \<Longrightarrow> adv i (pbind r f)"
  by (auto simp: pbind_def split: option.split sum.split)

lemma adv_line:
  assumes "\<And>i. adv i (parsepipe n s i)" and "\<And>i. adv i (parseline n s i)"
  shows "adv i (parseline (Suc n) s i)"
proof -
  have "adv i (let (i2, c2) = parseback s i1 c; (b, i3) = peek s i2 '';''
       in if b then pbind (parseline n s (token_end s i3)) (\<lambda>i5 c3. Some (Inr (i5, listcmd c2 c3))) else Some (Inr (i3, c2)))"
    if "i \<le> i1" for i1 c
  proof -
    obtain i2 c2 where b: "parseback s i1 c = (i2, c2)" by fastforce
    obtain x i3 where p: "peek s i2 '';'' = (x, i3)" by fastforce
    have "i \<le> i3" "i3 \<le> token_end s i3" using that parseback_ge [OF b] peek_ge [OF p] token_end_ge by auto
    then have "adv i (pbind (parseline n s (token_end s i3)) (\<lambda>i5 c3. Some (Inr (i5, listcmd c2 c3))))"
      using adv_mono [OF assms(2)] by (intro adv_pbind) auto
    then show ?thesis using b p \<open>i \<le> i3\<close> by simp
  qed
  then show ?thesis using assms(1) by (simp del: Let_def add: adv_pbind)
qed

lemma adv_pipe:
  assumes "\<And>i. adv i (parseexec n s i)" and "\<And>i. adv i (parsepipe n s i)"
  shows "adv i (parsepipe (Suc n) s i)"
proof -
  have "adv i (let (b, i2) = peek s i1 ''|''
       in if b then pbind (parsepipe n s (token_end s i2)) (\<lambda>i4 c2. Some (Inr (i4, pipecmd c c2))) else Some (Inr (i2, c)))"
    if "i \<le> i1" for i1 c
  proof -
    obtain x i2 where p: "peek s i1 ''|'' = (x, i2)" by fastforce
    have "i \<le> i2" "i2 \<le> token_end s i2" using that peek_ge [OF p] token_end_ge by auto
    then have "adv i (pbind (parsepipe n s (token_end s i2)) (\<lambda>i4 c2. Some (Inr (i4, pipecmd c c2))))"
      using adv_mono [OF assms(2)] by (intro adv_pbind) auto
    then show ?thesis using p \<open>i \<le> i2\<close> by simp
  qed
  then show ?thesis using assms(1) by (simp del: Let_def add: adv_pbind)
qed

lemma adv_redirs: "i \<le> j \<Longrightarrow> adv i (case parseredirs s j [] of Inl msg \<Rightarrow> Some (Inl msg) | Inr (i6, rs) \<Rightarrow> Some (Inr (i6, wrap rs c)))"
  using parseredirs_ge [of s j "[]"] by (fastforce split: sum.split)

lemma adv_block:
  assumes "\<And>i. adv i (parseline n s i)"
  shows "adv i (parseblock (Suc n) s i)"
proof -
  obtain x i1 where p: "peek s i ''('' = (x, i1)" by fastforce
  have "i \<le> token_end s i1" using peek_ge [OF p] token_end_ge [of i1 s] by linarith
  moreover have "adv i (let (b2, i4) = peek s i3 '')''
           in if \<not> b2 then Some (Inl ''syntax - missing )'')
              else case parseredirs s (token_end s i4) [] of Inl msg \<Rightarrow> Some (Inl msg) | Inr (i6, rs) \<Rightarrow> Some (Inr (i6, wrap rs c)))"
    if "i \<le> i3" for i3 c
  proof -
    obtain y i4 where q: "peek s i3 '')'' = (y, i4)" by fastforce
    have "i \<le> token_end s i4" using that peek_ge [OF q] token_end_ge [of i4 s] by linarith
    then show ?thesis using q adv_redirs by simp
  qed
  ultimately show ?thesis using p adv_mono [OF assms] by (auto intro!: adv_pbind)
qed

lemma adv_exec:
  assumes "\<And>i. adv i (parseblock n s i)"
  shows "adv i (parseexec (Suc n) s i)"
proof -
  obtain x i1 where p: "peek s i ''('' = (x, i1)" by fastforce
  note le = peek_ge [OF p]
  have "i \<le> j" if "parseredirs s i1 [] = Inr (i2, rs)" "parseargs s i2 [] rs = Inr (j, y)" for i2 rs j y
    using le parseredirs_ge [OF that(1)] parseargs_ge [OF that(2)] by linarith
  then show ?thesis using p adv_mono [OF assms le] by (fastforce split: sum.split)
qed

lemma parse_adv:
  "adv i (parseline n s i) \<and> adv i (parsepipe n s i) \<and> adv i (parseblock n s i) \<and> adv i (parseexec n s i)"
proof (induction n arbitrary: i)
  case (Suc n)
  then show ?case by (intro conjI adv_line adv_pipe adv_block adv_exec) blast+
qed simp


text \<open>The fuel that is left for the rest of the line, with \<open>k\<close> to spare.\<close>

definition enough :: "nat \<Rightarrow> string \<Rightarrow> nat \<Rightarrow> nat \<Rightarrow> bool" where
  "enough k s i n \<longleftrightarrow> 4 * (length s - i) + k \<le> n"

lemma enough_later: "enough k s i (Suc n) \<Longrightarrow> i \<le> j \<Longrightarrow> j < length s \<Longrightarrow> j < l \<Longrightarrow> k' \<le> k + 3 \<Longrightarrow> enough k' s l n"
  unfolding enough_def by linarith

lemma enough_same: "enough (Suc k) s i (Suc n) \<Longrightarrow> i \<le> j \<Longrightarrow> enough k s j n"
  unfolding enough_def by linarith

lemma parse_total:
  "(enough 4 s i n \<longrightarrow> parseline n s i \<noteq> None) \<and> (enough 3 s i n \<longrightarrow> parsepipe n s i \<noteq> None) \<and>
   (enough 1 s i n \<longrightarrow> parseblock n s i \<noteq> None) \<and> (enough 2 s i n \<longrightarrow> parseexec n s i \<noteq> None)"
proof (induction n arbitrary: i)
  case 0
  then show ?case by (simp add: enough_def)
next
  case (Suc n)
  have adv: "i \<le> j" if "parsepipe n s i = Some (Inr (j, c)) \<or> parseexec n s i = Some (Inr (j, c))" for j c
    using parse_adv [of i n s] that by (auto simp: adv_def)
  have l: "parseline (Suc n) s i \<noteq> None" if f: "enough 4 s i (Suc n)"
  proof -
    have "(let (i2, c2) = parseback s i1 c; (b, i3) = peek s i2 '';''
       in if b then pbind (parseline n s (token_end s i3)) (\<lambda>i5 c3. Some (Inr (i5, listcmd c2 c3))) else Some (Inr (i3, c2))) \<noteq> None"
      if r: "parsepipe n s i = Some (Inr (i1, c))" for i1 c
    proof -
      obtain i2 c2 where b: "parseback s i1 c = (i2, c2)" by fastforce
      obtain x i3 where p: "peek s i2 '';'' = (x, i3)" by fastforce
      have "i \<le> i3" using adv r parseback_ge [OF b] peek_ge [OF p] by (meson le_trans)
      then have "parseline n s (token_end s i3) \<noteq> None" if x
        using Suc.IH token_end_gt [of s i2 "'';''" i3] p that f enough_later [of 4 s i n i3 "token_end s i3" 4] by simp
      then show ?thesis using b p by (cases x) (simp_all add: pbind_None)
    qed
    moreover have "parsepipe n s i \<noteq> None" using Suc.IH f enough_same [of 3 s i n i] by simp
    ultimately show ?thesis by (simp add: pbind_None del: Let_def)
  qed
  have p: "parsepipe (Suc n) s i \<noteq> None" if f: "enough 3 s i (Suc n)"
  proof -
    have "(let (b, i2) = peek s i1 ''|''
       in if b then pbind (parsepipe n s (token_end s i2)) (\<lambda>i4 c2. Some (Inr (i4, pipecmd c c2))) else Some (Inr (i2, c))) \<noteq> None"
      if r: "parseexec n s i = Some (Inr (i1, c))" for i1 c
    proof -
      obtain x i2 where p: "peek s i1 ''|'' = (x, i2)" by fastforce
      have "i \<le> i2" using adv r peek_ge [OF p] by (meson le_trans)
      then have "parsepipe n s (token_end s i2) \<noteq> None" if x
        using Suc.IH token_end_gt [of s i1 "''|''" i2] p that f enough_later [of 3 s i n i2 "token_end s i2" 3] by simp
      then show ?thesis using p by (cases x) (simp_all add: pbind_None)
    qed
    moreover have "parseexec n s i \<noteq> None" using Suc.IH f enough_same [of 2 s i n i] by (simp add: numeral_3_eq_3 numeral_2_eq_2)
    ultimately show ?thesis by (simp add: pbind_None del: Let_def)
  qed
  obtain x i1 where q: "peek s i ''('' = (x, i1)" by fastforce
  have b: "parseblock (Suc n) s i \<noteq> None" if f: "enough 1 s i (Suc n)"
  proof -
    have "parseline n s (token_end s i1) \<noteq> None" if x
      using Suc.IH token_end_gt [of s i "''(''" i1] q peek_ge [OF q] that f enough_later [of 1 s i n i1 "token_end s i1" 4] by simp
    then show ?thesis using q by (cases x) (simp_all add: pbind_None split: prod.split sum.split)
  qed
  have e: "parseexec (Suc n) s i \<noteq> None" if f: "enough 2 s i (Suc n)"
  proof -
    have "parseblock n s i1 \<noteq> None" using Suc.IH peek_ge [OF q] f enough_same [of 1 s i n i1] by (simp add: numeral_2_eq_2)
    then show ?thesis using q by (auto split: sum.split)
  qed
  show ?case using l p b e by blast
qed

text \<open>
  C35: The parser terminates on every input line, well formed or not: \<^verbatim>\<open>parsecmd()\<close> returns a command or
  reports a syntax error through \<^verbatim>\<open>panic()\<close>. No input makes its mutually recursive functions descend
  more often than four times per character, and four times more.
\<close>

theorem parsecmd_terminates: "\<exists>r. parsecmd s = Some r"
proof -
  have "parseline (parse_fuel s) s 0 \<noteq> None" using parse_total [of s 0 "parse_fuel s"] by (simp add: enough_def parse_fuel_def)
  then show ?thesis by (auto simp: parsecmd_def split: sum.split prod.split)
qed

section \<open>Running commands\<close>

lemma u_putc_total: "\<exists>s'. u_putc sys fd c s = Some (Inr (), s')"
  by (cases "os_write sys fd [c] s") (simp add: u_putc_def)

lemma u_puts_total: "\<exists>s'. u_puts sys fd cs s = Some (Inr (), s')"
proof (induction cs arbitrary: s)
  case (Cons c cs)
  obtain s1 where "u_putc sys fd c s = Some (Inr (), s1)" using u_putc_total [of sys fd c s] by blast
  then show ?case using Cons [of s1] by simp
qed simp

lemma vprintf_plain:
  "CHR ''%'' \<notin> set a \<Longrightarrow> \<exists>s'. u_vprintf_loop sys fd (a @ fmt) False ap s = u_vprintf_loop sys fd fmt False ap s'"
proof (induction a arbitrary: s)
  case (Cons c a)
  obtain s1 where "u_putc sys fd c s = Some (Inr (), s1)" using u_putc_total [of sys fd c s] by blast
  then show ?case using Cons.IH [of s1] Cons.prems by auto
qed auto

lemma fprintf_str:
  assumes "CHR ''%'' \<notin> set a" and "CHR ''%'' \<notin> set b" and "fmt = a @ ''%s'' @ b"
  shows "\<exists>s'. u_fprintf sys fd fmt [VStr (Some t)] s = Some (Inr (), s')"
proof -
  obtain s1 where s1: "u_vprintf_loop sys fd fmt False [VStr (Some t)] s = u_vprintf_loop sys fd (''%s'' @ b) False [VStr (Some t)] s1"
    using vprintf_plain [OF assms(1), of sys fd "''%s'' @ b" "[VStr (Some t)]" s] assms(3) by auto
  obtain s2 where s2: "u_puts sys fd t s1 = Some (Inr (), s2)" using u_puts_total [of sys fd t s1] by blast
  obtain s3 where "u_vprintf_loop sys fd b False [] s2 = Some (Inr (), s3)"
    using vprintf_plain [OF assms(2), of sys fd "[]" "[]" s2] by auto
  then show ?thesis using s1 s2 by (simp add: u_fprintf_def u_vprintf_def u_directive_def)
qed

definition ends :: "('os, 'a) uM \<Rightarrow> bool" where
  "ends m \<longleftrightarrow> (\<forall>s. \<exists>e s'. m s = Some (Inl e, s'))"

lemma ends_exit [simp]: "ends (uexit n)" "ends ureplaced"
  by (simp_all add: ends_def ureplaced_def)

lemma ends_usys: "(\<And>a. ends (f a)) \<Longrightarrow> ends (ubind (usys g) f)"
  unfolding ends_def usys_def by (auto simp: ubind_def split: prod.split)

lemma ends_useq_usys: "ends k \<Longrightarrow> ends (useq (usys g) k)"
  unfolding useq_def by (rule ends_usys)

lemma ends_fprintf:
  assumes "CHR ''%'' \<notin> set a" and "CHR ''%'' \<notin> set b" and "fmt = a @ ''%s'' @ b" and "ends k"
  shows "ends (useq (u_fprintf sys fd fmt [VStr (Some t)]) k)"
  unfolding ends_def
proof
  fix s
  obtain s1 where "u_fprintf sys fd fmt [VStr (Some t)] s = Some (Inr (), s1)"
    using fprintf_str [OF assms(1-3), of sys fd t s] by blast
  then show "\<exists>e s'. useq (u_fprintf sys fd fmt [VStr (Some t)]) k s = Some (Inl e, s')" using assms(4) by (simp add: ends_def)
qed

lemma ends_panic: "ends (sh_panic sys msg)"
  unfolding sh_panic_def by (rule ends_fprintf [of "[]" "''\<newline>''"]) simp_all

lemma ends_fork1:
  assumes "\<And>pid. ends (f pid)"
  shows "ends (ubind (fork1 sys) f)"
  unfolding ends_def
proof
  fix s
  obtain pid s1 where r: "os_fork sys s = (pid, s1)" by fastforce
  show "\<exists>e s'. ubind (fork1 sys) f s = Some (Inl e, s')"
  proof (cases "pid = -1")
    case True
    have "ends (sh_panic sys ''fork'' :: ('a, int) uM)" by (rule ends_panic)
    then obtain e s2 where "(sh_panic sys ''fork'' :: ('a, int) uM) s1 = Some (Inl e, s2)" unfolding ends_def by blast
    then have "fork1 sys s = Some (Inl e, s2)" using r True by (simp add: fork1_def)
    then show ?thesis by simp
  next
    case False
    then have "fork1 sys s = Some (Inr pid, s1)" using r by (simp add: fork1_def)
    then show ?thesis using assms [of pid] by (simp add: ends_def)
  qed
qed

lemma ends_uclose: "ends k \<Longrightarrow> ends (useq (uclose sys fd) k)"
  unfolding ends_def uclose_def useq_def usys_def by (auto simp: ubind_def split: prod.split)

lemma ends_if: "ends m \<Longrightarrow> ends k \<Longrightarrow> ends (if b then m else k)"
  by simp

text \<open>
  C36: \<^verbatim>\<open>runcmd()\<close> never returns: whatever the system calls answer, running any command ends the process,
  by \<^verbatim>\<open>exit()\<close> or by becoming the program it executes. So the child of the shell's \<^verbatim>\<open>fork()\<close> never
  falls back into the shell's loop and reads commands itself.
\<close>

theorem runcmd_ends: "\<exists>e s'. runcmd sys buf c s = Some (Inl e, s')"
proof -
  have "ends (runcmd sys buf c)"
  proof (induction c)
    case (Exec argv)
    have "ends (useq (u_fprintf sys 2 ''exec %s failed\<newline>'' [VStr (Some t)]) (uexit 0))" for t
      by (rule ends_fprintf [of "''exec ''" "'' failed\<newline>''"]) simp_all
    then show ?case by (auto intro!: ends_usys split: option.split)
  next
    case (Redir c f mode fd)
    have "ends (useq (u_fprintf sys 2 ''open %s failed\<newline>'' [VStr (Some t)]) (uexit 1))" for t
      by (rule ends_fprintf [of "''open ''" "'' failed\<newline>''"]) simp_all
    then show ?case using Redir by (auto intro!: ends_usys ends_uclose ends_if)
  next
    case (Pipe l r)
    then show ?case by (auto intro!: ends_usys ends_fork1 ends_uclose ends_useq_usys ends_if ends_panic split: prod.split)
  qed (auto intro!: ends_usys ends_fork1 ends_useq_usys ends_if)
  then show ?thesis by (simp add: ends_def)
qed

end
