(* ===== verification/Xv6_Utils.thy ===== *)
theory Xv6_Utils
  imports Xv6_Sh
begin

text \<open>
  The small user programs: \<^verbatim>\<open>cat\<close>, \<^verbatim>\<open>wc\<close>, \<^verbatim>\<open>echo\<close>, \<^verbatim>\<open>ls\<close>, \<^verbatim>\<open>find\<close>, \<^verbatim>\<open>xargs\<close>, \<^verbatim>\<open>primes\<close>, \<^verbatim>\<open>sleep\<close>, \<^verbatim>\<open>kill\<close>,
  \<^verbatim>\<open>ln\<close>, \<^verbatim>\<open>mkdir\<close>, \<^verbatim>\<open>rm\<close> and \<^verbatim>\<open>init\<close>, each over the system calls of \<open>sys\<close>.
\<close>

section \<open>cat\<close>

text \<open>The result of the loop is the last result of \<^verbatim>\<open>read()\<close>.\<close>

partial_function (option) cat_loop :: "'os sys \<Rightarrow> int \<Rightarrow> 'os \<Rightarrow> ((uend + int) \<times> 'os) option" where
  "cat_loop sys fd s =
     ubind (usys (os_read sys fd 512)) (\<lambda>(n, buf).
     if n > 0 then
       ubind (usys (os_write sys 1 buf)) (\<lambda>w.
       if w \<noteq> n then useq (u_printf sys ''cat: write error\<newline>'' []) (uexit 1) else cat_loop sys fd)
     else uret n) s"

definition cat :: "'os sys \<Rightarrow> int \<Rightarrow> ('os, unit) uM" where
  "cat sys fd =
     ubind (cat_loop sys fd) (\<lambda>n.
     if n < 0 then useq (u_printf sys ''cat: read error\<newline>'' []) (uexit 1) else uret ())"

primrec cat_files :: "'os sys \<Rightarrow> string list \<Rightarrow> ('os, unit) uM" where
  "cat_files sys [] = uret ()"
| "cat_files sys (f # fs) =
     ubind (usys (os_open sys f 0)) (\<lambda>fd.
     if fd < 0 then useq (u_printf sys ''cat: cannot open %s\<newline>'' [VStr (Some f)]) (uexit 1)
     else useq (cat sys fd) (useq (uclose sys fd) (cat_files sys fs)))"

definition cat_main :: "'os sys \<Rightarrow> string list \<Rightarrow> ('os, unit) uM" where
  "cat_main sys argv =
     (if length argv \<le> 1 then useq (cat sys 0) (uexit 1) else useq (cat_files sys (drop 1 argv)) (uexit 0))"

section \<open>wc\<close>

record wc_state =
  wc_l :: uint
  wc_w :: uint
  wc_c :: uint
  wc_inword :: bool

definition wc_spaces :: string where
  "wc_spaces = [CHR 0x20, CHR 0x0D, CHR 0x09, CHR 0x0A, CHR 0x0B]"

definition wc_char :: "char \<Rightarrow> wc_state \<Rightarrow> wc_state" where
  "wc_char ch t =
     (let t1 = t\<lparr>wc_c := wc_c t + 1\<rparr>;
          t2 = (if ch = NL then t1\<lparr>wc_l := wc_l t1 + 1\<rparr> else t1)
      in if u_strchr wc_spaces ch \<noteq> None then t2\<lparr>wc_inword := False\<rparr>
         else if \<not> wc_inword t2 then t2\<lparr>wc_w := wc_w t2 + 1, wc_inword := True\<rparr>
         else t2)"

partial_function (option) wc_loop :: "'os sys \<Rightarrow> int \<Rightarrow> wc_state \<Rightarrow> 'os \<Rightarrow> ((uend + int \<times> wc_state) \<times> 'os) option" where
  "wc_loop sys fd t s =
     ubind (usys (os_read sys fd 512)) (\<lambda>(n, buf).
     if n > 0 then wc_loop sys fd (fold wc_char buf t) else uret (n, t)) s"

definition wc :: "'os sys \<Rightarrow> int \<Rightarrow> string \<Rightarrow> ('os, unit) uM" where
  "wc sys fd name =
     ubind (wc_loop sys fd \<lparr>wc_l = 0, wc_w = 0, wc_c = 0, wc_inword = False\<rparr>) (\<lambda>(n, t).
     if n < 0 then useq (u_printf sys ''wc: read error\<newline>'' []) (uexit 1)
     else u_printf sys ''%d %d %d %s\<newline>'' [VInt (sint (wc_l t)), VInt (sint (wc_w t)), VInt (sint (wc_c t)), VStr (Some name)])"

primrec wc_files :: "'os sys \<Rightarrow> string list \<Rightarrow> ('os, unit) uM" where
  "wc_files sys [] = uret ()"
| "wc_files sys (f # fs) =
     ubind (usys (os_open sys f 0)) (\<lambda>fd.
     if fd < 0 then useq (u_printf sys ''wc: cannot open %s\<newline>'' [VStr (Some f)]) (uexit 1)
     else useq (wc sys fd f) (useq (uclose sys fd) (wc_files sys fs)))"

definition wc_main :: "'os sys \<Rightarrow> string list \<Rightarrow> ('os, unit) uM" where
  "wc_main sys argv =
     (if length argv \<le> 1 then useq (wc sys 0 []) (uexit 0) else useq (wc_files sys (drop 1 argv)) (uexit 0))"

section \<open>echo, kill, ln, mkdir, rm, sleep\<close>

definition uwrite :: "'os sys \<Rightarrow> string \<Rightarrow> ('os, unit) uM" where
  "uwrite sys t = useq (usys (os_write sys 1 t)) (uret ())"

fun echo_args :: "'os sys \<Rightarrow> string list \<Rightarrow> ('os, unit) uM" where
  "echo_args sys [] = uret ()"
| "echo_args sys [a] = useq (uwrite sys a) (uwrite sys [NL])"
| "echo_args sys (a # b # as) = useq (uwrite sys a) (useq (uwrite sys '' '') (echo_args sys (b # as)))"

definition echo_main :: "'os sys \<Rightarrow> string list \<Rightarrow> ('os, unit) uM" where
  "echo_main sys argv = useq (echo_args sys (drop 1 argv)) (uexit 0)"

primrec kill_args :: "'os sys \<Rightarrow> string list \<Rightarrow> ('os, unit) uM" where
  "kill_args sys [] = uret ()"
| "kill_args sys (a # as) = useq (usys (os_kill sys (u_atoi a))) (kill_args sys as)"

definition kill_main :: "'os sys \<Rightarrow> string list \<Rightarrow> ('os, unit) uM" where
  "kill_main sys argv =
     (if length argv < 2 then useq (u_fprintf sys 2 ''usage: kill pid...\<newline>'' []) (uexit 1)
      else useq (kill_args sys (drop 1 argv)) (uexit 0))"

definition ln_main :: "'os sys \<Rightarrow> string list \<Rightarrow> ('os, unit) uM" where
  "ln_main sys argv =
     (if length argv \<noteq> 3 then useq (u_fprintf sys 2 ''Usage: ln old new\<newline>'' []) (uexit 1)
      else ubind (usys (os_link sys (argv ! 1) (argv ! 2))) (\<lambda>r.
        useq (uwhen (r < 0) (u_fprintf sys 2 ''link %s %s: failed\<newline>'' [VStr (Some (argv ! 1)), VStr (Some (argv ! 2))]))
             (uexit 0)))"

primrec mkdir_args :: "'os sys \<Rightarrow> string list \<Rightarrow> ('os, unit) uM" where
  "mkdir_args sys [] = uret ()"
| "mkdir_args sys (a # as) =
     ubind (usys (os_mkdir sys a)) (\<lambda>r.
     if r < 0 then u_fprintf sys 2 ''mkdir: %s failed to create\<newline>'' [VStr (Some a)] else mkdir_args sys as)"

definition mkdir_main :: "'os sys \<Rightarrow> string list \<Rightarrow> ('os, unit) uM" where
  "mkdir_main sys argv =
     (if length argv < 2 then useq (u_fprintf sys 2 ''Usage: mkdir files...\<newline>'' []) (uexit 1)
      else useq (mkdir_args sys (drop 1 argv)) (uexit 0))"

primrec rm_args :: "'os sys \<Rightarrow> string list \<Rightarrow> ('os, unit) uM" where
  "rm_args sys [] = uret ()"
| "rm_args sys (a # as) =
     ubind (usys (os_unlink sys a)) (\<lambda>r.
     if r < 0 then u_fprintf sys 2 ''rm: %s failed to delete\<newline>'' [VStr (Some a)] else rm_args sys as)"

definition rm_main :: "'os sys \<Rightarrow> string list \<Rightarrow> ('os, unit) uM" where
  "rm_main sys argv =
     (if length argv < 2 then useq (u_fprintf sys 2 ''Usage: rm files...\<newline>'' []) (uexit 1)
      else useq (rm_args sys (drop 1 argv)) (uexit 0))"

datatype cmd_parse = wrong_char | success_parse | toomany_char

definition parse_cmd :: "string list \<Rightarrow> cmd_parse" where
  "parse_cmd argv =
     (if length argv > 2 then toomany_char
      else if list_all u_isdigit (argv ! 1) then success_parse
      else wrong_char)"

definition sleep_main :: "'os sys \<Rightarrow> string list \<Rightarrow> ('os, unit) uM" where
  "sleep_main sys argv =
     (if length argv = 1 then useq (u_printf sys ''Please enter the parameters!'' []) (uexit 1)
      else case parse_cmd argv of
        toomany_char \<Rightarrow> useq (u_printf sys ''Too many args! \<newline>'' []) (uexit 1)
      | wrong_char \<Rightarrow> useq (u_printf sys ''Cannot input alphabet, number only \<newline>'' []) (uexit 1)
      | success_parse \<Rightarrow> useq (usys (os_sleep sys (u_atoi (argv ! 1)))) (uexit 0))"

section \<open>ls and find\<close>

text \<open>The characters after the last slash.\<close>

definition after_slash :: "string \<Rightarrow> string" where
  "after_slash path = rev (takeWhile (\<lambda>c. c \<noteq> CHR ''/'') (rev path))"

definition ls_fmtname :: "string \<Rightarrow> string" where
  "ls_fmtname path =
     (let p = after_slash path
      in if u_strlen p \<ge> DIRSIZ then p else p @ replicate (DIRSIZ - u_strlen p) CHR '' '')"

definition find_fmtname :: "string \<Rightarrow> string" where
  "find_fmtname path = after_slash path"

text \<open>The fields of a \<^verbatim>\<open>struct dirent\<close> in the 16 characters read.\<close>

definition ls_inum :: "string \<Rightarrow> int" where
  "ls_inum de = of_char (de ! 0) + 256 * of_char (de ! 1)"

definition ls_name :: "string \<Rightarrow> string" where
  "ls_name de = cstr (take DIRSIZ (drop 2 de))"

definition ls_entry :: "'os sys \<Rightarrow> string \<Rightarrow> string \<Rightarrow> ('os, unit) uM" where
  "ls_entry sys path de =
     (if ls_inum de = 0 then uret ()
      else let buf = path @ ''/'' @ ls_name de in
        ubind (u_stat sys buf) (\<lambda>(r, st).
        if r < 0 \<or> st = None then u_printf sys ''ls: cannot stat %s\<newline>'' [VStr (Some buf)]
        else u_printf sys ''%s %d %d %d\<newline>'' [VStr (Some (ls_fmtname buf)), VInt (sint (st_type (the st))),
               VInt (sint (st_ino (the st))), VInt (sint (ucast (st_size (the st)) :: uint))]))"

partial_function (option) ls_dir :: "'os sys \<Rightarrow> string \<Rightarrow> int \<Rightarrow> 'os \<Rightarrow> ((uend + unit) \<times> 'os) option" where
  "ls_dir sys path fd s =
     ubind (usys (os_read sys fd 16)) (\<lambda>(n, de).
     if n = 16 then useq (ls_entry sys path de) (ls_dir sys path fd) else uret ()) s"

definition ls :: "'os sys \<Rightarrow> string \<Rightarrow> ('os, unit) uM" where
  "ls sys path =
     ubind (usys (os_open sys path 0)) (\<lambda>fd.
     if fd < 0 then u_fprintf sys 2 ''ls: cannot open %s\<newline>'' [VStr (Some path)]
     else ubind (usys (os_fstat sys fd)) (\<lambda>(r, st).
       if r < 0 then useq (u_fprintf sys 2 ''ls: cannot stat %s\<newline>'' [VStr (Some path)]) (uclose sys fd)
       else useq
         (if st_type st = T_FILE then
            u_printf sys ''%s %d %d %u\<newline>'' [VStr (Some (ls_fmtname path)), VInt (sint (st_type st)), VInt (sint (st_ino st)),
              VInt (sint (ucast (st_size st) :: uint))]
          else if st_type st = T_DIR then
            (if u_strlen path + 1 + DIRSIZ + 1 > 512 then u_printf sys ''ls: path too long\<newline>'' [] else ls_dir sys path fd)
          else uret ())
         (uclose sys fd)))"

primrec ls_args :: "'os sys \<Rightarrow> string list \<Rightarrow> ('os, unit) uM" where
  "ls_args sys [] = uret ()"
| "ls_args sys (a # as) = useq (ls sys a) (ls_args sys as)"

definition ls_main :: "'os sys \<Rightarrow> string list \<Rightarrow> ('os, unit) uM" where
  "ls_main sys argv =
     (if length argv < 2 then useq (ls sys ''.'') (uexit 0) else useq (ls_args sys (drop 1 argv)) (uexit 0))"

text \<open>\<open>Inl path\<close> is a call \<^verbatim>\<open>find(path, re)\<close>, \<open>Inr (path, fd)\<close> the loop over the directory that is open as \<^verbatim>\<open>fd\<close>.\<close>

partial_function (option) find_run ::
    "'os sys \<Rightarrow> string \<Rightarrow> string + string \<times> int \<Rightarrow> 'os \<Rightarrow> ((uend + unit) \<times> 'os) option" where
  "find_run sys re w s =
     (case w of
        Inl path \<Rightarrow>
          ubind (usys (os_open sys path 0)) (\<lambda>fd.
          if fd < 0 then u_fprintf sys 2 ''find: cannot open %s\<newline>'' [VStr (Some path)]
          else ubind (usys (os_fstat sys fd)) (\<lambda>(r, st).
            if r < 0 then useq (u_fprintf sys 2 ''find: cannot stat %s\<newline>'' [VStr (Some path)]) (uclose sys fd)
            else useq
              (if st_type st = T_FILE then uwhen (match re (find_fmtname path)) (u_printf sys ''%s\<newline>'' [VStr (Some path)])
               else if st_type st = T_DIR then
                 (if u_strlen path + 1 + DIRSIZ + 1 > 512 then u_printf sys ''find: path too long\<newline>'' []
                  else find_run sys re (Inr (path, fd)))
               else uret ())
              (uclose sys fd))) s
      | Inr (path, fd) \<Rightarrow>
          ubind (usys (os_read sys fd 16)) (\<lambda>(n, de).
          if n \<noteq> 16 then uret ()
          else if ls_inum de = 0 then find_run sys re (Inr (path, fd))
          else ubind (u_stat sys (path @ ''/'' @ ls_name de)) (\<lambda>(r, st).
            if r < 0 then
              useq (u_printf sys ''find: cannot stat %s\<newline>'' [VStr (Some (path @ ''/'' @ ls_name de))]) (find_run sys re (Inr (path, fd)))
            else if u_strcmp ''.'' (find_fmtname (path @ ''/'' @ ls_name de)) = 0 \<or>
                    u_strcmp ''..'' (find_fmtname (path @ ''/'' @ ls_name de)) = 0 then find_run sys re (Inr (path, fd))
            else useq (find_run sys re (Inl (path @ ''/'' @ ls_name de))) (find_run sys re (Inr (path, fd))))) s)"

definition find :: "'os sys \<Rightarrow> string \<Rightarrow> string \<Rightarrow> ('os, unit) uM" where
  "find sys path re = find_run sys re (Inl path)"

text \<open>With a single argument the pattern is the null pointer \<^verbatim>\<open>argv[2]\<close>, which \<^verbatim>\<open>match()\<close> dereferences.\<close>

definition find_main :: "'os sys \<Rightarrow> string list \<Rightarrow> ('os, unit) uM" where
  "find_main sys argv =
     (if length argv < 2 then useq (u_printf sys ''Parameters are not enough\<newline>'' []) (uexit 0)
      else if length argv = 2 then uundef
      else useq (find sys (argv ! 1) (argv ! 2)) (uexit 0))"

section \<open>xargs\<close>

text \<open>\<open>k\<close> is the room left in the buffer. At the end of the input the result is that of \<^verbatim>\<open>read()\<close>.\<close>

primrec read_line_loop :: "'os sys \<Rightarrow> nat \<Rightarrow> string \<Rightarrow> ('os, int \<times> string) uM" where
  "read_line_loop sys 0 buf = uret (int (length buf), buf)"
| "read_line_loop sys (Suc k) buf =
     ubind (usys (os_read sys 0 1)) (\<lambda>(n, cs).
     if n \<le> 0 then uret (n, buf)
     else if hd cs = NL \<or> hd cs = CHR 0x0D then uret (int (length buf), buf)
     else read_line_loop sys k (buf @ [hd cs]))"

definition read_line :: "'os sys \<Rightarrow> nat \<Rightarrow> ('os, int \<times> string) uM" where
  "read_line sys m = read_line_loop sys (m - 1) []"

definition XARGS_MAX :: nat where "XARGS_MAX = 32"

text \<open>The words of a line; \<open>n\<close> is \<^verbatim>\<open>arg_count\<close>.\<close>

function xargs_split :: "nat \<Rightarrow> string \<Rightarrow> string list" where
  "xargs_split n p =
     (case u_strchr p (CHR '' '') of
        Some q \<Rightarrow>
          if n < XARGS_MAX - 1 then
            (if q > 0 then take q p # xargs_split (Suc n) (drop (Suc q) p) else xargs_split n (drop (Suc q) p))
          else []
      | None \<Rightarrow> if p \<noteq> [] \<and> n < XARGS_MAX - 1 then [p] else [])"
  by pat_completeness auto
termination by (relation "measure (\<lambda>(n, p). length p)") (auto dest!: u_strchr_Some)

declare xargs_split.simps [simp del]

definition xargs_run :: "'os sys \<Rightarrow> string list \<Rightarrow> ('os, unit) uM" where
  "xargs_run sys args =
     ubind (usys (os_fork sys)) (\<lambda>pid.
     if pid < 0 then useq (u_fprintf sys 2 ''xargs: fork failed\<newline>'' []) (uexit 1)
     else if pid = 0 then
       ubind (usys (os_exec sys (hd args) args)) (\<lambda>r. case r of
         None \<Rightarrow> ureplaced
       | Some _ \<Rightarrow> useq (u_fprintf sys 2 ''xargs: exec %s failed\<newline>'' [VStr (Some (hd args))]) (uexit 1))
     else useq (usys (os_wait sys)) (uret ()))"

partial_function (option) xargs_loop :: "'os sys \<Rightarrow> string list \<Rightarrow> 'os \<Rightarrow> ((uend + unit) \<times> 'os) option" where
  "xargs_loop sys base s =
     ubind (read_line sys 512) (\<lambda>(ret, line).
     if ret \<le> 0 then uret ()
     else if u_strlen (cstr line) = 0 then xargs_loop sys base
     else useq (xargs_run sys (base @ xargs_split (length base) (cstr line))) (xargs_loop sys base)) s"

definition xargs_main :: "'os sys \<Rightarrow> string list \<Rightarrow> ('os, unit) uM" where
  "xargs_main sys argv =
     (if length argv < 2 then useq (u_fprintf sys 2 ''Usage: xargs command [args...]\<newline>'' []) (uexit 1)
      else useq (xargs_loop sys (drop 1 argv)) (uexit 0))"

section \<open>primes\<close>

definition int_of_chars :: "string \<Rightarrow> int" where
  "int_of_chars cs = sint (of_int (horner_sum of_char 256 cs) :: uint)"

definition chars_of_int :: "int \<Rightarrow> string" where
  "chars_of_int n = map (\<lambda>i. char_of (drop_bit (8 * i) n)) [0, 1, 2, 3]"

definition mapping :: "'os sys \<Rightarrow> int \<Rightarrow> int \<Rightarrow> int \<Rightarrow> ('os, unit) uM" where
  "mapping sys n pd0 pd1 =
     useq (uclose sys n) (useq (usys (os_dup sys (if n = 0 then pd0 else pd1))) (useq (uclose sys pd0) (uclose sys pd1)))"

partial_function (option) primes_filter :: "'os sys \<Rightarrow> int \<Rightarrow> 'os \<Rightarrow> ((uend + unit) \<times> 'os) option" where
  "primes_filter sys previous s =
     ubind (usys (os_read sys 0 4)) (\<lambda>(n, cs).
     if n = 0 then uret ()
     else if n \<noteq> 4 \<or> previous = 0 then uundef
     else useq (uwhen (int_of_chars cs mod previous \<noteq> 0) (uwrite sys cs)) (primes_filter sys previous)) s"

partial_function (option) primes :: "'os sys \<Rightarrow> 'os \<Rightarrow> ((uend + unit) \<times> 'os) option" where
  "primes sys s =
     ubind (usys (os_read sys 0 4)) (\<lambda>(n, cs).
     if n = 0 then uret ()
     else if n \<noteq> 4 then uundef
     else useq (u_printf sys ''prime %d\<newline>'' [VInt (int_of_chars cs)])
       (ubind (usys (os_pipe sys)) (\<lambda>(r, fd0, fd1).
        ubind (usys (os_fork sys)) (\<lambda>pid.
        if pid = 0 then useq (mapping sys 1 fd0 fd1) (primes_filter sys (int_of_chars cs))
        else useq (usys (os_wait sys)) (useq (mapping sys 0 fd0 fd1) (primes sys)))))) s"

primrec primes_feed :: "'os sys \<Rightarrow> int \<Rightarrow> nat \<Rightarrow> ('os, unit) uM" where
  "primes_feed sys i 0 = uret ()"
| "primes_feed sys i (Suc n) = useq (uwrite sys (chars_of_int i)) (primes_feed sys (i + 1) n)"

definition primes_main :: "'os sys \<Rightarrow> ('os, unit) uM" where
  "primes_main sys =
     ubind (usys (os_pipe sys)) (\<lambda>(r, fd0, fd1).
     ubind (usys (os_fork sys)) (\<lambda>pid.
     useq (if pid = 0 then useq (mapping sys 1 fd0 fd1) (primes_feed sys 2 34)
           else useq (usys (os_wait sys)) (useq (mapping sys 0 fd0 fd1) (primes sys)))
          (uexit 0)))"

section \<open>init\<close>

partial_function (option) init_wait :: "'os sys \<Rightarrow> int \<Rightarrow> 'os \<Rightarrow> ((uend + unit) \<times> 'os) option" where
  "init_wait sys child s =
     ubind (usys (os_wait sys)) (\<lambda>wpid. if wpid \<ge> 0 \<and> wpid \<noteq> child then init_wait sys child else uret ()) s"

definition init_child :: "'os sys \<Rightarrow> ('os, unit) uM" where
  "init_child sys =
     ubind (usys (os_exec sys ''sh'' [''sh''])) (\<lambda>r. case r of
       None \<Rightarrow> ureplaced
     | Some _ \<Rightarrow> useq (u_printf sys ''init: exec sh failed\<newline>'' []) (uexit 1))"

partial_function (option) init_loop :: "'os sys \<Rightarrow> 'os \<Rightarrow> ((uend + unit) \<times> 'os) option" where
  "init_loop sys s =
     useq (u_printf sys ''init: starting sh\<newline>'' [])
    (ubind (usys (os_fork sys)) (\<lambda>pid.
     if pid < 0 then useq (u_printf sys ''init: fork failed\<newline>'' []) (uexit 1)
     else if pid = 0 then init_child sys
     else useq (init_wait sys pid) (init_loop sys))) s"

definition init_main :: "'os sys \<Rightarrow> ('os, unit) uM" where
  "init_main sys =
     ubind (usys (os_open sys ''console'' 2)) (\<lambda>r.
     useq (uwhen (r < 0) (useq (usys (os_mknod sys ''console'' 1 1)) (useq (usys (os_open sys ''console'' 2)) (uret ()))))
    (useq (usys (os_dup sys 0)) (useq (usys (os_dup sys 0)) (init_loop sys))))"

end
