(* ===== verification/Xv6_Utils_Proofs.thy ===== *)
theory Xv6_Utils_Proofs
  imports Xv6_Utils
begin

text \<open>
  \<^verbatim>\<open>wc\<close> counts lines, words and characters however the file is read, \<^verbatim>\<open>cat\<close> copies, and \<^verbatim>\<open>xargs\<close> stops at
  the first empty line.
\<close>

section \<open>Copying\<close>

lemma cat_loop_run:
  assumes "filter_io sys fd inp out"
  shows "\<exists>s'. cat_loop sys fd s = Some (Inr 0, s') \<and> inp s' = [] \<and> out s' = out s @ inp s"
proof (induction "length (inp s)" arbitrary: s rule: less_induct)
  case less
  obtain cs s1 where r: "usys (os_read sys fd 512) s = Some (Inr (int (length cs), cs), s1)" "inp s = cs @ inp s1"
      "out s1 = out s" "cs = [] \<Longrightarrow> inp s = []"
    using filter_readE [OF assms, of 512 s] by (metis numeral_neq_zero)
  show ?case
  proof (cases "cs = []")
    case True
    then show ?thesis using r by (subst cat_loop.simps) simp
  next
    case False
    obtain s2 where s2: "usys (os_write sys 1 cs) s1 = Some (Inr (int (length cs)), s2)" "inp s2 = inp s1" "out s2 = out s1 @ cs"
      using filter_writeE [OF assms, of cs s1] by blast
    then have "\<exists>s'. cat_loop sys fd s2 = Some (Inr 0, s') \<and> inp s' = [] \<and> out s' = out s2 @ inp s2"
      using less.hyps [of s2] s2(2) False r(2) by simp
    then show ?thesis using False r s2 by (subst cat_loop.simps) auto
  qed
qed

section \<open>Counting\<close>

definition spacelike :: "char \<Rightarrow> bool" where
  "spacelike ch \<longleftrightarrow> ch \<in> set wc_spaces"

text \<open>A word starts at each character that is no space and does not follow another such character.\<close>

definition word_starts :: "string \<Rightarrow> nat set" where
  "word_starts xs = {i. i < length xs \<and> \<not> spacelike (xs ! i) \<and> (i = 0 \<or> spacelike (xs ! (i - 1)))}"

lemma word_starts_Nil [simp]: "word_starts [] = {}"
  by (simp add: word_starts_def)

lemma word_starts_snoc:
  "word_starts (xs @ [ch]) = word_starts xs \<union> (if \<not> spacelike ch \<and> (xs = [] \<or> spacelike (last xs)) then {length xs} else {})"
proof (rule set_eqI)
  fix i
  consider "i < length xs" | "i = length xs" | "length xs < i" by linarith
  then show "i \<in> word_starts (xs @ [ch]) \<longleftrightarrow>
      i \<in> word_starts xs \<union> (if \<not> spacelike ch \<and> (xs = [] \<or> spacelike (last xs)) then {length xs} else {})"
  proof cases
    case 2
    then show ?thesis by (cases "xs = []") (auto simp: word_starts_def nth_append last_conv_nth)
  qed (auto simp: word_starts_def nth_append)
qed

lemma finite_word_starts [simp]: "finite (word_starts xs)"
  by (rule finite_subset [of _ "{..<length xs}"]) (auto simp: word_starts_def)

lemma wc_fold:
  "fold wc_char xs \<lparr>wc_l = 0, wc_w = 0, wc_c = 0, wc_inword = False\<rparr> =
    \<lparr>wc_l = of_nat (count_list xs NL), wc_w = of_nat (card (word_starts xs)), wc_c = of_nat (length xs),
     wc_inword = (xs \<noteq> [] \<and> \<not> spacelike (last xs))\<rparr>"
proof (induction xs rule: rev_induct)
  case (snoc ch xs)
  have "length xs \<notin> word_starts xs" by (simp add: word_starts_def)
  then have "card (word_starts (xs @ [ch])) = card (word_starts xs) + (if \<not> spacelike ch \<and> (xs = [] \<or> spacelike (last xs)) then 1 else 0)"
    by (simp add: word_starts_snoc)
  moreover have "count_list (xs @ [ch]) NL = count_list xs NL + (if ch = NL then 1 else 0)" by simp
  moreover have "u_strchr wc_spaces ch \<noteq> None \<longleftrightarrow> spacelike ch" by (simp add: u_strchr_None spacelike_def)
  ultimately show ?case using snoc by (auto simp: wc_char_def Let_def)
qed simp

lemma wc_loop_run:
  assumes "filter_io sys fd inp out"
  shows "\<exists>s'. wc_loop sys fd t s = Some (Inr (0, fold wc_char (inp s) t), s') \<and> inp s' = [] \<and> out s' = out s"
proof (induction "length (inp s)" arbitrary: s t rule: less_induct)
  case less
  obtain cs s1 where r: "usys (os_read sys fd 512) s = Some (Inr (int (length cs), cs), s1)" "inp s = cs @ inp s1"
      "out s1 = out s" "cs = [] \<Longrightarrow> inp s = []"
    using filter_readE [OF assms, of 512 s] by (metis numeral_neq_zero)
  show ?case
  proof (cases "cs = []")
    case True
    then show ?thesis using r by (subst wc_loop.simps) simp
  next
    case False
    then have "\<exists>s'. wc_loop sys fd (fold wc_char cs t) s1 = Some (Inr (0, fold wc_char (inp s1) (fold wc_char cs t)), s') \<and>
        inp s' = [] \<and> out s' = out s1"
      using less r(2) by simp
    then show ?thesis using False r by (subst wc_loop.simps) auto
  qed
qed

text \<open>
  C37: \<^verbatim>\<open>wc()\<close> returns, has read the whole file, and prints the number of newlines, of words and of
  characters (each as a 32-bit \<^verbatim>\<open>int\<close>), however \<^verbatim>\<open>read()\<close> cuts the file into pieces: a word that spans two
  pieces is counted once.
\<close>

theorem wc_counts:
  assumes "filter_io sys fd inp out"
  shows "\<exists>s'. wc sys fd name s = u_printf sys ''%d %d %d %s\<newline>''
      [VInt (sint (of_nat (count_list (inp s) NL) :: uint)), VInt (sint (of_nat (card (word_starts (inp s))) :: uint)),
       VInt (sint (of_nat (length (inp s)) :: uint)), VStr (Some name)] s' \<and> inp s' = [] \<and> out s' = out s"
  using wc_loop_run [OF assms, of "\<lparr>wc_l = 0, wc_w = 0, wc_c = 0, wc_inword = False\<rparr>" s]
  by (auto simp: wc_def wc_fold)

section \<open>xargs\<close>

text \<open>
  An empty line ends \<^verbatim>\<open>xargs\<close>: it returns without running anything and leaves the rest of its input
  unread, because the length 0 that \<^verbatim>\<open>read_line()\<close> returns for an empty line is taken for the end of the
  input. The test that is meant to skip empty lines is never reached.
\<close>

lemma xargs_empty_line:
  assumes "filter_io sys 0 inp out" and "inp s = NL # rest"
  shows "\<exists>s'. xargs_loop sys base s = Some (Inr (), s') \<and> inp s' = rest \<and> out s' = out s"
proof -
  obtain cs s1 where r: "usys (os_read sys 0 1) s = Some (Inr (int (length cs), cs), s1)" "length cs \<le> 1" "inp s = cs @ inp s1"
      "out s1 = out s" "cs \<noteq> []"
    using filter_readE [OF assms(1), of 1 s] assms(2) by (metis list.distinct(1) zero_neq_one)
  then have "cs = [NL]" "inp s1 = rest" using assms(2) by (cases cs; simp)+
  moreover have "read_line sys 512 s = Some (Inr (0, []), s1)" if "cs = [NL]"
    using r(1) that by (simp add: read_line_def numeral_eq_Suc)
  ultimately show ?thesis using r(4) by (subst xargs_loop.simps) simp
qed

section \<open>Witnesses\<close>

theorem wc_counts_witness:
  "\<exists>s'. wc sys1 0 ''f'' (''ab c'' @ [NL], []) = u_printf sys1 ''%d %d %d %s\<newline>'' [VInt 1, VInt 2, VInt 5, VStr (Some ''f'')] s' \<and>
    fst s' = []"
proof -
  have "word_starts (''ab c'' @ [NL]) = {0, 3}"
    by (auto simp: word_starts_def spacelike_def wc_spaces_def nth_Cons' less_Suc_eq numeral_eq_Suc split: if_splits)
  then show ?thesis using wc_counts [OF sys1_filter, of 0 "''f''" "(''ab c'' @ [NL], [])"] by auto
qed

lemma xargs_empty_line_witness:
  "\<exists>s'. xargs_loop sys1 [''echo''] (NL # ''a'' @ [NL], []) = Some (Inr (), s') \<and> fst s' = ''a'' @ [NL]"
  using xargs_empty_line [OF sys1_filter, of "(NL # ''a'' @ [NL], [])" "''a'' @ [NL]" "[''echo'']"] by auto

end
