(* ===== verification/Xv6_Lock_Protocol.thy ===== *)
theory Xv6_Lock_Protocol
  imports Xv6_Spinlock
begin

text \<open>
  Spin locks on several harts at once (\<^verbatim>\<open>acquire\<close>, \<^verbatim>\<open>release\<close> and \<^verbatim>\<open>holding\<close> of
  \<^verbatim>\<open>kernel/spinlock.c\<close>). The functions are cut into the accesses to shared memory they
  perform; any hart may take the next one. \<open>lheld\<close> records which locks the code of a hart has
  acquired and not begun to release: it is not kernel state, it is what mutual exclusion is about.
\<close>

datatype lpc =
    Idle
  | AcqPush lockid | AcqLocked lockid | AcqCpu lockid | AcqCount lockid
  | AcqSwap lockid | AcqNts lockid | AcqRecord lockid
  | RelLocked lockid | RelCpu lockid | RelClear lockid | RelUnlock lockid | RelPop lockid
  | Panicked string

record lworld =
  mach :: machine
  lpc :: "nat \<Rightarrow> lpc"
  lheld :: "nat \<Rightarrow> lockid set"

section \<open>One access to shared memory\<close>

definition on_hart :: "nat \<Rightarrow> machine \<Rightarrow> machine" where
  "on_hart i s = s\<lparr>hw := (hw s)\<lparr>tp := i\<rparr>\<rparr>"

definition go :: "nat \<Rightarrow> (machine, 'a) kM \<Rightarrow> ('a \<Rightarrow> lpc) \<Rightarrow> lworld \<Rightarrow> lworld" where
  "go i m k w =
     (case m (on_hart i (mach w)) of
        Ok a s \<Rightarrow> w\<lparr>mach := s, lpc := (lpc w)(i := k a)\<rparr>
      | Panic e \<Rightarrow> w\<lparr>lpc := (lpc w)(i := Panicked e)\<rparr>
      | _ \<Rightarrow> w)"

definition lock_is :: "lockid \<Rightarrow> (machine, spinlock) kM" where
  "lock_is l = gets (\<lambda>s. locks (hw s) l)"

definition swap_locked :: "lockid \<Rightarrow> (machine, bool) kM" where
  "swap_locked l = bind (lock_is l) (\<lambda>k. seq (set_lock l (\<lambda>k. k\<lparr>locked := True\<rparr>)) (ret (locked k)))"

definition acquire_step :: "nat \<Rightarrow> lworld \<Rightarrow> lworld" where
  "acquire_step i w = (case lpc w i of
       AcqPush l \<Rightarrow> go i push_off (\<lambda>_. AcqLocked l) w
     | AcqLocked l \<Rightarrow> go i (lock_is l) (\<lambda>k. if locked k then AcqCpu l else AcqCount l) w
     | AcqCpu l \<Rightarrow> go i (lock_is l) (\<lambda>k. if lcpu k = Some i then Panicked ''acquire'' else AcqCount l) w
     | AcqCount l \<Rightarrow> go i (set_lock l (\<lambda>k. k\<lparr>lk_n := lk_n k + 1\<rparr>)) (\<lambda>_. AcqSwap l) w
     | AcqSwap l \<Rightarrow> go i (swap_locked l) (\<lambda>old. if old then AcqNts l else AcqRecord l) w
     | AcqNts l \<Rightarrow> go i (set_lock l (\<lambda>k. k\<lparr>lk_nts := lk_nts k + 1\<rparr>)) (\<lambda>_. AcqSwap l) w
     | AcqRecord l \<Rightarrow> (go i (set_lock l (\<lambda>k. k\<lparr>lcpu := Some i\<rparr>)) (\<lambda>_. Idle) w)
                       \<lparr>lheld := (lheld w)(i := insert l (lheld w i))\<rparr>
     | _ \<Rightarrow> w)"

definition release_step :: "nat \<Rightarrow> lworld \<Rightarrow> lworld" where
  "release_step i w = (case lpc w i of
       RelLocked l \<Rightarrow> go i (lock_is l) (\<lambda>k. if locked k then RelCpu l else Panicked ''release'') w
     | RelCpu l \<Rightarrow>
         if lcpu (locks (hw (mach w)) l) = Some i
         then w\<lparr>lpc := (lpc w)(i := RelClear l), lheld := (lheld w)(i := lheld w i - {l})\<rparr>
         else w\<lparr>lpc := (lpc w)(i := Panicked ''release'')\<rparr>
     | RelClear l \<Rightarrow> go i (set_lock l (\<lambda>k. k\<lparr>lcpu := None\<rparr>)) (\<lambda>_. RelUnlock l) w
     | RelUnlock l \<Rightarrow> go i (set_lock l (\<lambda>k. k\<lparr>locked := False\<rparr>)) (\<lambda>_. RelPop l) w
     | RelPop l \<Rightarrow> go i pop_off (\<lambda>_. Idle) w
     | _ \<Rightarrow> w)"

section \<open>All harts together\<close>

text \<open>
  A hart outside the lock code may call \<^verbatim>\<open>acquire\<close> or \<^verbatim>\<open>release\<close> on any lock, and may turn
  interrupts on or off while its nesting count is zero (as \<^verbatim>\<open>scheduler\<close> and \<^verbatim>\<open>usertrap\<close> do).
\<close>

inductive harts :: "lworld \<Rightarrow> lworld \<Rightarrow> bool" where
  call_acquire: "lpc w i = Idle \<Longrightarrow> harts w (w\<lparr>lpc := (lpc w)(i := AcqPush l)\<rparr>)"
| call_release: "lpc w i = Idle \<Longrightarrow> harts w (w\<lparr>lpc := (lpc w)(i := RelLocked l)\<rparr>)"
| in_acquire: "harts w (acquire_step i w)"
| in_release: "harts w (release_step i w)"
| intr: "lpc w i = Idle \<Longrightarrow> noff (cpus (hw (mach w)) i) = 0 \<Longrightarrow> m \<in> {intr_on, intr_off} \<Longrightarrow>
    harts w (go i m (\<lambda>_. Idle) w)"

inductive reach :: "lworld \<Rightarrow> lworld \<Rightarrow> bool" for w0 where
  start: "reach w0 w0"
| step: "reach w0 w \<Longrightarrow> harts w w' \<Longrightarrow> reach w0 w'"

definition all_idle :: "lworld \<Rightarrow> bool" where
  "all_idle w \<longleftrightarrow> (\<forall>i. lpc w i = Idle \<and> lheld w i = {} \<and> noff (cpus (hw (mach w)) i) = 0) \<and>
     (\<forall>l. \<not> locked (locks (hw (mach w)) l) \<and> lcpu (locks (hw (mach w)) l) = None)"

section \<open>The invariant\<close>

text \<open>
  \<open>depth\<close>: how far the nesting count is ahead of the locks held; \<open>grabbed\<close>: the lock whose
  \<^verbatim>\<open>locked\<close> word the hart has set without being in its critical section; \<open>recorded\<close>: the
  lock whose \<^verbatim>\<open>cpu\<close> field still names the hart.
\<close>

fun depth :: "lpc \<Rightarrow> int" where
  "depth Idle = 0" | "depth (AcqPush l) = 0" | "depth (RelLocked l) = 0" | "depth (RelCpu l) = 0"
| "depth (Panicked e) = (if e = ''acquire'' then 1 else 0)" | "depth _ = 1"

fun grabbed :: "lpc \<Rightarrow> lockid set" where
  "grabbed (AcqRecord l) = {l}" | "grabbed (RelClear l) = {l}" | "grabbed (RelUnlock l) = {l}"
| "grabbed _ = {}"

fun recorded :: "lpc \<Rightarrow> lockid set" where
  "recorded (RelClear l) = {l}" | "recorded _ = {}"

definition owned :: "lpc \<Rightarrow> lockid set \<Rightarrow> lockid set" where
  "owned p H = H \<union> grabbed p"

definition lock_inv :: "(lockid \<Rightarrow> bool) \<Rightarrow> (lockid \<Rightarrow> nat option) \<Rightarrow> (nat \<Rightarrow> lpc) \<Rightarrow> (nat \<Rightarrow> lockid set) \<Rightarrow> bool" where
  "lock_inv L C P H \<longleftrightarrow>
     (\<forall>i l. l \<in> owned (P i) (H i) \<longrightarrow> L l) \<and>
     (\<forall>i j l. l \<in> owned (P i) (H i) \<longrightarrow> l \<in> owned (P j) (H j) \<longrightarrow> i = j) \<and>
     (\<forall>i l. C l = Some i \<longleftrightarrow> l \<in> H i \<union> recorded (P i)) \<and>
     (\<forall>i. H i \<inter> grabbed (P i) = {})"

definition count_inv :: "(nat \<Rightarrow> int) \<Rightarrow> (nat \<Rightarrow> bool) \<Rightarrow> (nat \<Rightarrow> lpc) \<Rightarrow> (nat \<Rightarrow> lockid set) \<Rightarrow> bool" where
  "count_inv N S P H \<longleftrightarrow>
     (\<forall>i. finite (H i) \<and> N i = int (card (H i)) + depth (P i) \<and> (0 < N i \<longrightarrow> \<not> S i) \<and>
          (\<forall>e. P i = Panicked e \<longrightarrow> e \<in> {''acquire'', ''release''}))"

abbreviation lockedw :: "lworld \<Rightarrow> lockid \<Rightarrow> bool" where
  "lockedw w \<equiv> \<lambda>l. locked (locks (hw (mach w)) l)"

abbreviation cpuw :: "lworld \<Rightarrow> lockid \<Rightarrow> nat option" where
  "cpuw w \<equiv> \<lambda>l. lcpu (locks (hw (mach w)) l)"

abbreviation noffw :: "lworld \<Rightarrow> nat \<Rightarrow> int" where
  "noffw w \<equiv> \<lambda>i. noff (cpus (hw (mach w)) i)"

abbreviation siew :: "lworld \<Rightarrow> nat \<Rightarrow> bool" where
  "siew w \<equiv> \<lambda>i. sstatus (hw (mach w)) i AND SSTATUS_SIE \<noteq> 0"

definition world_inv :: "lworld \<Rightarrow> bool" where
  "world_inv w \<longleftrightarrow> lock_inv (lockedw w) (cpuw w) (lpc w) (lheld w) \<and>
     count_inv (noffw w) (siew w) (lpc w) (lheld w)"

text \<open>A step that changes neither ownership nor the records of a hart keeps the lock part.\<close>

lemma lock_invI:
  assumes "\<And>i l. l \<in> owned (P i) (H i) \<Longrightarrow> L l"
    and "\<And>i j l. l \<in> owned (P i) (H i) \<Longrightarrow> l \<in> owned (P j) (H j) \<Longrightarrow> i = j"
    and "\<And>i l. C l = Some i \<longleftrightarrow> l \<in> H i \<union> recorded (P i)"
    and "\<And>i. H i \<inter> grabbed (P i) = {}"
  shows "lock_inv L C P H"
  using assms unfolding lock_inv_def by blast

lemma lock_invD:
  assumes "lock_inv L C P H"
  shows "l \<in> owned (P i) (H i) \<Longrightarrow> L l"
    and "l \<in> owned (P i) (H i) \<Longrightarrow> l \<in> owned (P j) (H j) \<Longrightarrow> i = j"
    and "C l = Some i \<longleftrightarrow> l \<in> H i \<union> recorded (P i)"
    and "H i \<inter> grabbed (P i) = {}"
  using assms unfolding lock_inv_def by blast+

lemma lock_inv_pc:
  assumes "lock_inv L C P H" "grabbed p = grabbed (P i)" "recorded p = recorded (P i)"
  shows "lock_inv L C (P(i := p)) H"
proof -
  have "grabbed ((P(i := p)) j) = grabbed (P j)" "recorded ((P(i := p)) j) = recorded (P j)" for j
    using assms(2,3) by simp_all
  then show ?thesis using assms(1) unfolding lock_inv_def owned_def by presburger
qed

lemma count_inv_pc:
  "count_inv N S P H \<Longrightarrow> depth p = depth (P i) \<Longrightarrow> \<forall>e. p = Panicked e \<longrightarrow> e \<in> {''acquire'', ''release''} \<Longrightarrow>
   count_inv N S (P(i := p)) H"
  unfolding count_inv_def by simp

lemma lock_inv_swap:
  assumes "lock_inv L C P H" "P i = AcqSwap l" "\<not> L l"
  shows "lock_inv (L(l := True)) C (P(i := AcqRecord l)) H"
proof -
  note I = lock_invD [OF assms(1)]
  have O: "owned ((P(i := AcqRecord l)) j) (H j) = (if j = i then insert l (H i) else owned (P j) (H j))"
    and own: "owned (P i) (H i) = H i" for j
    using assms(2) by (auto simp: owned_def)
  have free: "l \<notin> owned (P j) (H j)" for j using I(1) assms(3) by blast
  show ?thesis
  proof (rule lock_invI)
    show "(L(l := True)) k" if "k \<in> owned ((P(i := AcqRecord l)) j) (H j)" for j k
      using that I(1) own unfolding O by (auto split: if_splits)
    show "j = j'" if "k \<in> owned ((P(i := AcqRecord l)) j) (H j)" "k \<in> owned ((P(i := AcqRecord l)) j') (H j')" for j j' k
      using that I(2) own free unfolding O by (metis insert_iff)
    show "C k = Some j \<longleftrightarrow> k \<in> H j \<union> recorded ((P(i := AcqRecord l)) j)" for j k
      using I(3) [of k j] assms(2) by simp
    show "H j \<inter> grabbed ((P(i := AcqRecord l)) j) = {}" for j
      using I(4) [of j] free [of i] own by simp
  qed
qed

lemma lock_inv_record:
  assumes "lock_inv L C P H" "P i = AcqRecord l"
  shows "lock_inv L (C(l := Some i)) (P(i := Idle)) (H(i := insert l (H i)))"
proof -
  note I = lock_invD [OF assms(1)]
  have O: "owned ((P(i := Idle)) j) ((H(i := insert l (H i))) j) = owned (P j) (H j)" for j
    using assms(2) by (auto simp: owned_def)
  have mine: "l \<in> owned (P j) (H j) \<longleftrightarrow> j = i" for j using I(2) [of l i j] assms(2) by (auto simp: owned_def)
  show ?thesis
  proof (rule lock_invI)
    show "(C(l := Some i)) k = Some j \<longleftrightarrow> k \<in> (H(i := insert l (H i))) j \<union> recorded ((P(i := Idle)) j)" for j k
    proof (cases "k = l")
      case True
      have "l \<notin> H j \<union> recorded (P j)" if "j \<noteq> i"
        using mine [of j] that by (cases "P j") (auto simp: owned_def)
      with True show ?thesis by auto
    next
      case False
      then show ?thesis using I(3) [of k j] assms(2) by auto
    qed
  qed (use I O in \<open>auto split: if_splits\<close>)
qed

lemma lock_inv_release:
  assumes "lock_inv L C P H" "P i = RelCpu l" "C l = Some i"
  shows "lock_inv L C (P(i := RelClear l)) (H(i := H i - {l}))"
proof -
  note I = lock_invD [OF assms(1)]
  have "l \<in> H i" using I(3) [of l i] assms(2,3) by simp
  then have O: "owned ((P(i := RelClear l)) j) ((H(i := H i - {l})) j) = owned (P j) (H j)" for j
    using assms(2) by (auto simp: owned_def)
  show ?thesis
  proof (rule lock_invI)
    show "C k = Some j \<longleftrightarrow> k \<in> (H(i := H i - {l})) j \<union> recorded ((P(i := RelClear l)) j)" for j k
      using I(3) [of k j] assms(2) \<open>l \<in> H i\<close> by auto
  qed (use I O in \<open>auto split: if_splits\<close>)
qed

lemma lock_inv_clear:
  assumes "lock_inv L C P H" "P i = RelClear l"
  shows "lock_inv L (C(l := None)) (P(i := RelUnlock l)) H"
proof -
  note I = lock_invD [OF assms(1)]
  have O: "owned ((P(i := RelUnlock l)) j) (H j) = owned (P j) (H j)" for j
    using assms(2) by (auto simp: owned_def)
  have "l \<notin> H j" for j
    using I(2) [of l i j] I(4) [of i] assms(2) by (cases "j = i") (auto simp: owned_def)
  moreover have "l \<notin> recorded (P j)" if "j \<noteq> i" for j
    using I(2) [of l i j] assms(2) that by (cases "P j") (auto simp: owned_def)
  ultimately have "(C(l := None)) k = Some j \<longleftrightarrow> k \<in> H j \<union> recorded ((P(i := RelUnlock l)) j)" for j k
    using I(3) [of k j] assms(2) by (cases "k = l"; cases "j = i") auto
  moreover have "H j \<inter> grabbed ((P(i := RelUnlock l)) j) = {}" for j
    using I(4) [of j] assms(2) by auto
  ultimately show ?thesis using I(1,2) unfolding O [symmetric] by (intro lock_invI) blast+
qed

lemma lock_inv_unlock:
  assumes "lock_inv L C P H" "P i = RelUnlock l"
  shows "lock_inv (L(l := False)) C (P(i := RelPop l)) H"
proof -
  note I = lock_invD [OF assms(1)]
  have "l \<notin> H i" using I(4) [of i] assms(2) by simp
  have "l \<in> owned (P i) (H i)" using assms(2) by (simp add: owned_def)
  then have free: "l \<notin> owned ((P(i := RelPop l)) j) (H j)" for j
    using I(2) [of l i j] \<open>l \<notin> H i\<close> by (cases "j = i") (auto simp: owned_def)
  have O: "owned ((P(i := RelPop l)) j) (H j) \<subseteq> owned (P j) (H j)" for j
    using assms(2) by (auto simp: owned_def)
  show ?thesis
  proof (rule lock_invI)
    show "(L(l := False)) k" if "k \<in> owned ((P(i := RelPop l)) j) (H j)" for j k
      using that free O I(1) by (metis fun_upd_apply subsetD)
    show "j = j'" if "k \<in> owned ((P(i := RelPop l)) j) (H j)" "k \<in> owned ((P(i := RelPop l)) j') (H j')" for j j' k
      using that O I(2) by blast
    show "C k = Some j \<longleftrightarrow> k \<in> H j \<union> recorded ((P(i := RelPop l)) j)" for j k
      using I(3) [of k j] assms(2) by simp
    show "H j \<inter> grabbed ((P(i := RelPop l)) j) = {}" for j
      using I(4) [of j] by simp
  qed
qed

text \<open>The nesting count and the interrupt bit.\<close>

lemma count_inv_push:
  assumes "count_inv N S P H" "P i = AcqPush l"
  shows "count_inv (N(i := N i + 1)) (S(i := False)) (P(i := AcqLocked l)) H"
  using assms unfolding count_inv_def by simp

lemma count_inv_move:
  assumes "count_inv N S P H" "finite H'" "int (card H') + depth p = int (card (H i)) + depth (P i)"
    and "\<forall>e. p \<noteq> Panicked e"
  shows "count_inv N S (P(i := p)) (H(i := H'))"
  using assms unfolding count_inv_def by simp

lemma count_inv_pop:
  assumes "count_inv N S P H" "P i = RelPop l" "S' \<longrightarrow> N i = 1 \<or> S i"
  shows "count_inv (N(i := N i - 1)) (S(i := S')) (P(i := Idle)) H"
  using assms unfolding count_inv_def by auto

lemma count_inv_intr:
  assumes "count_inv N S P H" "P i = Idle" "N i = 0"
  shows "count_inv N (S(i := b)) (P(i := Idle)) H"
  using assms unfolding count_inv_def by auto

section \<open>Every step keeps the invariant\<close>

lemma on_hart_sel [simp]:
  "tp (hw (on_hart i s)) = i" "locks (hw (on_hart i s)) = locks (hw s)"
  "cpus (hw (on_hart i s)) = cpus (hw s)" "sstatus (hw (on_hart i s)) = sstatus (hw s)"
  by (simp_all add: on_hart_def)

lemma go_lock_is [simp]:
  "go i (lock_is l) k w = w\<lparr>mach := on_hart i (mach w), lpc := (lpc w)(i := k (locks (hw (mach w)) l))\<rparr>"
  by (simp add: go_def lock_is_def)

lemma world_invI:
  assumes "lock_inv L C P H" "count_inv N S P H" "lpc w = P" "lheld w = H"
    and "lockedw w = L" "cpuw w = C" "noffw w = N" "siew w = S"
  shows "world_inv w"
  using assms by (simp add: world_inv_def)

lemma world_invD:
  assumes "world_inv w"
  shows "lock_inv (lockedw w) (cpuw w) (lpc w) (lheld w)"
    and "count_inv (noffw w) (siew w) (lpc w) (lheld w)"
  using assms by (simp_all add: world_inv_def)

lemmas step_defs = acquire_step_def release_step_def go_def lock_is_def set_lock_def swap_locked_def

text \<open>A step after which hart \<open>i\<close> has another location and everything else the invariant
  mentions is as before.\<close>

lemma world_inv_pc:
  assumes "world_inv w" "lpc w' = (lpc w)(i := p)" "lheld w' = lheld w"
    and "lockedw w' = lockedw w" "cpuw w' = cpuw w" "noffw w' = noffw w" "siew w' = siew w"
    and "grabbed p = grabbed (lpc w i)" "recorded p = recorded (lpc w i)" "depth p = depth (lpc w i)"
    and "\<forall>e. p = Panicked e \<longrightarrow> e \<in> {''acquire'', ''release''}"
  shows "world_inv w'"
  using lock_inv_pc [OF world_invD(1) [OF assms(1)] assms(8,9)]
    count_inv_pc [OF world_invD(2) [OF assms(1)] assms(10,11)] assms(2-7)
  by (simp add: world_inv_def)

lemma acquire_step_inv:
  assumes "world_inv w"
  shows "world_inv (acquire_step i w)"
proof -
  note L = world_invD(1) [OF assms] and N = world_invD(2) [OF assms]
  show ?thesis
  proof (cases "lpc w i")
    case (AcqPush l)
    then show ?thesis
      by (intro world_invI [OF lock_inv_pc [OF L, of "AcqLocked l" i] count_inv_push [OF N, of i l]])
        (auto simp: step_defs push_off_run)
  next
    case (AcqLocked l)
    then show ?thesis
      by (intro world_inv_pc [OF assms, of _ i "if lockedw w l then AcqCpu l else AcqCount l"]) (auto simp: step_defs)
  next
    case (AcqCpu l)
    then show ?thesis
      by (intro world_inv_pc [OF assms, of _ i "if cpuw w l = Some i then Panicked ''acquire'' else AcqCount l"])
        (auto simp: step_defs)
  next
    case (AcqCount l)
    then show ?thesis
      by (intro world_inv_pc [OF assms, of _ i "AcqSwap l"]) (auto simp: step_defs)
  next
    case (AcqSwap l)
    show ?thesis
    proof (cases "lockedw w l")
      case True
      then show ?thesis using AcqSwap
        by (intro world_inv_pc [OF assms, of _ i "AcqNts l"]) (auto simp: step_defs)
    next
      case False
      then show ?thesis using AcqSwap
        by (intro world_invI [OF lock_inv_swap [OF L, of i l] count_inv_pc [OF N, of "AcqRecord l" i]])
          (auto simp: step_defs)
    qed
  next
    case (AcqNts l)
    then show ?thesis
      by (intro world_inv_pc [OF assms, of _ i "AcqSwap l"]) (auto simp: step_defs)
  next
    case (AcqRecord l)
    have "l \<notin> lheld w i" using lock_invD(4) [OF L, of i] AcqRecord by simp
    moreover have "finite (lheld w i)" using N by (simp add: count_inv_def)
    ultimately show ?thesis using AcqRecord
      by (intro world_invI [OF lock_inv_record [OF L, of i l] count_inv_move [OF N, of "insert l (lheld w i)" Idle i]])
        (auto simp: step_defs)
  qed (use assms in \<open>simp_all add: acquire_step_def\<close>)
qed

lemma release_step_inv:
  assumes "world_inv w"
  shows "world_inv (release_step i w)"
proof -
  note L = world_invD(1) [OF assms] and N = world_invD(2) [OF assms]
  show ?thesis
  proof (cases "lpc w i")
    case (RelLocked l)
    then show ?thesis
      by (intro world_inv_pc [OF assms, of _ i "if lockedw w l then RelCpu l else Panicked ''release''"])
        (auto simp: step_defs)
  next
    case (RelCpu l)
    show ?thesis
    proof (cases "cpuw w l = Some i")
      case False
      then show ?thesis using RelCpu
        by (intro world_inv_pc [OF assms, of _ i "Panicked ''release''"]) (auto simp: step_defs)
    next
      case True
      then have "l \<in> lheld w i" using lock_invD(3) [OF L, of l i] RelCpu by simp
      moreover have f: "finite (lheld w i)" using N by (simp add: count_inv_def)
      ultimately have "int (card (lheld w i - {l})) + 1 = int (card (lheld w i))"
        using card_Suc_Diff1 by fastforce
      then show ?thesis using True RelCpu f
        by (intro world_invI [OF lock_inv_release [OF L, of i l] count_inv_move [OF N, of "lheld w i - {l}" "RelClear l" i]])
          (auto simp: step_defs)
    qed
  next
    case (RelClear l)
    then show ?thesis
      by (intro world_invI [OF lock_inv_clear [OF L, of i l] count_inv_pc [OF N, of "RelUnlock l" i]])
        (auto simp: step_defs)
  next
    case (RelUnlock l)
    then show ?thesis
      by (intro world_invI [OF lock_inv_unlock [OF L, of i l] count_inv_pc [OF N, of "RelPop l" i]])
        (auto simp: step_defs)
  next
    case (RelPop l)
    then have "1 \<le> noffw w i" "\<not> siew w i" using N by (auto simp: count_inv_def)
    then show ?thesis using RelPop
      by (intro world_invI [OF lock_inv_pc [OF L, of Idle i]
            count_inv_pop [OF N, of i l "noffw w i = 1 \<and> intena (cpus (hw (mach w)) i)"]])
        (auto simp: step_defs pop_off_def hw_defs whenM_def fun_eq_iff)
  qed (use assms in \<open>simp_all add: release_step_def\<close>)
qed

lemma harts_inv:
  assumes "harts w w'" "world_inv w"
  shows "world_inv w'"
  using assms
proof (induction rule: harts.induct)
  case (call_acquire w i l)
  then show ?case by (intro world_inv_pc [OF call_acquire.prems, of _ i "AcqPush l"]) auto
next
  case (call_release w i l)
  then show ?case by (intro world_inv_pc [OF call_release.prems, of _ i "RelLocked l"]) auto
next
  case (intr w i m)
  note L = world_invD(1) [OF intr.prems] and N = world_invD(2) [OF intr.prems]
  from intr.hyps(3) consider "m = intr_on" | "m = intr_off" by blast
  then show ?case
  proof cases
    case 1
    then show ?thesis using intr.hyps(1,2)
      by (intro world_invI [OF lock_inv_pc [OF L, of Idle i] count_inv_intr [OF N, of i True]])
        (auto simp: step_defs hw_defs)
  next
    case 2
    then show ?thesis using intr.hyps(1,2)
      by (intro world_invI [OF lock_inv_pc [OF L, of Idle i] count_inv_intr [OF N, of i False]])
        (auto simp: step_defs hw_defs)
  qed
qed (simp_all add: acquire_step_inv release_step_inv)

lemma reach_inv:
  assumes "reach w0 w" "all_idle w0"
  shows "world_inv w"
  using assms
proof (induction rule: reach.induct)
  case start
  then show ?case unfolding all_idle_def world_inv_def
    by (intro conjI lock_invI) (simp_all add: owned_def count_inv_def)
qed (simp add: harts_inv)

section \<open>Mutual exclusion\<close>

text \<open>
  C2: However the harts interleave the memory accesses of \<^verbatim>\<open>acquire\<close> and \<^verbatim>\<open>release\<close>, no two of
  them are between an \<^verbatim>\<open>acquire\<close> and the \<^verbatim>\<open>release\<close> of the same lock; the lock word and its
  \<^verbatim>\<open>cpu\<close> field then name the holder; a hart that holds a lock has interrupts off, and outside the
  lock code its nesting count is the number of locks it holds. The only panics are those of
  \<^verbatim>\<open>acquire\<close> on a lock the hart already holds and of \<^verbatim>\<open>release\<close> on one it does not hold.
\<close>

theorem spinlock_mutex:
  assumes "all_idle w0" and "reach w0 w"
  shows "(l \<in> lheld w i \<and> l \<in> lheld w j \<longrightarrow> i = j) \<and>
    (l \<in> lheld w i \<longrightarrow> locked (locks (hw (mach w)) l) \<and> lcpu (locks (hw (mach w)) l) = Some i \<and>
      \<not> intr_get_hw (hw (on_hart i (mach w)))) \<and>
    (lpc w i = Idle \<longrightarrow> noff (cpus (hw (mach w)) i) = int (card (lheld w i))) \<and>
    (lpc w i = Panicked e \<longrightarrow> e \<in> {''acquire'', ''release''}) \<and>
    (lpc w i = AcqCpu l \<longrightarrow> (lpc (acquire_step i w) i = Panicked ''acquire'' \<longleftrightarrow> l \<in> lheld w i)) \<and>
    (lpc w i = RelCpu l \<longrightarrow> (lpc (release_step i w) i = Panicked ''release'' \<longleftrightarrow> l \<notin> lheld w i))"
proof -
  have inv: "world_inv w" using reach_inv assms by blast
  note L = lock_invD [OF world_invD(1) [OF inv]]
  have N: "finite (lheld w i)" "noffw w i = int (card (lheld w i)) + depth (lpc w i)" "0 < noffw w i \<longrightarrow> \<not> siew w i"
      "lpc w i = Panicked e \<Longrightarrow> e \<in> {''acquire'', ''release''}"
    using world_invD(2) [OF inv] unfolding count_inv_def by blast+
  have "0 \<le> depth (lpc w i)" by (cases "lpc w i") auto
  then have pos: "0 < noffw w i" if "l \<in> lheld w i" using N(1,2) that by (metis add_pos_nonneg card_gt_0_iff empty_iff of_nat_0_less_iff)
  show ?thesis
  proof (intro conjI)
    show "l \<in> lheld w i \<and> l \<in> lheld w j \<longrightarrow> i = j" using L(2) unfolding owned_def by blast
    show "l \<in> lheld w i \<longrightarrow> lockedw w l \<and> cpuw w l = Some i \<and> \<not> intr_get_hw (hw (on_hart i (mach w)))"
      using L(1) [of l i] L(3) [of l i] N(3) pos by (simp add: owned_def intr_get_hw_def)
    show "lpc w i = Idle \<longrightarrow> noffw w i = int (card (lheld w i))" using N(2) by simp
    show "lpc w i = Panicked e \<longrightarrow> e \<in> {''acquire'', ''release''}" using N(4) by blast
    show "lpc w i = AcqCpu l \<longrightarrow> (lpc (acquire_step i w) i = Panicked ''acquire'' \<longleftrightarrow> l \<in> lheld w i)"
      using L(3) [of l i] by (auto simp: acquire_step_def)
    show "lpc w i = RelCpu l \<longrightarrow> (lpc (release_step i w) i = Panicked ''release'' \<longleftrightarrow> l \<notin> lheld w i)"
      using L(3) [of l i] by (auto simp: release_step_def)
  qed
qed

section \<open>An undisturbed hart\<close>

lemma reach_acquire: "reach w0 w \<Longrightarrow> reach w0 ((acquire_step i ^^ n) w)"
  by (induction n) (auto intro: reach.step in_acquire)

lemma reach_release: "reach w0 w \<Longrightarrow> reach w0 ((release_step i ^^ n) w)"
  by (induction n) (auto intro: reach.step in_release)

lemma lworld_eqI:
  "mach w = mach w' \<Longrightarrow> lpc w = lpc w' \<Longrightarrow> lheld w = lheld w' \<Longrightarrow> w = (w' :: lworld)"
  by simp

lemma acquire_steps:
  assumes "\<not> lockedw w l"
  shows "(acquire_step i ^^ 5) (w\<lparr>lpc := (lpc w)(i := AcqPush l)\<rparr>) =
     w\<lparr>mach := (on_hart i (mach w))\<lparr>hw := enter l (hw (on_hart i (mach w)))\<rparr>,
       lpc := (lpc w)(i := Idle), lheld := (lheld w)(i := insert l (lheld w i))\<rparr>"
  using assms by (simp add: numeral_eq_Suc step_defs push_off_run enter_def on_hart_def Let_def intr_get_hw_def)

lemma acquire_spins:
  assumes "lockedw w l" "cpuw w l \<noteq> Some i"
  shows "lpc ((acquire_step i ^^ 5) (w\<lparr>lpc := (lpc w)(i := AcqPush l)\<rparr>)) i = AcqNts l"
    and "lheld ((acquire_step i ^^ 5) (w\<lparr>lpc := (lpc w)(i := AcqPush l)\<rparr>)) = lheld w"
  using assms by (simp_all add: numeral_eq_Suc step_defs push_off_run)

lemma release_steps:
  assumes "holding_hw l (hw (on_hart i (mach w)))" "\<not> siew w i" "1 \<le> noffw w i"
  shows "(release_step i ^^ 5) (w\<lparr>lpc := (lpc w)(i := RelLocked l)\<rparr>) =
     w\<lparr>mach := (on_hart i (mach w))\<lparr>hw := leave l (hw (on_hart i (mach w)))\<rparr>,
       lpc := (lpc w)(i := Idle), lheld := (lheld w)(i := lheld w i - {l})\<rparr>"
  using assms by (simp add: numeral_eq_Suc step_defs pop_off_def hw_defs leave_def whenM_def on_hart_def Let_def)

text \<open>
  The harts of the interleaved machine and the functions of the kernel model agree: from a state in
  which hart \<open>i\<close> is idle, the state that \<open>acquire\<close> or \<open>release\<close> returns on that hart is reachable.
\<close>

lemma lock_bigstep:
  assumes "lpc w i = Idle"
  shows "(acquire l (on_hart i (mach w)) = Ok () s \<longrightarrow>
      reach w (w\<lparr>mach := s, lheld := (lheld w)(i := insert l (lheld w i))\<rparr>)) \<and>
    (release l (on_hart i (mach w)) = Ok () s \<longrightarrow>
      reach w (w\<lparr>mach := s, lheld := (lheld w)(i := lheld w i - {l})\<rparr>))"
proof -
  let ?s = "on_hart i (mach w)"
  have pc: "(lpc w)(i := Idle) = lpc w" using assms by auto
  have 1: "reach w ((acquire_step i ^^ 5) (w\<lparr>lpc := (lpc w)(i := AcqPush l)\<rparr>))"
    by (intro reach_acquire reach.step [OF reach.start] call_acquire assms)
  have 2: "reach w ((release_step i ^^ 5) (w\<lparr>lpc := (lpc w)(i := RelLocked l)\<rparr>))"
    by (intro reach_release reach.step [OF reach.start] call_release assms)
  have "\<not> lockedw w l \<and> s = ?s\<lparr>hw := enter l (hw ?s)\<rparr>" if "acquire l ?s = Ok () s"
    using that acquire_busy [of ?s l] acquire_twice [of l ?s] acquire_free [of ?s l] unfolding holding_hw_def
    by (cases "lockedw w l"; cases "cpuw w l = Some i") auto
  moreover have "holding_hw l (hw ?s) \<and> \<not> siew w i \<and> 1 \<le> noffw w i \<and> s = ?s\<lparr>hw := leave l (hw ?s)\<rparr>"
    if "release l ?s = Ok () s"
  proof -
    have "holding_hw l (hw ?s)" using that release_not_held [of l ?s] by auto
    moreover have "\<not> siew w i \<and> 1 \<le> noffw w i"
      using that by (auto simp: release_def pop_off_def hw_defs whenM_def split: if_splits)
    ultimately show ?thesis using that release_held [of l ?s] by (simp add: intr_get_hw_def)
  qed
  ultimately show ?thesis
    using 1 2 acquire_steps [of w l i] release_steps [of l i w] by (auto simp: pc)
qed

section \<open>Two harts on one lock\<close>

definition lk0 :: spinlock where
  "lk0 = \<lparr>locked = False, lkname = ''kmem'', lcpu = None, lk_n = 0, lk_nts = 0\<rparr>"

definition mach0 :: machine where
  "mach0 = \<lparr>hw = \<lparr>tp = 0, sstatus = (\<lambda>_. 0), cpus = (\<lambda>_. \<lparr>cproc = None, noff = 0, intena = False\<rparr>),
     locks = (\<lambda>_. lk0), lktab = []\<rparr>\<rparr>"

definition world0 :: lworld where
  "world0 = \<lparr>mach = mach0, lpc = (\<lambda>_. Idle), lheld = (\<lambda>_. {})\<rparr>"

definition contended :: lworld where
  "contended =
     (let w = (acquire_step 0 ^^ 5) (world0\<lparr>lpc := (lpc world0)(0 := AcqPush KmemLk)\<rparr>)
      in (acquire_step 1 ^^ 5) (w\<lparr>lpc := (lpc w)(1 := AcqPush KmemLk)\<rparr>))"

lemma world0_idle: "all_idle world0"
  by (simp add: all_idle_def world0_def mach0_def lk0_def)

lemma contended_reach: "reach world0 contended"
proof -
  let ?w = "(acquire_step 0 ^^ 5) (world0\<lparr>lpc := (lpc world0)(0 := AcqPush KmemLk)\<rparr>)"
  have w: "reach world0 ?w"
    by (intro reach_acquire reach.step [OF reach.start] call_acquire) (simp add: world0_def)
  have "lpc ?w 1 = Idle"
    by (subst acquire_steps) (simp_all add: world0_def mach0_def lk0_def)
  then show ?thesis
    unfolding contended_def Let_def by (intro reach_acquire reach.step [OF w] call_acquire)
qed

lemma contended_pc: "lpc contended 1 = AcqNts KmemLk" "lheld contended 0 = {KmemLk}"
proof -
  let ?w = "(acquire_step 0 ^^ 5) (world0\<lparr>lpc := (lpc world0)(0 := AcqPush KmemLk)\<rparr>)"
  have "\<not> lockedw world0 KmemLk" by (simp add: world0_def mach0_def lk0_def)
  note w = acquire_steps [OF this, of 0]
  have "lockedw ?w KmemLk" "cpuw ?w KmemLk \<noteq> Some 1" "lheld ?w 0 = {KmemLk}"
    unfolding w by (simp_all add: enter_def Let_def) (simp add: world0_def)
  then show "lpc contended 1 = AcqNts KmemLk" "lheld contended 0 = {KmemLk}"
    unfolding contended_def Let_def using acquire_spins [of ?w KmemLk 1] by simp_all
qed

theorem spinlock_mutex_witness:
  "KmemLk \<notin> lheld contended 1 \<and> lpc contended 1 = AcqNts KmemLk \<and>
   lcpu (locks (hw (mach contended)) KmemLk) = Some 0"
  using spinlock_mutex [OF world0_idle contended_reach, of KmemLk 0 1] contended_pc by auto

end
