(* ===== verification/Xv6_Fs_Proofs.thy ===== *)
theory Xv6_Fs_Proofs
  imports Xv6_Log_Crash Xv6_Example
begin

text \<open>
  The file system of \<^verbatim>\<open>kernel/fs.c\<close> over the buffer cache: the on-disk inode format, the contents
  of a file as \<^verbatim>\<open>readi\<close> delivers them, directory lookup, and the path names \<^verbatim>\<open>namex\<close> walks.
\<close>

section \<open>The on-disk inode\<close>

lemma put_addrs_other16: "b + 2 \<le> a + 4 * i \<or> a + 4 * (i + k) \<le> b \<Longrightarrow> ld16 (put_addrs a i A k d) b = ld16 d b"
  by (induction k arbitrary: i d) (auto simp: le_simps)

lemma put_addrs_other32: "b + 4 \<le> a + 4 * i \<or> a + 4 * (i + k) \<le> b \<Longrightarrow> ld32 (put_addrs a i A k d) b = ld32 d b"
  by (induction k arbitrary: i d) (auto simp: le_simps)

lemma put_addrs_same: "i \<le> j \<Longrightarrow> j < i + k \<Longrightarrow> ld32 (put_addrs a i A k d) (a + 4 * j) = A j"
proof (induction k arbitrary: i d)
  case (Suc k)
  show ?case
  proof (cases "i = j")
    case True
    then show ?thesis by (simp add: put_addrs_other32)
  qed (use Suc in simp)
qed simp

lemma dip_off_less: "dip_off n + 64 \<le> BSIZE"
proof -
  have "unat n mod IPB < 16" by (simp add: IPB_def BSIZE_def)
  then show ?thesis by (simp add: dip_off_def BSIZE_def)
qed

lemma dip_off_apart:
  assumes "dip_off m \<noteq> dip_off n"
  shows "dip_off m + 64 \<le> dip_off n \<or> dip_off n + 64 \<le> dip_off m"
proof -
  have "64 * u + 64 \<le> 64 * v \<or> 64 * v + 64 \<le> 64 * u" if "64 * u \<noteq> 64 * v" for u v :: nat
    using that by (cases "u < v") auto
  then show ?thesis using assms unfolding dip_off_def by blast
qed

text \<open>
  C22: The inode that \<^verbatim>\<open>iupdate\<close> stores in its slot of an inode block is the one \<^verbatim>\<open>ilock\<close> reads
  back from it, field by field, with all 13 block addresses, and the other inodes of the block
  are read as before.
\<close>

theorem dinode_roundtrip:
  "get_dinode (dip_off n) (put_dinode (dip_off n) x d) y =
     y\<lparr>itype := itype x, imajor := imajor x, iminor := iminor x, inlink := inlink x, isize := isize x,
       addrs := (\<lambda>i. if i < NDIRECT + 1 then addrs x i else addrs y i)\<rparr> \<and>
   (dip_off m \<noteq> dip_off n \<longrightarrow> get_dinode (dip_off m) (put_dinode (dip_off n) x d) y = get_dinode (dip_off m) d y)"
proof (intro conjI impI)
  show "get_dinode (dip_off n) (put_dinode (dip_off n) x d) y =
     y\<lparr>itype := itype x, imajor := imajor x, iminor := iminor x, inlink := inlink x, isize := isize x,
       addrs := (\<lambda>i. if i < NDIRECT + 1 then addrs x i else addrs y i)\<rparr>"
    using put_addrs_same [of 0 _ "NDIRECT + 1" "dip_off n + 12" "addrs x"]
    by (auto simp: get_dinode_def put_dinode_def put_addrs_other16 put_addrs_other32 le_simps cong: if_cong simp del: put_addrs.simps)
next
  assume "dip_off m \<noteq> dip_off n"
  then have apart: "dip_off m + 64 \<le> dip_off n \<or> dip_off n + 64 \<le> dip_off m" by (rule dip_off_apart)
  define a b where "a = dip_off m" and "b = dip_off n"
  have ab: "a + 64 \<le> b \<or> b + 64 \<le> a" using apart by (simp add: a_def b_def)
  have 16: "ld16 (put_dinode b x d) k = ld16 d k" if "a \<le> k" "k + 2 \<le> a + 12" for k
    using ab that by (auto simp: put_dinode_def put_addrs_other16 le_simps NDIRECT_def simp del: put_addrs.simps)
  have 32: "ld32 (put_dinode b x d) k = ld32 d k" if "a \<le> k" "k + 4 \<le> a + 64" for k
    using ab that by (auto simp: put_dinode_def put_addrs_other32 le_simps NDIRECT_def simp del: put_addrs.simps)
  have "get_dinode a (put_dinode b x d) y = get_dinode a d y"
    unfolding get_dinode_def using 16 32 by (auto simp: NDIRECT_def cong: if_cong)
  then show "get_dinode (dip_off m) (put_dinode (dip_off n) x d) y = get_dinode (dip_off m) d y"
    by (simp add: a_def b_def)
qed

theorem dinode_roundtrip_witness:
  "get_dinode (dip_off 3) (put_dinode (dip_off 2) inode0 (st16 192 T_DIR (\<lambda>_. 0))) inode0 =
     get_dinode (dip_off 3) (st16 192 T_DIR (\<lambda>_. 0)) inode0 \<and>
   itype (get_dinode (dip_off 3) (st16 192 T_DIR (\<lambda>_. 0)) inode0) = T_DIR"
  using dinode_roundtrip [of 2 inode0 "st16 192 T_DIR (\<lambda>_. 0)" inode0 3]
  by (simp add: dip_off_def IPB_def BSIZE_def get_dinode_def)

section \<open>Path names\<close>

text \<open>
  The components of a path: what lies between slashes, cut at \<^verbatim>\<open>DIRSIZ\<close> bytes. \<open>walk_names\<close>
  follows \<^verbatim>\<open>namex\<close>: it calls \<^verbatim>\<open>skipelem\<close> until it returns 0, and keeps the names it finds.
\<close>

fun components :: "byte list \<Rightarrow> byte list \<Rightarrow> byte list list" where
  "components w [] = (if w = [] then [] else [w])"
| "components w (c # cs) =
     (if c = slash then (if w = [] then components [] cs else w # components [] cs)
      else components (w @ [c]) cs)"

primrec walk_names :: "nat \<Rightarrow> byte list \<Rightarrow> bytes \<Rightarrow> byte list list option" where
  "walk_names 0 path name = None"
| "walk_names (Suc k) path name =
     (case skipelem path name of
        None \<Rightarrow> Some []
      | Some (path', name') \<Rightarrow> map_option ((#) (cname name' DIRSIZ)) (walk_names k path' name'))"

lemma components_slashes: "components [] (dropWhile (\<lambda>c. c = slash) p) = components [] p"
  by (induction p) auto

lemma components_elem:
  "slash \<notin> set w \<Longrightarrow> w \<noteq> [] \<or> (p \<noteq> [] \<and> hd p \<noteq> slash) \<Longrightarrow>
   components w p = (w @ takeWhile (\<lambda>c. c \<noteq> slash) p) # components [] (dropWhile (\<lambda>c. c \<noteq> slash) p)"
  by (induction w p rule: components.induct) auto

lemma cname_blit:
  assumes "0 \<notin> set w"
  shows "length w < n \<Longrightarrow> cname ((blit 0 (\<lambda>i. w ! i) 0 (length w) m)(length w := 0)) n = w"
    and "n \<le> length w \<Longrightarrow> cname (blit 0 (\<lambda>i. w ! i) 0 n m) n = take n w"
proof -
  assume l: "length w < n"
  let ?m = "(blit 0 (\<lambda>i. w ! i) 0 (length w) m)(length w := 0)"
  have "map ?m [0..<n] = map ?m [0..<length w] @ map ?m [length w..<n]"
    using l by (metis le_add_diff_inverse less_imp_le_nat map_append upt_add_eq_append zero_le)
  also have "map ?m [0..<length w] = w" by (intro nth_equalityI) (simp_all add: blit_def)
  also have "map ?m [length w..<n] = 0 # map ?m [Suc (length w)..<n]" using l by (simp add: upt_conv_Cons)
  finally have "cname ?m n = takeWhile (\<lambda>b. b \<noteq> 0) (w @ 0 # map ?m [Suc (length w)..<n])"
    unfolding cname_def by (rule arg_cong)
  also have "\<dots> = w" using assms by (subst takeWhile_append2) auto
  finally show "cname ?m n = w" .
next
  assume l: "n \<le> length w"
  have "map (blit 0 (\<lambda>i. w ! i) 0 n m) [0..<n] = take n w" using l by (intro nth_equalityI) (simp_all add: blit_def)
  moreover have "takeWhile (\<lambda>b. b \<noteq> 0) (take n w) = take n w"
    using assms by (subst takeWhile_eq_all_conv) (auto dest: in_set_takeD)
  ultimately show "cname (blit 0 (\<lambda>i. w ! i) 0 n m) n = take n w" by (simp add: cname_def)
qed

lemma skipelem_components:
  assumes "0 \<notin> set path"
  shows "(case components [] path of
      [] \<Rightarrow> skipelem path name = None
    | w # ws \<Rightarrow> \<exists>rest name'. skipelem path name = Some (rest, name') \<and> components [] rest = ws \<and>
        cname name' DIRSIZ = take DIRSIZ w \<and> length rest < length path \<and> 0 \<notin> set rest)"
proof (cases "dropWhile (\<lambda>c. c = slash) path")
  case Nil
  moreover have "components [] path = []" using components_slashes [of path] unfolding Nil by simp
  ultimately show ?thesis by (simp add: skipelem_def)
next
  case (Cons c cs)
  let ?s = "c # cs" let ?w = "takeWhile (\<lambda>c. c \<noteq> slash) ?s" let ?r = "dropWhile (\<lambda>c. c \<noteq> slash) ?s"
  let ?rest = "dropWhile (\<lambda>c. c = slash) ?r"
  have c: "c \<noteq> slash" using Cons by (metis (mono_tags, lifting) dropWhile_eq_Cons_conv)
  then have comp: "components [] path = ?w # components [] ?rest"
    using components_elem [of "[]" ?s] components_slashes [of path] components_slashes [of ?r] Cons by simp
  have "set ?s \<subseteq> set path" using Cons set_dropWhileD by (metis subsetI)
  then have z: "0 \<notin> set ?w" "0 \<notin> set ?rest" using assms set_takeWhileD set_dropWhileD by (metis subsetD)+
  have "?r = dropWhile (\<lambda>c. c \<noteq> slash) cs" using c by simp
  then have "length ?rest \<le> length cs" using length_dropWhile_le le_trans by metis
  moreover have "length ?s \<le> length path" using Cons length_dropWhile_le by metis
  ultimately have len: "length ?rest < length path" by simp
  have "\<exists>name'. skipelem path name = Some (?rest, name') \<and> cname name' DIRSIZ = take DIRSIZ ?w"
    using cname_blit [OF z(1)] Cons unfolding skipelem_def Let_def by (cases "DIRSIZ \<le> length ?w") auto
  then show ?thesis unfolding comp using len z(2) by auto
qed

text \<open>
  C11: The loop of \<^verbatim>\<open>namex\<close> takes a path apart as intended: calling \<^verbatim>\<open>skipelem\<close> until it returns 0
  ends within \<^verbatim>\<open>length + 1\<close> calls and yields exactly the components between the slashes, in order,
  each cut at \<^verbatim>\<open>DIRSIZ\<close> bytes; leading, repeated and trailing slashes count for nothing.
\<close>

theorem path_components:
  assumes "0 \<notin> set path"
  shows "walk_names (Suc (length path)) path name = Some (map (take DIRSIZ) (components [] path))"
proof -
  have "walk_names k path name = Some (map (take DIRSIZ) (components [] path))" if "length path < k" for k
    using that assms
  proof (induction k arbitrary: path name)
    case (Suc k)
    show ?case
    proof (cases "components [] path")
      case Nil
      then show ?thesis using skipelem_components [OF Suc.prems(2), of name] by simp
    next
      case (Cons w ws)
      then obtain rest name' where "skipelem path name = Some (rest, name')" "components [] rest = ws"
          "cname name' DIRSIZ = take DIRSIZ w" "length rest < length path" "0 \<notin> set rest"
        using skipelem_components [OF Suc.prems(2), of name] by auto
      then show ?thesis using Suc.IH [of rest name'] Suc.prems(1) Cons by simp
    qed
  qed simp
  then show ?thesis using lessI by blast
qed

definition path0 :: "byte list" where
  "path0 = [47, 47, 97, 47, 98, 98, 47, 47]"

theorem path_components_witness:
  "walk_names (Suc (length path0)) path0 (\<lambda>_. 0) = Some [[97], [98, 98]]"
  by (subst path_components) (simp_all add: path0_def slash_def DIRSIZ_def)

section \<open>File contents\<close>

text \<open>
  The block that holds block \<open>bn\<close> of a file, and the file's bytes, as a reader of the buffer cache
  sees them. A block is readable when it is a proper block number and its buffer can take one
  more reference (\<open>f\<close> gives the references held on each block).
\<close>

definition baddr :: "'z fs_scheme \<Rightarrow> inode \<Rightarrow> nat \<Rightarrow> uint" where
  "baddr s x bn = (if bn < NDIRECT then addrs x bn
     else ld32 (view s (idev x) (addrs x NDIRECT)) (4 * (bn - NDIRECT)))"

definition content :: "'z fs_scheme \<Rightarrow> inode \<Rightarrow> bytes" where
  "content s x = (\<lambda>i. view s (idev x) (baddr s x (i div BSIZE)) (i mod BSIZE))"

definition blk_ok :: "(uint \<Rightarrow> uint) \<Rightarrow> uint \<Rightarrow> bool" where
  "blk_ok f a \<longleftrightarrow> a \<noteq> 0 \<and> unat a < 2 ^ 31 \<and> f a \<noteq> -1"

definition mapped_blk :: "(uint \<Rightarrow> uint) \<Rightarrow> 'z fs_scheme \<Rightarrow> inode \<Rightarrow> nat \<Rightarrow> bool" where
  "mapped_blk f s x bn \<longleftrightarrow> bn < MAXFILE \<and> (NDIRECT \<le> bn \<longrightarrow> blk_ok f (addrs x NDIRECT)) \<and> blk_ok f (baddr s x bn)"

text \<open>What reading leaves alone: everything but the state of the cache, the queue and the hart.\<close>

definition same_files :: "nat \<Rightarrow> uint \<Rightarrow> (uint \<Rightarrow> uint) \<Rightarrow> 'z fs_scheme \<Rightarrow> 'z fs_scheme \<Rightarrow> bool" where
  "same_files p d f s t \<longleftrightarrow> rest p d f {} t \<and> bframe s t \<and> img t = img s \<and> wtrace t = wtrace s \<and>
     (\<forall>d n. n \<noteq> 0 \<longrightarrow> view t d n = view s d n)"

lemma same_files_refl: "rest p d f {} s \<Longrightarrow> same_files p d f s s"
  by (simp add: same_files_def)

lemma same_files_trans: "same_files p d f s t \<Longrightarrow> same_files p d f t u \<Longrightarrow> same_files p d f s u"
  unfolding same_files_def using bframe_trans by auto

text \<open>Storing bytes at a kernel address.\<close>

fun kernel_addr :: "eaddr \<Rightarrow> nat \<Rightarrow> bool" where
  "kernel_addr (UserVA a) n = False"
| "kernel_addr (KernPA a) n = (unat a + n < 2 ^ 64)"
| "kernel_addr (KernStk a) n = True"

fun deliver :: "eaddr \<Rightarrow> bytes \<Rightarrow> nat \<Rightarrow> nat \<Rightarrow> 'z fs_scheme \<Rightarrow> 'z fs_scheme" where
  "deliver (UserVA a) c from n s = s"
| "deliver (KernPA a) c from n s = s\<lparr>mem := blit (unat a) c from n (mem s)\<rparr>"
| "deliver (KernStk a) c from n s = s\<lparr>kstk := blit a c from n (kstk s)\<rparr>"

lemma kernel_addr_mono: "kernel_addr a n \<Longrightarrow> m \<le> n \<Longrightarrow> kernel_addr a m"
  by (cases a) auto

lemma deliver_sel [simp]:
  "hw (deliver a c i n s) = hw s" "proc (deliver a c i n s) = proc s" "slk (deliver a c i n s) = slk s"
  "bufs (deliver a c i n s) = bufs s" "vd (deliver a c i n s) = vd s" "img (deliver a c i n s) = img s"
  "wtrace (deliver a c i n s) = wtrace s" "inode (deliver a c i n s) = inode s" "sb (deliver a c i n s) = sb s"
  "log (deliver a c i n s) = log s"
  by (cases a; simp)+

lemma deliver_view [simp]: "view (deliver a c i n s) d b = view s d b"
  by (simp add: view_def split: option.split)

lemma deliver_rest [simp]: "rest p d f L (deliver a c i n s) \<longleftrightarrow> rest p d f L s"
  by (simp add: rest_def running_def bio_inv_def pins_def)

lemma deliver_owns [simp]: "owns p (deliver a c i n s) d b x \<longleftrightarrow> owns p s d b x"
  by (simp add: owns_def)

lemma blit_cong:
  assumes "\<And>k. k < n \<Longrightarrow> c (i + k) = c' (i' + k)"
  shows "blit a c i n m = blit a c' i' n m"
  unfolding blit_def
proof (rule ext, rule if_cong [OF refl _ refl])
  fix x
  assume "a \<le> x \<and> x < a + n"
  then show "c (i + (x - a)) = c' (i' + (x - a))" by (intro assms) linarith
qed

lemma deliver_cong:
  "(\<And>k. k < n \<Longrightarrow> c (i + k) = c' (i' + k)) \<Longrightarrow> deliver a c i n s = deliver a c' i' n s"
  by (cases a) (simp_all cong: blit_cong add: blit_cong [of n c i c' i'])

lemma blit_more: "blit (a + k) c (i + k) n (blit a c i k m) = blit a c i (k + n) m"
  by (auto simp: blit_def)

lemma deliver_more:
  assumes "kernel_addr a (unat k + n)"
  shows "deliver (eaddr_plus a k) c (i + unat k) n (deliver a c i (unat k) s) = deliver a c i (unat k + n) s"
    and "kernel_addr (eaddr_plus a k) n"
proof -
  have "unat (x + k) = unat x + unat k" if "unat x + (unat k + n) < 2 ^ 64" for x
    using that by (simp add: unat_word_ariths)
  then show "deliver (eaddr_plus a k) c (i + unat k) n (deliver a c i (unat k) s) = deliver a c i (unat k + n) s"
    and "kernel_addr (eaddr_plus a k) n"
    using assms by (cases a; simp add: blit_more add.assoc)+
qed

lemma deliver_bframe:
  assumes "bframe s t"
  shows "bframe (deliver a c i n s) (deliver a c i n t)"
proof -
  obtain h P K B V H M I W where t: "t = s\<lparr>hw := h, proc := P, slk := K, bufs := B, vd := V, vhdr := H,
      mmio := M, img := I, wtrace := W\<rparr>"
    using assms unfolding bframe_def by blast
  show ?thesis using assms unfolding t by (cases a) (simp_all add: bframe_def)
qed

lemma deliver_zero: "deliver a c i 0 s = s"
proof -
  have "blit k c i 0 m = m" for k m by (rule ext) (auto simp: blit_def)
  then show ?thesis by (cases a) simp_all
qed

lemma either_copyout_kernel:
  assumes "running p s" "kernel_addr a (unat n)"
  shows "\<exists>h. same_hart (hw s) h \<and> either_copyout a c i n s = Ok 0 (deliver a c i (unat n) (s\<lparr>hw := h\<rparr>))"
proof -
  obtain h where "same_hart (hw s) h" "myproc s = Ok (Some p) (s\<lparr>hw := h\<rparr>)"
    using myproc_run [of s] quietD(1,2) [OF runningD(1) [OF assms(1)]] by auto
  then show ?thesis using assms(2) by (cases a) (auto simp: either_copyout_def)
qed

text \<open>Taking a block, looking at it, and giving it back.\<close>

lemma same_hart_bframe: "same_hart (hw t) h \<Longrightarrow> bframe t (t\<lparr>hw := h\<rparr>)"
  by (simp add: bframe_def)

lemma rest_hart:
  assumes "rest p d f L t" "same_hart (hw t) h"
  shows "rest p d f L (t\<lparr>hw := h\<rparr>)"
  using assms bframe_running [OF same_hart_bframe [OF assms(2)]] by (simp add: rest_def bio_inv_def pins_def)

lemma bread_look_wp:
  assumes r: "rest p d f {} s" and n: "blk_ok f n" and room: "card {n. f n \<noteq> 0} < NBUF"
    and Q: "\<And>b t. bframe s t \<Longrightarrow> running p t \<Longrightarrow> block 0 (bdata (bufs t b)) = view s d n \<Longrightarrow>
      (\<And>a c i k h R. same_hart (hw t) h \<Longrightarrow> (\<And>u. same_files p d f (deliver a c i k s) u \<Longrightarrow> R () u) \<Longrightarrow>
         wp (brelse b) R (deliver a c i k (t\<lparr>hw := h\<rparr>))) \<Longrightarrow> Q b t"
  shows "wp (bread d n) Q s"
proof (rule rest_bread [OF r])
  have n': "n \<noteq> 0" using n by (simp add: blk_ok_def)
  fix b t
  assume t: "rest p d (f(n := f n + 1)) {n} t" "owns p t d n b" "bframe s t" "img t = img s" "wtrace t = wtrace s"
    and vt: "\<And>d' n'. n' \<noteq> 0 \<Longrightarrow> view t d' n' = view s d' n'"
  show "Q b t"
  proof (rule Q [OF t(3)])
    show "running p t" using restD(1) [OF t(1)] .
    show "block 0 (bdata (bufs t b)) = view s d n" using rest_owns(4) [OF t(1,2) n'] vt [OF n'] by simp
    fix a c i k h R
    assume h: "same_hart (hw t) h" and R: "\<And>u. same_files p d f (deliver a c i k s) u \<Longrightarrow> R () u"
    let ?t = "deliver a c i k (t\<lparr>hw := h\<rparr>)"
    have b: "bframe s (t\<lparr>hw := h\<rparr>)" using bframe_trans [OF t(3) same_hart_bframe [OF h]] .
    have v: "view ?t d' m = view t d' m" for d' m by (simp add: view_def split: option.split)
    show "wp (brelse b) R ?t"
    proof (rule rest_brelse [of p d "f(n := f n + 1)" "{n}", OF _ _ n'])
      show "rest p d (f(n := f n + 1)) {n} ?t" using rest_hart [OF t(1) h] by simp
      show "owns p ?t d n b" using t(2) by (simp add: owns_def)
      show "view ?t d n = dblock (img ?t) d n" if "(f(n := f n + 1)) n = 1"
        using that rest_clean [OF r, of n] vt [OF n'] t(4) unfolding v by simp
      fix u
      assume u: "rest p d ((f(n := f n + 1))(n := (f(n := f n + 1)) n - 1)) ({n} - {n}) u" "bframe ?t u"
        "img u = img ?t" "wtrace u = wtrace ?t" and vu: "\<And>d' n'. view u d' n' = view ?t d' n'"
      have "rest p d f {} u" using u(1) by (simp add: fun_upd_idem)
      then show "R () u" using u t vt bframe_trans [OF deliver_bframe [OF b] u(2)]
        by (intro R) (simp add: same_files_def vu v del: deliver_view, simp)
    qed
  qed
qed (use n room in \<open>auto simp: blk_ok_def\<close>)

lemma bframe_inode: "bframe s t \<Longrightarrow> inode t = inode (s :: 'z fs_scheme)"
  unfolding bframe_def by (erule conjE, erule ssubst) simp

lemma same_files_inode: "same_files p d f s t \<Longrightarrow> inode t = inode s"
  by (simp add: same_files_def bframe_inode)

lemma ld32_view: "block 0 m = view s d n \<Longrightarrow> k + 4 \<le> BSIZE \<Longrightarrow> ld32 m k = ld32 (view s d n) k"
  by (metis ld32_block)

lemma wp_ret_eta: "wp (ret a) Q = Q a"
  by (rule ext) (simp add: wp_simps)

lemma bmap_wp:
  assumes r: "rest p d f {} s" and room: "card {n. f n \<noteq> 0} < NBUF"
    and x: "inode s ip = x" "idev x = d" and m: "mapped_blk f s x (unat bn)"
    and Q: "\<And>t. same_files p d f s t \<Longrightarrow> Q (baddr s x (unat bn)) t"
  shows "wp (bmap ip bn) Q s"
proof (cases "unat bn < NDIRECT")
  case True
  then show ?thesis using m x Q [OF same_files_refl [OF r]]
    by (simp add: bmap_def get_inode_def wp_simps baddr_def mapped_blk_def blk_ok_def)
next
  case False
  let ?i = "unat bn - NDIRECT"
  have i: "unat (bn - of_nat NDIRECT) = ?i" "?i < NINDIRECT"
    using False m by (auto simp: mapped_blk_def MAXFILE_def NDIRECT_def NINDIRECT_def BSIZE_def unat_sub_if')
  have a: "blk_ok f (addrs x NDIRECT)" "blk_ok f (baddr s x (unat bn))"
    using m False by (simp_all add: mapped_blk_def)
  have "wp (bread d (addrs x NDIRECT)) (\<lambda>bp. wp (bind (get_data bp) (\<lambda>d. if ld32 d (4 * ?i) = 0 then
       bind (balloc (idev x)) (\<lambda>addr. seq (set_data bp (st32 (4 * ?i) addr)) (seq (log_write bp) (seq (brelse bp) (ret addr))))
       else seq (brelse bp) (ret (ld32 d (4 * ?i))))) Q) s"
  proof (rule bread_look_wp [OF r a(1) room])
    fix b t
    assume t: "bframe s t" "block 0 (bdata (bufs t b)) = view s d (addrs x NDIRECT)"
      and B: "\<And>a c i k h R. same_hart (hw t) h \<Longrightarrow> (\<And>u. same_files p d f (deliver a c i k s) u \<Longrightarrow> R () u) \<Longrightarrow>
         wp (brelse b) R (deliver a c i k (t\<lparr>hw := h\<rparr>))"
    have "ld32 (bdata (bufs t b)) (4 * ?i) = baddr s x (unat bn)"
      using ld32_view [OF t(2), of "4 * ?i"] i(2) False x(2) by (simp add: baddr_def NINDIRECT_def BSIZE_def)
    then show "wp (bind (get_data b) (\<lambda>d. if ld32 d (4 * ?i) = 0 then
       bind (balloc (idev x)) (\<lambda>addr. seq (set_data b (st32 (4 * ?i) addr)) (seq (log_write b) (seq (brelse b) (ret addr))))
       else seq (brelse b) (ret (ld32 d (4 * ?i))))) Q t"
      using B [of "hw t" "KernStk 0" "\<lambda>_. 0" 0 0 "\<lambda>_. Q (baddr s x (unat bn))"] Q a(2)
      by (simp add: get_data_def wp_simps deliver_zero blk_ok_def wp_ret_eta)
  qed
  then show ?thesis using False i a(1) x
    by (simp add: bmap_def get_inode_def wp_simps blk_ok_def Let_def cong: if_cong)
qed

lemma unat_ucast64: "unat (ucast (q :: uint) :: uint64) = unat q"
  using unat_bounds(3) [of q] by (simp add: unsigned_ucast_eq take_bit_nat_eq_self)

lemma add_in_block:
  assumes "i mod B + k < (B :: nat)"
  shows "(i + k) div B = i div B" and "(i + k) mod B = i mod B + k"
proof -
  have i: "i + k = (i mod B + k) + i div B * B" by simp
  show "(i + k) div B = i div B" using assms unfolding i by (subst div_mult_self1) auto
  show "(i + k) mod B = i mod B + k" using assms unfolding i by (subst mod_mult_self1) simp
qed

lemma unat_chunk:
  "unat (chunk l off) = min (unat l) (BSIZE - unat off mod BSIZE)"
proof -
  have m: "unat (off mod 1024) = unat off mod 1024" by (simp add: unat_mod)
  then have "unat (1024 - off mod 1024 :: uint) = 1024 - unat off mod 1024"
    using mod_less_divisor [of 1024 "unat off"] by (simp add: unat_sub word_le_nat_alt)
  then show ?thesis by (simp add: chunk_def BSIZE_def word_less_nat_alt min_def)
qed

lemma same_views:
  assumes "\<And>n. n \<noteq> 0 \<Longrightarrow> view t (idev x) n = view s (idev x) n" and m: "mapped_blk f s x (i div BSIZE)"
  shows "baddr t x (i div BSIZE) = baddr s x (i div BSIZE)" and "content t x i = content s x i"
    and "mapped_blk f t x (i div BSIZE)"
proof -
  show b: "baddr t x (i div BSIZE) = baddr s x (i div BSIZE)"
    using assms by (auto simp: baddr_def mapped_blk_def blk_ok_def)
  then show "content t x i = content s x i"
    using assms by (simp add: content_def mapped_blk_def blk_ok_def)
  show "mapped_blk f t x (i div BSIZE)" using m b by (simp add: mapped_blk_def)
qed

lemma same_files_deliver:
  "same_files p d f s t \<Longrightarrow> same_files p d f (deliver a c i n s) (deliver a c i n t)"
  by (simp add: same_files_def deliver_bframe)

text \<open>One turn of the loop.\<close>

lemma readi_turn_wp:
  assumes r: "rest p d f {} s" and room: "card {n. f n \<noteq> 0} < NBUF"
    and x: "inode s ip = x" "idev x = d" and m: "mapped_blk f s x (unat off div BSIZE)"
    and a: "kernel_addr dst (unat (q :: uint))" and q: "unat off mod BSIZE + unat q \<le> BSIZE"
    and Q: "\<And>u. same_files p d f (deliver dst (content s x) (unat off) (unat q) s) u \<Longrightarrow> wp (K 0) Q u"
  shows "wp (bmap ip (off div of_nat BSIZE)) (\<lambda>addr. wp (bread d addr) (\<lambda>bp. wp (bind (get_data bp) (\<lambda>dat.
      bind (either_copyout dst dat (unat off mod BSIZE) (ucast q)) (\<lambda>r.
      if r = -1 then brelse bp else seq (brelse bp) (K 0)))) Q)) s"
proof (rule bmap_wp [OF r room x])
  have o: "unat (off div of_nat BSIZE) = unat off div BSIZE" by (simp add: unat_div BSIZE_def)
  then show "mapped_blk f s x (unat (off div of_nat BSIZE))" using m by simp
  fix t assume t: "same_files p d f s t"
  let ?b = "baddr s x (unat off div BSIZE)"
  have rt: "rest p d f {} t" and b: "blk_ok f ?b" using t m by (simp_all add: same_files_def mapped_blk_def)
  show "wp (bread d (baddr s x (unat (off div of_nat BSIZE)))) (\<lambda>bp. wp (bind (get_data bp) (\<lambda>dat.
      bind (either_copyout dst dat (unat off mod BSIZE) (ucast q)) (\<lambda>r.
      if r = -1 then brelse bp else seq (brelse bp) (K 0)))) Q) t"
    unfolding o
  proof (rule bread_look_wp [OF rt b room])
    fix bp u
    assume u: "bframe t u" "running p u" "block 0 (bdata (bufs u bp)) = view t d ?b"
      and B: "\<And>a c i k h R. same_hart (hw u) h \<Longrightarrow> (\<And>v. same_files p d f (deliver a c i k t) v \<Longrightarrow> R () v) \<Longrightarrow>
         wp (brelse bp) R (deliver a c i k (u\<lparr>hw := h\<rparr>))"
    have uq: "unat (ucast q :: uint64) = unat q" by (rule unat_ucast64)
    obtain h where h: "same_hart (hw u) h" "either_copyout dst (bdata (bufs u bp)) (unat off mod BSIZE) (ucast q) u =
        Ok 0 (deliver dst (bdata (bufs u bp)) (unat off mod BSIZE) (unat q) (u\<lparr>hw := h\<rparr>))"
      using either_copyout_kernel [OF u(2), of dst "ucast q"] a uq by auto
    have "bdata (bufs u bp) (unat off mod BSIZE + k) = content s x (unat off + k)" if "k < unat q" for k
    proof -
      have k: "(unat off + k) div BSIZE = unat off div BSIZE" "(unat off + k) mod BSIZE = unat off mod BSIZE + k"
        "unat off mod BSIZE + k < BSIZE"
        using that q add_in_block [of "unat off" BSIZE k] by auto
      have "view t d ?b = view s d ?b" using t b by (simp add: same_files_def blk_ok_def)
      then show ?thesis using k x(2) fun_cong [OF u(3), of "unat off mod BSIZE + k"]
        by (simp add: content_def block_def)
    qed
    then have eq: "deliver dst (bdata (bufs u bp)) (unat off mod BSIZE) (unat q) t =
        deliver dst (content s x) (unat off) (unat q) t" by (rule deliver_cong)
    have "wp (brelse bp) (\<lambda>_. wp (K 0) Q) (deliver dst (bdata (bufs u bp)) (unat off mod BSIZE) (unat q) (u\<lparr>hw := h\<rparr>))"
      using Q same_files_trans [OF same_files_deliver [OF t]] by (intro B [OF h(1)]) (simp add: eq)
    then show "wp (bind (get_data bp) (\<lambda>dat. bind (either_copyout dst dat (unat off mod BSIZE) (ucast q)) (\<lambda>r.
        if r = -1 then brelse bp else seq (brelse bp) (K 0)))) Q u"
      unfolding get_data_def wp_bind wp_gets
      by (subst wp_Ok [where m = "either_copyout dst (bdata (bufs u bp)) (unat off mod BSIZE) (ucast q)" and s = u, OF h(2)])
        (simp add: wp_seq)
  qed
qed

lemma fuel_step:
  assumes "q < r \<Longrightarrow> i mod BSIZE + q = BSIZE" "0 < r \<Longrightarrow> i mod BSIZE + r \<le> Suc k * BSIZE" "0 < r - q"
  shows "(i + q) mod BSIZE + (r - q) \<le> k * BSIZE"
proof -
  have "i mod BSIZE + q = BSIZE" using assms(1,3) by simp
  moreover from this have "(i + q) mod BSIZE = 0" by (metis mod_add_left_eq mod_self)
  ultimately show ?thesis using assms(2,3) by simp
qed

text \<open>
  The whole loop: \<open>k\<close> turns are enough for \<open>r\<close> bytes that start at offset \<open>off mod BSIZE\<close> of a block.
\<close>

lemma readi_loop_wp:
  assumes "rest p d f {} s" and room: "card {n. f n \<noteq> 0} < NBUF"
    and x: "inode s ip = x" "idev x = d" and "unat tot + r = unat n" and "kernel_addr dst r"
    and "0 < r \<Longrightarrow> unat off mod BSIZE + r \<le> k * BSIZE" and "unat off + r < 2 ^ 32"
    and "\<And>i. unat off \<le> i \<Longrightarrow> i < unat off + r \<Longrightarrow> mapped_blk f s x (i div BSIZE)"
    and "\<And>t. same_files p d f (deliver dst (content s x) (unat off) r s) t \<Longrightarrow> Q () t"
  shows "wp (readi_loop k ip dst off n tot) Q s"
  using assms(1,3,5-10)
proof (induction k arbitrary: s dst off tot r)
  case 0
  then have "r = 0" by auto
  moreover from this have "\<not> tot < n" using 0(3) by (simp add: word_less_nat_alt)
  ultimately show ?case using 0(8) [OF same_files_refl] 0(1) by (simp add: deliver_zero wp_simps)
next
  case (Suc k)
  show ?case
  proof (cases "r = 0")
    case True
    then have "\<not> tot < n" using Suc.prems(3) by (simp add: word_less_nat_alt)
    then show ?thesis using Suc.prems(8) [OF same_files_refl] Suc.prems(1) True by (simp add: deliver_zero wp_simps)
  next
    case False
    let ?m = "chunk (n - tot) off"
    define q where "q = min r (BSIZE - unat off mod BSIZE)"
    have tn: "tot < n" "unat (n - tot) = r"
      using Suc.prems(3) False by (simp_all add: word_less_nat_alt unat_sub word_le_nat_alt)
    then have m: "unat ?m = q" by (simp add: unat_chunk q_def)
    have q: "q \<le> r" "unat off mod BSIZE + q \<le> BSIZE" "q < r \<Longrightarrow> unat off mod BSIZE + q = BSIZE"
      using mod_less_divisor [of BSIZE "unat off"] by (auto simp: q_def BSIZE_def)
    have wp_K: "wp (readi_loop k ip (eaddr_plus dst (ucast ?m)) (off + ?m) n (tot + ?m)) Q u"
      if u: "same_files p d f (deliver dst (content s x) (unat off) (unat ?m) s) u" for u
    proof (rule Suc.IH [where r = "r - q"])
      have s: "inode u = inode s" using same_files_inode [OF u] by simp
      have v: "view u (idev x) b = view s (idev x) b" if "b \<noteq> 0" for b using u that by (simp add: same_files_def)
      have off: "unat (off + ?m) = unat off + q" using m q(1) Suc.prems(6) by (simp add: unat_word_ariths)
      show "rest p d f {} u" using u by (simp add: same_files_def)
      show "inode u ip = x" using s Suc.prems(2) by simp
      show "unat (tot + ?m) + (r - q) = unat n"
        using m q(1) Suc.prems(3) unat_bounds(3) [of n] by (simp add: unat_word_ariths)
      show "kernel_addr (eaddr_plus dst (ucast ?m)) (r - q)"
        using deliver_more(2) [of dst "ucast ?m" "r - q"] Suc.prems(4) m q(1) by (simp add: unat_ucast64)
      show "unat (off + ?m) mod BSIZE + (r - q) \<le> k * BSIZE" if "0 < r - q"
        unfolding off using q(3) Suc.prems(5) that by (rule fuel_step)
      show "unat (off + ?m) + (r - q) < 2 ^ 32" unfolding off using q(1) Suc.prems(6) by simp
      show "mapped_blk f u x (i div BSIZE)" if "unat (off + ?m) \<le> i" "i < unat (off + ?m) + (r - q)" for i
        using that q(1) unfolding off by (intro same_views(3) [OF v] Suc.prems(7)) auto
      fix t
      assume t: "same_files p d f (deliver (eaddr_plus dst (ucast ?m)) (content u x) (unat (off + ?m)) (r - q) u) t"
      have "deliver (eaddr_plus dst (ucast ?m)) (content u x) (unat off + q) (r - q) u =
          deliver (eaddr_plus dst (ucast ?m)) (content s x) (unat off + q) (r - q) u"
        using q(1) by (intro deliver_cong same_views(2) [where f = f, OF v] Suc.prems(7)) auto
      moreover have "deliver (eaddr_plus dst (ucast ?m)) (content s x) (unat off + q) (r - q)
          (deliver dst (content s x) (unat off) q s) = deliver dst (content s x) (unat off) r s"
        using deliver_more(1) [of dst "ucast ?m" "r - q" "content s x" "unat off" s] Suc.prems(4) m q(1)
        by (simp add: unat_ucast64)
      ultimately show "Q () t"
        using t same_files_trans [OF same_files_deliver [OF u]] unfolding off m by (intro Suc.prems(8)) metis
    qed
    then have "wp (bmap ip (off div of_nat BSIZE)) (\<lambda>addr. wp (bread d addr) (\<lambda>bp. wp (bind (get_data bp) (\<lambda>dat.
        bind (either_copyout dst dat (unat off mod BSIZE) (ucast ?m)) (\<lambda>r.
        if r = -1 then brelse bp else seq (brelse bp)
          ((\<lambda>_. readi_loop k ip (eaddr_plus dst (ucast ?m)) (off + ?m) n (tot + ?m)) (0 :: nat))))) Q)) s"
      using m q Suc.prems False kernel_addr_mono
      by (intro readi_turn_wp [OF Suc.prems(1) room Suc.prems(2) x(2)]) auto
    then show ?thesis using tn(1)
      unfolding readi_loop.simps(2) get_inode_def wp_if wp_bind wp_gets Suc.prems(2) x(2) Let_def by simp
  qed
qed

lemma div_less_mult: "i div b < n \<Longrightarrow> i < n * (b :: nat)" if "0 < b"
  using that by (simp add: div_less_iff_less_mult)

text \<open>
  C3: \<^verbatim>\<open>readi\<close> to a kernel address returns -1 for an offset beyond the end of the file, or when
  \<^verbatim>\<open>off + n\<close> wraps around. Otherwise it returns, having delivered exactly the bytes of the file
  from \<open>off\<close> on, \<open>n\<close> of them or as many as the file has, through direct and indirect blocks; it
  returns their number, writes nothing to the disk, and leaves the contents of all blocks and
  the references to all buffers as they were.
\<close>

theorem readi_reads:
  assumes r: "rest p (idev x) f {} s" and room: "card {b. f b \<noteq> 0} < NBUF" and x: "inode s ip = x"
    and m: "\<And>i. unat off \<le> i \<Longrightarrow> i < unat off + unat n \<Longrightarrow> i < unat (isize x) \<Longrightarrow> mapped_blk f s x (i div BSIZE)"
    and a: "kernel_addr dst (unat n)"
  shows "if unat (isize x) < unat off \<or> 2 ^ 32 \<le> unat off + unat n then readi ip dst off n s = Ok (-1) s
    else let k = min (unat n) (unat (isize x) - unat off) in
      \<exists>t. readi ip dst off n s = Ok (int k) t \<and> same_files p (idev x) f (deliver dst (content s x) (unat off) k s) t"
proof (cases "unat (isize x) < unat off \<or> 2 ^ 32 \<le> unat off + unat n")
  case True
  then have "isize x < off \<or> off + n < off"
    using unat_bounds(3) [of off] unat_bounds(3) [of n] by (auto simp: word_less_nat_alt unat_word_ariths mod_if)
  then show ?thesis using True x by (simp add: readi_def get_inode_def)
next
  case False
  let ?k = "min (unat n) (unat (isize x) - unat off)"
  let ?n = "if off + n > isize x then isize x - off else n"
  have s: "unat (off + n) = unat off + unat n" "\<not> (off > isize x \<or> off + n < off)"
    using False by (auto simp: word_less_nat_alt unat_word_ariths)
  then have n: "unat ?n = ?k" by (auto simp: word_less_nat_alt unat_sub word_le_nat_alt not_less)
  have "wp (readi_loop (unat ?n div BSIZE + 2) ip dst off ?n 0)
      (\<lambda>_. same_files p (idev x) f (deliver dst (content s x) (unat off) ?k s)) s"
  proof (rule readi_loop_wp [OF r room x refl, where r = ?k])
    show "unat off mod BSIZE + ?k \<le> (unat ?n div BSIZE + 2) * BSIZE"
      unfolding n using mod_less_divisor [of BSIZE "unat off"] mod_less_divisor [of BSIZE ?k] div_mult_mod_eq [of ?k BSIZE]
      by (simp add: BSIZE_def)
  qed (use n a m False kernel_addr_mono [of dst "unat n" ?k] in auto)
  then obtain t where t: "readi_loop (unat ?n div BSIZE + 2) ip dst off ?n 0 s = Ok () t"
      "same_files p (idev x) f (deliver dst (content s x) (unat off) ?k s) t"
    by (auto simp: wp_iff)
  have "sint ?n = int ?k"
  proof -
    have "?k < 2 ^ 31"
    proof (cases "?k = 0")
      case False
      then have "mapped_blk f s x ((unat off + ?k - 1) div BSIZE)" by (intro m) auto
      then have "(unat off + ?k - 1) div 1024 < 268"
        by (simp add: mapped_blk_def MAXFILE_def NDIRECT_def NINDIRECT_def BSIZE_def)
      then have "unat off + ?k - 1 < 268 * 1024" by (rule div_less_mult [rotated]) simp
      then have "?k \<le> 268 * 1024" by linarith
      also have "\<dots> < 2 ^ 31" by simp
      finally show ?thesis .
    qed simp
    moreover have "?n = of_nat ?k" unfolding n [symmetric] by simp
    ultimately show ?thesis using sint_small [of ?k] by simp
  qed
  then have "readi ip dst off n s = Ok (int ?k) t"
    using s(2) x t(1) by (simp add: readi_def get_inode_def Let_def cong: if_cong del: readi_loop.simps split del: if_split)
  then show ?thesis using False t(2) by (simp add: Let_def)
qed

text \<open>A file on a disk: inode 0 of the cache has one data block, number 40, whose first bytes are 1, 2, 3.\<close>

definition fs0 :: ftable where
  "fs0 = ftable0\<lparr>bufs := (\<lambda>i. (cache0 i)\<lparr>blockno := 0, valid := False, refcnt := 0\<rparr>),
     img := (\<lambda>_. (\<lambda>_. 0)(40960 := 1, 40961 := 2, 40962 := 3)),
     inode := (\<lambda>_. inode0\<lparr>isize := 3, addrs := (\<lambda>_. 0)(0 := 40)\<rparr>)\<rparr>"

lemma fs0_rest: "rest 0 0 (\<lambda>_. 0) {} fs0"
proof -
  have "lru_list (bufs fs0) (rev [0..<NBUF])"
    using cache0_lru by (rule lru_list_cong) (simp_all add: fs0_def)
  moreover have "pins 0 (\<lambda>_. 0) {} fs0" by (simp add: pins_def fs0_def ftable0_def)
  moreover have "running 0 fs0" by (rule ftable0_running) (simp_all add: fs0_def)
  ultimately show ?thesis
    by (auto simp: rest_def bio_inv_def buf_uniq_def buf_ok_def fs0_def ftable0_def)
qed

lemma fs0_content: "content fs0 (inode fs0 0) 1 = 2" "content fs0 (inode fs0 0) 2 = 3"
proof -
  have "slot (bufs fs0) 0 40 = None" by (simp add: slot_def find_None_iff holds_def fs0_def)
  then show "content fs0 (inode fs0 0) 1 = 2" "content fs0 (inode fs0 0) 2 = 3"
    by (simp_all add: content_def baddr_def NDIRECT_def view_def dblock_def block_def BSIZE_def fs0_def inode0_def)
qed

lemma same_files_kstk: "same_files p d f s t \<Longrightarrow> kstk t = kstk s"
  unfolding same_files_def bframe_def by (elim conjE, erule ssubst) simp

theorem readi_reads_witness:
  "\<exists>t. readi 0 (KernStk 0) 1 16 fs0 = Ok 2 t \<and> kstk t 0 = 2 \<and> kstk t 1 = 3"
proof -
  obtain t where t: "readi 0 (KernStk 0) 1 16 fs0 = Ok 2 t"
      "same_files 0 0 (\<lambda>_. 0) (deliver (KernStk 0) (content fs0 (inode fs0 0)) 1 2 fs0) t"
    using readi_reads [OF _ _ refl, of 0 fs0 0 "\<lambda>_. 0" 1 16 "KernStk 0"] fs0_rest
    by (auto simp: fs0_def inode0_def NBUF_def mapped_blk_def blk_ok_def baddr_def NDIRECT_def MAXFILE_def BSIZE_def)
  then show ?thesis using fs0_content same_files_kstk [OF t(2)] by (simp add: blit_def eval_nat_numeral)
qed

end
