(* ===== verification/Xv6_Dir_Proofs.thy ===== *)
theory Xv6_Dir_Proofs
  imports Xv6_Fs_Proofs
begin

text \<open>
  Directory lookup (\<^verbatim>\<open>dirlookup\<close> of \<^verbatim>\<open>kernel/fs.c\<close>) on top of \<^verbatim>\<open>readi\<close> and the inode cache
  (\<^verbatim>\<open>iget\<close>): the first entry in use that has the name is found, and its inode gets a reference.
\<close>

section \<open>The inode cache\<close>

definition cached :: "uint \<Rightarrow> uint \<Rightarrow> inode \<Rightarrow> bool" where
  "cached dev n y \<longleftrightarrow> iref y > 0 \<and> idev y = dev \<and> inum y = n"

text \<open>
  \<^verbatim>\<open>iget\<close> hands out slot \<open>ip\<close>: the one that caches the inode already, with one more reference, or,
  when there is none, a free one.
\<close>

definition referenced :: "uint \<Rightarrow> uint \<Rightarrow> (nat \<Rightarrow> inode) \<Rightarrow> nat \<Rightarrow> (nat \<Rightarrow> inode) \<Rightarrow> bool" where
  "referenced dev n I ip I' \<longleftrightarrow> ip < NINODE \<and>
     (cached dev n (I ip) \<and> I' = I(ip := (I ip)\<lparr>iref := iref (I ip) + 1\<rparr>) \<or>
      (\<forall>j<NINODE. \<not> cached dev n (I j)) \<and> iref (I ip) = 0 \<and>
      I' = I(ip := (I ip)\<lparr>idev := dev, inum := n, iref := 1, ivalid := False\<rparr>))"

lemma iget_scan_hit:
  "iget_scan dev n I i k emp = (Some ip, e) \<Longrightarrow> i \<le> ip \<and> ip < i + k \<and> cached dev n (I ip)"
  by (induction k arbitrary: i emp) (fastforce simp: cached_def split: if_splits)+

lemma iget_scan_miss:
  "iget_scan dev n I i k emp = (None, e) \<Longrightarrow> i \<le> j \<Longrightarrow> j < i + k \<Longrightarrow> \<not> cached dev n (I j)"
proof (induction k arbitrary: i emp)
  case (Suc k)
  then show ?case by (cases "j = i") (auto simp: cached_def split: if_splits)
qed simp

lemma iget_scan_empty:
  "iget_scan dev n I i k emp = (None, Some ip) \<Longrightarrow> emp = Some ip \<or> i \<le> ip \<and> ip < i + k \<and> iref (I ip) = 0"
  by (induction k arbitrary: i emp) (fastforce split: if_splits)+

lemma iget_scan_full:
  "iget_scan dev n I i k emp = (None, None) \<Longrightarrow> emp = None \<and> (\<forall>j. i \<le> j \<longrightarrow> j < i + k \<longrightarrow> iref (I j) \<noteq> 0)"
proof (induction k arbitrary: i emp)
  case (Suc k)
  have rec: "iget_scan dev n I (Suc i) k (if emp = None \<and> iref (I i) = 0 then Some i else emp) = (None, None)"
    using Suc.prems by (auto split: if_splits)
  have "emp = None \<and> iref (I i) \<noteq> 0" using Suc.IH [OF rec] by (auto split: if_splits)
  moreover have "iref (I j) \<noteq> 0" if "Suc i \<le> j" "j < i + Suc k" for j using Suc.IH [OF rec] that by auto
  ultimately show ?case by (metis Suc_leI le_neq_implies_less)
qed simp

lemma iget_run:
  assumes q: "running p s" and free: "i < NINODE" "iref (inode s i) = 0 \<or> cached dev n (inode s i)"
  shows "\<exists>ip h I. iget dev n s = Ok ip (s\<lparr>hw := h, inode := I\<rparr>) \<and> same_hart (hw s) h \<and> referenced dev n (inode s) ip I"
proof -
  note q' = quietD [OF runningD(1) [OF q]]
  let ?h = "enter IcacheLk (hw s)" let ?sc = "iget_scan dev n (inode s) 0 NINODE None"
  have h: "same_hart (hw s) (leave IcacheLk ?h)" using q' by (intro leave_enter_same) auto
  have rel: "release IcacheLk (s\<lparr>hw := ?h, inode := I\<rparr>) = Ok () (s\<lparr>hw := leave IcacheLk ?h, inode := I\<rparr>)" for I
    using release_after [OF q'(1), of IcacheLk "s\<lparr>hw := ?h, inode := I\<rparr>"] by simp
  consider (hit) ip e where "?sc = (Some ip, e)" | (miss) ip where "?sc = (None, Some ip)" | (full) "?sc = (None, None)"
    by (metis not_Some_eq surj_pair)
  then show ?thesis
  proof cases
    case hit
    then show ?thesis using iget_scan_hit [OF hit] h
      by (auto simp: iget_def acquire_free q'(3) set_inode_def rel referenced_def)
  next
    case miss
    then show ?thesis using iget_scan_empty [OF miss] iget_scan_miss [OF miss] h
      by (auto simp: iget_def acquire_free q'(3) set_inode_def rel referenced_def)
  next
    case full
    then show ?thesis using iget_scan_full [OF full] iget_scan_miss [OF full, of i] free by auto
  qed
qed

section \<open>Directories\<close>

text \<open>Entry \<open>i\<close> of a directory: its inode number and its name.\<close>

definition dirent :: "'z fs_scheme \<Rightarrow> inode \<Rightarrow> nat \<Rightarrow> uint16 \<times> byte list" where
  "dirent s x i = (ld16 (content s x) (16 * i), cname (\<lambda>k. content s x (16 * i + 2 + k)) DIRSIZ)"

definition dir_find :: "'z fs_scheme \<Rightarrow> inode \<Rightarrow> byte list \<Rightarrow> nat option" where
  "dir_find s x nm = find (\<lambda>i. fst (dirent s x i) \<noteq> 0 \<and> snd (dirent s x i) = nm) [0..<unat (isize x) div 16]"

lemma cname_cong: "(\<And>k. k < n \<Longrightarrow> a k = b k) \<Longrightarrow> cname a n = cname b n"
  unfolding cname_def by (rule arg_cong [where f = "takeWhile _"]) (simp add: map_eq_conv)

lemma dirent_kstk:
  assumes "\<And>k. k < 16 \<Longrightarrow> m k = content s x (16 * i + k)"
  shows "de_inum m = fst (dirent s x i)" and "cname (de_name m) DIRSIZ = snd (dirent s x i)"
proof -
  have "ld16 m 0 = ld16 (\<lambda>k. content s x (16 * i + k)) 0" using assms by (intro ld_cong) simp
  also have "\<dots> = ld16 (content s x) (16 * i)" by (simp add: ld16_def get_le_shift)
  finally show "de_inum m = fst (dirent s x i)" by (simp add: de_inum_def dirent_def)
  show "cname (de_name m) DIRSIZ = snd (dirent s x i)"
    using assms by (auto simp: de_name_def dirent_def DIRSIZ_def add.assoc intro!: cname_cong)
qed

lemma same_files_set_kstk:
  assumes "same_files p d f s t"
  shows "same_files p d f (s\<lparr>kstk := m\<rparr>) (t\<lparr>kstk := m\<rparr>)"
proof -
  obtain h P K B V H M I W where t: "t = s\<lparr>hw := h, proc := P, slk := K, bufs := B, vd := V, vhdr := H,
      mmio := M, img := I, wtrace := W\<rparr>"
    using assms unfolding same_files_def bframe_def by blast
  have "bframe (s\<lparr>kstk := m\<rparr>) (t\<lparr>kstk := m\<rparr>)"
    using assms unfolding same_files_def t by (simp add: bframe_def)
  moreover have "rest p d f {} (t\<lparr>kstk := m\<rparr>) = rest p d f {} t"
    by (simp add: rest_def running_def bio_inv_def pins_def)
  moreover have "view (u\<lparr>kstk := m\<rparr>) d n = view u d n" for u :: "'a fs_scheme" and d n by (simp add: view_def split: option.split)
  ultimately show ?thesis using assms by (simp add: same_files_def)
qed

lemma same_files_set_inode:
  assumes "same_files p d f s t" and h: "same_hart (hw t) h"
  shows "same_files p d f (s\<lparr>inode := J\<rparr>) (t\<lparr>hw := h, inode := J\<rparr>)"
proof -
  have b: "bframe s (t\<lparr>hw := h\<rparr>)" and r: "rest p d f {} (t\<lparr>hw := h\<rparr>)"
    using assms(1) bframe_trans same_hart_bframe [OF h] rest_hart [OF _ h] by (auto simp: same_files_def)
  obtain h' P K B V H M I W where t: "t\<lparr>hw := h\<rparr> = s\<lparr>hw := h', proc := P, slk := K, bufs := B, vd := V, vhdr := H,
      mmio := M, img := I, wtrace := W\<rparr>"
    using b unfolding bframe_def by blast
  have "bframe (s\<lparr>inode := J\<rparr>) ((t\<lparr>hw := h\<rparr>)\<lparr>inode := J\<rparr>)"
    using b unfolding t by (simp add: bframe_def)
  moreover have "rest p d f {} (t\<lparr>hw := h, inode := J\<rparr>) = rest p d f {} (t\<lparr>hw := h\<rparr>)"
    by (simp add: rest_def running_def bio_inv_def pins_def)
  moreover have "view (u\<lparr>inode := J\<rparr>) d n = view u d n" "view (u\<lparr>hw := h, inode := J\<rparr>) d n = view u d n"
    for u :: "'a fs_scheme" and d n by (simp_all add: view_def split: option.split)
  ultimately show ?thesis using assms r by (simp add: same_files_def)
qed

text \<open>\<open>looked s t\<close>: between \<open>s\<close> and \<open>t\<close> files were read, into the local buffer only.\<close>

definition looked :: "nat \<Rightarrow> uint \<Rightarrow> (uint \<Rightarrow> uint) \<Rightarrow> 'z fs_scheme \<Rightarrow> 'z fs_scheme \<Rightarrow> bool" where
  "looked p d f s t \<longleftrightarrow> same_files p d f (s\<lparr>kstk := kstk t\<rparr>) t"

lemma unat_of_nat32: "k < 2 ^ 32 \<Longrightarrow> unat (of_nat k :: uint) = k"
  by (simp add: unsigned_of_nat take_bit_nat_eq_self)

lemma dirlookup_loop_wp:
  assumes room: "card {b. f b \<noteq> 0} < NBUF" and x: "inode s dp = x" "unat (isize x) = 16 * N"
    and m: "\<And>i. i < unat (isize x) \<Longrightarrow> mapped_blk f s x (i div BSIZE)"
    and ic: "j < NINODE" "iref (inode s j) = 0"
    and t: "looked p (idev x) f s t" and i: "i \<le> N" "N - i < k"
  shows "\<exists>u. looked p (idev x) f s u \<and> dirlookup_loop k dp name (of_nat (16 * i)) t =
    (case find (\<lambda>i. fst (dirent s x i) \<noteq> 0 \<and> snd (dirent s x i) = cname name DIRSIZ) [i..<N] of
       None \<Rightarrow> Ok None u
     | Some e \<Rightarrow> bind (iget (idev x) (ucast (fst (dirent s x e)))) (\<lambda>ip. ret (Some (ip, of_nat (16 * e)))) u)"
  using t i
proof (induction k arbitrary: t i)
  case (Suc k)
  have xt: "inode t dp = x" "inode t = inode s" using Suc.prems(1) same_files_inode x by (fastforce simp: looked_def)+
  show ?case
  proof (cases "i = N")
    case True
    have "\<not> of_nat (16 * N) < isize x" using x(2) by (simp add: word_less_nat_alt flip: x(2))
    then show ?thesis using True xt Suc.prems(1) by (intro exI [of _ t]) (simp add: get_inode_def)
  next
    case False
    let ?off = "of_nat (16 * i) :: uint"
    have N: "16 * N < 2 ^ 32" using x(2) unat_bounds(3) [of "isize x"] by simp
    have off: "unat ?off = 16 * i" "?off < isize x" "?off + 16 = of_nat (16 * Suc i)"
      using False Suc.prems(2) N x(2) unat_of_nat32 [of "16 * i"] by (simp_all add: word_less_nat_alt)
    have v: "view t (idev x) b = view s (idev x) b" if "b \<noteq> 0" for b
      using Suc.prems(1) that by (auto simp: looked_def same_files_def view_def split: option.splits)
    have mt: "mapped_blk f t x (k div BSIZE)" and ct: "content t x k = content s x k" if "k < 16 * N" for k
      using same_views [OF v, of f k] m [of k] that x(2) by simp_all
    have "rest p (idev x) f {} t" using Suc.prems(1) by (simp add: looked_def same_files_def)
    from readi_reads [OF this room xt(1), of ?off 16 "KernStk 0"]
    obtain u where u: "readi dp (KernStk 0) ?off 16 t = Ok 16 u"
        "same_files p (idev x) f (deliver (KernStk 0) (content t x) (16 * i) 16 t) u"
      using off(1) x(2) N False Suc.prems(2) mt by (auto simp: Let_def min_def split: if_splits)
    have "kstk u k = content s x (16 * i + k)" if "k < 16" for k
      using same_files_kstk [OF u(2)] that ct [of "16 * i + k"] False Suc.prems(2) by (simp add: blit_def)
    note de = dirent_kstk [of "kstk u" s x i, OF this]
    have "t\<lparr>kstk := kstk u\<rparr> = deliver (KernStk 0) (content t x) (16 * i) 16 t"
      using same_files_kstk [OF u(2)] by simp
    then have lu: "looked p (idev x) f s u"
      using same_files_trans [OF same_files_set_kstk [OF Suc.prems(1) [unfolded looked_def], of "kstk u"]] u(2)
      by (simp add: looked_def)
    have ran: "[i..<N] = i # [Suc i..<N]" using False Suc.prems(2) by (simp add: upt_conv_Cons)
    have cmp: "namecmp name (de_name (kstk u)) = 0 \<longleftrightarrow> snd (dirent s x i) = cname name DIRSIZ"
      unfolding namecmp_def strncmp_eq_0 using de(2) by auto
    have "dirlookup_loop (Suc k) dp name ?off t = (if fst (dirent s x i) \<noteq> 0 \<and> snd (dirent s x i) = cname name DIRSIZ
        then bind (iget (idev x) (ucast (fst (dirent s x i)))) (\<lambda>ip. ret (Some (ip, ?off))) u
        else dirlookup_loop k dp name (of_nat (16 * Suc i)) u)"
      using off u(1) xt(1) cmp unfolding dirlookup_loop.simps get_inode_def
      by (simp add: de(1) add.commute cong: if_cong del: dirlookup_loop.simps)
    then show ?thesis using Suc.IH [OF lu, of "Suc i"] lu False Suc.prems(2,3) unfolding ran by auto
  qed
qed simp

text \<open>
  C4: \<^verbatim>\<open>dirlookup\<close> on a directory whose blocks are all mapped returns. It finds nothing exactly when no
  entry in use has the name (compared on \<^verbatim>\<open>DIRSIZ\<close> bytes, up to the first NUL); otherwise it returns
  the offset of the first such entry and a slot of the inode cache that now holds a reference to
  that entry's inode: the slot that caches it already, if there is one, else a free one, marked
  not yet read. No file and no other slot changes.
\<close>

theorem dirlookup_finds:
  assumes r: "rest p (idev x) f {} s" and room: "card {b. f b \<noteq> 0} < NBUF"
    and x: "inode s dp = x" "itype x = T_DIR" "16 dvd unat (isize x)"
    and m: "\<And>i. i < unat (isize x) \<Longrightarrow> mapped_blk f s x (i div BSIZE)"
    and ic: "j < NINODE" "iref (inode s j) = 0"
  shows "case dir_find s x (cname name DIRSIZ) of
      None \<Rightarrow> \<exists>t. dirlookup dp name s = Ok None t \<and> looked p (idev x) f s t
    | Some e \<Rightarrow> \<exists>ip t I. dirlookup dp name s = Ok (Some (ip, of_nat (16 * e))) t \<and>
        looked p (idev x) f (s\<lparr>inode := I\<rparr>) t \<and> referenced (idev x) (ucast (fst (dirent s x e))) (inode s) ip I"
proof -
  obtain N where N: "unat (isize x) = 16 * N" using x(3) by blast
  have "looked p (idev x) f s s" using same_files_refl [OF r] by (simp add: looked_def)
  then obtain u where u: "looked p (idev x) f s u"
      "dirlookup_loop (unat (isize x) div 16 + 2) dp name (of_nat (16 * 0)) s = (case dir_find s x (cname name DIRSIZ) of
        None \<Rightarrow> Ok None u
      | Some e \<Rightarrow> bind (iget (idev x) (ucast (fst (dirent s x e)))) (\<lambda>ip. ret (Some (ip, of_nat (16 * e)))) u)"
    using dirlookup_loop_wp [OF room x(1) N m ic, where i = 0 and name = name and k = "unat (isize x) div 16 + 2"] N
    unfolding dir_find_def by fastforce
  have "dirlookup dp name s = dirlookup_loop (unat (isize x) div 16 + 2) dp name (of_nat (16 * 0)) s"
    using x by (simp add: dirlookup_def get_inode_def del: dirlookup_loop.simps)
  note run = this [unfolded u(2)]
  show ?thesis
  proof (cases "dir_find s x (cname name DIRSIZ)")
    case None
    then show ?thesis using u run by auto
  next
    case (Some e)
    have i: "inode u = inode s" using u(1) same_files_inode by (fastforce simp: looked_def)
    have "running p u" using u(1) restD(1) by (auto simp: looked_def same_files_def)
    then obtain ip h I where I: "iget (idev x) (ucast (fst (dirent s x e))) u = Ok ip (u\<lparr>hw := h, inode := I\<rparr>)"
        "same_hart (hw u) h" "referenced (idev x) (ucast (fst (dirent s x e))) (inode s) ip I"
      using iget_run [of p u j "idev x" "ucast (fst (dirent s x e))"] ic i by auto
    have "looked p (idev x) f (s\<lparr>inode := I\<rparr>) (u\<lparr>hw := h, inode := I\<rparr>)"
    proof -
      have e: "s\<lparr>inode := I, kstk := kstk u\<rparr> = s\<lparr>kstk := kstk u, inode := I\<rparr>" by simp
      have k: "kstk (u\<lparr>hw := h, inode := I\<rparr>) = kstk u" by simp
      show ?thesis unfolding looked_def k e by (rule same_files_set_inode [OF u(1) [unfolded looked_def] I(2)])
    qed
    then show ?thesis using Some run I by auto
  qed
qed

text \<open>A directory with two entries, \<^verbatim>\<open>a\<close> and \<^verbatim>\<open>b\<close>, the second of which is inode 7.\<close>

definition dir0 :: ftable where
  "dir0 = fs0\<lparr>img := (\<lambda>_. (\<lambda>_. 0)(40960 := 1, 40962 := 97, 40976 := 7, 40978 := 98)),
     inode := (\<lambda>_. inode0\<lparr>itype := T_DIR, isize := 32, addrs := (\<lambda>_. 0)(0 := 40)\<rparr>)\<rparr>"

lemma dir0_rest: "rest 0 0 (\<lambda>_. 0) {} dir0"
proof -
  have "rest 0 0 (\<lambda>_. 0) {} dir0 = rest 0 0 (\<lambda>_. 0) {} (fs0\<lparr>img := img dir0\<rparr>)"
    by (simp add: rest_def running_def bio_inv_def pins_def dir0_def)
  also have "\<dots> = rest 0 0 (\<lambda>_. 0) {} fs0"
    by (simp add: rest_def running_def bio_inv_def pins_def buf_ok_def) (simp add: fs0_def)
  finally show ?thesis using fs0_rest by simp
qed

lemma dir0_content: "i < 1024 \<Longrightarrow> content dir0 (inode dir0 0) i =
    (if i = 0 then 1 else if i = 2 then 97 else if i = 16 then 7 else if i = 18 then 98 else 0)"
proof -
  assume i: "i < 1024"
  have "slot (bufs dir0) 0 40 = None" by (simp add: slot_def find_None_iff holds_def dir0_def fs0_def)
  then show ?thesis using i
    by (simp add: content_def baddr_def NDIRECT_def view_def dblock_def block_def BSIZE_def dir0_def inode0_def)
qed

lemma cname_one: "p 0 \<noteq> 0 \<Longrightarrow> p 1 = 0 \<Longrightarrow> cname p DIRSIZ = [p 0]"
  using cname_Suc [of p 13] cname_Suc [of "\<lambda>i. p (Suc i)" 12] by (simp add: DIRSIZ_def)

lemma get_le_two: "get_le 2 m a = unat (m a) + 256 * unat (m (Suc a))"
  by (simp add: eval_nat_numeral)

lemma dir0_find: "dir_find dir0 (inode dir0 0) [98] = Some 1" "fst (dirent dir0 (inode dir0 0) 1) = 7"
proof -
  have e: "dirent dir0 (inode dir0 0) 0 = (1, [97])" "dirent dir0 (inode dir0 0) 1 = (7, [98])"
    by (simp_all add: dirent_def dir0_content ld16_def get_le_two cname_one)
  have "unat (isize (inode dir0 0)) div 16 = 2" by (simp add: dir0_def)
  then show "dir_find dir0 (inode dir0 0) [98] = Some 1" "fst (dirent dir0 (inode dir0 0) 1) = 7"
    using e by (simp_all add: dir_find_def upt_rec)
qed

theorem dirlookup_finds_witness:
  "\<exists>ip t. dirlookup 0 ((\<lambda>_. 0)(0 := 98)) dir0 = Ok (Some (ip, 16)) t \<and> inum (inode t ip) = 7 \<and> iref (inode t ip) = 1"
proof -
  have nm: "cname ((\<lambda>_. 0)(0 := 98)) DIRSIZ = [98]"
    by (simp add: cname_one)
  have x: "idev (inode dir0 0) = 0" "itype (inode dir0 0) = T_DIR" "unat (isize (inode dir0 0)) = 32" "iref (inode dir0 1) = 0"
    by (simp_all add: dir0_def inode0_def)
  have m: "mapped_blk (\<lambda>_. 0) dir0 (inode dir0 0) (i div BSIZE)" if "i < 32" for i
    using that by (simp add: mapped_blk_def blk_ok_def baddr_def NDIRECT_def MAXFILE_def BSIZE_def dir0_def)
  have "case dir_find dir0 (inode dir0 0) (cname ((\<lambda>_. 0)(0 := 98)) DIRSIZ) of
      None \<Rightarrow> \<exists>t. dirlookup 0 ((\<lambda>_. 0)(0 := 98)) dir0 = Ok None t \<and> looked 0 (idev (inode dir0 0)) (\<lambda>_. 0) dir0 t
    | Some e \<Rightarrow> \<exists>ip t I. dirlookup 0 ((\<lambda>_. 0)(0 := 98)) dir0 = Ok (Some (ip, of_nat (16 * e))) t \<and>
        looked 0 (idev (inode dir0 0)) (\<lambda>_. 0) (dir0\<lparr>inode := I\<rparr>) t \<and>
        referenced (idev (inode dir0 0)) (ucast (fst (dirent dir0 (inode dir0 0) e))) (inode dir0) ip I"
    by (rule dirlookup_finds [where j = 1]) (use x m dir0_rest in \<open>simp_all add: NBUF_def NINODE_def\<close>)
  then obtain ip t I where t: "dirlookup 0 ((\<lambda>_. 0)(0 := 98)) dir0 = Ok (Some (ip, 16)) t"
      "looked 0 0 (\<lambda>_. 0) (dir0\<lparr>inode := I\<rparr>) t" "referenced 0 7 (inode dir0) ip I"
    unfolding nm dir0_find(1) x(1) option.case using dir0_find(2) by auto
  have "inode t = I" using same_files_inode [OF t(2) [unfolded looked_def]] by simp
  moreover have "inum (I ip) = 7 \<and> iref (I ip) = 1"
    using t(3) by (auto simp: referenced_def cached_def dir0_def inode0_def)
  ultimately show ?thesis using t(1) by blast
qed

end
