(* ===== verification/Xv6_Syscall_Proofs.thy ===== *)
theory Xv6_Syscall_Proofs
  imports Xv6_Syscall Xv6_Example
begin

text \<open>
  System calls from the trapframe to the tables they change: \<^verbatim>\<open>dup\<close> through the dispatch of
  \<^verbatim>\<open>syscall()\<close>, with its argument from the saved registers and its result back in \<^verbatim>\<open>a0\<close>
  (\<^verbatim>\<open>kernel/syscall.c\<close>, \<^verbatim>\<open>kernel/sysfile.c\<close>, \<^verbatim>\<open>kernel/file.c\<close>), and \<^verbatim>\<open>kill\<close> on the process table
  (\<^verbatim>\<open>kernel/proc.c\<close>).
\<close>

section \<open>Killing a process\<close>

definition kill_proc :: "proc \<Rightarrow> proc" where
  "kill_proc x = x\<lparr>killed := True, pstate := (if pstate x = SLEEPING then RUNNABLE else pstate x)\<rparr>"

definition kill_end :: "'z ptable_scheme \<Rightarrow> hart \<Rightarrow> nat option \<Rightarrow> ('z ptable_scheme, int) outcome" where
  "kill_end s h r = (case r of
       None \<Rightarrow> Ok (-1) (s\<lparr>hw := h\<rparr>)
     | Some j \<Rightarrow> Ok 0 (s\<lparr>hw := h, proc := (proc s)(j := kill_proc (proc s j))\<rparr>))"

lemma kill_end_hw [simp]: "kill_end (s\<lparr>hw := h'\<rparr>) h r = kill_end s h r"
  by (cases r) (simp_all add: kill_end_def)

lemma kill_scan_run:
  assumes "running p s"
  shows "\<exists>h. same_hart (hw s) h \<and> kill_scan k i n s = kill_end s h (find (\<lambda>i. pid (proc s i) = k) [i..<i + n])"
  using assms
proof (induction n arbitrary: i s)
  case 0
  then show ?case by (intro exI [of _ "hw s"]) (simp add: kill_end_def)
next
  case (Suc n)
  note q = quietD [OF runningD(1) [OF Suc.prems]]
  let ?h = "leave (ProcLk i) (enter (ProcLk i) (hw s))"
  have h: "same_hart (hw s) ?h" using q by (intro leave_enter_same) auto
  have rel: "release (ProcLk i) (s\<lparr>hw := enter (ProcLk i) (hw s), proc := P\<rparr>) = Ok () (s\<lparr>hw := ?h, proc := P\<rparr>)" for P
    using release_after [OF q(1), of "ProcLk i" "s\<lparr>hw := enter (ProcLk i) (hw s), proc := P\<rparr>"] by simp
  have ran: "[i..<i + Suc n] = i # [Suc i..<Suc i + n]" by (simp add: upt_conv_Cons del: upt_Suc)
  show ?case
  proof (cases "pid (proc s i) = k")
    case True
    then have "kill_scan k i (Suc n) s = Ok 0 (s\<lparr>hw := ?h, proc := (proc s)(i := kill_proc (proc s i))\<rparr>)"
      by (simp add: acquire_free q(3) get_proc_def set_proc_def whenM_def rel kill_proc_def)
    then show ?thesis using True h unfolding ran by (auto simp: kill_end_def)
  next
    case False
    have r: "running p (s\<lparr>hw := ?h\<rparr>)" using Suc.prems h by (auto intro: running_same)
    have run: "kill_scan k i (Suc n) s = kill_scan k (Suc i) n (s\<lparr>hw := ?h\<rparr>)"
      using False rel [of "proc s"] by (simp add: acquire_free q(3) get_proc_def)
    obtain h' where h': "same_hart ?h h'" "kill_scan k (Suc i) n (s\<lparr>hw := ?h\<rparr>) =
        kill_end s h' (find (\<lambda>i. pid (proc s i) = k) [Suc i..<Suc i + n])"
      using Suc.IH [OF r, of "Suc i"] by (auto simp del: upt_Suc)
    have "find (\<lambda>i. pid (proc s i) = k) [i..<i + Suc n] = find (\<lambda>i. pid (proc s i) = k) [Suc i..<Suc i + n]"
      unfolding ran using False by simp
    then show ?thesis using h'(2) same_hart_trans [OF h h'(1)] unfolding run by (intro exI [of _ h']) simp
  qed
qed

text \<open>
  C38: \<^verbatim>\<open>kill(k)\<close> takes the first process whose pid is \<open>k\<close>: it is marked killed, a sleeping one becomes
  runnable, and 0 is returned; nothing else of the table changes. When no process has the pid,
  -1 is returned and nothing changes. All locks are given back.
\<close>

theorem kill_marks:
  assumes "running p s"
  shows "\<exists>h. same_hart (hw s) h \<and> kill k s =
    (case find (\<lambda>i. pid (proc s i) = k) [0..<NPROC] of
       None \<Rightarrow> Ok (-1) (s\<lparr>hw := h\<rparr>)
     | Some j \<Rightarrow> Ok 0 (s\<lparr>hw := h, proc := (proc s)(j := kill_proc (proc s j))\<rparr>))"
  unfolding kill_def using kill_scan_run [OF assms, of k 0 NPROC] by (simp add: kill_end_def)

section \<open>Duplicating a descriptor\<close>

lemma running_hart: "running p s \<Longrightarrow> same_hart (hw s) h \<Longrightarrow> running p (s\<lparr>hw := h\<rparr>)"
  by (auto intro: running_same)

lemma curproc_running:
  assumes "running p s"
  shows "\<exists>h. same_hart (hw s) h \<and> curproc s = Ok p (s\<lparr>hw := h\<rparr>)"
  using curproc_run [OF quietD(1,2) [OF runningD(1) [OF assms]]] .

lemma argraw_run:
  assumes "running p s" "n \<le> 5"
  shows "\<exists>h. same_hart (hw s) h \<and>
    argraw n s = Ok (ld64 (mem s) (unat (tf (proc s p) + of_nat (TF_A0 + 8 * n)))) (s\<lparr>hw := h\<rparr>)"
  using curproc_running [OF assms(1)] assms(2) by (auto simp: argraw_def get_tf_def get_proc_def ldm_def)

definition arg_fd :: "'z kernel_scheme \<Rightarrow> nat \<Rightarrow> int" where
  "arg_fd s p = sint (ucast (ld64 (mem s) (unat (tf (proc s p) + of_nat TF_A0))) :: uint)"

lemma argfd_run:
  assumes "running p s"
  shows "\<exists>h. same_hart (hw s) h \<and> argfd 0 s = Ok
    (if arg_fd s p < 0 \<or> arg_fd s p \<ge> int NOFILE then None
     else map_option (\<lambda>f. (nat (arg_fd s p), f)) (ofile (proc s p) (nat (arg_fd s p)))) (s\<lparr>hw := h\<rparr>)"
proof -
  obtain h where h: "same_hart (hw s) h"
      "argraw 0 s = Ok (ld64 (mem s) (unat (tf (proc s p) + of_nat TF_A0))) (s\<lparr>hw := h\<rparr>)"
    using argraw_run [OF assms, of 0] by auto
  obtain h' where h': "same_hart h h'" "curproc (s\<lparr>hw := h\<rparr>) = Ok p (s\<lparr>hw := h'\<rparr>)"
    using curproc_running [OF running_hart [OF assms h(1)]] by auto
  show ?thesis
  proof (cases "arg_fd s p < 0 \<or> arg_fd s p \<ge> int NOFILE")
    case True
    then show ?thesis using h by (intro exI [of _ h]) (auto simp: argfd_def argint_def arg_fd_def)
  next
    case False
    then show ?thesis using h h' same_hart_trans [OF h(1) h'(1)]
      by (intro exI [of _ h']) (auto simp: argfd_def argint_def arg_fd_def get_proc_def split: option.split)
  qed
qed

lemma fdalloc_scan_run:
  "fdalloc_scan p f fd k s = (case find (\<lambda>n. ofile (proc s p) n = None) [fd..<fd + k] of
     None \<Rightarrow> Ok (-1) s
   | Some n \<Rightarrow> Ok (int n) (s\<lparr>proc := (proc s)(p := (proc s p)\<lparr>ofile := (ofile (proc s p))(n := Some f)\<rparr>)\<rparr>))"
proof (induction k arbitrary: fd)
  case (Suc k)
  have "[fd..<fd + Suc k] = fd # [Suc fd..<Suc fd + k]" by (simp add: upt_conv_Cons del: upt_Suc)
  then show ?case using Suc by (simp add: get_proc_def set_proc_def)
qed simp

lemma filedup_run:
  assumes "running p s" "1 \<le> fref (files s f)"
  shows "\<exists>h. same_hart (hw s) h \<and>
    filedup f s = Ok f (s\<lparr>hw := h, files := (files s)(f := (files s f)\<lparr>fref := fref (files s f) + 1\<rparr>)\<rparr>)"
proof -
  note q = quietD [OF runningD(1) [OF assms(1)]]
  let ?h = "enter FtableLk (hw s)"
  have h: "same_hart (hw s) (leave FtableLk ?h)" using q by (intro leave_enter_same) auto
  have rel: "release FtableLk (s\<lparr>hw := ?h, files := F\<rparr>) = Ok () (s\<lparr>hw := leave FtableLk ?h, files := F\<rparr>)" for F
    using release_after [OF q(1), of FtableLk "s\<lparr>hw := ?h, files := F\<rparr>"] by simp
  show ?thesis using h assms(2)
    by (intro exI [of _ "leave FtableLk ?h"]) (simp add: filedup_def acquire_free q(3) get_file_def set_file_def rel)
qed

text \<open>What \<^verbatim>\<open>dup\<close> should do: the new descriptor and the file, or nothing.\<close>

definition dup_of :: "'z kernel_scheme \<Rightarrow> nat \<Rightarrow> (nat \<times> nat) option" where
  "dup_of s p =
     (if arg_fd s p < 0 \<or> arg_fd s p \<ge> int NOFILE then None
      else case ofile (proc s p) (nat (arg_fd s p)) of None \<Rightarrow> None
         | Some f \<Rightarrow> map_option (\<lambda>n. (n, f)) (find (\<lambda>n. ofile (proc s p) n = None) [0..<NOFILE]))"

lemma sys_dup_run:
  assumes r: "running p s" and f: "\<And>fd f. ofile (proc s p) fd = Some f \<Longrightarrow> 1 \<le> fref (files s f)"
  shows "\<exists>h. same_hart (hw s) h \<and> sys_dup s = (case dup_of s p of
      None \<Rightarrow> Ok (-1) (s\<lparr>hw := h\<rparr>)
    | Some (n, f) \<Rightarrow> Ok (of_nat n) (s\<lparr>hw := h,
        proc := (proc s)(p := (proc s p)\<lparr>ofile := (ofile (proc s p))(n := Some f)\<rparr>),
        files := (files s)(f := (files s f)\<lparr>fref := fref (files s f) + 1\<rparr>)\<rparr>))"
proof -
  let ?a = "if arg_fd s p < 0 \<or> arg_fd s p \<ge> int NOFILE then None
     else map_option (\<lambda>f. (nat (arg_fd s p), f)) (ofile (proc s p) (nat (arg_fd s p)))"
  obtain h1 where h1: "same_hart (hw s) h1" "argfd 0 s = Ok ?a (s\<lparr>hw := h1\<rparr>)" using argfd_run [OF r] by blast
  show ?thesis
  proof (cases ?a)
    case None
    then have "dup_of s p = None" by (auto simp: dup_of_def split: if_splits)
    then show ?thesis using h1 None by (intro exI [of _ h1]) (simp add: sys_dup_def ret_int_def)
  next
    case (Some x)
    then obtain g where g: "ofile (proc s p) (nat (arg_fd s p)) = Some g" "x = (nat (arg_fd s p), g)"
        "\<not> (arg_fd s p < 0 \<or> arg_fd s p \<ge> int NOFILE)"
      by (auto split: if_splits)
    obtain h2 where h2: "same_hart h1 h2" "curproc (s\<lparr>hw := h1\<rparr>) = Ok p (s\<lparr>hw := h2\<rparr>)"
      using curproc_running [OF running_hart [OF r h1(1)]] by auto
    note h12 = same_hart_trans [OF h1(1) h2(1)]
    show ?thesis
    proof (cases "find (\<lambda>n. ofile (proc s p) n = None) [0..<NOFILE]")
      case None
      then show ?thesis using g h1(2) h2 h12 Some
        by (intro exI [of _ h2]) (simp add: sys_dup_def fdalloc_def fdalloc_scan_run dup_of_def ret_int_def)
    next
      case (Some n)
      let ?t = "s\<lparr>hw := h2, proc := (proc s)(p := (proc s p)\<lparr>ofile := (ofile (proc s p))(n := Some g)\<rparr>)\<rparr>"
      have "running p ?t" using running_hart [OF r h12] by (simp add: running_def)
      then obtain h3 where h3: "same_hart h2 h3" "filedup g ?t = Ok g
          (?t\<lparr>hw := h3, files := (files s)(g := (files s g)\<lparr>fref := fref (files s g) + 1\<rparr>)\<rparr>)"
        using filedup_run [of p ?t g] f [OF g(1)] by auto
      then show ?thesis using g h1(2) h2 same_hart_trans [OF h12 h3(1)] Some \<open>?a = Some x\<close>
        by (intro exI [of _ h3]) (simp add: sys_dup_def fdalloc_def fdalloc_scan_run dup_of_def ret_int_def)
    qed
  qed
qed

text \<open>
  C7: The system call number 10, \<^verbatim>\<open>dup(fd)\<close>, from the trapframe back to the trapframe. When \<open>fd\<close>, the
  low 32 bits of \<^verbatim>\<open>a0\<close>, is an open descriptor and another one is free, the lowest free descriptor
  refers to the same file, whose reference count grows by one, and \<^verbatim>\<open>a0\<close> is that descriptor.
  Otherwise \<^verbatim>\<open>a0\<close> is -1 and nothing else changes.
\<close>

theorem syscall_dup:
  assumes r: "running p s" and f: "\<And>fd f. ofile (proc s p) fd = Some f \<Longrightarrow> 1 \<le> fref (files s f)"
    and num: "ucast (ld64 (mem s) (unat (tf (proc s p) + of_nat TF_A7))) = (10 :: uint)"
  shows "\<exists>h. same_hart (hw s) h \<and> syscall s = Ok () (case dup_of s p of
      None \<Rightarrow> s\<lparr>hw := h, mem := st64 (unat (tf (proc s p) + of_nat TF_A0)) (-1) (mem s)\<rparr>
    | Some (n, f) \<Rightarrow> s\<lparr>hw := h,
        proc := (proc s)(p := (proc s p)\<lparr>ofile := (ofile (proc s p))(n := Some f)\<rparr>),
        mem := st64 (unat (tf (proc s p) + of_nat TF_A0)) (of_nat n) (mem s),
        files := (files s)(f := (files s f)\<lparr>fref := fref (files s f) + 1\<rparr>)\<rparr>)"
proof -
  obtain h1 where h1: "same_hart (hw s) h1" "curproc s = Ok p (s\<lparr>hw := h1\<rparr>)"
    using curproc_running [OF r] by auto
  let ?s = "s\<lparr>hw := h1\<rparr>"
  have d: "dup_of ?s p = dup_of s p" by (simp add: dup_of_def arg_fd_def split: option.split)
  obtain h where h: "same_hart h1 h" "sys_dup ?s = (case dup_of ?s p of
      None \<Rightarrow> Ok (-1) (?s\<lparr>hw := h\<rparr>)
    | Some (n, f) \<Rightarrow> Ok (of_nat n) (?s\<lparr>hw := h,
        proc := (proc ?s)(p := (proc ?s p)\<lparr>ofile := (ofile (proc ?s p))(n := Some f)\<rparr>),
        files := (files ?s)(f := (files ?s f)\<lparr>fref := fref (files ?s f) + 1\<rparr>)\<rparr>))"
    using sys_dup_run [of p ?s] running_hart [OF r h1(1)] f by auto
  have "syscall s = bind sys_dup (\<lambda>r. set_tf p TF_A0 r) ?s"
    using h1(2) num by (simp add: syscall_def get_tf_def get_proc_def ldm_def syscalls_def Let_def)
  then show ?thesis using h same_hart_trans [OF h1(1) h(1)] unfolding d
    by (intro exI [of _ h]) (auto simp: set_tf_def get_proc_def stm_def split: option.split)
qed

section \<open>Concrete calls\<close>

theorem kill_marks_witness:
  "\<exists>t. kill (pid proc1) ftable0 = Ok 0 t \<and> killed (proc t 0) \<and> \<not> killed (proc t 1)"
proof -
  have "find (\<lambda>i. pid (proc ftable0 i) = pid proc1) [0..<NPROC] = Some 0"
    by (simp add: NPROC_def upt_rec [of 0])
  then show ?thesis using kill_marks [OF ftable0_running, of ftable0 "pid proc1"] by (auto simp: kill_proc_def)
qed

text \<open>A process with descriptors 0 and 1 open on file 3, in \<^verbatim>\<open>dup(1)\<close>.\<close>

definition dup0 :: kernel where
  "dup0 = ftable.extend (ftable0\<lparr>proc := (\<lambda>_. proc1\<lparr>tf := 0x80003000, ofile := (\<lambda>_. None)(0 := Some 3, 1 := Some 3)\<rparr>),
       mem := st64 0x80003070 1 (st64 0x800030a8 10 (\<lambda>_. 0)), files := (\<lambda>_. file0\<lparr>fref := 2\<rparr>)\<rparr>)
     \<lparr>forkret_addr = 0, kernelvec_addr = 0, uservec_addr = 0, userret_addr = 0, usertrap_addr = 0, stvec = 0, sepc = 0,
      scause = 0, stval = 0, sip = 0, plic = (\<lambda>_. 0), first = True, started = True\<rparr>"

lemma dup0_fields [simp]:
  "hw dup0 = hart0" "proc dup0 = (\<lambda>_. proc1\<lparr>tf := 0x80003000, ofile := (\<lambda>_. None)(0 := Some 3, 1 := Some 3)\<rparr>)"
  "mem dup0 = st64 0x80003070 1 (st64 0x800030a8 10 (\<lambda>_. 0))" "files dup0 = (\<lambda>_. file0\<lparr>fref := 2\<rparr>)"
  by (simp_all add: dup0_def ftable.extend_def ftable0_def)

theorem syscall_dup_witness:
  "\<exists>t. syscall dup0 = Ok () t \<and> ofile (proc t 0) 2 = Some 3 \<and> fref (files t 3) = 3 \<and> ld64 (mem t) 0x80003070 = 2"
proof -
  have "running 0 dup0" by (simp add: running_def quiet_def NPROC_def) (simp add: hart0_def proc1_def proc0_def)
  moreover have "[0..<NOFILE] = 0 # 1 # 2 # [3..<16]" by (simp add: NOFILE_def upt_conv_Cons)
  then have "dup_of dup0 0 = Some (2, 3)"
    unfolding dup_of_def by (simp add: arg_fd_def TF_A0_def le_simps) (simp add: NOFILE_def)
  ultimately show ?thesis
    using syscall_dup [of 0 dup0] by (auto simp: TF_A0_def TF_A7_def le_simps split: if_splits)
qed

end
