(* ===== verification/Spec2Isabelle.thy ===== *)
theory Spec2Isabelle
  imports Xv6_Trap Xv6_Log_Crash Xv6_Pipe_Proofs Xv6_Console_Proofs Xv6_Buddy_Proofs Xv6_Asm_Proofs
    Xv6_User_Proofs Xv6_Sh_Proofs Xv6_Utils_Proofs Xv6_Lock_Protocol Xv6_Dir_Proofs Xv6_Syscall_Proofs
begin

text \<open>
  A verification library for the xv6 teaching kernel on RISC-V: the kernel under \<^verbatim>\<open>src/kernel\<close> and
  the user programs under \<^verbatim>\<open>src/user\<close>.

  \<^bold>\<open>The program.\<close> A hart starts in \<^verbatim>\<open>entry.S\<close> and \<^verbatim>\<open>start.c\<close>, which enter \<^verbatim>\<open>main.c\<close> in supervisor
  mode. Traps come in through \<^verbatim>\<open>trampoline.S\<close> or \<^verbatim>\<open>kernelvec.S\<close> to \<^verbatim>\<open>trap.c\<close>, which calls device
  handlers or \<^verbatim>\<open>syscall.c\<close>; the calls are in \<^verbatim>\<open>sysproc.c\<close> and \<^verbatim>\<open>sysfile.c\<close>. Processes
  (\<^verbatim>\<open>proc.c\<close>) run in page tables (\<^verbatim>\<open>vm.c\<close>) made of pages (\<^verbatim>\<open>kalloc.c\<close>), and switch with
  \<^verbatim>\<open>swtch.S\<close>. Files (\<^verbatim>\<open>file.c\<close>, \<^verbatim>\<open>pipe.c\<close>, \<^verbatim>\<open>console.c\<close>) rest on inodes and directories
  (\<^verbatim>\<open>fs.c\<close>), these on the log (\<^verbatim>\<open>log.c\<close>), the buffer cache (\<^verbatim>\<open>bio.c\<close>) and the disk driver
  (\<^verbatim>\<open>virtio_disk.c\<close>). Everything is serialised by spin locks (\<^verbatim>\<open>spinlock.c\<close>) and sleep locks
  (\<^verbatim>\<open>sleeplock.c\<close>).

  \<^bold>\<open>How it is modelled.\<close> A kernel function is a function from states to outcomes (\<open>Xv6_Prelude\<close>):
  \<open>Ok\<close>, a return; \<open>Panic\<close>, a call of \<^verbatim>\<open>panic\<close>; \<open>Swtch\<close>, the point where the thread gives up the
  hart; \<open>Hang\<close>, a loop that cannot end by itself. The definitions are written with \<open>bind\<close>, \<open>seq\<close>,
  \<open>whenM\<close> and \<open>for_upto\<close> in the order of the statements of the source, and keep the names of its
  functions. The state is a record that grows from layer to layer, in the order \<open>machine\<close>
  (harts and locks), \<open>ptable\<close> (processes), \<open>sleeplocks\<close>, \<open>kmem\<close> (physical memory and free list),
  \<open>tty\<close>, \<open>vm\<close>, \<open>vdisk\<close> (buffers, queues, disk images and the trace of disk writes), \<open>logs\<close>, \<open>fs\<close>,
  \<open>console\<close>, \<open>ftable\<close>, \<open>kernel\<close>, so that each function is stated over the fields it can touch.
  Unsigned integers keep their width, as words that wrap around. The C type \<^verbatim>\<open>int\<close>, whose overflow is
  undefined, is the unbounded \<open>int\<close>: so are the fields \<open>noff\<close>, \<open>pid\<close>, \<open>nextpid\<close>, \<open>xstate\<close>, \<open>sl_pid\<close>,
  \<open>iref\<close>, \<open>fref\<close>, \<open>nsizes\<close> and those of the log, and signed arguments and results; where the code
  converts an \<^verbatim>\<open>int\<close> to an unsigned type or a byte, so does the model. Page tables, free lists, trap frames and the structures of \<^verbatim>\<open>list.c\<close>
  and \<^verbatim>\<open>buddy.c\<close> live in physical memory, a map from addresses to bytes. A loop that may sleep is a
  definition of its own, which the woken thread enters again.

  A user program is a function over a parameter, the record \<open>sys\<close> of the system calls it makes
  (\<open>Xv6_User\<close>); it may exit, be replaced by \<^verbatim>\<open>exec\<close>, or never return. Properties that depend on what
  the calls answer say so with \<open>filter_io\<close>: reads return the input in pieces of any size, writes
  append to the output.

  \<^bold>\<open>Theories.\<close>
  \<^item> \<open>Xv6_Prelude\<close>: outcomes, combinators, their weakest preconditions, little-endian fields.
    \<open>Xv6_Dlist\<close>, \<open>Xv6_Ring\<close>: doubly linked lists and ring buffers as locales, interpreted on the LRU
    list of \<^verbatim>\<open>bio.c\<close>, the lists of \<^verbatim>\<open>list.c\<close>, the pipe and the console buffer.
  \<^item> \<open>Xv6_Spinlock\<close>, \<open>Xv6_Lock_Protocol\<close>: \<^verbatim>\<open>spinlock.c\<close>; on one hart as functions, on all harts as an
    interleaving of single memory accesses. Mutual exclusion, and the agreement of the two views.
  \<^item> \<open>Xv6_Proc_Base\<close>, \<open>Xv6_Proc\<close>, \<open>Xv6_Exec\<close>: \<^verbatim>\<open>proc.c\<close>, \<^verbatim>\<open>exec.c\<close>. \<open>Xv6_Sleeplock\<close>: \<^verbatim>\<open>sleeplock.c\<close>.
  \<^item> \<open>Xv6_String\<close>: \<^verbatim>\<open>string.c\<close>. \<open>Xv6_Kalloc\<close>: \<^verbatim>\<open>kalloc.c\<close>, with the interface \<open>page_allocator\<close>.
    \<open>Xv6_Printf\<close>, \<open>Xv6_Printf_Proofs\<close>: \<^verbatim>\<open>printf.c\<close>, \<^verbatim>\<open>uart.c\<close>. \<open>Xv6_List\<close>, \<open>Xv6_Buddy\<close>,
    \<open>Xv6_Buddy_Proofs\<close>: \<^verbatim>\<open>list.c\<close>, \<^verbatim>\<open>buddy.c\<close>.
  \<^item> \<open>Xv6_Vm\<close>, \<open>Xv6_Vm_Proofs\<close>: \<^verbatim>\<open>vm.c\<close>; the copy functions against the address translation.
  \<^item> \<open>Xv6_Virtio\<close>, \<open>Xv6_Virtio_Proofs\<close>: \<^verbatim>\<open>virtio_disk.c\<close>; a request is served and moves one block.
    \<open>Xv6_Bio\<close>, \<open>Xv6_Bio_Proofs\<close>, \<open>Xv6_Bio_View\<close>: \<^verbatim>\<open>bio.c\<close>; the cache shows one contents per block.
  \<^item> \<open>Xv6_Log\<close>, \<open>Xv6_Log_Proofs\<close>, \<open>Xv6_Log_Crash\<close>: \<^verbatim>\<open>log.c\<close>; a commit is atomic for crashes.
  \<^item> \<open>Xv6_Fs\<close>, \<open>Xv6_Fs_Proofs\<close>, \<open>Xv6_Dir_Proofs\<close>: \<^verbatim>\<open>fs.c\<close>; inode format, file contents, directory
    lookup, path names.
  \<^item> \<open>Xv6_Console\<close>, \<open>Xv6_Console_Proofs\<close>: \<^verbatim>\<open>console.c\<close>; a line editor. \<open>Xv6_File\<close>,
    \<open>Xv6_Pipe_Proofs\<close>: \<^verbatim>\<open>file.c\<close>, \<^verbatim>\<open>pipe.c\<close>; a pipe is a queue.
  \<^item> \<open>Xv6_Syscall\<close>, \<open>Xv6_Syscall_Proofs\<close>: \<^verbatim>\<open>syscall.c\<close>, \<^verbatim>\<open>sysfile.c\<close>, \<^verbatim>\<open>sysproc.c\<close>. \<open>Xv6_Trap\<close>:
    \<^verbatim>\<open>trap.c\<close>, \<^verbatim>\<open>plic.c\<close>, \<^verbatim>\<open>main.c\<close>.
  \<^item> \<open>Xv6_Asm\<close>, \<open>Xv6_Asm_Proofs\<close>: the assembly files and \<^verbatim>\<open>start.c\<close>, over an interpreter of the
    instructions they use; what each saves and restores.
  \<^item> \<open>Xv6_User\<close>, \<open>Xv6_User_Proofs\<close>: \<^verbatim>\<open>ulib.c\<close>, \<^verbatim>\<open>user/printf.c\<close>. \<open>Xv6_Grep\<close>: \<^verbatim>\<open>grep.c\<close>. \<open>Xv6_Sh\<close>,
    \<open>Xv6_Sh_Proofs\<close>: \<^verbatim>\<open>sh.c\<close>. \<open>Xv6_Utils\<close>, \<open>Xv6_Utils_Proofs\<close>: the small programs and \<^verbatim>\<open>init.c\<close>.
  \<^item> \<open>Xv6_Example\<close>: a concrete machine for the witnesses.

  \<^bold>\<open>Bounds.\<close> Loops over tables run over the constants of \<^verbatim>\<open>param.h\<close>. Loops bounded by data carry a
  count of turns that is enough: \<open>n / BSIZE + 2\<close> blocks for \<open>n\<close> bytes of a file (shown in
  \<open>Xv6_Fs_Proofs\<close>), \<open>len / 4096 + 2\<close> pages for a copy (\<open>Xv6_Vm_Proofs\<close>), the length of a path plus one
  for its elements (\<open>Xv6_Fs_Proofs\<close>), the length of the input queue plus one for \<^verbatim>\<open>uartintr\<close>
  (\<open>Xv6_Console_Proofs\<close>), \<open>size / 16 + 2\<close> entries of a directory (\<open>Xv6_Dir_Proofs\<close>), \<open>parse_fuel\<close> calls
  of the shell parser (\<open>Xv6_Sh_Proofs\<close>). A count that runs out is \<open>Hang\<close>, or \<open>None\<close>, so a
  theorem that states what the code returns also shows that the count is enough. The loops of user
  programs that read until the end of a file are \<^theory_text>\<open>partial_function\<close>s whose result \<open>None\<close> is not
  returning.

  \<^bold>\<open>Environment.\<close> The disk is a function, \<open>virtio_device\<close>, that serves the requests of its queue in
  order and without errors: only those published before the last store to the notify register, and
  only chains whose flags fit the request. It is run, and its interrupt taken, while the driver
  sleeps in \<open>virtio_wait\<close>; a driver that is not woken there is \<open>Hang\<close>. The address of the request
  header that the driver gives the device is symbolic, so the call of \<^verbatim>\<open>kvmpa\<close> in \<^verbatim>\<open>virtio_disk_rw\<close> and
  its panics on an unmapped kernel stack are left out. The UART is an output trace and the queue of
  the bytes that arrive before its receiver is next found empty. The compiled \<^verbatim>\<open>kerneltrap\<close> that
  \<^verbatim>\<open>kernelvec.S\<close> calls is a parameter, bound by the calling convention. Memory accesses are
  sequentially consistent. The properties of kernel functions are about a hart that
  runs a process with no lock held by others (\<open>running\<close>); \<open>Xv6_Lock_Protocol\<close> is about all harts.

  \<^bold>\<open>Not modelled.\<close> \<^verbatim>\<open>user/umalloc.c\<close> (the shell's nodes are values), \<^verbatim>\<open>user/nsh.c\<close> (an alternative
  shell that nothing starts), \<^verbatim>\<open>user/uthread.c\<close> (a skeleton whose switch is left to be written),
  \<^verbatim>\<open>mkfs/mkfs.c\<close> (a program of the host), \<^verbatim>\<open>kernel/ramdisk.c\<close> (not built), the test programs, what
  \<^verbatim>\<open>panic\<close> prints, the TLB, and the contents of the code pages: the system calls a user program makes
  are a parameter and are not connected to \<open>Xv6_Trap\<close> by running its instructions.
\<close>

end
